(* ===== verification/Prelude.thy ===== *)
theory Prelude
  imports Complex_Main "HOL-Library.AList"
begin

text \<open>
  Shared vocabulary of the development.

  \<^item> JavaScript's insertion-ordered \<open>Map\<close> is an association list: \<open>jset\<close> overwrites a present
    key in place and appends an absent one, \<open>jdel\<close> removes a key, \<open>map_of\<close> reads
    (\<open>AList.update\<close> and \<open>AList.delete\<close> of the library are exactly these operations).
  \<^item> An operation that may throw returns \<open>error + result\<close> (\<open>Inl\<close> is the exception), paired with
    the state it leaves behind, because a JavaScript method can throw after it has mutated \<open>this\<close>.
  \<^item> The locale \<open>machine\<close> lifts a one-operation invariant to every finite run; each stateful
    component interprets it on its own step function.
\<close>

named_theorems jmap_simps "reads, keys and sizes of JavaScript maps"

subsection \<open>Numbers\<close>

text \<open>
  A number that the code hands to \<open>Number.isSafeInteger\<close> or \<open>Number.isInteger\<close>:
  \<open>OtherN\<close> stands for every JavaScript number that is not an integer (fractions, \<open>NaN\<close>, the
  infinities), all of which those guards reject.
\<close>

datatype jsnum = IntN int | OtherN

definition MAX_SAFE :: int where
  "MAX_SAFE = 9007199254740991"

fun is_safe_integer :: "jsnum \<Rightarrow> bool" where
  "is_safe_integer (IntN i) = (\<bar>i\<bar> \<le> MAX_SAFE)"
| "is_safe_integer OtherN = False"

text \<open>A number of which the code only asks whether it is finite: \<open>NonFinite\<close> is \<open>NaN\<close> or an infinity.\<close>

datatype jsreal = Fin rat | NonFinite

text \<open>Parsed JSON, as \<open>JSON.parse\<close> returns it; object fields keep their order.\<close>

datatype json =
    JNull | JBool bool | JNumber jsnum | JString string
  | JArray "json list" | JObject "(string \<times> json) list"

subsection \<open>Maps with insertion order\<close>

type_synonym ('k, 'v) jmap = "('k \<times> 'v) list"

abbreviation jset :: "('k, 'v) jmap \<Rightarrow> 'k \<Rightarrow> 'v \<Rightarrow> ('k, 'v) jmap" where
  "jset m k v \<equiv> AList.update k v m"

abbreviation jdel :: "('k, 'v) jmap \<Rightarrow> 'k \<Rightarrow> ('k, 'v) jmap" where
  "jdel m k \<equiv> AList.delete k m"

abbreviation jkeys :: "('k, 'v) jmap \<Rightarrow> 'k list" where
  "jkeys m \<equiv> map fst m"

abbreviation jvals :: "('k, 'v) jmap \<Rightarrow> 'v list" where
  "jvals m \<equiv> map snd m"

abbreviation jwf :: "('k, 'v) jmap \<Rightarrow> bool" where
  "jwf m \<equiv> distinct (map fst m)"

declare update_conv' [jmap_simps] delete_conv' [jmap_simps]

lemma jset_apply [jmap_simps]: "map_of (jset m k v) a = (if a = k then Some v else map_of m a)"
  by (simp add: update_conv')

lemma jdel_apply [jmap_simps]: "map_of (jdel m k) a = (if a = k then None else map_of m a)"
  by (simp add: delete_conv')

lemma jwf_jset [simp, intro]: "jwf m \<Longrightarrow> jwf (jset m k v)"
  by (rule distinct_update)

lemma jwf_jdel [simp, intro]: "jwf m \<Longrightarrow> jwf (jdel m k)"
  by (rule distinct_delete)

lemma jset_keys [jmap_simps]:
  "jkeys (jset m k v) = (if k \<in> set (jkeys m) then jkeys m else jkeys m @ [k])"
  by (induction m) auto

lemma jset_length [jmap_simps]:
  "length (jset m k v) = (if map_of m k = None then Suc (length m) else length m)"
  by (induction m) auto

lemma jdel_length_le: "length (jdel m k) \<le> length m"
  by (simp add: AList.delete_eq)

lemma jdel_length_less: "map_of m k \<noteq> None \<Longrightarrow> length (jdel m k) < length m"
  by (induction m) (auto simp: AList.delete_eq less_Suc_eq_le intro: order_trans[OF length_filter_le])

lemma jdel_length [jmap_simps]:
  "jwf m \<Longrightarrow> length (jdel m k) = (if map_of m k = None then length m else length m - 1)"
proof (induction m)
  case Nil
  then show ?case by simp
next
  case (Cons p m)
  show ?case
  proof (cases "fst p = k")
    case True
    with Cons.prems have "jdel m k = m" by (auto simp: delete_id)
    with True show ?thesis by (cases p) simp
  next
    case False
    have "m \<noteq> []" if "map_of m k \<noteq> None" using that by auto
    with Cons False show ?thesis by (cases p) (auto simp: Suc_diff_le Suc_le_eq)
  qed
qed

lemma jset_set_subset: "set (jset m k v) \<subseteq> insert (k, v) (set m)"
  by (induction m) auto

lemma jdel_set [simp]: "set (jdel m k) = {p \<in> set m. fst p \<noteq> k}"
  by (auto simp: AList.delete_eq)

lemma filter_jset: "\<not> P k \<Longrightarrow> filter (\<lambda>p. P (fst p)) (jset m k v) = filter (\<lambda>p. P (fst p)) m"
  by (induction m) auto

lemma filter_jdel: "\<not> P k \<Longrightarrow> filter (\<lambda>p. P (fst p)) (jdel m k) = filter (\<lambda>p. P (fst p)) m"
  by (induction m) auto

subsection \<open>Sums over a map's values\<close>

lemma sum_list_jdel:
  fixes f :: "'v \<Rightarrow> nat"
  assumes "jwf m" and "map_of m k = Some v"
  shows "sum_list (map f (jvals (jdel m k))) + f v = sum_list (map f (jvals m))"
  using assms
proof (induction m)
  case Nil
  then show ?case by simp
next
  case (Cons p m)
  then show ?case by (cases p) (auto simp: delete_id split: if_splits)
qed

lemma jset_fresh: "map_of m k = None \<Longrightarrow> jset m k v = m @ [(k, v)]"
  by (induction m) auto

subsection \<open>Throwing operations\<close>

text \<open>
  Sequencing of two operations that may throw: the second runs only when the first returned, on
  the state the first left; an exception keeps the mutations made before it.
\<close>

definition andthen ::
  "('s \<Rightarrow> ('e + 'a) \<times> 's) \<Rightarrow> ('a \<Rightarrow> 's \<Rightarrow> ('e + 'b) \<times> 's) \<Rightarrow> 's \<Rightarrow> ('e + 'b) \<times> 's" where
  "andthen m f s = (case m s of (Inl e, s') \<Rightarrow> (Inl e, s') | (Inr a, s') \<Rightarrow> f a s')"

lemma andthen_Inl [simp]: "m s = (Inl e, s') \<Longrightarrow> andthen m f s = (Inl e, s')"
  by (simp add: andthen_def)

lemma andthen_Inr [simp]: "m s = (Inr a, s') \<Longrightarrow> andthen m f s = f a s'"
  by (simp add: andthen_def)

lemma andthen_post:
  assumes "P (snd (m s))" and "\<And>a s'. m s = (Inr a, s') \<Longrightarrow> P s' \<Longrightarrow> P (snd (f a s'))"
  shows "P (snd (andthen m f s))"
  using assms by (cases "m s"; cases "fst (m s)") (auto simp: andthen_def)

lemma andthen_cases:
  obtains (threw) e s' where "m s = (Inl e, s')" "andthen m f s = (Inl e, s')"
  | (returned) a s' where "m s = (Inr a, s')" "andthen m f s = f a s'"
  by (cases "m s"; cases "fst (m s)") (auto simp: andthen_def)

text \<open>The same for pure code: a validation that throws stops the ones after it.\<close>

definition bindR :: "'e + 'a \<Rightarrow> ('a \<Rightarrow> 'e + 'b) \<Rightarrow> 'e + 'b" where
  "bindR m f = (case m of Inl e \<Rightarrow> Inl e | Inr a \<Rightarrow> f a)"

lemma bindR_simps [simp]: "bindR (Inl e) f = Inl e" "bindR (Inr a) f = f a"
  by (simp_all add: bindR_def)

lemma bindR_Inr_iff: "bindR m f = Inr b \<longleftrightarrow> (\<exists>a. m = Inr a \<and> f a = Inr b)"
  by (cases m) auto

subsection \<open>Characters\<close>

text \<open>The class \<open>[\u0000-\u001f\u007f]\<close> of the code's regular expressions.\<close>

definition control_char :: "char \<Rightarrow> bool" where
  "control_char c = (of_char c < (32::nat) \<or> of_char c = (127::nat))"

subsection \<open>Runs of a state machine\<close>

text \<open>
  \<open>step s e\<close> is the state an operation leaves, whether it returned or threw.
\<close>

locale machine =
  fixes step :: "'s \<Rightarrow> 'e \<Rightarrow> 's"
    and good :: "'s \<Rightarrow> bool"
  assumes step_good: "good s \<Longrightarrow> good (step s e)"
begin

lemma run_good: "good s \<Longrightarrow> good (foldl step s es)"
  by (induction es arbitrary: s) (auto intro: step_good)

end

subsection \<open>Versioned stores\<close>

text \<open>
  What a client of an optimistic store relies on: a compare-and-set that succeeds met the version it
  named and installed a higher one, one that fails shows no change, and no operation lowers a
  version. The client lemmas give fencing: a version that was consumed never succeeds again.
\<close>

locale versioned_store =
  fixes lookup :: "'s \<Rightarrow> 'k \<Rightarrow> ('a \<times> int) option"
    and cas :: "'k \<Rightarrow> int \<Rightarrow> 'a \<Rightarrow> 's \<Rightarrow> bool \<times> 's"
  assumes cas_true: "cas k v d s = (True, s') \<Longrightarrow>
      (case lookup s k of Some (_, n) \<Rightarrow> n | None \<Rightarrow> 0) = v \<and> (\<exists>n. v < n \<and> lookup s' k = Some (d, n))"
    and cas_false: "cas k v d s = (False, s') \<Longrightarrow> lookup s' = lookup s"
    and cas_mono: "(case lookup s k' of Some (_, n) \<Rightarrow> n | None \<Rightarrow> 0)
      \<le> (case lookup (snd (cas k v d s)) k' of Some (_, n) \<Rightarrow> n | None \<Rightarrow> 0)"
begin

definition version :: "'s \<Rightarrow> 'k \<Rightarrow> int" where
  "version s k = (case lookup s k of Some (_, n) \<Rightarrow> n | None \<Rightarrow> 0)"

definition attempt :: "'s \<Rightarrow> 'k \<times> int \<times> 'a \<Rightarrow> 's" where
  "attempt s w = (case w of (k, v, d) \<Rightarrow> snd (cas k v d s))"

lemma version_run: "version s k \<le> version (foldl attempt s ws) k"
proof (induction ws arbitrary: s)
  case Nil
  then show ?case by simp
next
  case (Cons w ws)
  obtain k' v d where "w = (k', v, d)" by (cases w)
  then have "version s k \<le> version (attempt s w) k" by (simp add: attempt_def version_def cas_mono)
  with Cons[of "attempt s w"] show ?case by simp
qed

lemma consumed_version_fails:
  assumes "cas k v d s = (True, s1)" and "v' \<le> v"
  shows "\<not> fst (cas k v' d' (foldl attempt s1 ws))"
proof
  assume "fst (cas k v' d' (foldl attempt s1 ws))"
  then have "cas k v' d' (foldl attempt s1 ws) = (True, snd (cas k v' d' (foldl attempt s1 ws)))"
    by (simp add: prod_eq_iff)
  from cas_true[OF this] have "version (foldl attempt s1 ws) k = v'" by (simp add: version_def)
  moreover have "v < version s1 k" using cas_true[OF assms(1)] by (auto simp: version_def)
  ultimately show False using version_run[of s1 k ws] assms(2) by simp
qed

end

end
