(* ===== verification/AtomicFile.thy ===== *)
theory AtomicFile
  imports Prelude
begin

text \<open>
  \<open>src/storage/atomic-file.ts\<close>: crash-safe replacement of one small file. The directory entry,
  its \<open>.bak\<close> sibling and the temporary file are three slots; a write is the list of file-system
  effects the function performs, so that a crash is a prefix of that list.
\<close>

datatype slot = Main | Bak | Tmp

text \<open>\<open>Torn\<close> is a file whose bytes do not parse (a write or copy was cut short).\<close>

datatype 'a content = Torn | Whole 'a

type_synonym 'a fs = "slot \<Rightarrow> 'a content option"

datatype 'a fs_op = OpenTmp | WriteTmp 'a | CopyBegin | CopyEnd | RenameTmp | RemoveTmp

fun fs_step :: "'a fs \<Rightarrow> 'a fs_op \<Rightarrow> 'a fs" where
  "fs_step fs OpenTmp = fs(Tmp := Some Torn)"
| "fs_step fs (WriteTmp d) = fs(Tmp := Some (Whole d))"
| "fs_step fs CopyBegin = fs(Bak := Some Torn)"
| "fs_step fs CopyEnd = fs(Bak := fs Main)"
| "fs_step fs RenameTmp = fs(Main := fs Tmp, Tmp := None)"
| "fs_step fs RemoveTmp = fs(Tmp := None)"

text \<open>
  \<open>atomicWriteFile\<close>: exclusive open, write and fsync of the sibling, the optional backup copy
  (whose failure is swallowed), the rename (whose failure removes the sibling and rethrows).
  \<open>copy_ok\<close> and \<open>rename_ok\<close> say whether those two system calls succeed.
\<close>

definition atomic_write_ops :: "bool \<Rightarrow> bool \<Rightarrow> bool \<Rightarrow> 'a \<Rightarrow> 'a fs \<Rightarrow> 'a fs_op list" where
  "atomic_write_ops backup copy_ok rename_ok d fs =
     [OpenTmp, WriteTmp d]
     @ (if backup \<and> fs Main \<noteq> None then (if copy_ok then [CopyBegin, CopyEnd] else [CopyBegin]) else [])
     @ (if rename_ok then [RenameTmp] else [RemoveTmp])"

definition atomicWriteFile :: "bool \<Rightarrow> bool \<Rightarrow> bool \<Rightarrow> 'a \<Rightarrow> 'a fs \<Rightarrow> bool \<times> 'a fs" where
  "atomicWriteFile backup copy_ok rename_ok d fs =
     (rename_ok, foldl fs_step fs (atomic_write_ops backup copy_ok rename_ok d fs))"

text \<open>The disk after a crash that let \<open>n\<close> of the effects reach it.\<close>

definition crash_after :: "nat \<Rightarrow> bool \<Rightarrow> bool \<Rightarrow> 'a \<Rightarrow> 'a fs \<Rightarrow> 'a fs" where
  "crash_after n backup copy_ok d fs =
     foldl fs_step fs (take n (atomic_write_ops backup copy_ok True d fs))"

datatype read_error = ENOENT | SyntaxFailure

text \<open>\<open>readJsonWithBackup\<close>: the primary, else the backup, else the primary's own error.\<close>

definition readJsonWithBackup :: "'a fs \<Rightarrow> read_error + 'a" where
  "readJsonWithBackup fs =
     (case fs Main of
        Some (Whole d) \<Rightarrow> Inr d
      | primary \<Rightarrow>
          (case fs Bak of
             Some (Whole d) \<Rightarrow> Inr d
           | _ \<Rightarrow> Inl (if primary = None then ENOENT else SyntaxFailure)))"

lemma read_after_write [simp]:
  "readJsonWithBackup (snd (atomicWriteFile backup copy_ok True d fs)) = Inr d"
  by (simp add: atomicWriteFile_def atomic_write_ops_def readJsonWithBackup_def)

lemma failed_rename_keeps_main:
  "snd (atomicWriteFile backup copy_ok False d fs) Main = fs Main"
  by (simp add: atomicWriteFile_def atomic_write_ops_def)

text \<open>Every prefix of the effects leaves the old or the new file in the primary slot.\<close>

lemma crash_main:
  "crash_after n backup copy_ok d fs Main \<in> {fs Main, Some (Whole d)}"
proof -
  consider "n = 0" | "n = 1" | "n = 2" | "n = 3" | "n = 4" | "n \<ge> 5" by linarith
  then show ?thesis
    by cases (auto simp: crash_after_def atomic_write_ops_def numeral_eq_Suc)
qed

text \<open>
  C1: whatever prefix of the write's effects a crash lets through, a reader of a file that was
  intact before sees the complete old contents or the complete new ones, never a torn mixture;
  a rename that fails leaves the old contents readable.
\<close>

theorem atomic_write_crash_safe:
  assumes "fs Main = Some (Whole old)"
  shows "readJsonWithBackup (crash_after n backup copy_ok d fs) \<in> {Inr old, Inr d}
         \<and> readJsonWithBackup (snd (atomicWriteFile backup copy_ok False d fs)) = Inr old"
  using crash_main[of n backup copy_ok d fs] failed_rename_keeps_main[of backup copy_ok d fs] assms
  by (auto simp: readJsonWithBackup_def)

theorem atomic_write_crash_safe_witness:
  "(readJsonWithBackup (crash_after 3 True True (2::nat) (\<lambda>s. if s = Main then Some (Whole 1) else None)))
     \<in> {Inr 1, Inr 2}"
  using atomic_write_crash_safe[of "\<lambda>s. if s = Main then Some (Whole 1) else None" "1::nat" 3 True True 2]
  by simp

end
