(* ===== verification/Health.thy ===== *)
theory Health
  imports AtomicFile
begin

text \<open>
  \<open>src/account/account-health.ts\<close> and \<open>account-health-store.ts\<close>: the account health state
  machine with its exponential back-off, the constructor that validates a stored snapshot, and
  the per-profile store. The injected clock is the argument \<open>clk\<close> of each operation. Strings
  are compared by length only, as in the code.
\<close>

datatype health_state =
  HEALTHY | LOGIN_EXPIRED | CHALLENGE_REQUIRED | PROXY_UNHEALTHY | QUARANTINED | DISABLED

text \<open>The fields of \<open>AccountHealth\<close>, which are those of \<open>AccountHealthSnapshot\<close>.\<close>

record account_health =
  h_state :: health_state
  h_reason :: "string option"
  h_lastUpdated :: int
  h_failureCount :: int
  h_nextRetry :: "int option"

datatype health_error =
    InvalidHealthState
  | BadReason
  | BadTimestamp string
  | BadFailureCount
  | SnapshotInvariant
  | InvalidTransition health_state health_state
  | RecordFailureTarget health_state
  | StoredNotObject
  | StoredShape
  | StoredReasonType
  | StoredRetryType
  | ReadFailed read_error

definition VALID_TRANSITIONS :: "health_state \<Rightarrow> health_state list" where
  "VALID_TRANSITIONS st = (case st of
     HEALTHY \<Rightarrow> [LOGIN_EXPIRED, CHALLENGE_REQUIRED, PROXY_UNHEALTHY, QUARANTINED, DISABLED]
   | LOGIN_EXPIRED \<Rightarrow> [HEALTHY, CHALLENGE_REQUIRED, PROXY_UNHEALTHY, QUARANTINED, DISABLED]
   | CHALLENGE_REQUIRED \<Rightarrow> [HEALTHY, LOGIN_EXPIRED, PROXY_UNHEALTHY, QUARANTINED, DISABLED]
   | PROXY_UNHEALTHY \<Rightarrow> [HEALTHY, LOGIN_EXPIRED, CHALLENGE_REQUIRED, QUARANTINED, DISABLED]
   | QUARANTINED \<Rightarrow> [HEALTHY, DISABLED]
   | DISABLED \<Rightarrow> [HEALTHY])"

definition MAX_REASON_LENGTH :: nat where "MAX_REASON_LENGTH = 1024"
definition BASE_RETRY_DELAY_MS :: int where "BASE_RETRY_DELAY_MS = 5 * 60000"
definition MAX_RETRY_DELAY_MS :: int where "MAX_RETRY_DELAY_MS = 24 * 60 * 60000"

definition validatedReason :: "string option \<Rightarrow> health_error + string option" where
  "validatedReason reason = (case reason of
     None \<Rightarrow> Inr None
   | Some r \<Rightarrow> if length r > MAX_REASON_LENGTH then Inl BadReason else Inr (Some r))"

definition validatedTimestamp :: "jsnum \<Rightarrow> string \<Rightarrow> health_error + int" where
  "validatedTimestamp v field = (case v of
     IntN i \<Rightarrow> if is_safe_integer v \<and> 0 \<le> i then Inr i else Inl (BadTimestamp field)
   | OtherN \<Rightarrow> Inl (BadTimestamp field))"

definition currentTime :: "jsnum \<Rightarrow> health_error + int" where
  "currentTime clk = validatedTimestamp clk ''clock''"

text \<open>\<open>recordBackoff\<close>: count the failure, then wait five minutes doubled per earlier failure.\<close>

definition retry_delay :: "int \<Rightarrow> int" where
  "retry_delay failures =
     min (BASE_RETRY_DELAY_MS * 2 ^ nat (min (failures - 1) 30)) MAX_RETRY_DELAY_MS"

definition recordBackoff :: "int \<Rightarrow> account_health \<Rightarrow> account_health" where
  "recordBackoff now h =
     (let n = h_failureCount h + 1
      in h\<lparr>h_failureCount := n, h_nextRetry := Some (now + retry_delay n)\<rparr>)"

definition applyTransition ::
  "jsnum \<Rightarrow> health_state \<Rightarrow> string option \<Rightarrow> bool \<Rightarrow> account_health
   \<Rightarrow> (health_error + unit) \<times> account_health" where
  "applyTransition clk newState reason isFailure h =
     (case validatedReason reason of
        Inl e \<Rightarrow> (Inl e, h)
      | Inr normalized \<Rightarrow>
     (case currentTime clk of
        Inl e \<Rightarrow> (Inl e, h)
      | Inr now \<Rightarrow>
        if h_state h = newState then
          (let h1 = (if isFailure then recordBackoff now h else h);
               h2 = (if normalized \<noteq> None then h1\<lparr>h_reason := normalized\<rparr> else h1)
           in (Inr (), h2\<lparr>h_lastUpdated := now\<rparr>))
        else if newState \<notin> set (VALID_TRANSITIONS (h_state h)) then
          (Inl (InvalidTransition (h_state h) newState), h)
        else
          (let h1 = h\<lparr>h_state := newState, h_reason := normalized, h_lastUpdated := now\<rparr>
           in (Inr (),
               if newState = HEALTHY then h1\<lparr>h_failureCount := 0, h_nextRetry := None\<rparr>
               else if isFailure then recordBackoff now h1
               else if newState = DISABLED \<or> newState = QUARANTINED then h1\<lparr>h_nextRetry := None\<rparr>
               else h1))))"

definition recordFailure ::
  "jsnum \<Rightarrow> health_state \<Rightarrow> string option \<Rightarrow> account_health \<Rightarrow> (health_error + unit) \<times> account_health" where
  "recordFailure clk newState reason h =
     (if newState = HEALTHY \<or> newState = DISABLED \<or> newState = QUARANTINED
      then (Inl (RecordFailureTarget newState), h)
      else applyTransition clk newState reason True h)"

definition quarantine :: "jsnum \<Rightarrow> string option \<Rightarrow> account_health \<Rightarrow> (health_error + unit) \<times> account_health" where
  "quarantine clk reason h = applyTransition clk QUARANTINED reason False h"

definition disable :: "jsnum \<Rightarrow> string option \<Rightarrow> account_health \<Rightarrow> (health_error + unit) \<times> account_health" where
  "disable clk reason h = applyTransition clk DISABLED reason False h"

definition recover :: "jsnum \<Rightarrow> string option \<Rightarrow> account_health \<Rightarrow> (health_error + unit) \<times> account_health" where
  "recover clk reason h = applyTransition clk HEALTHY reason False h"

definition isRetryEligible :: "int \<Rightarrow> account_health \<Rightarrow> bool" where
  "isRetryEligible clk h =
     (if h_state h = HEALTHY then True
      else if h_state h = DISABLED \<or> h_state h = QUARANTINED then False
      else (case h_nextRetry h of Some t \<Rightarrow> clk \<ge> t | None \<Rightarrow> True))"

subsection \<open>Constructing a health record from stored data\<close>

definition health_names :: "(string \<times> health_state) list" where
  "health_names =
     [(''HEALTHY'', HEALTHY), (''LOGIN_EXPIRED'', LOGIN_EXPIRED),
      (''CHALLENGE_REQUIRED'', CHALLENGE_REQUIRED), (''PROXY_UNHEALTHY'', PROXY_UNHEALTHY),
      (''QUARANTINED'', QUARANTINED), (''DISABLED'', DISABLED)]"

definition health_name :: "health_state \<Rightarrow> string" where
  "health_name st = (case st of
     HEALTHY \<Rightarrow> ''HEALTHY'' | LOGIN_EXPIRED \<Rightarrow> ''LOGIN_EXPIRED''
   | CHALLENGE_REQUIRED \<Rightarrow> ''CHALLENGE_REQUIRED'' | PROXY_UNHEALTHY \<Rightarrow> ''PROXY_UNHEALTHY''
   | QUARANTINED \<Rightarrow> ''QUARANTINED'' | DISABLED \<Rightarrow> ''DISABLED'')"

text \<open>
  The constructor's optional snapshot, field by field; \<open>JNull\<close> is a field that is missing,
  \<open>undefined\<close> or \<open>null\<close>, which \<open>??\<close> treats alike.
\<close>

record raw_snapshot =
  rs_state :: json
  rs_reason :: json
  rs_lastUpdated :: json
  rs_failureCount :: json
  rs_nextRetry :: json

fun raw_state :: "json \<Rightarrow> health_state option" where
  "raw_state JNull = Some HEALTHY"
| "raw_state (JString s) = map_of health_names s"
| "raw_state _ = None"

fun raw_count :: "json \<Rightarrow> int option" where
  "raw_count JNull = Some 0"
| "raw_count (JNumber (IntN i)) = (if is_safe_integer (IntN i) \<and> 0 \<le> i then Some i else None)"
| "raw_count _ = None"

fun raw_timestamp :: "string \<Rightarrow> json \<Rightarrow> health_error + int" where
  "raw_timestamp field (JNumber n) = validatedTimestamp n field"
| "raw_timestamp field _ = Inl (BadTimestamp field)"

fun raw_reason :: "json \<Rightarrow> health_error + string option" where
  "raw_reason JNull = Inr None"
| "raw_reason (JString s) = validatedReason (Some s)"
| "raw_reason _ = Inl BadReason"

definition newAccountHealth :: "json \<Rightarrow> raw_snapshot \<Rightarrow> health_error + account_health" where
  "newAccountHealth clk raw =
     (case raw_state (rs_state raw) of
        None \<Rightarrow> Inl InvalidHealthState
      | Some st \<Rightarrow>
     (case raw_count (rs_failureCount raw) of
        None \<Rightarrow> Inl BadFailureCount
      | Some failures \<Rightarrow>
     (case (if rs_nextRetry raw = JNull then Inr None
            else map_sum id Some (raw_timestamp ''nextRetryAvailableAt'' (rs_nextRetry raw))) of
        Inl e \<Rightarrow> Inl e
      | Inr retry \<Rightarrow>
        if (st = HEALTHY \<and> (failures \<noteq> 0 \<or> retry \<noteq> None))
           \<or> ((st = QUARANTINED \<or> st = DISABLED) \<and> retry \<noteq> None)
        then Inl SnapshotInvariant
        else
     (case raw_reason (rs_reason raw) of
        Inl e \<Rightarrow> Inl e
      | Inr reason \<Rightarrow>
     (case raw_timestamp ''lastUpdated'' (if rs_lastUpdated raw = JNull then clk else rs_lastUpdated raw) of
        Inl e \<Rightarrow> Inl e
      | Inr t \<Rightarrow> Inr \<lparr>h_state = st, h_reason = reason, h_lastUpdated = t,
                     h_failureCount = failures, h_nextRetry = retry\<rparr>)))))"

text \<open>\<open>getSnapshot\<close> as the JSON object that the store writes.\<close>

definition snapshot_json :: "account_health \<Rightarrow> json" where
  "snapshot_json h = JObject
     [(''state'', JString (health_name (h_state h))),
      (''reason'', (case h_reason h of None \<Rightarrow> JNull | Some r \<Rightarrow> JString r)),
      (''lastUpdated'', JNumber (IntN (h_lastUpdated h))),
      (''failureCount'', JNumber (IntN (h_failureCount h))),
      (''nextRetryAvailableAt'', (case h_nextRetry h of None \<Rightarrow> JNull | Some t \<Rightarrow> JNumber (IntN t)))]"

definition raw_of :: "account_health \<Rightarrow> raw_snapshot" where
  "raw_of h = \<lparr>rs_state = JString (health_name (h_state h)),
     rs_reason = (case h_reason h of None \<Rightarrow> JNull | Some r \<Rightarrow> JString r),
     rs_lastUpdated = JNumber (IntN (h_lastUpdated h)),
     rs_failureCount = JNumber (IntN (h_failureCount h)),
     rs_nextRetry = (case h_nextRetry h of None \<Rightarrow> JNull | Some t \<Rightarrow> JNumber (IntN t))\<rparr>"

definition snapshot_keys :: "string list" where
  "snapshot_keys = [''state'', ''reason'', ''lastUpdated'', ''failureCount'', ''nextRetryAvailableAt'']"

definition field :: "(string \<times> json) list \<Rightarrow> string \<Rightarrow> json" where
  "field fs k = (case map_of fs k of Some v \<Rightarrow> v | None \<Rightarrow> JNull)"

fun parseStoredHealth :: "json \<Rightarrow> health_error + account_health" where
  "parseStoredHealth (JObject fs) =
     (if length fs \<noteq> length snapshot_keys \<or> (\<exists>k \<in> set snapshot_keys. map_of fs k = None)
      then Inl StoredShape
      else if \<not> (case field fs ''reason'' of JNull \<Rightarrow> True | JString s \<Rightarrow> True | _ \<Rightarrow> False)
      then Inl StoredReasonType
      else if \<not> (case field fs ''nextRetryAvailableAt'' of JNull \<Rightarrow> True | JNumber n \<Rightarrow> True | _ \<Rightarrow> False)
      then Inl StoredRetryType
      else newAccountHealth (field fs ''lastUpdated'')
             \<lparr>rs_state = field fs ''state'', rs_reason = field fs ''reason'',
              rs_lastUpdated = field fs ''lastUpdated'', rs_failureCount = field fs ''failureCount'',
              rs_nextRetry = field fs ''nextRetryAvailableAt''\<rparr>)"
| "parseStoredHealth _ = Inl StoredNotObject"

subsection \<open>The store\<close>

text \<open>
  One \<open>account-health.json\<close> per profile. \<open>runExclusive\<close> chains the mutations of a profile, so
  each operation is one atomic step of the model; the file holds parsed JSON.
\<close>

type_synonym health_files = "string \<Rightarrow> json fs"

definition getHealth :: "health_files \<Rightarrow> string \<Rightarrow> health_error + account_health option" where
  "getHealth files pid =
     (case readJsonWithBackup (files pid) of
        Inl ENOENT \<Rightarrow> Inr None
      | Inl e \<Rightarrow> Inl (ReadFailed e)
      | Inr v \<Rightarrow> map_sum id Some (parseStoredHealth v))"

definition writeHealth ::
  "string \<Rightarrow> account_health \<Rightarrow> health_files \<Rightarrow> (health_error + unit) \<times> health_files" where
  "writeHealth pid h files =
     (case newAccountHealth (JNumber (IntN (h_lastUpdated h))) (raw_of h) of
        Inl e \<Rightarrow> (Inl e, files)
      | Inr canonical \<Rightarrow>
          (Inr (), files(pid := snd (atomicWriteFile True True True (snapshot_json canonical) (files pid)))))"

definition updateHealth ::
  "string \<Rightarrow> (account_health option \<Rightarrow> health_error + account_health) \<Rightarrow> health_files
   \<Rightarrow> (health_error + account_health) \<times> health_files" where
  "updateHealth pid f files =
     (case getHealth files pid of
        Inl e \<Rightarrow> (Inl e, files)
      | Inr current \<Rightarrow>
     (case f current of
        Inl e \<Rightarrow> (Inl e, files)
      | Inr h \<Rightarrow>
     (case writeHealth pid h files of
        (Inl e, files') \<Rightarrow> (Inl e, files')
      | (Inr _, files') \<Rightarrow> (Inr h, files'))))"

subsection \<open>Operations as events\<close>

datatype health_op =
    RecordFailure health_state "string option"
  | Quarantine "string option"
  | Disable "string option"
  | Recover "string option"

fun health_apply :: "account_health \<Rightarrow> jsnum \<times> health_op \<Rightarrow> (health_error + unit) \<times> account_health" where
  "health_apply h (clk, RecordFailure st r) = recordFailure clk st r h"
| "health_apply h (clk, Quarantine r) = quarantine clk r h"
| "health_apply h (clk, Disable r) = disable clk r h"
| "health_apply h (clk, Recover r) = recover clk r h"

definition health_step :: "account_health \<Rightarrow> jsnum \<times> health_op \<Rightarrow> account_health" where
  "health_step h ev = snd (health_apply h ev)"

subsection \<open>The snapshot invariant\<close>

definition health_wf :: "account_health \<Rightarrow> bool" where
  "health_wf h \<longleftrightarrow>
     0 \<le> h_failureCount h
     \<and> (h_state h = HEALTHY \<longrightarrow> h_failureCount h = 0 \<and> h_nextRetry h = None)
     \<and> (h_state h = QUARANTINED \<or> h_state h = DISABLED \<longrightarrow> h_nextRetry h = None)
     \<and> (\<forall>r. h_reason h = Some r \<longrightarrow> length r \<le> MAX_REASON_LENGTH)
     \<and> 0 \<le> h_lastUpdated h \<and> h_lastUpdated h \<le> MAX_SAFE
     \<and> (\<forall>t. h_nextRetry h = Some t \<longrightarrow> 0 \<le> t)"

lemma validatedTimestamp_Inr:
  "validatedTimestamp v f = Inr t \<longleftrightarrow> v = IntN t \<and> 0 \<le> t \<and> t \<le> MAX_SAFE"
  by (auto simp: validatedTimestamp_def split: jsnum.splits)

lemma currentTime_Inr: "currentTime v = Inr t \<longleftrightarrow> v = IntN t \<and> 0 \<le> t \<and> t \<le> MAX_SAFE"
  by (simp add: currentTime_def validatedTimestamp_Inr)

lemma validatedReason_Inr:
  "validatedReason r = Inr r' \<longleftrightarrow> r' = r \<and> (\<forall>x. r = Some x \<longrightarrow> length x \<le> MAX_REASON_LENGTH)"
  by (auto simp: validatedReason_def split: option.splits)

lemmas health_inputs = validatedTimestamp_Inr currentTime_Inr validatedReason_Inr

lemma retry_delay_bounds: "1 \<le> n \<Longrightarrow> BASE_RETRY_DELAY_MS \<le> retry_delay n \<and> retry_delay n \<le> MAX_RETRY_DELAY_MS"
proof -
  have "(1::int) \<le> 2 ^ nat (min (n - 1) 30)" by simp
  then show ?thesis
    by (auto simp: retry_delay_def BASE_RETRY_DELAY_MS_def MAX_RETRY_DELAY_MS_def min_def)
qed

lemma retry_delay_pos: "0 \<le> retry_delay n"
  by (simp add: retry_delay_def BASE_RETRY_DELAY_MS_def MAX_RETRY_DELAY_MS_def)

text \<open>Rejected operations change nothing; accepted ones are described branch by branch.\<close>

lemma applyTransition_Inl: "fst (applyTransition clk st r f h) = Inl e \<Longrightarrow> snd (applyTransition clk st r f h) = h"
  by (auto simp: applyTransition_def Let_def split: sum.splits if_splits)

lemma applyTransition_ok:
  assumes "validatedReason r = Inr r'" and "currentTime clk = Inr now"
  shows "applyTransition clk st r f h =
    (if h_state h = st then
       (Inr (), (if r' \<noteq> None then (if f then recordBackoff now h else h)\<lparr>h_reason := r'\<rparr>
                 else (if f then recordBackoff now h else h))\<lparr>h_lastUpdated := now\<rparr>)
     else if st \<notin> set (VALID_TRANSITIONS (h_state h)) then (Inl (InvalidTransition (h_state h) st), h)
     else (Inr (),
       if st = HEALTHY then h\<lparr>h_state := st, h_reason := r', h_lastUpdated := now, h_failureCount := 0, h_nextRetry := None\<rparr>
       else if f then recordBackoff now (h\<lparr>h_state := st, h_reason := r', h_lastUpdated := now\<rparr>)
       else if st = DISABLED \<or> st = QUARANTINED
       then h\<lparr>h_state := st, h_reason := r', h_lastUpdated := now, h_nextRetry := None\<rparr>
       else h\<lparr>h_state := st, h_reason := r', h_lastUpdated := now\<rparr>))"
  using assms by (simp add: applyTransition_def Let_def)

lemma recordBackoff_simps [simp]:
  "h_state (recordBackoff now h) = h_state h" "h_reason (recordBackoff now h) = h_reason h"
  "h_lastUpdated (recordBackoff now h) = h_lastUpdated h"
  "h_failureCount (recordBackoff now h) = h_failureCount h + 1"
  "h_nextRetry (recordBackoff now h) = Some (now + retry_delay (h_failureCount h + 1))"
  by (simp_all add: recordBackoff_def Let_def)

lemma applyTransition_wf:
  assumes wf: "health_wf h" and st: "isFailure \<Longrightarrow> st \<notin> {HEALTHY, QUARANTINED, DISABLED}"
  shows "health_wf (snd (applyTransition clk st r isFailure h))"
proof (cases "\<exists>r' now. validatedReason r = Inr r' \<and> currentTime clk = Inr now")
  case False
  then have "snd (applyTransition clk st r isFailure h) = h"
    by (auto simp: applyTransition_def split: sum.splits)
  with wf show ?thesis by simp
next
  case True
  then obtain r' now where ok: "validatedReason r = Inr r'" "currentTime clk = Inr now" by blast
  then have in_range: "0 \<le> now" "now \<le> MAX_SAFE" "\<forall>x. r' = Some x \<longrightarrow> length x \<le> MAX_REASON_LENGTH"
    by (simp_all add: health_inputs)
  have delay: "0 \<le> now + retry_delay n" for n
    using retry_delay_pos[of n] in_range by simp
  show ?thesis
    using wf st in_range delay
    by (auto simp: applyTransition_ok[OF ok] health_wf_def)
qed

lemma health_apply_wf: "health_wf h \<Longrightarrow> health_wf (snd (health_apply h ev))"
  by (induction h ev rule: health_apply.induct)
     (auto simp: recordFailure_def quarantine_def disable_def recover_def intro: applyTransition_wf)

interpretation health_machine: machine health_step health_wf
  by unfold_locales (simp add: health_step_def health_apply_wf)

lemma raw_count_nonneg: "raw_count v = Some n \<Longrightarrow> 0 \<le> n"
  by (induction v rule: raw_count.induct) (auto split: if_splits)

lemma raw_timestamp_Inr: "raw_timestamp f v = Inr t \<longleftrightarrow> v = JNumber (IntN t) \<and> 0 \<le> t \<and> t \<le> MAX_SAFE"
  by (cases v) (auto simp: validatedTimestamp_Inr)

lemma raw_reason_Inr: "raw_reason v = Inr (Some r) \<Longrightarrow> length r \<le> MAX_REASON_LENGTH"
  by (cases v) (auto simp: validatedReason_Inr)

lemma newAccountHealth_wf:
  assumes "newAccountHealth clk raw = Inr h"
  shows "health_wf h"
proof -
  let ?retry = "if rs_nextRetry raw = JNull then Inr None
                else map_sum id Some (raw_timestamp ''nextRetryAvailableAt'' (rs_nextRetry raw))"
  have retry: "?retry = Inr (Some t) \<Longrightarrow> 0 \<le> t" for t
    using raw_timestamp_Inr[of "''nextRetryAvailableAt''" "rs_nextRetry raw"]
    by (cases "raw_timestamp ''nextRetryAvailableAt'' (rs_nextRetry raw)") (simp_all split: if_splits)
  show ?thesis
    using assms retry unfolding newAccountHealth_def health_wf_def
    by (auto simp: raw_timestamp_Inr dest: raw_count_nonneg raw_reason_Inr
             simp del: if_split split: option.splits sum.splits if_split_asm)
qed



subsection \<open>Back-off\<close>

text \<open>A failure report that \<open>recordFailure\<close> accepts: time, state, reason.\<close>

definition failure_report :: "int \<times> health_state \<times> string option \<Rightarrow> bool" where
  "failure_report ev = (case ev of (t, st, r) \<Rightarrow>
     0 \<le> t \<and> t \<le> MAX_SAFE \<and> st \<in> {LOGIN_EXPIRED, CHALLENGE_REQUIRED, PROXY_UNHEALTHY}
     \<and> (\<forall>x. r = Some x \<longrightarrow> length x \<le> MAX_REASON_LENGTH))"

definition report_failure :: "account_health \<Rightarrow> int \<times> health_state \<times> string option \<Rightarrow> account_health" where
  "report_failure h ev = (case ev of (t, st, r) \<Rightarrow> snd (recordFailure (IntN t) st r h))"

lemma report_failure_triple: "report_failure h (t, st, r) = snd (recordFailure (IntN t) st r h)"
  by (simp add: report_failure_def)

lemma failure_report_state:
  "failure_report ev \<Longrightarrow> fst (snd ev) \<in> {LOGIN_EXPIRED, CHALLENGE_REQUIRED, PROXY_UNHEALTHY}"
  by (auto simp: failure_report_def split: prod.splits)

lemma recordFailure_accepts:
  assumes "failure_report (t, st, r)" and "h_state h \<notin> {QUARANTINED, DISABLED}"
  shows "\<exists>h'. recordFailure (IntN t) st r h = (Inr (), h') \<and> h_state h' = st
      \<and> h_failureCount h' = h_failureCount h + 1
      \<and> h_nextRetry h' = Some (t + retry_delay (h_failureCount h + 1))"
proof -
  have ok: "validatedReason r = Inr r" "currentTime (IntN t) = Inr t"
    using assms(1) by (simp_all add: health_inputs failure_report_def)
  have move: "st \<in> set (VALID_TRANSITIONS (h_state h))" if "h_state h \<noteq> st"
    using assms that by (cases "h_state h") (auto simp: VALID_TRANSITIONS_def failure_report_def)
  show ?thesis
    using assms move
    by (auto simp: recordFailure_def applyTransition_ok[OF ok] failure_report_def)
qed

lemma isRetryEligible_waiting:
  "h_state h \<notin> {HEALTHY, QUARANTINED, DISABLED} \<Longrightarrow> h_nextRetry h = Some t \<Longrightarrow> isRetryEligible clk h \<longleftrightarrow> clk \<ge> t"
  by (auto simp: isRetryEligible_def)

text \<open>
  After \<open>n\<close> consecutive failure reports on a healthy account the failure count is \<open>n\<close>, the
  account is in the last reported state, and it becomes eligible for a retry exactly
  \<open>min(5 min * 2^min(n-1,30), 24 h)\<close> after the last report, a delay that always lies between
  five minutes and a day.
\<close>

theorem failure_backoff:
  assumes "h_state h = HEALTHY" and "h_failureCount h = 0"
    and "evs \<noteq> []" and "\<forall>ev \<in> set evs. failure_report ev"
  defines "h' \<equiv> foldl report_failure h evs" and "n \<equiv> int (length evs)"
  shows "h_failureCount h' = n \<and> h_state h' = fst (snd (last evs))
    \<and> (\<forall>clk. isRetryEligible clk h' \<longleftrightarrow> clk \<ge> fst (last evs) + retry_delay n)
    \<and> 5 * 60000 \<le> retry_delay n \<and> retry_delay n \<le> 24 * 60 * 60000"
proof -
  have "h_failureCount (foldl report_failure h evs) = int (length evs)
      \<and> h_state (foldl report_failure h evs) = fst (snd (last evs))
      \<and> h_nextRetry (foldl report_failure h evs) = Some (fst (last evs) + retry_delay (int (length evs)))"
    using assms(3,4)
  proof (induction evs rule: rev_induct)
    case Nil
    then show ?case by simp
  next
    case (snoc ev evs)
    obtain t st r where ev: "ev = (t, st, r)" by (cases ev)
    let ?g = "foldl report_failure h evs"
    have base: "h_failureCount ?g = int (length evs) \<and> h_state ?g \<notin> {QUARANTINED, DISABLED}"
    proof (cases "evs = []")
      case True
      with assms(1,2) show ?thesis by simp
    next
      case False
      then have "last evs \<in> set evs" by simp
      with snoc.prems have "fst (snd (last evs)) \<in> {LOGIN_EXPIRED, CHALLENGE_REQUIRED, PROXY_UNHEALTHY}"
        by (intro failure_report_state) simp
      with False snoc show ?thesis by auto
    qed
    with recordFailure_accepts[of t st r ?g] snoc.prems ev show ?case
      by (auto simp: report_failure_triple add.commute)
  qed
  moreover have "fst (snd (last evs)) \<in> {LOGIN_EXPIRED, CHALLENGE_REQUIRED, PROXY_UNHEALTHY}"
    using assms(3,4) by (intro failure_report_state) simp
  ultimately show ?thesis
    using retry_delay_bounds[of n] assms(3) isRetryEligible_waiting[of h']
    by (auto simp: h'_def n_def BASE_RETRY_DELAY_MS_def MAX_RETRY_DELAY_MS_def Suc_le_eq)
qed

definition fresh_health :: account_health where
  "fresh_health = \<lparr>h_state = HEALTHY, h_reason = None, h_lastUpdated = 0, h_failureCount = 0, h_nextRetry = None\<rparr>"

theorem failure_backoff_witness:
  "h_failureCount (foldl report_failure fresh_health
     [(10, PROXY_UNHEALTHY, None), (20, LOGIN_EXPIRED, Some ''expired'')]) = 2"
  using failure_backoff[of fresh_health "[(10, PROXY_UNHEALTHY, None), (20, LOGIN_EXPIRED, Some ''expired'')]"]
  by (simp add: fresh_health_def failure_report_def MAX_SAFE_def MAX_REASON_LENGTH_def)

subsection \<open>Quarantine is sticky\<close>

lemma blocked_stays:
  assumes "h_state h \<in> {QUARANTINED, DISABLED}" and "\<forall>r. snd ev \<noteq> Recover r"
  shows "h_state (health_step h ev) \<in> {QUARANTINED, DISABLED}"
proof -
  obtain clk ev' where ev: "ev = (clk, ev')" by (cases ev)
  have stay: "h_state (snd (applyTransition clk st r f h)) \<in> {QUARANTINED, DISABLED}" if "st \<noteq> HEALTHY" for st r f
    using assms(1) that
    by (auto simp: applyTransition_def VALID_TRANSITIONS_def Let_def split: sum.splits)
  show ?thesis
    using assms stay by (cases ev') (auto simp: ev health_step_def recordFailure_def quarantine_def disable_def)
qed

text \<open>
  C3: a quarantined or disabled account leaves those two states only through an explicit
  \<open>recover\<close>: no sequence of failures, quarantines and disables brings it back, and it is never
  eligible for a retry meanwhile.
\<close>

theorem quarantine_sticky:
  assumes "h_state h = QUARANTINED \<or> h_state h = DISABLED"
    and "\<forall>ev \<in> set ops. \<forall>r. snd ev \<noteq> Recover r"
  shows "h_state (foldl health_step h ops) \<in> {QUARANTINED, DISABLED}
    \<and> \<not> isRetryEligible clk (foldl health_step h ops)"
proof -
  have "h_state (foldl health_step h ops) \<in> {QUARANTINED, DISABLED}"
    using assms(1,2)
  proof (induction ops arbitrary: h)
    case Nil
    then show ?case by auto
  next
    case (Cons ev ops)
    with blocked_stays[of h ev] have "h_state (health_step h ev) \<in> {QUARANTINED, DISABLED}" by auto
    with Cons show ?case by auto
  qed
  then show ?thesis by (auto simp: isRetryEligible_def)
qed

theorem quarantine_sticky_witness:
  "\<not> isRetryEligible 99 (foldl health_step (fresh_health\<lparr>h_state := QUARANTINED\<rparr>)
       [(IntN 5, RecordFailure PROXY_UNHEALTHY None), (IntN 6, Disable None)])"
  using quarantine_sticky[of "fresh_health\<lparr>h_state := QUARANTINED\<rparr>"
      "[(IntN 5, RecordFailure PROXY_UNHEALTHY None), (IntN 6, Disable None)]" 99] by simp

subsection \<open>The store returns what was written\<close>

lemma health_names_name [simp]: "map_of health_names (health_name st) = Some st"
  by (cases st) (simp_all add: health_name_def health_names_def)

lemma newAccountHealth_raw_of:
  assumes "health_wf h" and "h_failureCount h \<le> MAX_SAFE" and "\<forall>t. h_nextRetry h = Some t \<longrightarrow> t \<le> MAX_SAFE"
  shows "newAccountHealth clk (raw_of h) = Inr h"
  using assms
  by (cases "h_reason h"; cases "h_nextRetry h")
     (auto simp: newAccountHealth_def raw_of_def health_wf_def validatedTimestamp_def validatedReason_def)

lemma parse_snapshot_json:
  "parseStoredHealth (snapshot_json h) = newAccountHealth (JNumber (IntN (h_lastUpdated h))) (raw_of h)"
  by (cases "h_reason h"; cases "h_nextRetry h")
     (simp_all add: snapshot_json_def snapshot_keys_def field_def raw_of_def)



end
