(* ===== verification/ProfileLease.thy ===== *)
theory ProfileLease
  imports Prelude
begin

text \<open>
  \<open>src/distributed/profile-lease.ts\<close>: the lease interface and its in-memory manager. All managers
  of a process share one map of leases; each keeps its own map of the tokens it acquired. The
  expiry callbacks set by \<open>setTimeout\<close> are pending timers, which a step may fire once they are
  due, and \<open>clearTimeout\<close> removes. \<open>randomUUID()\<close> and \<open>Date.now()\<close> are arguments.
\<close>

datatype lease_error = LEASE_ALREADY_ACQUIRED | LEASE_LOST

record profile_lease =
  pl_profileId :: string
  pl_leaseToken :: string
  pl_expiresAt :: int

record memory_lease =
  ml_token :: string
  ml_expiresAt :: int
  ml_timeout :: nat

record lease_timer =
  lt_manager :: nat
  lt_key :: string
  lt_token :: string
  lt_due :: int

record lease_world =
  memoryLeases :: "string \<Rightarrow> memory_lease option"
  ownedLeases :: "nat \<Rightarrow> (string, string) jmap"
  timers :: "nat \<Rightarrow> lease_timer option"
  next_timer :: nat

definition no_leases :: lease_world where
  "no_leases = \<lparr>memoryLeases = \<lambda>_. None, ownedLeases = \<lambda>_. [], timers = \<lambda>_. None, next_timer = 0\<rparr>"

definition lease_key :: "string \<Rightarrow> string \<Rightarrow> string" where
  "lease_key tenantId profileId = tenantId @ '':'' @ profileId"

definition setTimeout :: "nat \<Rightarrow> string \<Rightarrow> string \<Rightarrow> int \<Rightarrow> lease_world \<Rightarrow> nat \<times> lease_world" where
  "setTimeout mgr key token due w =
     (next_timer w,
      w\<lparr>timers := (timers w)(next_timer w := Some \<lparr>lt_manager = mgr, lt_key = key, lt_token = token, lt_due = due\<rparr>),
        next_timer := Suc (next_timer w)\<rparr>)"

definition clearTimeout :: "nat \<Rightarrow> lease_world \<Rightarrow> lease_world" where
  "clearTimeout i w = w\<lparr>timers := (timers w)(i := None)\<rparr>"

definition forget_lease :: "string \<Rightarrow> lease_world \<Rightarrow> lease_world" where
  "forget_lease key w = w\<lparr>memoryLeases := (memoryLeases w)(key := None)\<rparr>"

definition disown :: "nat \<Rightarrow> string \<Rightarrow> lease_world \<Rightarrow> lease_world" where
  "disown mgr key w = w\<lparr>ownedLeases := (ownedLeases w)(mgr := jdel (ownedLeases w mgr) key)\<rparr>"

text \<open>The callback of both \<open>setTimeout\<close> calls.\<close>

definition lease_timeout :: "lease_timer \<Rightarrow> lease_world \<Rightarrow> lease_world" where
  "lease_timeout tm w =
     (let w1 = (case memoryLeases w (lt_key tm) of
                  Some r \<Rightarrow> if ml_token r = lt_token tm then forget_lease (lt_key tm) w else w
                | None \<Rightarrow> w)
      in if map_of (ownedLeases w1 (lt_manager tm)) (lt_key tm) = Some (lt_token tm)
         then disown (lt_manager tm) (lt_key tm) w1 else w1)"

text \<open>The common tail of \<open>acquire\<close>: arm the timer, store the record, remember the token.\<close>

definition lease_grant ::
  "int \<Rightarrow> nat \<Rightarrow> int \<Rightarrow> string \<Rightarrow> string \<Rightarrow> string \<Rightarrow> lease_world
   \<Rightarrow> (lease_error + profile_lease) \<times> lease_world" where
  "lease_grant ttl mgr now uuid key profileId w =
     (let (i, w1) = setTimeout mgr key uuid (now + ttl) w
      in (Inr \<lparr>pl_profileId = profileId, pl_leaseToken = uuid, pl_expiresAt = now + ttl\<rparr>,
          w1\<lparr>memoryLeases := (memoryLeases w1)(key := Some \<lparr>ml_token = uuid, ml_expiresAt = now + ttl, ml_timeout = i\<rparr>),
             ownedLeases := (ownedLeases w1)(mgr := jset (ownedLeases w1 mgr) key uuid)\<rparr>))"

definition lease_acquire ::
  "int \<Rightarrow> nat \<Rightarrow> int \<Rightarrow> string \<Rightarrow> string \<Rightarrow> string \<Rightarrow> lease_world
   \<Rightarrow> (lease_error + profile_lease) \<times> lease_world" where
  "lease_acquire ttl mgr now uuid tenantId profileId w =
     (let key = lease_key tenantId profileId; existing = memoryLeases w key
      in case existing of
           Some r \<Rightarrow>
             if ml_expiresAt r > now then (Inl LEASE_ALREADY_ACQUIRED, w)
             else lease_grant ttl mgr now uuid key profileId (clearTimeout (ml_timeout r) w)
         | None \<Rightarrow> lease_grant ttl mgr now uuid key profileId w)"

definition lease_renew ::
  "int \<Rightarrow> nat \<Rightarrow> int \<Rightarrow> string \<Rightarrow> string \<Rightarrow> string \<Rightarrow> lease_world
   \<Rightarrow> (lease_error + profile_lease) \<times> lease_world" where
  "lease_renew ttl mgr now tenantId profileId leaseToken w =
     (let key = lease_key tenantId profileId
      in case memoryLeases w key of
           None \<Rightarrow> (Inl LEASE_LOST, disown mgr key w)
         | Some r \<Rightarrow>
             if ml_expiresAt r \<le> now then
               (Inl LEASE_LOST, disown mgr key (forget_lease key (clearTimeout (ml_timeout r) w)))
             else if ml_token r \<noteq> leaseToken then (Inl LEASE_LOST, w)
             else
               (let (i, w1) = setTimeout mgr key leaseToken (now + ttl) (clearTimeout (ml_timeout r) w)
                in (Inr \<lparr>pl_profileId = profileId, pl_leaseToken = leaseToken, pl_expiresAt = now + ttl\<rparr>,
                    w1\<lparr>memoryLeases := (memoryLeases w1)(key :=
                         Some \<lparr>ml_token = leaseToken, ml_expiresAt = now + ttl, ml_timeout = i\<rparr>)\<rparr>)))"

definition drop_lease :: "string \<Rightarrow> string \<Rightarrow> lease_world \<Rightarrow> lease_world" where
  "drop_lease key token w =
     (case memoryLeases w key of
        Some r \<Rightarrow> if ml_token r = token then forget_lease key (clearTimeout (ml_timeout r) w) else w
      | None \<Rightarrow> w)"

definition lease_release :: "nat \<Rightarrow> string \<Rightarrow> string \<Rightarrow> string \<Rightarrow> lease_world \<Rightarrow> lease_world" where
  "lease_release mgr tenantId profileId leaseToken w =
     (let key = lease_key tenantId profileId in drop_lease key leaseToken (disown mgr key w))"

definition lease_shutdown :: "nat \<Rightarrow> lease_world \<Rightarrow> lease_world" where
  "lease_shutdown mgr w =
     (let w1 = foldl (\<lambda>w (key, token). drop_lease key token w) w (ownedLeases w mgr)
      in w1\<lparr>ownedLeases := (ownedLeases w1)(mgr := [])\<rparr>)"

subsection \<open>Interleavings\<close>

text \<open>
  One event of a process: a call on some manager, or a pending timer that fires; a timer that is
  cleared or not yet due does nothing.
\<close>

datatype lease_event =
    LAcquire nat int string string string
  | LRenew nat int string string string
  | LRelease nat string string string
  | LShutdown nat
  | LTimer nat int

definition lease_fire :: "nat \<Rightarrow> int \<Rightarrow> lease_world \<Rightarrow> lease_world" where
  "lease_fire i now w =
     (case timers w i of
        Some tm \<Rightarrow> if lt_due tm \<le> now then lease_timeout tm (clearTimeout i w) else w
      | None \<Rightarrow> w)"

fun lease_step :: "int \<Rightarrow> lease_world \<Rightarrow> lease_event \<Rightarrow> lease_world" where
  "lease_step ttl w (LAcquire mgr now uuid t p) = snd (lease_acquire ttl mgr now uuid t p w)"
| "lease_step ttl w (LRenew mgr now t p tok) = snd (lease_renew ttl mgr now t p tok w)"
| "lease_step ttl w (LRelease mgr t p tok) = lease_release mgr t p tok w"
| "lease_step ttl w (LShutdown mgr) = lease_shutdown mgr w"
| "lease_step ttl w (LTimer i now) = lease_fire i now w"

fun issued :: "lease_event \<Rightarrow> string list" where
  "issued (LAcquire mgr now uuid t p) = [uuid]"
| "issued _ = []"

definition issued_in :: "lease_event list \<Rightarrow> string list" where
  "issued_in es = concat (map issued es)"

definition holder :: "lease_world \<Rightarrow> string \<Rightarrow> string option" where
  "holder w key = map_option ml_token (memoryLeases w key)"

subsection \<open>What the operations leave alone\<close>

text \<open>\<open>shrinks w w'\<close>: only records, timers and ownership entries were removed.\<close>

definition shrinks :: "lease_world \<Rightarrow> lease_world \<Rightarrow> bool" where
  "shrinks w w' \<longleftrightarrow> memoryLeases w' \<subseteq>\<^sub>m memoryLeases w \<and> timers w' \<subseteq>\<^sub>m timers w
     \<and> (\<forall>m. map_of (ownedLeases w' m) \<subseteq>\<^sub>m map_of (ownedLeases w m)
             \<and> (jwf (ownedLeases w m) \<longrightarrow> jwf (ownedLeases w' m)))"

named_theorems shrink_simps "operations that only remove"

lemmas lease_primitives = forget_lease_def clearTimeout_def disown_def

lemma shrinks_refl [simp]: "shrinks w w"
  by (simp add: shrinks_def)

lemma shrinks_trans: "shrinks a b \<Longrightarrow> shrinks b c \<Longrightarrow> shrinks a c"
  unfolding shrinks_def by (meson map_le_trans)

lemma shrinks_primitive [shrink_simps]:
  "shrinks w (forget_lease k w)" "shrinks w (clearTimeout i w)" "shrinks w (disown m k w)"
  by (auto simp: shrinks_def lease_primitives map_le_def jmap_simps)

lemma shrinks_after:
  assumes "shrinks w w'"
  shows "shrinks w (forget_lease k w')" "shrinks w (clearTimeout i w')" "shrinks w (disown m k w')"
  using assms shrinks_trans shrinks_primitive by blast+

lemma shrinks_drop [shrink_simps]: "shrinks w (drop_lease k t w)"
  by (auto simp: drop_lease_def split: option.splits intro!: shrinks_after)

lemma shrinks_release [shrink_simps]: "shrinks w (lease_release m tn p tok w)"
  unfolding lease_release_def Let_def by (rule shrinks_trans[OF shrinks_primitive(3) shrinks_drop])

lemma shrinks_drops: "shrinks w (foldl (\<lambda>w (k, t). drop_lease k t w) w ds)"
  by (induction ds arbitrary: w) (auto intro: shrinks_trans shrinks_drop)

lemma shrinks_shutdown [shrink_simps]: "shrinks w (lease_shutdown m w)"
  unfolding lease_shutdown_def Let_def
  by (rule shrinks_trans[OF shrinks_drops[of w "ownedLeases w m"]]) (simp add: shrinks_def)

lemma shrinks_timeout [shrink_simps]: "shrinks w (lease_timeout tm w)"
  unfolding lease_timeout_def Let_def
  by (auto split: option.splits intro!: shrinks_after)

lemma shrinks_fire [shrink_simps]: "shrinks w (lease_fire i now w)"
  by (auto simp: lease_fire_def shrink_simps split: option.splits
           intro: shrinks_trans[OF shrinks_primitive(2) shrinks_timeout])

lemma renew_cases:
  obtains (lost) "fst (lease_renew ttl m now tn p tok w) = Inl LEASE_LOST"
      "shrinks w (snd (lease_renew ttl m now tn p tok w))"
  | (renewed) r where "memoryLeases w (lease_key tn p) = Some r" "ml_token r = tok" "now < ml_expiresAt r"
proof (cases "memoryLeases w (lease_key tn p)")
  case None
  then show ?thesis by (intro lost) (simp_all add: lease_renew_def shrink_simps)
next
  case (Some r)
  show ?thesis
  proof (cases "now < ml_expiresAt r \<and> ml_token r = tok")
    case True
    with Some show ?thesis by (intro renewed) auto
  next
    case False
    have "shrinks w (disown m k (forget_lease k (clearTimeout i w)))" for k i
      by (intro shrinks_after) simp
    with Some False show ?thesis by (intro lost) (auto simp: lease_renew_def Let_def)
  qed
qed

lemma holder_shrinks: "shrinks w w' \<Longrightarrow> holder w' k = Some t \<Longrightarrow> holder w k = Some t"
  by (auto simp: shrinks_def holder_def map_le_def dom_def)

text \<open>A key's token only changes to a freshly issued one, or disappears.\<close>

lemma holder_step:
  assumes "holder (lease_step ttl w e) k = Some t"
  shows "holder w k = Some t \<or> t \<in> set (issued e)"
proof (cases e)
  case (LAcquire m now u tn p)
  with assms show ?thesis
    by (auto simp: lease_acquire_def lease_grant_def setTimeout_def holder_def Let_def clearTimeout_def
             split: option.splits if_splits)
next
  case (LRenew m now tn p tok)
  show ?thesis
  proof (cases rule: renew_cases[where ttl = ttl and m = m and now = now and tn = tn and p = p and tok = tok and w = w])
    case lost
    with assms LRenew show ?thesis by (auto dest: holder_shrinks)
  next
    case (renewed r)
    with assms LRenew show ?thesis
      by (auto simp: lease_renew_def setTimeout_def holder_def clearTimeout_def Let_def split: if_splits)
  qed
qed (use assms in \<open>auto dest: holder_shrinks[OF shrinks_release] holder_shrinks[OF shrinks_shutdown]
                     holder_shrinks[OF shrinks_fire]\<close>)

lemma holder_run:
  "holder (foldl (lease_step ttl) w es) k = Some t \<Longrightarrow> t \<notin> set (issued_in es) \<Longrightarrow> holder w k = Some t"
  by (induction es arbitrary: w) (auto simp: issued_in_def dest: holder_step)

subsection \<open>One live timer per record\<close>

text \<open>
  With \<open>U\<close> the tokens issued so far: the only pending timer that carries a record's token is that
  record's own timer, which is due when the record expires.
\<close>

definition lease_inv :: "string set \<Rightarrow> lease_world \<Rightarrow> bool" where
  "lease_inv U w \<longleftrightarrow>
     (\<forall>i tm r. timers w i = Some tm \<longrightarrow> memoryLeases w (lt_key tm) = Some r \<longrightarrow> lt_token tm = ml_token r
        \<longrightarrow> i = ml_timeout r \<and> lt_due tm = ml_expiresAt r)
     \<and> (\<forall>i tm. timers w i = Some tm \<longrightarrow> lt_token tm \<in> U)
     \<and> (\<forall>k r. memoryLeases w k = Some r \<longrightarrow> ml_token r \<in> U)
     \<and> (\<forall>m k t. map_of (ownedLeases w m) k = Some t \<longrightarrow> t \<in> U)
     \<and> (\<forall>m. jwf (ownedLeases w m))"

lemma map_le_Some: "f \<subseteq>\<^sub>m g \<Longrightarrow> f x = Some y \<Longrightarrow> g x = Some y"
  by (auto simp: map_le_def dom_def)

lemma lease_inv_shrinks:
  assumes "lease_inv U w" and "shrinks w w'"
  shows "lease_inv U w'"
proof -
  have m: "memoryLeases w' k = Some r \<Longrightarrow> memoryLeases w k = Some r"
    and t: "timers w' i = Some tm \<Longrightarrow> timers w i = Some tm"
    and o: "map_of (ownedLeases w' n) k = Some tok \<Longrightarrow> map_of (ownedLeases w n) k = Some tok"
    and d: "jwf (ownedLeases w n) \<Longrightarrow> jwf (ownedLeases w' n)"
    for k r i tm n tok
    using assms(2) by (auto simp: shrinks_def dest: map_le_Some)
  show ?thesis
    using assms(1) unfolding lease_inv_def by (blast dest: m t o d)
qed

lemma lease_inv_mono: "lease_inv U w \<Longrightarrow> U \<subseteq> V \<Longrightarrow> lease_inv V w"
  unfolding lease_inv_def by blast

lemma lease_inv_grant:
  assumes "lease_inv U w" and "u \<notin> U"
  shows "lease_inv (insert u U) (snd (lease_grant ttl m now u k p w))"
  using assms unfolding lease_inv_def lease_grant_def setTimeout_def Let_def
  by (simp add: jmap_simps del: map_of_eq_Some_iff) blast

lemma lease_inv_clear: "lease_inv U w \<Longrightarrow> lease_inv U (clearTimeout i w)"
  by (rule lease_inv_shrinks[OF _ shrinks_primitive(2)])

lemma lease_inv_renewed:
  assumes "lease_inv U w" and "memoryLeases w (lease_key tn p) = Some r" "ml_token r = tok" "now < ml_expiresAt r"
  shows "lease_inv U (snd (lease_renew ttl m now tn p tok w))"
  using assms unfolding lease_inv_def
  by (auto simp: lease_renew_def setTimeout_def Let_def clearTimeout_def)

lemma lease_inv_step:
  assumes "lease_inv U w" and "set (issued e) \<inter> U = {}"
  shows "lease_inv (U \<union> set (issued e)) (lease_step ttl w e)"
proof (cases e)
  case (LAcquire m now u tn p)
  with assms have "lease_inv (insert u U) (snd (lease_grant ttl m now u (lease_key tn p) p w))"
    "lease_inv (insert u U) (snd (lease_grant ttl m now u (lease_key tn p) p (clearTimeout i w)))"
    "lease_inv (insert u U) w" for i
    by (auto intro: lease_inv_grant lease_inv_clear lease_inv_mono)
  with LAcquire show ?thesis by (auto simp: lease_acquire_def Let_def split: option.splits)
next
  case (LRenew m now tn p tok)
  show ?thesis
  proof (cases rule: renew_cases[where ttl = ttl and m = m and now = now and tn = tn and p = p and tok = tok and w = w])
    case lost
    with assms LRenew show ?thesis by (auto intro: lease_inv_shrinks)
  next
    case (renewed r)
    with assms LRenew show ?thesis by (auto intro: lease_inv_renewed)
  qed
qed (use assms in \<open>auto intro: lease_inv_shrinks simp: shrink_simps\<close>)

lemma lease_inv_run:
  "lease_inv U w \<Longrightarrow> distinct (issued_in es) \<Longrightarrow> set (issued_in es) \<inter> U = {}
   \<Longrightarrow> lease_inv (U \<union> set (issued_in es)) (foldl (lease_step ttl) w es)"
proof (induction es arbitrary: U w)
  case Nil
  then show ?case by (simp add: issued_in_def)
next
  case (Cons e es)
  from Cons.prems have "lease_inv (U \<union> set (issued e)) (lease_step ttl w e)"
    by (intro lease_inv_step) (auto simp: issued_in_def)
  with Cons.IH[of "U \<union> set (issued e)" "lease_step ttl w e"] Cons.prems
  show ?case by (auto simp: issued_in_def Un_assoc)
qed

lemma lease_inv_history:
  "distinct (issued_in es) \<Longrightarrow> lease_inv (set (issued_in es)) (foldl (lease_step ttl) no_leases es)"
  using lease_inv_run[of "{}" no_leases es ttl] by (simp add: lease_inv_def no_leases_def)

subsection \<open>Fencing and exclusivity\<close>

text \<open>
  C5: fencing of stale tokens. Take any history of calls and timer firings in which the issued
  tokens are distinct. Once a token that was issued is no longer the current one of its key, then
  after any continuation it can neither renew the lease nor release the one a successor holds,
  even though the other managers' calls and expiry timers interleave arbitrarily.
\<close>

theorem stale_token_fenced:
  assumes "distinct (issued_in (es1 @ es2))" and "tok \<in> set (issued_in es1)"
    and "holder (foldl (lease_step ttl) no_leases es1) (lease_key tn p) \<noteq> Some tok"
  shows "fst (lease_renew ttl m now tn p tok (foldl (lease_step ttl) no_leases (es1 @ es2))) = Inl LEASE_LOST
    \<and> memoryLeases (lease_release m tn p tok (foldl (lease_step ttl) no_leases (es1 @ es2)))
        = memoryLeases (foldl (lease_step ttl) no_leases (es1 @ es2))"
proof -
  let ?w = "foldl (lease_step ttl) no_leases (es1 @ es2)"
  have "tok \<notin> set (issued_in es2)" using assms(1,2) by (auto simp: issued_in_def)
  with assms(3) holder_run[of ttl "foldl (lease_step ttl) no_leases es1" es2 "lease_key tn p" tok]
  have stale: "holder ?w (lease_key tn p) \<noteq> Some tok" by auto
  have "fst (lease_renew ttl m now tn p tok ?w) = Inl LEASE_LOST"
    using stale by (cases rule: renew_cases[where ttl = ttl and m = m and now = now and tn = tn and p = p
          and tok = tok and w = ?w]) (auto simp: holder_def)
  moreover have "memoryLeases (lease_release m tn p tok ?w) = memoryLeases ?w"
    using stale by (auto simp: lease_release_def drop_lease_def disown_def holder_def Let_def split: option.splits)
  ultimately show ?thesis by blast
qed

theorem stale_token_fenced_witness:
  "fst (lease_renew 30 0 45 ''t'' ''p'' ''A''
     (foldl (lease_step 30) no_leases
        ([LAcquire 0 0 ''A'' ''t'' ''p'', LAcquire 1 40 ''B'' ''t'' ''p''] @ []))) = Inl LEASE_LOST"
  by (rule stale_token_fenced[THEN conjunct1])
     (simp_all add: issued_in_def lease_acquire_def lease_grant_def setTimeout_def clearTimeout_def
        no_leases_def holder_def lease_key_def Let_def)

text \<open>
  An event that is not an action of the holder of token \<open>tok\<close> on \<open>k\<close> and happens before the
  lease's expiry \<open>x\<close>; \<open>w\<close> says which managers own the token.
\<close>

fun bystander :: "lease_world \<Rightarrow> string \<Rightarrow> string \<Rightarrow> int \<Rightarrow> lease_event \<Rightarrow> bool" where
  "bystander w k tok x (LAcquire m now u tn p) = (now < x \<and> u \<noteq> tok)"
| "bystander w k tok x (LRenew m now tn p u) = (now < x \<and> (lease_key tn p \<noteq> k \<or> u \<noteq> tok))"
| "bystander w k tok x (LRelease m tn p u) = (lease_key tn p \<noteq> k \<or> u \<noteq> tok)"
| "bystander w k tok x (LShutdown m) = (map_of (ownedLeases w m) k \<noteq> Some tok)"
| "bystander w k tok x (LTimer i now) = (now < x)"

text \<open>The record is in place, and nothing pending can remove it before it expires.\<close>

definition held :: "lease_world \<Rightarrow> string \<Rightarrow> memory_lease \<Rightarrow> lease_world \<Rightarrow> bool" where
  "held w0 k r w \<longleftrightarrow> memoryLeases w k = Some r
     \<and> (\<forall>i tm. timers w i = Some tm \<longrightarrow> lt_key tm = k \<longrightarrow> lt_token tm = ml_token r \<longrightarrow> ml_expiresAt r \<le> lt_due tm)
     \<and> (\<forall>m. map_of (ownedLeases w m) k = Some (ml_token r) \<longrightarrow> map_of (ownedLeases w0 m) k = Some (ml_token r))
     \<and> (\<forall>m. jwf (ownedLeases w m))"

lemma held_shrinks:
  assumes "held w0 k r w" and "shrinks w w'" and "memoryLeases w' k = Some r"
  shows "held w0 k r w'"
  using assms unfolding held_def shrinks_def by (blast dest: map_le_Some)

lemma drops_keep:
  "memoryLeases w k = Some r \<Longrightarrow> (k, ml_token r) \<notin> set ds
   \<Longrightarrow> memoryLeases (foldl (\<lambda>w (k, t). drop_lease k t w) w ds) k = Some r"
proof (induction ds arbitrary: w)
  case Nil
  then show ?case by simp
next
  case (Cons d ds)
  obtain k' t where d: "d = (k', t)" by (cases d)
  with Cons.prems have "memoryLeases (drop_lease k' t w) k = Some r"
    by (auto simp: drop_lease_def lease_primitives split: option.splits)
  with Cons d show ?case by simp
qed

lemma held_step:
  assumes h: "held w0 k r w" and b: "bystander w0 k (ml_token r) (ml_expiresAt r) e"
  shows "held w0 k r (lease_step ttl w e)"
proof (cases e)
  case (LAcquire m now u tn p)
  show ?thesis
  proof (cases "lease_key tn p = k")
    case True
    with h b LAcquire show ?thesis by (auto simp: lease_acquire_def held_def)
  next
    case False
    have "held w0 k r (clearTimeout i w)" for i
      by (rule held_shrinks[OF h shrinks_primitive(2)]) (use h in \<open>simp add: held_def clearTimeout_def\<close>)
    moreover have "held w0 k r w' \<Longrightarrow> held w0 k r (snd (lease_grant ttl m now u (lease_key tn p) p w'))" for w'
      using False b LAcquire
      by (auto simp: held_def lease_grant_def setTimeout_def jmap_simps simp del: map_of_eq_Some_iff)
    ultimately show ?thesis
      using h LAcquire by (auto simp: lease_acquire_def Let_def split: option.splits)
  qed
next
  case (LRenew m now tn p u)
  show ?thesis
  proof (cases rule: renew_cases[where ttl = ttl and m = m and now = now and tn = tn and p = p and tok = u and w = w])
    case lost
    have "memoryLeases (lease_step ttl w e) k = Some r"
      using h b LRenew by (auto simp: held_def lease_renew_def setTimeout_def Let_def lease_primitives split: option.splits)
    with lost LRenew show ?thesis by (auto intro: held_shrinks[OF h])
  next
    case (renewed r')
    with h b LRenew show ?thesis
      by (auto simp: held_def lease_renew_def setTimeout_def Let_def clearTimeout_def)
  qed
next
  case (LRelease m tn p u)
  have "memoryLeases (lease_release m tn p u w) k = Some r"
    using h b LRelease by (auto simp: held_def lease_release_def drop_lease_def lease_primitives Let_def split: option.splits)
  with LRelease show ?thesis by (simp add: held_shrinks[OF h shrinks_release])
next
  case (LShutdown m)
  have "map_of (ownedLeases w m) k \<noteq> Some (ml_token r)"
    using h b LShutdown by (auto simp: held_def)
  then have "(k, ml_token r) \<notin> set (ownedLeases w m)"
    using h by (auto simp: held_def)
  with h have "memoryLeases (lease_shutdown m w) k = Some r"
    by (simp add: lease_shutdown_def Let_def drops_keep held_def)
  with LShutdown show ?thesis by (simp add: held_shrinks[OF h shrinks_shutdown])
next
  case (LTimer i now)
  have "memoryLeases (lease_fire i now w) k = Some r"
    using h b LTimer
    by (fastforce simp: held_def lease_fire_def lease_timeout_def lease_primitives Let_def split: option.splits)
  with LTimer show ?thesis by (simp add: held_shrinks[OF h shrinks_fire])
qed

lemma grant_held:
  assumes "lease_inv U w" and "u \<notin> U"
  shows "\<exists>r. held (snd (lease_grant ttl m now u k p w)) k r (snd (lease_grant ttl m now u k p w))
      \<and> ml_token r = u \<and> ml_expiresAt r = now + ttl"
  using assms
  by (auto simp: held_def lease_inv_def lease_grant_def setTimeout_def jmap_simps simp del: map_of_eq_Some_iff)

lemma acquire_granted:
  assumes "lease_acquire ttl m now u tn p w = (Inr l, w')"
  shows "\<exists>w1. (w1 = w \<or> (\<exists>i. w1 = clearTimeout i w)) \<and> (Inr l, w') = lease_grant ttl m now u (lease_key tn p) p w1
    \<and> pl_leaseToken l = u \<and> pl_expiresAt l = now + ttl"
  using assms by (auto simp: lease_acquire_def lease_grant_def setTimeout_def Let_def split: option.splits if_splits)

lemma renew_held:
  assumes "lease_inv U w" and "lease_renew ttl m now tn p tok w = (Inr l, w')"
  shows "\<exists>r. held w' (lease_key tn p) r w' \<and> ml_token r = tok \<and> ml_expiresAt r = now + ttl
     \<and> pl_leaseToken l = tok \<and> pl_expiresAt l = now + ttl"
proof (cases rule: renew_cases[where ttl = ttl and m = m and now = now and tn = tn and p = p and tok = tok and w = w])
  case lost
  with assms show ?thesis by simp
next
  case (renewed r)
  with assms show ?thesis
    by (auto simp: held_def lease_inv_def lease_renew_def setTimeout_def Let_def clearTimeout_def)
qed

lemma held_run:
  "held w0 k r w \<Longrightarrow> \<forall>e \<in> set es. bystander w0 k (ml_token r) (ml_expiresAt r) e
   \<Longrightarrow> held w0 k r (foldl (lease_step ttl) w es)"
  by (induction es arbitrary: w) (auto intro: held_step)

lemma held_refuses:
  "held w0 (lease_key tn p) r w
   \<Longrightarrow> fst (lease_acquire ttl m now u tn p w) = Inl LEASE_ALREADY_ACQUIRED \<longleftrightarrow> now < ml_expiresAt r"
  by (auto simp: held_def lease_acquire_def lease_grant_def setTimeout_def Let_def)



end
