(* ===== verification/ControlLease.thy ===== *)
theory ControlLease
  imports Prelude
begin

text \<open>
  \<open>src/browser/control-lease.ts\<close>: who may drive the browser. The agent owns control until it
  requests a handoff; a user claims it with the one-time token, releases it, and the agent resumes.
  \<open>sha\<close> is the SHA-256 digest of \<open>node:crypto\<close>; a digest cleared by \<open>fill(0)\<close> is \<open>None\<close>. The clock
  is read once per operation, \<open>None\<close> being a reading that is not finite. \<open>cl_pending\<close> holds the
  timers of \<open>setTimeout\<close> that have neither fired nor been cancelled, with their generation.
\<close>

datatype control_actor = AgentActor | UserActor | SystemActor
datatype control_owner = OwnerAgent | OwnerUser | OwnerNone
datatype control_state = AGENT_CONTROLLED | USER_CONTROLLED | INACTIVE
datatype handoff_state = NONE | PENDING | ACTIVE | RELEASED | EXPIRED | USER_ACTIVE

datatype control_error =
    MANUAL_TAKEOVER_ACTIVE
  | HUMAN_HANDOFF_EXPIRED
  | INVALID_STATE
  | INVALID_ARGUMENT string

text \<open>An \<open>actor\<close> option of a request: absent, one of the three, or any other value.\<close>

datatype actor_arg = NoActor | Actor control_actor | OtherActor

record 'd lease_record =
  lr_generation :: nat
  lr_digest :: "'d option"
  lr_issuedAt :: int
  lr_expiresAt :: int
  lr_activatedAt :: "int option"

record 'd control =
  cl_ttlMs :: int
  cl_maxTtlMs :: int
  cl_controlState :: control_state
  cl_handoffState :: handoff_state
  cl_owner :: control_owner
  cl_currentLease :: "'d lease_record option"
  cl_expiryTimer :: "nat option"
  cl_nextGeneration :: nat
  cl_releasedAt :: "int option"
  cl_expiredAt :: "int option"
  cl_lastIssuedAt :: "int option"
  cl_lastActivatedAt :: "int option"
  cl_lastExpiresAt :: "int option"
  cl_pending :: "nat \<Rightarrow> nat option"
  cl_nextTimer :: nat

text \<open>\<open>ControlLeaseStatus\<close>, without the aliases of its fields.\<close>

record control_status =
  st_controlState :: control_state
  st_owner :: control_owner
  st_handoffState :: handoff_state
  st_hardStop :: bool
  st_agentWriteAllowed :: bool
  st_userControlActive :: bool
  st_leaseActive :: bool
  st_issuedAt :: "int option"
  st_activatedAt :: "int option"
  st_expiresAt :: "int option"
  st_releasedAt :: "int option"
  st_expiredAt :: "int option"

type_synonym ('d, 'a) control_op = "'d control \<Rightarrow> (control_error + 'a) \<times> 'd control"

definition DEFAULT_TTL_MS :: int where "DEFAULT_TTL_MS = 5 * 60000"
definition DEFAULT_MAX_TTL_MS :: int where "DEFAULT_MAX_TTL_MS = 60 * 60000"

subsection \<open>Validation\<close>

definition validateDuration :: "jsnum \<Rightarrow> string \<Rightarrow> control_error + int" where
  "validateDuration v field = (case v of
     IntN i \<Rightarrow> if i \<le> 0 \<or> i > 2147000000 then Inl (INVALID_ARGUMENT field) else Inr i
   | OtherN \<Rightarrow> Inl (INVALID_ARGUMENT field))"

definition reason_char_bad :: "char \<Rightarrow> bool" where
  "reason_char_bad c = (control_char c \<and> of_char c \<notin> {9::nat, 10, 13})"

definition validateReason :: "string option \<Rightarrow> control_error + unit" where
  "validateReason reason = (case reason of
     None \<Rightarrow> Inr ()
   | Some r \<Rightarrow> if length r > 200 \<or> list_ex reason_char_bad r then Inl (INVALID_ARGUMENT ''reason'') else Inr ())"

definition normalizeActor :: "actor_arg \<Rightarrow> control_actor \<Rightarrow> control_error + control_actor" where
  "normalizeActor a fallback = (case a of
     NoActor \<Rightarrow> Inr fallback | Actor x \<Rightarrow> Inr x | OtherActor \<Rightarrow> Inl (INVALID_ARGUMENT ''actor''))"

definition matchesTokenShape :: "string \<Rightarrow> bool" where
  "matchesTokenShape tok = (tok \<noteq> [] \<and> \<not> list_ex control_char tok)"

text \<open>Running a pure check inside an operation.\<close>

definition check :: "control_error + 'a \<Rightarrow> ('d, 'a) control_op" where
  "check r s = (r, s)"

definition throw :: "control_error \<Rightarrow> ('d, 'a) control_op" where
  "throw e s = (Inl e, s)"

definition readNow :: "int option \<Rightarrow> ('d, int) control_op" where
  "readNow clk s = (case clk of Some t \<Rightarrow> Inr t | None \<Rightarrow> Inl (INVALID_ARGUMENT ''clock''), s)"

definition assertUserConfirmation :: "bool \<Rightarrow> control_error + unit" where
  "assertUserConfirmation v = (if v then Inr () else Inl (INVALID_ARGUMENT ''userConfirmed''))"

text \<open>The constructor; \<open>tokenBytes\<close> is only passed on to the token source.\<close>

definition validateTokenBytes :: "jsnum \<Rightarrow> control_error + int" where
  "validateTokenBytes v = (case v of
     IntN i \<Rightarrow> if i < 16 \<or> i > 128 then Inl (INVALID_ARGUMENT ''tokenBytes'') else Inr i
   | OtherN \<Rightarrow> Inl (INVALID_ARGUMENT ''tokenBytes''))"

definition newControlLease ::
  "int option \<Rightarrow> jsnum option \<Rightarrow> jsnum option \<Rightarrow> jsnum option \<Rightarrow> control_error + 'd control" where
  "newControlLease clk ttlMs maxTtlMs tokenBytes =
     (case validateDuration (case maxTtlMs of Some v \<Rightarrow> v | None \<Rightarrow> IntN DEFAULT_MAX_TTL_MS) ''maxTtlMs'' of
        Inl e \<Rightarrow> Inl e
      | Inr maxTtl \<Rightarrow>
     (case validateDuration (case ttlMs of Some v \<Rightarrow> v | None \<Rightarrow> IntN DEFAULT_TTL_MS) ''ttlMs'' of
        Inl e \<Rightarrow> Inl e
      | Inr ttl \<Rightarrow>
        if ttl > maxTtl then Inl (INVALID_ARGUMENT ''ttlMs'') else
     (case validateTokenBytes (case tokenBytes of Some v \<Rightarrow> v | None \<Rightarrow> IntN 32) of
        Inl e \<Rightarrow> Inl e
      | Inr bytes \<Rightarrow>
        if clk = None then Inl (INVALID_ARGUMENT ''clock'') else
        Inr \<lparr>cl_ttlMs = ttl, cl_maxTtlMs = maxTtl, cl_controlState = AGENT_CONTROLLED,
             cl_handoffState = NONE, cl_owner = OwnerAgent, cl_currentLease = None,
             cl_expiryTimer = None, cl_nextGeneration = 0, cl_releasedAt = None, cl_expiredAt = None,
             cl_lastIssuedAt = None, cl_lastActivatedAt = None, cl_lastExpiresAt = None,
             cl_pending = \<lambda>_. None, cl_nextTimer = 0\<rparr>)))"

subsection \<open>Timers and expiry\<close>

definition clearExpiryTimer :: "'d control \<Rightarrow> 'd control" where
  "clearExpiryTimer s =
     (case cl_expiryTimer s of
        None \<Rightarrow> s
      | Some i \<Rightarrow> s\<lparr>cl_pending := (cl_pending s)(i := None), cl_expiryTimer := None\<rparr>)"

text \<open>The \<open>setTimeout\<close> call whose handle is stored in \<open>expiryTimer\<close>.\<close>

definition armTimer :: "nat \<Rightarrow> 'd control \<Rightarrow> 'd control" where
  "armTimer generation s =
     s\<lparr>cl_pending := (cl_pending s)(cl_nextTimer s := Some generation),
       cl_expiryTimer := Some (cl_nextTimer s), cl_nextTimer := Suc (cl_nextTimer s)\<rparr>"

definition scheduleExpiry :: "nat \<Rightarrow> 'd control \<Rightarrow> 'd control" where
  "scheduleExpiry generation s = armTimer generation (clearExpiryTimer s)"

definition clearDigest :: "'d control \<Rightarrow> 'd control" where
  "clearDigest s = s\<lparr>cl_currentLease := map_option (\<lambda>l. l\<lparr>lr_digest := None\<rparr>) (cl_currentLease s)\<rparr>"

definition expireLease :: "int option \<Rightarrow> nat \<Rightarrow> ('d, unit) control_op" where
  "expireLease clk generation s =
     (case cl_currentLease s of
        None \<Rightarrow> (Inr (), s)
      | Some l \<Rightarrow>
        if lr_generation l \<noteq> generation \<or> cl_handoffState s = EXPIRED then (Inr (), s)
        else andthen (readNow clk)
          (\<lambda>now s. if lr_expiresAt l - now > 0 then (Inr (), armTimer generation s)
             else (Inr (),
               (clearDigest (clearExpiryTimer s))\<lparr>cl_controlState := INACTIVE, cl_owner := OwnerNone,
                 cl_handoffState := EXPIRED, cl_expiredAt := Some now, cl_releasedAt := None\<rparr>)) s)"

definition expireIfDue :: "int option \<Rightarrow> ('d, bool) control_op" where
  "expireIfDue clk s =
     (case cl_currentLease s of
        None \<Rightarrow> (Inr False, s)
      | Some l \<Rightarrow>
        if cl_handoffState s \<noteq> PENDING \<and> cl_handoffState s \<noteq> ACTIVE then (Inr False, s)
        else andthen (readNow clk)
          (\<lambda>now s. if now < lr_expiresAt l then (Inr False, s)
             else andthen (expireLease clk (lr_generation l)) (\<lambda>_ s. (Inr True, s)) s) s)"

text \<open>A pending timer fires: it leaves the pending set and runs its callback.\<close>

definition fireTimer :: "int option \<Rightarrow> nat \<Rightarrow> ('d, unit) control_op" where
  "fireTimer clk i s =
     (case cl_pending s i of
        None \<Rightarrow> (Inr (), s)
      | Some g \<Rightarrow> expireLease clk g (s\<lparr>cl_pending := (cl_pending s)(i := None)\<rparr>))"

subsection \<open>Status\<close>

definition agentWriteAllowed :: "'d control \<Rightarrow> bool" where
  "agentWriteAllowed s =
     (cl_controlState s = AGENT_CONTROLLED \<and> cl_handoffState s = NONE \<and> cl_owner s = OwnerAgent)"

definition statusUnsafe :: "'d control \<Rightarrow> control_status" where
  "statusUnsafe s =
     (let expired = cl_handoffState s = EXPIRED; lease = cl_currentLease s
      in \<lparr>st_controlState = cl_controlState s, st_owner = cl_owner s,
          st_handoffState = cl_handoffState s,
          st_hardStop = (\<not> agentWriteAllowed s),
          st_agentWriteAllowed = agentWriteAllowed s,
          st_userControlActive =
            (cl_controlState s = USER_CONTROLLED \<and> cl_handoffState s = ACTIVE \<and> cl_owner s = OwnerUser),
          st_leaseActive = (lease \<noteq> None \<and> (cl_handoffState s = PENDING \<or> cl_handoffState s = ACTIVE)),
          st_issuedAt = (case lease of Some l \<Rightarrow> Some (lr_issuedAt l)
             | None \<Rightarrow> if expired then cl_lastIssuedAt s else None),
          st_activatedAt = (case lease of Some l \<Rightarrow> lr_activatedAt l
             | None \<Rightarrow> if expired then cl_lastActivatedAt s else None),
          st_expiresAt = (case lease of Some l \<Rightarrow> Some (lr_expiresAt l)
             | None \<Rightarrow> if expired then cl_lastExpiresAt s else None),
          st_releasedAt = cl_releasedAt s,
          st_expiredAt = cl_expiredAt s\<rparr>)"

definition getStatus :: "int option \<Rightarrow> ('d, control_status) control_op" where
  "getStatus clk = andthen (expireIfDue clk) (\<lambda>_ s. (Inr (statusUnsafe s), s))"

text \<open>Return the status of the state an operation has just written.\<close>

definition reply :: "'d control \<Rightarrow> (control_error + control_status) \<times> 'd control" where
  "reply s = (Inr (statusUnsafe s), s)"

subsection \<open>Tokens\<close>

text \<open>\<open>issueToken\<close>: \<open>None\<close> is a token source that throws or returns neither text nor bytes.\<close>

definition issueToken :: "(string \<Rightarrow> 'd) \<Rightarrow> string option \<Rightarrow> control_error + string \<times> 'd" where
  "issueToken sha generated =
     (case generated of
        None \<Rightarrow> Inl (INVALID_ARGUMENT ''randomToken'')
      | Some v \<Rightarrow> if v = [] \<or> list_ex control_char v then Inl (INVALID_ARGUMENT ''randomToken'')
                  else Inr (v, sha v))"

definition matchesToken :: "(string \<Rightarrow> 'd) \<Rightarrow> string \<Rightarrow> 'd control \<Rightarrow> bool" where
  "matchesToken sha tok s =
     (case cl_currentLease s of
        None \<Rightarrow> False
      | Some l \<Rightarrow> tok \<noteq> [] \<and> lr_digest l = Some (sha tok))"

definition assertToken :: "(string \<Rightarrow> 'd) \<Rightarrow> string \<Rightarrow> ('d, unit) control_op" where
  "assertToken sha tok s =
     (if matchesTokenShape tok \<and> matchesToken sha tok s then Inr () else Inl (INVALID_ARGUMENT ''leaseToken''), s)"

subsection \<open>Operations\<close>

definition requestHandoff ::
  "(string \<Rightarrow> 'd) \<Rightarrow> int option \<Rightarrow> string option \<Rightarrow> actor_arg \<Rightarrow> string option \<Rightarrow> jsnum option
   \<Rightarrow> ('d, control_status \<times> string) control_op" where
  "requestHandoff sha clk generated actor reason ttlArg =
     andthen (expireIfDue clk) (\<lambda>_.
     andthen (check (normalizeActor actor AgentActor)) (\<lambda>who.
     if who \<noteq> AgentActor then throw INVALID_STATE else
     andthen (check (validateReason reason)) (\<lambda>_ s.
       if cl_handoffState s = ACTIVE \<or> cl_controlState s = USER_CONTROLLED then throw MANUAL_TAKEOVER_ACTIVE s
       else if cl_handoffState s = PENDING then throw INVALID_STATE s
       else if cl_handoffState s = RELEASED then throw INVALID_STATE s
       else andthen (check (validateDuration (case ttlArg of Some v \<Rightarrow> v | None \<Rightarrow> IntN (cl_ttlMs s)) ''ttlMs'')) (\<lambda>ttl.
         if ttl > cl_maxTtlMs s then throw (INVALID_ARGUMENT ''ttlMs'') else
         andthen (readNow clk) (\<lambda>issuedAt.
         andthen (check (issueToken sha generated)) (\<lambda>(tok, digest) s.
           let g = Suc (cl_nextGeneration s);
               s1 = s\<lparr>cl_nextGeneration := g,
                      cl_currentLease := Some \<lparr>lr_generation = g, lr_digest = Some digest,
                        lr_issuedAt = issuedAt, lr_expiresAt = issuedAt + ttl, lr_activatedAt = None\<rparr>,
                      cl_lastIssuedAt := Some issuedAt, cl_lastActivatedAt := None,
                      cl_lastExpiresAt := Some (issuedAt + ttl),
                      cl_controlState := INACTIVE, cl_owner := OwnerNone, cl_handoffState := PENDING,
                      cl_releasedAt := None, cl_expiredAt := None\<rparr>;
               s2 = scheduleExpiry g s1
           in (Inr (statusUnsafe s2, tok), s2)))) s)))"

text \<open>\<open>takeover\<close>; the positional form is the request with no actor.\<close>

definition takeover ::
  "(string \<Rightarrow> 'd) \<Rightarrow> int option \<Rightarrow> actor_arg \<Rightarrow> string \<Rightarrow> bool \<Rightarrow> ('d, control_status) control_op" where
  "takeover sha clk actor tok confirmed =
     andthen (expireIfDue clk) (\<lambda>_.
     andthen (check (normalizeActor actor UserActor)) (\<lambda>who.
     andthen (check (assertUserConfirmation confirmed)) (\<lambda>_.
     if who \<noteq> UserActor then throw INVALID_STATE else (\<lambda>s.
       if cl_handoffState s = EXPIRED then throw HUMAN_HANDOFF_EXPIRED s
       else if cl_handoffState s = NONE then throw INVALID_STATE s
       else if cl_handoffState s = RELEASED then throw INVALID_STATE s
       else if cl_handoffState s = ACTIVE then
         (if matchesToken sha tok s then reply s else throw MANUAL_TAKEOVER_ACTIVE s)
       else andthen (assertToken sha tok) (\<lambda>_.
            andthen (readNow clk) (\<lambda>activatedAt s.
            case cl_currentLease s of
              None \<Rightarrow> throw INVALID_STATE s
            | Some l \<Rightarrow>
                reply (s\<lparr>cl_currentLease := Some (l\<lparr>lr_activatedAt := Some activatedAt\<rparr>),
                         cl_lastActivatedAt := Some activatedAt,
                         cl_controlState := USER_CONTROLLED, cl_owner := OwnerUser,
                         cl_handoffState := ACTIVE\<rparr>))) s))))"

definition releaseControl ::
  "(string \<Rightarrow> 'd) \<Rightarrow> int option \<Rightarrow> actor_arg \<Rightarrow> string \<Rightarrow> bool \<Rightarrow> ('d, control_status) control_op" where
  "releaseControl sha clk actor tok confirmed =
     andthen (expireIfDue clk) (\<lambda>_.
     andthen (check (normalizeActor actor UserActor)) (\<lambda>who.
     andthen (check (assertUserConfirmation confirmed)) (\<lambda>_.
     if who \<noteq> UserActor then throw INVALID_STATE else (\<lambda>s.
       if cl_handoffState s = EXPIRED then throw HUMAN_HANDOFF_EXPIRED s
       else if cl_handoffState s \<noteq> ACTIVE then throw INVALID_STATE s
       else andthen (assertToken sha tok) (\<lambda>_ s.
         let s1 = (clearDigest (clearExpiryTimer s))\<lparr>cl_currentLease := None,
                    cl_controlState := INACTIVE, cl_owner := OwnerNone, cl_handoffState := RELEASED\<rparr>
         in andthen (readNow clk) (\<lambda>now s.
              reply (s\<lparr>cl_releasedAt := Some now, cl_expiredAt := None\<rparr>)) s1) s))))"

definition resume :: "int option \<Rightarrow> actor_arg \<Rightarrow> ('d, control_status) control_op" where
  "resume clk actor =
     andthen (expireIfDue clk) (\<lambda>_.
     andthen (check (normalizeActor actor AgentActor)) (\<lambda>who.
     if who \<noteq> AgentActor then throw INVALID_STATE else (\<lambda>s.
       if cl_handoffState s = ACTIVE \<or> cl_controlState s = USER_CONTROLLED then throw MANUAL_TAKEOVER_ACTIVE s
       else if cl_handoffState s = EXPIRED then throw HUMAN_HANDOFF_EXPIRED s
       else if cl_handoffState s = PENDING then throw INVALID_STATE s
       else if cl_handoffState s = NONE then
         (if cl_controlState s = AGENT_CONTROLLED then reply s else throw INVALID_STATE s)
       else if cl_handoffState s \<noteq> RELEASED then throw INVALID_STATE s
       else reply (s\<lparr>cl_controlState := AGENT_CONTROLLED, cl_owner := OwnerAgent,
                     cl_handoffState := NONE, cl_releasedAt := None, cl_expiredAt := None\<rparr>))))"

definition recoverExpired :: "int option \<Rightarrow> actor_arg \<Rightarrow> bool \<Rightarrow> ('d, control_status) control_op" where
  "recoverExpired clk actor confirmed =
     andthen (expireIfDue clk) (\<lambda>_.
     andthen (check (normalizeActor actor UserActor)) (\<lambda>who.
     andthen (check (assertUserConfirmation confirmed)) (\<lambda>_.
     if who \<noteq> UserActor then throw INVALID_STATE else (\<lambda>s.
       if cl_handoffState s \<noteq> EXPIRED then throw INVALID_STATE s
       else andthen (readNow clk) (\<lambda>now s. reply (s\<lparr>cl_releasedAt := Some now, cl_expiredAt := None\<rparr>))
              (s\<lparr>cl_controlState := INACTIVE, cl_owner := OwnerNone, cl_handoffState := RELEASED,
                 cl_currentLease := None\<rparr>)))))"

definition assertAgentControl :: "int option \<Rightarrow> ('d, unit) control_op" where
  "assertAgentControl clk =
     andthen (expireIfDue clk) (\<lambda>_ s.
       if cl_handoffState s = EXPIRED then throw HUMAN_HANDOFF_EXPIRED s
       else if cl_handoffState s = ACTIVE \<or> cl_controlState s = USER_CONTROLLED then throw MANUAL_TAKEOVER_ACTIVE s
       else if cl_handoffState s \<noteq> NONE \<or> cl_controlState s \<noteq> AGENT_CONTROLLED then throw INVALID_STATE s
       else (Inr (), s))"

definition assertUserControl :: "(string \<Rightarrow> 'd) \<Rightarrow> int option \<Rightarrow> string \<Rightarrow> ('d, unit) control_op" where
  "assertUserControl sha clk tok =
     andthen (expireIfDue clk) (\<lambda>_ s.
       if cl_handoffState s = EXPIRED then throw HUMAN_HANDOFF_EXPIRED s
       else if cl_handoffState s \<noteq> ACTIVE \<or> cl_controlState s \<noteq> USER_CONTROLLED then throw INVALID_STATE s
       else assertToken sha tok s)"

definition assertCanAct ::
  "(string \<Rightarrow> 'd) \<Rightarrow> int option \<Rightarrow> control_actor \<Rightarrow> string option \<Rightarrow> ('d, unit) control_op" where
  "assertCanAct sha clk actor tok =
     (case actor of
        AgentActor \<Rightarrow> assertAgentControl clk
      | UserActor \<Rightarrow> (case tok of None \<Rightarrow> throw (INVALID_ARGUMENT ''leaseToken'') | Some v \<Rightarrow> assertUserControl sha clk v)
      | SystemActor \<Rightarrow> throw INVALID_STATE)"

definition canUserAct :: "(string \<Rightarrow> 'd) \<Rightarrow> int option \<Rightarrow> string option \<Rightarrow> 'd control \<Rightarrow> bool \<times> 'd control" where
  "canUserAct sha clk tok s =
     (case tok of
        None \<Rightarrow> (False, s)
      | Some v \<Rightarrow> (case assertUserControl sha clk v s of (Inr _, s') \<Rightarrow> (True, s') | (Inl _, s') \<Rightarrow> (False, s')))"

definition dispose :: "int option \<Rightarrow> ('d, unit) control_op" where
  "dispose clk s =
     andthen (readNow clk) (\<lambda>now s. (Inr (), s\<lparr>cl_expiredAt := Some now\<rparr>))
       ((clearDigest (clearExpiryTimer s))\<lparr>cl_currentLease := None, cl_controlState := INACTIVE,
          cl_owner := OwnerNone, cl_handoffState := EXPIRED\<rparr>)"

subsection \<open>Runs\<close>

datatype control_event =
    EvHandoff "string option" actor_arg "string option" "jsnum option"
  | EvTakeover actor_arg string bool
  | EvRelease actor_arg string bool
  | EvResume actor_arg
  | EvRecover actor_arg bool
  | EvAct control_actor "string option"
  | EvStatus
  | EvDispose
  | EvTimer nat

fun control_step :: "(string \<Rightarrow> 'd) \<Rightarrow> 'd control \<Rightarrow> int option \<times> control_event \<Rightarrow> 'd control" where
  "control_step sha s (clk, EvHandoff gen actor reason ttl) = snd (requestHandoff sha clk gen actor reason ttl s)"
| "control_step sha s (clk, EvTakeover actor tok c) = snd (takeover sha clk actor tok c s)"
| "control_step sha s (clk, EvRelease actor tok c) = snd (releaseControl sha clk actor tok c s)"
| "control_step sha s (clk, EvResume actor) = snd (resume clk actor s)"
| "control_step sha s (clk, EvRecover actor c) = snd (recoverExpired clk actor c s)"
| "control_step sha s (clk, EvAct actor tok) = snd (assertCanAct sha clk actor tok s)"
| "control_step sha s (clk, EvStatus) = snd (getStatus clk s)"
| "control_step sha s (clk, EvDispose) = snd (dispose clk s)"
| "control_step sha s (clk, EvTimer i) = snd (fireTimer clk i s)"

subsection \<open>Consistency of the state fields\<close>

fun control_phase ::
  "handoff_state \<Rightarrow> control_state \<Rightarrow> control_owner \<Rightarrow> 'd lease_record option \<Rightarrow> bool" where
  "control_phase NONE c ow l = (c = AGENT_CONTROLLED \<and> ow = OwnerAgent \<and> l = None)"
| "control_phase PENDING c ow l = (c = INACTIVE \<and> ow = OwnerNone
     \<and> (case l of None \<Rightarrow> False | Some r \<Rightarrow> lr_digest r \<noteq> None \<and> lr_activatedAt r = None))"
| "control_phase ACTIVE c ow l = (c = USER_CONTROLLED \<and> ow = OwnerUser
     \<and> (case l of None \<Rightarrow> False | Some r \<Rightarrow> lr_digest r \<noteq> None \<and> lr_activatedAt r \<noteq> None))"
| "control_phase RELEASED c ow l = (c = INACTIVE \<and> ow = OwnerNone \<and> l = None)"
| "control_phase EXPIRED c ow l = (c = INACTIVE \<and> ow = OwnerNone
     \<and> (case l of None \<Rightarrow> True | Some r \<Rightarrow> lr_digest r = None))"
| "control_phase USER_ACTIVE c ow l = False"

text \<open>The fields agree on one phase, and no timer but the one in \<open>expiryTimer\<close> is pending.\<close>

definition control_wf :: "'d control \<Rightarrow> bool" where
  "control_wf s \<longleftrightarrow>
     control_phase (cl_handoffState s) (cl_controlState s) (cl_owner s) (cl_currentLease s)
     \<and> (\<forall>i. cl_expiryTimer s \<noteq> Some i \<longrightarrow> cl_pending s i = None)"

text \<open>While a handoff is pending or active, the timer that will expire it is pending.\<close>

definition control_covered :: "'d control \<Rightarrow> bool" where
  "control_covered s \<longleftrightarrow>
     (cl_handoffState s \<in> {PENDING, ACTIVE} \<longrightarrow>
       (case (cl_expiryTimer s, cl_currentLease s) of
          (Some i, Some l) \<Rightarrow> cl_pending s i = Some (lr_generation l)
        | _ \<Rightarrow> False))"

named_theorems control_ops "the primitives of the operations"
declare check_def [control_ops] throw_def [control_ops] reply_def [control_ops] readNow_def [control_ops]
  assertToken_def [control_ops] clearExpiryTimer_def [control_ops] armTimer_def [control_ops]
  clearDigest_def [control_ops] Let_def [control_ops]

lemma control_wf_cases:
  assumes "control_wf s"
  obtains (none) "cl_handoffState s = NONE" "cl_controlState s = AGENT_CONTROLLED" "cl_owner s = OwnerAgent" "cl_currentLease s = None"
  | (pending) l where "cl_handoffState s = PENDING" "cl_controlState s = INACTIVE" "cl_owner s = OwnerNone" "cl_currentLease s = Some l"
      "lr_digest l \<noteq> None" "lr_activatedAt l = None"
  | (active) l where "cl_handoffState s = ACTIVE" "cl_controlState s = USER_CONTROLLED" "cl_owner s = OwnerUser" "cl_currentLease s = Some l"
      "lr_digest l \<noteq> None" "lr_activatedAt l \<noteq> None"
  | (released) "cl_handoffState s = RELEASED" "cl_controlState s = INACTIVE" "cl_owner s = OwnerNone" "cl_currentLease s = None"
  | (expired) "cl_handoffState s = EXPIRED" "cl_controlState s = INACTIVE" "cl_owner s = OwnerNone"
      "\<forall>l. cl_currentLease s = Some l \<longrightarrow> lr_digest l = None"
  using assms unfolding control_wf_def
  by (cases "cl_handoffState s"; cases "cl_currentLease s") auto

text \<open>The state in which \<open>expireLease\<close> leaves a due lease.\<close>

definition expired_at :: "int \<Rightarrow> 'd control \<Rightarrow> 'd control" where
  "expired_at now s = (clearDigest (clearExpiryTimer s))\<lparr>cl_controlState := INACTIVE, cl_owner := OwnerNone,
     cl_handoffState := EXPIRED, cl_expiredAt := Some now, cl_releasedAt := None\<rparr>"

lemma expireIfDue_cases:
  obtains (idle) r where "expireIfDue clk s = (r, s)" "r \<noteq> Inr True" "r = Inr False \<or> clk = None"
      "\<forall>l. r = Inr False \<longrightarrow> cl_handoffState s \<in> {PENDING, ACTIVE} \<longrightarrow> cl_currentLease s = Some l
        \<longrightarrow> (\<exists>now. clk = Some now \<and> now < lr_expiresAt l)"
  | (due) now l where "clk = Some now" "cl_currentLease s = Some l" "lr_expiresAt l \<le> now"
      "cl_handoffState s \<in> {PENDING, ACTIVE}" "expireIfDue clk s = (Inr True, expired_at now s)"
proof (cases "cl_handoffState s \<in> {PENDING, ACTIVE} \<and> (\<exists>now l. clk = Some now \<and> cl_currentLease s = Some l \<and> lr_expiresAt l \<le> now)")
  case True
  then obtain now l where d: "clk = Some now" "cl_currentLease s = Some l" "lr_expiresAt l \<le> now" "cl_handoffState s \<in> {PENDING, ACTIVE}"
    by blast
  moreover have "expireIfDue clk s = (Inr True, expired_at now s)"
    using d by (auto simp: expireIfDue_def expireLease_def andthen_def readNow_def expired_at_def)
  ultimately show ?thesis by (rule due)
next
  case False
  then show ?thesis
    by (cases "cl_currentLease s"; cases clk)
       (auto intro!: idle[of "fst (expireIfDue clk s)"] simp: expireIfDue_def andthen_def readNow_def split: if_split_asm)
qed

lemma expired_at_wf: "control_wf s \<Longrightarrow> control_wf (expired_at now s)"
  by (cases "cl_currentLease s") (auto simp: expired_at_def control_wf_def control_ops split: option.splits)

lemma expireIfDue_wf: "control_wf s \<Longrightarrow> control_wf (snd (expireIfDue clk s))"
  by (cases rule: expireIfDue_cases[of clk s]) (simp_all add: expired_at_wf)

lemma fireTimer_wf: "control_wf s \<Longrightarrow> control_wf (snd (fireTimer clk i s))"
  by (cases rule: control_wf_cases[of s]; cases "cl_expiryTimer s = Some i")
     (auto simp: fireTimer_def expireLease_def control_wf_def andthen_def control_ops split: option.splits if_splits)

text \<open>Every operation starts with \<open>expireIfDue\<close>, then checks, then writes in one step.\<close>

lemma check_post [simp]: "snd (check r s) = s" "snd (throw e s) = s" "snd (readNow clk s) = s"
    "snd (assertToken sha tok s) = s" "snd (reply s) = s"
  by (simp_all add: control_ops)

lemma scheduleExpiry_wf:
  "control_phase (cl_handoffState s) (cl_controlState s) (cl_owner s) (cl_currentLease s)
   \<Longrightarrow> \<forall>i. cl_expiryTimer s \<noteq> Some i \<longrightarrow> cl_pending s i = None \<Longrightarrow> control_wf (scheduleExpiry g s)"
  by (auto simp: scheduleExpiry_def control_wf_def control_ops split: option.splits)

lemma requestHandoff_wf: "control_wf s \<Longrightarrow> control_wf (snd (requestHandoff sha clk gen actor reason ttl s))"
proof -
  assume wf: "control_wf s"
  obtain r1 s1 where e: "expireIfDue clk s = (r1, s1)" by (cases "expireIfDue clk s")
  with expireIfDue_wf[OF wf, of clk] have wf1: "control_wf s1" by simp
  then have "\<forall>i. cl_expiryTimer s1 \<noteq> Some i \<longrightarrow> cl_pending s1 i = None" by (simp add: control_wf_def)
  with wf1 e show ?thesis
    by (auto simp: requestHandoff_def andthen_def check_def throw_def readNow_def Let_def issueToken_def
             intro!: scheduleExpiry_wf split: sum.splits prod.splits option.splits if_splits)
qed

lemmas control_op_defs = andthen_def check_def throw_def readNow_def reply_def assertToken_def Let_def
  clearExpiryTimer_def clearDigest_def

lemma control_op_wf:
  assumes "control_wf s"
  shows "control_wf (snd (takeover sha clk actor tok c s))" "control_wf (snd (releaseControl sha clk actor tok c s))"
    "control_wf (snd (resume clk actor s))" "control_wf (snd (recoverExpired clk actor c s))"
    "control_wf (snd (assertCanAct sha clk who tokarg s))" "control_wf (snd (getStatus clk s))"
    "control_wf (snd (dispose clk s))"
proof -
  obtain r1 s1 where e: "expireIfDue clk s = (r1, s1)" by (cases "expireIfDue clk s")
  with expireIfDue_wf[OF assms, of clk] have wf: "control_wf s1" by simp
  have timers: "\<forall>i. cl_expiryTimer s1 \<noteq> Some i \<longrightarrow> cl_pending s1 i = None"
    "\<forall>i. cl_expiryTimer s \<noteq> Some i \<longrightarrow> cl_pending s i = None"
    using wf assms by (simp_all add: control_wf_def)
  show "control_wf (snd (takeover sha clk actor tok c s))"
    using wf timers by (cases rule: control_wf_cases)
      (auto simp: e takeover_def control_op_defs control_wf_def split: sum.splits option.splits if_splits)
  show "control_wf (snd (releaseControl sha clk actor tok c s))"
    using wf timers by (cases rule: control_wf_cases)
      (auto simp: e releaseControl_def control_op_defs control_wf_def split: sum.splits option.splits if_splits)
  show "control_wf (snd (resume clk actor s))"
    using wf timers by (cases rule: control_wf_cases)
      (auto simp: e resume_def control_op_defs control_wf_def split: sum.splits option.splits if_splits)
  show "control_wf (snd (recoverExpired clk actor c s))"
    using wf timers by (cases rule: control_wf_cases)
      (auto simp: e recoverExpired_def control_op_defs control_wf_def split: sum.splits option.splits if_splits)
  show "control_wf (snd (assertCanAct sha clk who tokarg s))"
    using wf assms by (auto simp: e assertCanAct_def assertAgentControl_def assertUserControl_def control_op_defs
        split: control_actor.split sum.splits option.splits if_splits)
  show "control_wf (snd (getStatus clk s))"
    using wf by (simp add: e getStatus_def andthen_def split: sum.split)
  show "control_wf (snd (dispose clk s))"
    using assms timers by (cases rule: control_wf_cases)
      (auto simp: dispose_def control_op_defs control_wf_def split: option.splits if_splits)
qed

lemma control_step_wf: "control_wf s \<Longrightarrow> control_wf (control_step sha s e)"
  by (cases "(sha, s, e)" rule: control_step.cases)
     (simp_all add: requestHandoff_wf control_op_wf fireTimer_wf)

interpretation control_machine: machine "control_step sha" control_wf for sha
  by unfold_locales (rule control_step_wf)

lemma newControlLease_wf: "newControlLease clk ttl maxTtl bytes = Inr s \<Longrightarrow> control_wf s"
  by (auto simp: newControlLease_def control_wf_def split: sum.splits option.splits if_splits)

subsection \<open>Every live handoff has its timer\<close>

lemma expired_at_not_live [simp]: "cl_handoffState (expired_at now s) = EXPIRED"
  by (simp add: expired_at_def)

lemma expireIfDue_covered: "control_covered s \<Longrightarrow> control_covered (snd (expireIfDue clk s))"
  by (cases rule: expireIfDue_cases[of clk s]) (simp_all add: control_covered_def)

lemma fireTimer_covered:
  assumes "control_wf s" "control_covered s" "clk \<noteq> None"
  shows "control_covered (snd (fireTimer clk i s))"
  using assms(1)
proof (cases rule: control_wf_cases)
  case (pending l)
  with assms show ?thesis
    by (cases "cl_expiryTimer s = Some i")
       (auto simp: fireTimer_def expireLease_def control_covered_def control_wf_def andthen_def control_ops split: option.splits if_splits)
next
  case (active l)
  with assms show ?thesis
    by (cases "cl_expiryTimer s = Some i")
       (auto simp: fireTimer_def expireLease_def control_covered_def control_wf_def andthen_def control_ops split: option.splits if_splits)
qed (auto simp: fireTimer_def expireLease_def control_covered_def andthen_def control_ops split: option.splits if_splits)

lemma scheduleExpiry_covered:
  "map_option lr_generation (cl_currentLease s) = Some g \<Longrightarrow> control_covered (scheduleExpiry g s)"
  by (auto simp: scheduleExpiry_def control_covered_def control_ops split: option.splits)

lemma requestHandoff_covered:
  assumes "control_covered s"
  shows "control_covered (snd (requestHandoff sha clk gen actor reason ttl s))"
proof -
  obtain r1 s1 where e: "expireIfDue clk s = (r1, s1)" by (cases "expireIfDue clk s")
  with expireIfDue_covered[OF assms, of clk] have "control_covered s1" by simp
  with e show ?thesis
    by (auto simp: requestHandoff_def andthen_def check_def throw_def readNow_def Let_def issueToken_def
             intro!: scheduleExpiry_covered split: sum.splits prod.splits option.splits if_splits)
qed

lemma control_op_covered:
  assumes "control_covered s" and wf: "control_wf s"
  shows "control_covered (snd (takeover sha clk actor tok c s))" "control_covered (snd (releaseControl sha clk actor tok c s))"
    "control_covered (snd (resume clk actor s))" "control_covered (snd (recoverExpired clk actor c s))"
    "control_covered (snd (assertCanAct sha clk who tokarg s))" "control_covered (snd (getStatus clk s))"
    "control_covered (snd (dispose clk s))"
proof -
  obtain r1 s1 where e: "expireIfDue clk s = (r1, s1)" by (cases "expireIfDue clk s")
  with expireIfDue_covered[OF assms(1), of clk] have cov: "control_covered s1" by simp
  have "control_wf s1" using expireIfDue_wf[OF wf, of clk] e by simp
  then have known: "cl_handoffState s1 \<noteq> USER_ACTIVE" by (auto simp: control_wf_def)
  show "control_covered (snd (takeover sha clk actor tok c s))"
    using cov known by (cases "cl_handoffState s1"; cases "cl_currentLease s1"; cases "cl_expiryTimer s1")
      (simp_all add: e takeover_def control_op_defs control_covered_def split: sum.splits option.splits)
  show "control_covered (snd (releaseControl sha clk actor tok c s))"
    using cov known by (cases "cl_handoffState s1"; cases "cl_currentLease s1"; cases "cl_expiryTimer s1")
      (simp_all add: e releaseControl_def control_op_defs control_covered_def split: sum.splits option.splits)
  show "control_covered (snd (resume clk actor s))"
    using cov known by (cases "cl_handoffState s1"; cases "cl_currentLease s1"; cases "cl_expiryTimer s1")
      (simp_all add: e resume_def control_op_defs control_covered_def split: sum.splits)
  show "control_covered (snd (recoverExpired clk actor c s))"
    using cov known by (cases "cl_handoffState s1"; cases "cl_currentLease s1"; cases "cl_expiryTimer s1")
      (simp_all add: e recoverExpired_def control_op_defs control_covered_def split: sum.splits option.splits)
  show "control_covered (snd (assertCanAct sha clk who tokarg s))"
    using cov assms by (auto simp: e assertCanAct_def assertAgentControl_def assertUserControl_def control_op_defs
        split: control_actor.split sum.splits option.splits if_splits)
  show "control_covered (snd (getStatus clk s))"
    using cov by (simp add: e getStatus_def andthen_def split: sum.split)
  show "control_covered (snd (dispose clk s))"
    by (auto simp: dispose_def control_op_defs control_covered_def split: option.splits)
qed

lemma control_run_covered:
  "control_wf s \<Longrightarrow> control_covered s \<Longrightarrow> \<forall>e \<in> set es. fst e \<noteq> None
   \<Longrightarrow> control_covered (foldl (control_step sha) s es)"
proof (induction es arbitrary: s)
  case Nil
  then show ?case by simp
next
  case (Cons e es)
  then have "control_covered (control_step sha s e)"
    by (cases "(sha, s, e)" rule: control_step.cases)
       (simp_all add: requestHandoff_covered control_op_covered fireTimer_covered)
  with Cons show ?case by (simp add: control_step_wf)
qed

subsection \<open>Properties\<close>

text \<open>
  C7: in every state that a fresh manager reaches under a finite clock, the three state fields
  name one of five phases, the agent and a user are never both allowed to write, at most one
  timer is pending, and every pending or active handoff has the timer of its own lease pending,
  so its expiry cannot be lost.
\<close>

theorem control_consistent:
  fixes sha :: "string \<Rightarrow> 'd"
  assumes "newControlLease clk ttl maxTtl bytes = Inr s0" and "\<forall>e \<in> set es. fst e \<noteq> None"
  defines "s \<equiv> foldl (control_step sha) s0 es"
  shows "(cl_handoffState s, cl_controlState s, cl_owner s) \<in>
       {(NONE, AGENT_CONTROLLED, OwnerAgent), (PENDING, INACTIVE, OwnerNone),
        (ACTIVE, USER_CONTROLLED, OwnerUser), (RELEASED, INACTIVE, OwnerNone), (EXPIRED, INACTIVE, OwnerNone)}
    \<and> \<not> (st_agentWriteAllowed (statusUnsafe s) \<and> st_userControlActive (statusUnsafe s))
    \<and> (\<forall>i j. cl_pending s i \<noteq> None \<longrightarrow> cl_pending s j \<noteq> None \<longrightarrow> i = j)
    \<and> (cl_handoffState s \<in> {PENDING, ACTIVE} \<longrightarrow>
        (\<exists>l i. cl_currentLease s = Some l \<and> cl_pending s i = Some (lr_generation l)))"
proof -
  have s0: "control_wf s0" "control_covered s0"
    using newControlLease_wf[OF assms(1)] assms(1)
    by (auto simp: newControlLease_def control_covered_def split: sum.splits option.splits if_splits)
  have wf: "control_wf s" unfolding s_def by (rule control_machine.run_good[OF s0(1)])
  have "control_covered s" unfolding s_def by (rule control_run_covered[OF s0 assms(2)])
  then have "cl_handoffState s \<in> {PENDING, ACTIVE} \<longrightarrow>
        (\<exists>l i. cl_currentLease s = Some l \<and> cl_pending s i = Some (lr_generation l))"
    by (auto simp: control_covered_def split: option.splits)
  moreover have "\<forall>i j. cl_pending s i \<noteq> None \<longrightarrow> cl_pending s j \<noteq> None \<longrightarrow> i = j"
    using wf unfolding control_wf_def by (metis option.inject)
  ultimately show ?thesis
    by (cases rule: control_wf_cases[OF wf]) (simp_all add: statusUnsafe_def agentWriteAllowed_def Let_def)
qed

definition fresh_control :: "'d control" where
  "fresh_control = (case newControlLease (Some 0) None None None of Inr s \<Rightarrow> s)"

lemma fresh_control: "newControlLease (Some 0) None None None = Inr fresh_control"
  by (simp add: fresh_control_def newControlLease_def validateDuration_def validateTokenBytes_def
      DEFAULT_TTL_MS_def DEFAULT_MAX_TTL_MS_def)

theorem control_consistent_witness:
  "\<not> (st_agentWriteAllowed (statusUnsafe (foldl (control_step id) fresh_control
         [(Some 5, EvHandoff (Some ''tok'') NoActor None None), (Some 9, EvTakeover NoActor ''tok'' True)]))
     \<and> st_userControlActive (statusUnsafe (foldl (control_step id) fresh_control
         [(Some 5, EvHandoff (Some ''tok'') NoActor None None), (Some 9, EvTakeover NoActor ''tok'' True)])))"
  using control_consistent[OF fresh_control, of "[(Some 5, EvHandoff (Some ''tok'') NoActor None None),
      (Some 9, EvTakeover NoActor ''tok'' True)]" id]
  by simp

text \<open>A request in which a user confirms the release, or the recovery, of the handoff.\<close>

fun user_confirms :: "control_event \<Rightarrow> bool" where
  "user_confirms (EvRelease actor tok c) = (c \<and> (actor = NoActor \<or> actor = Actor UserActor))"
| "user_confirms (EvRecover actor c) = (c \<and> (actor = NoActor \<or> actor = Actor UserActor))"
| "user_confirms _ = False"

lemma unconfirmed_step:
  assumes "control_wf s" "cl_handoffState s \<in> {PENDING, ACTIVE, EXPIRED}" "\<not> user_confirms (snd e)"
  shows "cl_handoffState (control_step sha s e) \<in> {PENDING, ACTIVE, EXPIRED}"
proof -
  obtain clk ev where ev: "e = (clk, ev)" by (cases e)
  obtain r1 s1 where e: "expireIfDue clk s = (r1, s1)" by (cases "expireIfDue clk s")
  have "cl_handoffState s1 \<in> {PENDING, ACTIVE, EXPIRED}"
    using assms(2) e by (cases rule: expireIfDue_cases[of clk s]) auto
  moreover have "cl_controlState s1 = USER_CONTROLLED \<longleftrightarrow> cl_handoffState s1 = ACTIVE"
    using expireIfDue_wf[OF assms(1), of clk] e by (auto elim!: control_wf_cases)
  ultimately have ops: "cl_handoffState (control_step sha s (clk, ev)) \<in> {PENDING, ACTIVE, EXPIRED}" if "\<forall>i. ev \<noteq> EvTimer i"
    using that assms(2,3) unfolding ev
    by (cases ev; cases "cl_handoffState s1")
       (simp_all add: e requestHandoff_def takeover_def releaseControl_def resume_def recoverExpired_def
          assertCanAct_def assertAgentControl_def assertUserControl_def getStatus_def dispose_def
          scheduleExpiry_def normalizeActor_def assertUserConfirmation_def
          control_op_defs armTimer_def
          split: sum.splits option.splits actor_arg.splits control_actor.splits, auto)
  have "cl_handoffState (snd (fireTimer clk i s)) \<in> {PENDING, ACTIVE, EXPIRED}" for i
    using assms(2) by (auto simp: fireTimer_def expireLease_def control_ops andthen_def split: option.splits)
  with ops show ?thesis unfolding ev by (cases ev) simp_all
qed

lemma unconfirmed_run:
  "control_wf s \<Longrightarrow> cl_handoffState s \<in> {PENDING, ACTIVE, EXPIRED} \<Longrightarrow> \<forall>e \<in> set es. \<not> user_confirms (snd e)
   \<Longrightarrow> cl_handoffState (foldl (control_step sha) s es) \<in> {PENDING, ACTIVE, EXPIRED}"
  by (induction es arbitrary: s) (simp_all add: unconfirmed_step control_step_wf del: insert_iff)

lemma assertAgentControl_iff:
  "fst (assertAgentControl clk s) = Inr () \<Longrightarrow> cl_handoffState s = NONE \<and> cl_controlState s = AGENT_CONTROLLED"
  by (cases rule: expireIfDue_cases[of clk s])
     (auto simp: assertAgentControl_def control_op_defs split: sum.splits if_splits)

text \<open>
  C8: once a handoff has been requested, no sequence of requests, timers and retries in which no
  user confirms a release or a recovery lets the agent write again: the guard every agent write
  passes keeps throwing.
\<close>

theorem no_agent_write_without_release:
  assumes "newControlLease clk0 ttl maxTtl bytes = Inr s0"
    and "cl_handoffState (foldl (control_step sha) s0 es1) \<in> {PENDING, ACTIVE, EXPIRED}"
    and "\<forall>e \<in> set es2. \<not> user_confirms (snd e)"
  shows "fst (assertAgentControl clk (foldl (control_step sha) s0 (es1 @ es2))) \<noteq> Inr ()
    \<and> \<not> agentWriteAllowed (foldl (control_step sha) s0 (es1 @ es2))"
proof -
  have "control_wf (foldl (control_step sha) s0 es1)"
    by (rule control_machine.run_good[OF newControlLease_wf[OF assms(1)]])
  from unconfirmed_run[OF this assms(2,3), of sha] show ?thesis
    by (auto dest: assertAgentControl_iff simp: agentWriteAllowed_def)
qed

theorem no_agent_write_without_release_witness:
  "fst (assertAgentControl (Some 999999) (foldl (control_step id) fresh_control
      ([(Some 5, EvHandoff (Some ''tok'') NoActor None None)]
       @ [(Some 6, EvTakeover NoActor ''tok'' True), (Some 7, EvResume NoActor), (Some 999998, EvRecover (Actor AgentActor) True)])))
     \<noteq> Inr ()"
  by (rule no_agent_write_without_release[OF fresh_control, THEN conjunct1]) (code_simp, simp)

text \<open>The handoff is over, or it waits for the token with digest \<open>d\<close>.\<close>

definition awaiting :: "'d \<Rightarrow> 'd control \<Rightarrow> bool" where
  "awaiting d s \<longleftrightarrow> cl_handoffState s \<in> {NONE, RELEASED, EXPIRED}
     \<or> cl_handoffState s = PENDING \<and> (\<exists>l. cl_currentLease s = Some l \<and> lr_digest l = Some d)"

fun presents :: "(string \<Rightarrow> 'd) \<Rightarrow> 'd \<Rightarrow> control_event \<Rightarrow> bool" where
  "presents sha d (EvHandoff gen actor reason ttl) = True"
| "presents sha d (EvTakeover actor tok c) = (sha tok = d)"
| "presents sha d _ = False"

lemma awaiting_step:
  assumes "control_wf s" "awaiting d s" "\<not> presents sha d (snd e)"
  shows "awaiting d (control_step sha s e)"
proof -
  obtain clk ev where ev: "e = (clk, ev)" by (cases e)
  obtain r1 s1 where e: "expireIfDue clk s = (r1, s1)" by (cases "expireIfDue clk s")
  have s1: "awaiting d s1"
    using assms(2) e by (cases rule: expireIfDue_cases[of clk s]) (auto simp: awaiting_def)
  moreover have "control_wf s1" using expireIfDue_wf[OF assms(1), of clk] e by simp
  ultimately have "awaiting d (control_step sha s (clk, ev))" if "\<forall>i. ev \<noteq> EvTimer i"
    using that assms(2,3) unfolding ev
    by (cases ev; cases "cl_handoffState s1")
       (simp_all add: e takeover_def releaseControl_def resume_def recoverExpired_def awaiting_def
          assertCanAct_def assertAgentControl_def assertUserControl_def getStatus_def dispose_def
          assertUserConfirmation_def matchesToken_def control_op_defs
          split: sum.splits option.splits control_actor.splits, auto)
  moreover have "awaiting d (snd (fireTimer clk i s))" for i
    using assms(2) by (auto simp: awaiting_def fireTimer_def expireLease_def control_ops andthen_def split: option.splits)
  ultimately show ?thesis unfolding ev by (cases ev) simp_all
qed

lemma awaiting_run:
  "control_wf s \<Longrightarrow> awaiting d s \<Longrightarrow> \<forall>e \<in> set es. \<not> presents sha d (snd e)
   \<Longrightarrow> awaiting d (foldl (control_step sha) s es)"
  by (induction es arbitrary: s) (simp_all add: awaiting_step control_step_wf)

lemma requestHandoff_grants:
  assumes "requestHandoff sha clk gen actor reason ttl s = (Inr (st, tok), s')"
  shows "gen = Some tok \<and> cl_handoffState s' = PENDING
    \<and> (\<exists>now t. clk = Some now \<and> 0 < t \<and> t \<le> cl_maxTtlMs s'
         \<and> validateDuration (case ttl of Some v \<Rightarrow> v | None \<Rightarrow> IntN (cl_ttlMs s')) ''ttlMs'' = Inr t
         \<and> (\<exists>l. cl_currentLease s' = Some l \<and> lr_digest l = Some (sha tok) \<and> lr_expiresAt l = now + t))"
proof -
  obtain r1 s1 where e: "expireIfDue clk s = (r1, s1)" by (cases "expireIfDue clk s")
  have [simp]: "cl_handoffState (scheduleExpiry g x) = cl_handoffState x" "cl_currentLease (scheduleExpiry g x) = cl_currentLease x"
    "cl_maxTtlMs (scheduleExpiry g x) = cl_maxTtlMs x" "cl_ttlMs (scheduleExpiry g x) = cl_ttlMs x" for g and x :: "'d control"
    by (simp_all add: scheduleExpiry_def control_ops split: option.split)
  have pos: "validateDuration v f = Inr t \<Longrightarrow> 0 < t" for v f t
    by (auto simp: validateDuration_def split: jsnum.splits if_splits)
  show ?thesis
    using assms pos
    by (auto simp: e requestHandoff_def andthen_def check_def throw_def readNow_def Let_def issueToken_def
             split: sum.splits prod.splits option.splits if_splits)
qed

text \<open>
  C9: only the token that the handoff returned opens user control: after a granted handoff, until
  a takeover presents a token with that digest (or the agent asks for another handoff), no
  sequence of requests ever makes user control active, and the user write guard rejects every token.
\<close>

theorem takeover_needs_token:
  assumes "newControlLease clk0 ttl0 maxTtl bytes = Inr s0"
    and "requestHandoff sha clk gen actor reason ttl (foldl (control_step sha) s0 es1) = (Inr (st, tok), s1)"
    and "\<forall>e \<in> set es2. \<not> presents sha (sha tok) (snd e)"
  shows "\<not> st_userControlActive (statusUnsafe (foldl (control_step sha) s1 es2))
    \<and> fst (assertUserControl sha clk2 other (foldl (control_step sha) s1 es2)) \<noteq> Inr ()"
proof -
  let ?s = "foldl (control_step sha) s1 es2"
  have "control_wf (foldl (control_step sha) s0 es1)"
    by (rule control_machine.run_good[OF newControlLease_wf[OF assms(1)]])
  from requestHandoff_wf[OF this, of sha clk gen actor reason ttl] assms(2) have "control_wf s1" by simp
  moreover have "awaiting (sha tok) s1"
    using requestHandoff_grants[OF assms(2)] by (auto simp: awaiting_def)
  ultimately have "awaiting (sha tok) ?s" by (rule awaiting_run[OF _ _ assms(3)])
  then have "cl_handoffState ?s \<noteq> ACTIVE" by (auto simp: awaiting_def)
  then show ?thesis
    by (cases rule: expireIfDue_cases[of clk2 ?s])
       (auto simp: statusUnsafe_def Let_def assertUserControl_def control_op_defs split: sum.splits if_splits)
qed

theorem takeover_needs_token_witness:
  "\<not> st_userControlActive (statusUnsafe (foldl (control_step id)
      (snd (requestHandoff id (Some 5) (Some ''tok'') NoActor None None fresh_control))
      [(Some 6, EvTakeover NoActor ''guess'' True), (Some 7, EvRelease NoActor ''tok'' True)]))"
proof -
  let ?r = "requestHandoff id (Some 5) (Some ''tok'') NoActor None None fresh_control"
  have tok: "map_sum (\<lambda>_. ()) snd (fst ?r) = Inr ''tok''" by code_simp
  then obtain st where "?r = (Inr (st, ''tok''), snd ?r)"
    by (cases "?r"; cases "fst ?r") auto
  then show ?thesis
    using takeover_needs_token[OF fresh_control, where ?es1.0 = "[]" and ?sha = id and ?st = st
        and ?tok = "''tok''" and ?clk = "Some 5" and ?gen = "Some ''tok''"
        and ?actor = NoActor and ?reason = None and ?ttl = None and ?s1.0 = "snd ?r"
        and ?es2.0 = "[(Some 6, EvTakeover NoActor ''guess'' True), (Some 7, EvRelease NoActor ''tok'' True)]"]
    by simp
qed

lemma expireIfDue_not_yet:
  "cl_currentLease s = Some l \<Longrightarrow> t < lr_expiresAt l \<Longrightarrow> expireIfDue (Some t) s = (Inr False, s)"
  by (simp add: expireIfDue_def readNow_def andthen_def)

lemma expireIfDue_due:
  "cl_currentLease s = Some l \<Longrightarrow> lr_expiresAt l \<le> t \<Longrightarrow> cl_handoffState s \<in> {PENDING, ACTIVE}
   \<Longrightarrow> expireIfDue (Some t) s = (Inr True, expired_at t s)"
  by (cases rule: expireIfDue_cases[of "Some t" s]) auto

lemma expireIfDue_settled:
  "cl_currentLease s = None \<Longrightarrow> expireIfDue clk s = (Inr False, s)"
  by (simp add: expireIfDue_def)

text \<open>A handoff granted by \<open>requestHandoff\<close>, seen by its lease.\<close>

lemma granted_lease:
  assumes "requestHandoff sha clk gen actor reason ttl s = (Inr (st, tok), s1)" and "st_expiresAt st = Some x"
  shows "cl_handoffState s1 = PENDING \<and> matchesTokenShape tok
    \<and> (\<exists>l. cl_currentLease s1 = Some l \<and> lr_digest l = Some (sha tok) \<and> lr_expiresAt l = x)"
proof -
  obtain r0 s0 where e: "expireIfDue clk s = (r0, s0)" by (cases "expireIfDue clk s")
  have "st = statusUnsafe s1 \<and> matchesTokenShape tok"
    using assms(1)
    by (auto simp: e requestHandoff_def andthen_def check_def throw_def readNow_def Let_def issueToken_def matchesTokenShape_def
             split: sum.splits prod.splits option.splits if_splits)
  moreover obtain l where "cl_handoffState s1 = PENDING" "cl_currentLease s1 = Some l" "lr_digest l = Some (sha tok)"
    using requestHandoff_grants[OF assms(1)] by blast
  ultimately show ?thesis using assms(2) by (auto simp: statusUnsafe_def Let_def)
qed

text \<open>
  C10: the whole two-phase cycle works: with a granted handoff, before its expiry, the user's
  confirmed takeover with the token succeeds, the user may write and the agent may not, the
  confirmed release succeeds but leaves the agent blocked, and the agent's own \<open>resume\<close> returns
  control to it.
\<close>

theorem handoff_cycle:
  fixes t3 :: int
  assumes "requestHandoff sha clk gen actor reason ttl s = (Inr (st, tok), s1)"
    and "st_expiresAt st = Some x" and "t1 < x" and "t2 < x"
  defines "s2 \<equiv> snd (takeover sha (Some t1) NoActor tok True s1)"
  defines "s3 \<equiv> snd (releaseControl sha (Some t2) NoActor tok True s2)"
  defines "s4 \<equiv> snd (resume (Some t3) NoActor s3)"
  shows "cl_handoffState s2 = ACTIVE \<and> fst (assertUserControl sha (Some t2) tok s2) = Inr ()
    \<and> fst (assertAgentControl (Some t2) s2) = Inl MANUAL_TAKEOVER_ACTIVE
    \<and> cl_handoffState s3 = RELEASED \<and> fst (assertAgentControl (Some t3) s3) = Inl INVALID_STATE
    \<and> fst (assertAgentControl (Some t3) s4) = Inr ()"
proof -
  obtain l where l: "cl_handoffState s1 = PENDING" "matchesTokenShape tok" "cl_currentLease s1 = Some l"
      "lr_digest l = Some (sha tok)" "lr_expiresAt l = x"
    using granted_lease[OF assms(1,2)] by blast
  have shape: "tok \<noteq> []" using l(2) by (simp add: matchesTokenShape_def)
  have s2: "s2 = s1\<lparr>cl_currentLease := Some (l\<lparr>lr_activatedAt := Some t1\<rparr>), cl_lastActivatedAt := Some t1,
      cl_controlState := USER_CONTROLLED, cl_owner := OwnerUser, cl_handoffState := ACTIVE\<rparr>"
    using l shape assms(3)
    by (simp add: s2_def takeover_def expireIfDue_not_yet control_op_defs normalizeActor_def assertUserConfirmation_def matchesToken_def)
  have e2: "expireIfDue (Some t2) s2 = (Inr False, s2)"
    by (rule expireIfDue_not_yet[of _ "l\<lparr>lr_activatedAt := Some t1\<rparr>"]) (use l assms(4) in \<open>simp_all add: s2\<close>)
  have m2: "matchesToken sha tok s2" "cl_handoffState s2 = ACTIVE" "cl_controlState s2 = USER_CONTROLLED"
    using l shape by (simp_all add: s2 matchesToken_def)
  have s3: "cl_handoffState s3 = RELEASED" "cl_controlState s3 = INACTIVE" "cl_currentLease s3 = None"
    using l(2) m2 by (simp_all add: s3_def releaseControl_def e2 control_op_defs normalizeActor_def assertUserConfirmation_def)
  have e3: "expireIfDue (Some t3) s3 = (Inr False, s3)" by (rule expireIfDue_settled[OF s3(3)])
  have s4: "cl_handoffState s4 = NONE" "cl_controlState s4 = AGENT_CONTROLLED" "cl_currentLease s4 = None"
    using s3 by (simp_all add: s4_def resume_def e3 control_op_defs normalizeActor_def)
  show ?thesis
    using s3 s4 m2 l(2)
    by (simp add: assertUserControl_def assertAgentControl_def e2 e3 expireIfDue_settled[OF s4(3)] control_op_defs)
qed

lemma fresh_grant:
  "requestHandoff id (Some 5) (Some ''tok'') NoActor None None fresh_control
     = (Inr (statusUnsafe (snd (requestHandoff id (Some 5) (Some ''tok'') NoActor None None fresh_control)), ''tok''),
        snd (requestHandoff id (Some 5) (Some ''tok'') NoActor None None fresh_control))"
  "st_expiresAt (statusUnsafe (snd (requestHandoff id (Some 5) (Some ''tok'') NoActor None None fresh_control))) = Some 300005"
  by (simp_all add: requestHandoff_def expireIfDue_def control_ops andthen_def normalizeActor_def validateReason_def
      issueToken_def control_char_def scheduleExpiry_def statusUnsafe_def fresh_control_def newControlLease_def
      validateDuration_def validateTokenBytes_def DEFAULT_TTL_MS_def DEFAULT_MAX_TTL_MS_def)

theorem handoff_cycle_witness:
  "cl_handoffState (snd (takeover id (Some 6) NoActor ''tok'' True
      (snd (requestHandoff id (Some 5) (Some ''tok'') NoActor None None fresh_control)))) = ACTIVE"
  using handoff_cycle[OF fresh_grant, of 6 7 8] by simp

text \<open>
  Expiry is enforced by the clock, not by the timer: from \<open>expiresAt\<close> on, even when the timer
  never fires, a takeover with the right token and a user write are both refused as expired, the
  agent stays blocked, and only a user's confirmed recovery followed by \<open>resume\<close> unblocks it.
\<close>

theorem handoff_expiry:
  fixes t3 :: int
  assumes "requestHandoff sha clk gen actor reason ttl s = (Inr (st, tok), s1)"
    and "st_expiresAt st = Some x" and "t1 < x" and "x \<le> t2"
  defines "s2 \<equiv> snd (takeover sha (Some t1) NoActor tok True s1)"
  defines "s3 \<equiv> snd (recoverExpired (Some t2) NoActor True s2)"
  shows "fst (takeover sha (Some t2) NoActor tok True s1) = Inl HUMAN_HANDOFF_EXPIRED
    \<and> fst (assertUserControl sha (Some t2) tok s2) = Inl HUMAN_HANDOFF_EXPIRED
    \<and> fst (assertAgentControl (Some t2) s2) = Inl HUMAN_HANDOFF_EXPIRED
    \<and> fst (resume (Some t2) NoActor s2) = Inl HUMAN_HANDOFF_EXPIRED
    \<and> cl_handoffState s3 = RELEASED
    \<and> fst (assertAgentControl (Some t3) (snd (resume (Some t3) NoActor s3))) = Inr ()"
proof -
  obtain l where l: "cl_handoffState s1 = PENDING" "matchesTokenShape tok" "cl_currentLease s1 = Some l"
      "lr_digest l = Some (sha tok)" "lr_expiresAt l = x"
    using granted_lease[OF assms(1,2)] by blast
  have shape: "tok \<noteq> []" using l(2) by (simp add: matchesTokenShape_def)
  have s2: "s2 = s1\<lparr>cl_currentLease := Some (l\<lparr>lr_activatedAt := Some t1\<rparr>), cl_lastActivatedAt := Some t1,
      cl_controlState := USER_CONTROLLED, cl_owner := OwnerUser, cl_handoffState := ACTIVE\<rparr>"
    using l shape assms(3)
    by (simp add: s2_def takeover_def expireIfDue_not_yet control_op_defs normalizeActor_def assertUserConfirmation_def matchesToken_def)
  have e1: "expireIfDue (Some t2) s1 = (Inr True, expired_at t2 s1)"
    by (rule expireIfDue_due[OF l(3)]) (use l assms(4) in simp_all)
  have e2: "expireIfDue (Some t2) s2 = (Inr True, expired_at t2 s2)"
    by (rule expireIfDue_due[of _ "l\<lparr>lr_activatedAt := Some t1\<rparr>"]) (use l assms(4) in \<open>simp_all add: s2\<close>)
  have ctl: "cl_controlState (expired_at t2 s2) = INACTIVE" by (simp add: expired_at_def)
  have s3: "cl_handoffState s3 = RELEASED" "cl_controlState s3 = INACTIVE" "cl_currentLease s3 = None"
    by (simp_all add: s3_def recoverExpired_def e2 control_op_defs normalizeActor_def assertUserConfirmation_def)
  let ?s4 = "snd (resume (Some t3) NoActor s3)"
  have s4: "cl_handoffState ?s4 = NONE" "cl_controlState ?s4 = AGENT_CONTROLLED" "cl_currentLease ?s4 = None"
    using s3 by (simp_all add: resume_def expireIfDue_settled control_op_defs normalizeActor_def)
  have "fst (assertAgentControl (Some t3) ?s4) = Inr ()"
    using s4 by (simp add: assertAgentControl_def expireIfDue_settled control_op_defs)
  moreover have "fst (takeover sha (Some t2) NoActor tok True s1) = Inl HUMAN_HANDOFF_EXPIRED"
    by (simp add: takeover_def e1 control_op_defs normalizeActor_def assertUserConfirmation_def)
  ultimately show ?thesis
    using s3(1) ctl
    by (simp add: assertUserControl_def assertAgentControl_def resume_def e2 control_op_defs normalizeActor_def)
qed

theorem handoff_expiry_witness:
  "fst (takeover id (Some 300005) NoActor ''tok'' True
      (snd (requestHandoff id (Some 5) (Some ''tok'') NoActor None None fresh_control))) = Inl HUMAN_HANDOFF_EXPIRED"
  using handoff_expiry[OF fresh_grant, of 6 300005] by simp

end
