(* ===== verification/TaskTypes.thy ===== *)
theory TaskTypes
  imports Prelude
begin

text \<open>
  \<open>src/distributed/types.ts\<close> and \<open>tenant.ts\<close>: tenants, distributed tasks, worker nodes.
  Priorities are ordered (\<open>linorder\<close>) the way their names suggest; the code has no such order of
  its own, so that only statements about ordering use it.
\<close>

subsection \<open>Tenants\<close>

definition DEFAULT_TENANT_ID :: string where "DEFAULT_TENANT_ID = ''default''"

definition char_in :: "char \<Rightarrow> char \<Rightarrow> char \<Rightarrow> bool" where
  "char_in lo hi c = (of_char lo \<le> (of_char c :: nat) \<and> (of_char c :: nat) \<le> of_char hi)"

definition alnum_char :: "char \<Rightarrow> bool" where
  "alnum_char c = (char_in (CHR ''A'') (CHR ''Z'') c \<or> char_in (CHR ''a'') (CHR ''z'') c
     \<or> char_in (CHR ''0'') (CHR ''9'') c)"

definition ident_char :: "char \<Rightarrow> bool" where
  "ident_char c = (alnum_char c \<or> c \<in> {CHR ''.'', CHR ''_'', CHR ''-''})"

text \<open>\<open>/^[A-Za-z0-9][A-Za-z0-9._-]{0,n}$/\<close>.\<close>

fun ident_pattern :: "nat \<Rightarrow> string \<Rightarrow> bool" where
  "ident_pattern n [] = False"
| "ident_pattern n (c # cs) = (alnum_char c \<and> length cs \<le> n \<and> list_all ident_char cs)"

definition isTenantId :: "string \<Rightarrow> bool" where
  "isTenantId v = ident_pattern 63 v"

definition normalizeTenantId :: "string option \<Rightarrow> string option" where
  "normalizeTenantId v =
     (let tenantId = (case v of Some t \<Rightarrow> t | None \<Rightarrow> DEFAULT_TENANT_ID)
      in if isTenantId tenantId then Some tenantId else None)"

subsection \<open>Tasks\<close>

datatype task_priority = LOW | NORMAL | HIGH | CRITICAL

datatype execution_mode = FetchMode | BrowserMode

datatype task_state = TPending | TRunning | TCompleted | TFailed | TRetrying | TCancelled

datatype task_phase = PhQueued | PhRunning | PhRetrying | PhCompleted | PhFailed | PhCancelled

record task_event =
  ev_at :: int
  ev_state :: task_state
  ev_phase :: task_phase
  ev_message :: string
  ev_workerId :: "string option"

record task =
  t_id :: string
  t_tenantId :: string
  t_projectId :: "string option"
  t_runId :: "string option"
  t_url :: string
  t_mode :: execution_mode
  t_priority :: task_priority
  t_state :: task_state
  t_retries :: int
  t_maxRetries :: int
  t_workerId :: "string option"
  t_leaseId :: "string option"
  t_sessionId :: "string option"
  t_extractionSchema :: "json option"
  t_timeoutMs :: int
  t_createdAt :: int
  t_startedAt :: "int option"
  t_completedAt :: "int option"
  t_result :: "json option"
  t_error :: "string option"
  t_errorCode :: "string option"
  t_durationMs :: "int option"
  t_events :: "task_event list option"
  t_profileId :: "string option"
  t_proxyId :: "string option"
  t_accountGroup :: "string option"
  t_targetWorkerId :: "string option"
  t_placementGeneration :: "int option"

record task_filter =
  tf_projectId :: "string option"
  tf_runId :: "string option"
  tf_state :: "task_state option"
  tf_mode :: "execution_mode option"
  tf_priority :: "task_priority option"
  tf_createdAfter :: "int option"
  tf_createdBefore :: "int option"

record worker_node =
  wn_workerId :: string
  wn_tenantId :: string
  wn_hostname :: string
  wn_capacity :: int
  wn_activeTasks :: int
  wn_healthy :: bool
  wn_lastHeartbeat :: int
  wn_storageNamespace :: "string option"

subsection \<open>Priorities are ordered\<close>

fun priority_rank :: "task_priority \<Rightarrow> nat" where
  "priority_rank LOW = 0"
| "priority_rank NORMAL = 1"
| "priority_rank HIGH = 2"
| "priority_rank CRITICAL = 3"

instantiation task_priority :: linorder
begin

definition less_eq_task_priority :: "task_priority \<Rightarrow> task_priority \<Rightarrow> bool" where
  "less_eq_task_priority p q = (priority_rank p \<le> priority_rank q)"

definition less_task_priority :: "task_priority \<Rightarrow> task_priority \<Rightarrow> bool" where
  "less_task_priority p q = (priority_rank p < priority_rank q)"

instance
proof
  fix p q r :: task_priority
  show "p < q \<longleftrightarrow> p \<le> q \<and> \<not> q \<le> p"
    by (auto simp: less_eq_task_priority_def less_task_priority_def)
  show "p \<le> p" by (simp add: less_eq_task_priority_def)
  show "p \<le> r" if "p \<le> q" "q \<le> r" using that by (simp add: less_eq_task_priority_def)
  show "p = q" if "p \<le> q" "q \<le> p"
    using that by (cases p; cases q) (simp_all add: less_eq_task_priority_def)
  show "p \<le> q \<or> q \<le> p" by (auto simp: less_eq_task_priority_def)
qed

end

subsection \<open>Keys\<close>

text \<open>\<open>`${tenantId}\\0${value}`\<close>: a tenant name has no NUL, so keys of two tenants never meet.\<close>

definition NUL :: char where "NUL = CHR 0x00"

definition tenant_prefix :: "string \<Rightarrow> string" where
  "tenant_prefix tenantId = tenantId @ [NUL]"

definition taskKey :: "string \<Rightarrow> string \<Rightarrow> string" where
  "taskKey tenantId v = tenant_prefix tenantId @ v"

lemma ident_char_not_NUL [simp]: "\<not> ident_char NUL" "\<not> alnum_char NUL"
  by (simp_all add: ident_char_def alnum_char_def char_in_def NUL_def)

lemma tenant_no_NUL: "isTenantId t \<Longrightarrow> NUL \<notin> set t"
  by (cases t) (auto simp: isTenantId_def list_all_iff)

lemma prefix_key_split:
  "NUL \<notin> set a \<Longrightarrow> NUL \<notin> set b \<Longrightarrow> a @ NUL # x = b @ NUL # y \<Longrightarrow> a = b \<and> x = y"
proof (induction a arbitrary: b)
  case Nil
  then show ?case by (cases b) auto
next
  case (Cons c a)
  then show ?case by (cases b) auto
qed

lemma taskKey_inject:
  "isTenantId a \<Longrightarrow> isTenantId b \<Longrightarrow> taskKey a x = taskKey b y \<longleftrightarrow> a = b \<and> x = y"
  using prefix_key_split[of a b x y] tenant_no_NUL[of a] tenant_no_NUL[of b]
  by (auto simp: taskKey_def tenant_prefix_def)

end
