(* ===== verification/TaskQueue.thy ===== *)
theory TaskQueue
  imports TaskTypes "HOL-Library.Sublist"
begin

text \<open>
  \<open>src/distributed/queue-adapter.ts\<close>: the in-memory task queue. Tasks, workers and claimed URLs are
  maps keyed by tenant and identifier; the pending queue is one list of keys for all tenants.
  \<open>Date.now()\<close> and \<open>randomUUID()\<close> are arguments, absent optional arguments are \<open>None\<close>.
\<close>

datatype queue_error = InvalidTenantId | TASK_LEASE_LOST | QueueUnavailable

record queue =
  q_tasks :: "(string, task) jmap"
  q_pending :: "string list"
  q_workers :: "(string, worker_node) jmap"
  q_seenUrls :: "(string, int) jmap"

definition empty_queue :: queue where
  "empty_queue = \<lparr>q_tasks = [], q_pending = [], q_workers = [], q_seenUrls = []\<rparr>"

definition is_queued :: "task \<Rightarrow> bool" where
  "is_queued t = (t_state t = TPending \<or> t_state t = TRetrying)"

text \<open>\<open>assertLeaseOwnership\<close>: a task that carries a lease accepts only its own worker and lease.\<close>

definition lease_owned :: "task option \<Rightarrow> task \<Rightarrow> bool" where
  "lease_owned existing incoming =
     (case existing of
        None \<Rightarrow> True
      | Some e \<Rightarrow> (case t_leaseId e of
            None \<Rightarrow> True
          | Some l \<Rightarrow> t_leaseId incoming = Some l \<and> t_workerId incoming = t_workerId e))"

text \<open>\<open>removePendingKey\<close>: splice out the first occurrence until there is none.\<close>

fun removePendingKey :: "string \<Rightarrow> string list \<Rightarrow> string list" where
  "removePendingKey key [] = []"
| "removePendingKey key (k # ks) = (if k = key then removePendingKey key ks else k # removePendingKey key ks)"

definition enqueueTask :: "task \<Rightarrow> queue \<Rightarrow> (queue_error + unit) \<times> queue" where
  "enqueueTask task q =
     (case normalizeTenantId (Some (t_tenantId task)) of
        None \<Rightarrow> (Inl InvalidTenantId, q)
      | Some tenant \<Rightarrow>
        let t = task\<lparr>t_tenantId := tenant\<rparr>; key = taskKey tenant (t_id t)
        in if \<not> lease_owned (map_of (q_tasks q) key) t then (Inl TASK_LEASE_LOST, q)
           else (Inr (), q\<lparr>q_tasks := jset (q_tasks q) key t,
                   q_pending := (if is_queued t
                      then (if key \<in> set (q_pending q) then q_pending q else q_pending q @ [key])
                      else removePendingKey key (q_pending q))\<rparr>))"

fun enqueueBatch :: "task list \<Rightarrow> queue \<Rightarrow> (queue_error + unit) \<times> queue" where
  "enqueueBatch [] q = (Inr (), q)"
| "enqueueBatch (t # ts) q = andthen (enqueueTask t) (\<lambda>_. enqueueBatch ts) q"

subsection \<open>Dequeue\<close>

text \<open>\<open>findIndex\<close> of the first key of the tenant at position \<open>n\<close> or later.\<close>

definition next_index :: "string \<Rightarrow> nat \<Rightarrow> string list \<Rightarrow> nat option" where
  "next_index pre n q = find (\<lambda>i. prefix pre (q ! i)) [n..<length q]"

definition other_target :: "string \<Rightarrow> task \<Rightarrow> bool" where
  "other_target workerId t = (case t_targetWorkerId t of None \<Rightarrow> False | Some w \<Rightarrow> w \<noteq> [] \<and> w \<noteq> workerId)"

lemma next_index_bounds: "next_index pre n q = Some i \<Longrightarrow> n \<le> i \<and> i < length q"
  unfolding next_index_def find_Some_iff by (auto simp del: upt_Suc)

text \<open>The scanning loop; the map of tasks does not change while it runs.\<close>

function dequeue_scan ::
  "string \<Rightarrow> string \<Rightarrow> (string, task) jmap \<Rightarrow> nat option \<Rightarrow> string list \<Rightarrow> (string \<times> task) option \<times> string list" where
  "dequeue_scan workerId pre tasks None q = (None, q)"
| "dequeue_scan workerId pre tasks (Some i) q =
     (if i \<ge> length q \<or> q ! i = [] then (None, q)
      else (case map_of tasks (q ! i) of
          None \<Rightarrow>
            (let q' = take i q @ drop (Suc i) q in dequeue_scan workerId pre tasks (next_index pre 0 q') q')
        | Some t \<Rightarrow>
            if \<not> is_queued t then
              (let q' = take i q @ drop (Suc i) q in dequeue_scan workerId pre tasks (next_index pre 0 q') q')
            else if other_target workerId t then
              dequeue_scan workerId pre tasks (next_index pre (Suc i) q) q
            else (Some (q ! i, t), take i q @ drop (Suc i) q)))"
  by pat_completeness auto

termination
proof (relation "measures [\<lambda>(w, p, ts, i, q). length q, \<lambda>(w, p, ts, i, q). case i of None \<Rightarrow> 0 | Some n \<Rightarrow> Suc (length q - n)]",
    goal_cases)
  case 1
  then show ?case by simp
next
  case (4 workerId pre tasks i q t)
  then show ?case
    using next_index_bounds[of pre "Suc i" q] by (cases "next_index pre (Suc i) q") auto
qed auto

definition dequeueTask ::
  "int \<Rightarrow> string \<Rightarrow> string \<Rightarrow> string option \<Rightarrow> queue \<Rightarrow> (queue_error + task option) \<times> queue" where
  "dequeueTask now uuid workerId tenantArg q =
     (case normalizeTenantId tenantArg of
        None \<Rightarrow> (Inl InvalidTenantId, q)
      | Some tenant \<Rightarrow>
        (let pre = tenant_prefix tenant
         in case dequeue_scan workerId pre (q_tasks q) (next_index pre 0 (q_pending q)) (q_pending q) of
              (None, ks) \<Rightarrow> (Inr None, q\<lparr>q_pending := ks\<rparr>)
            | (Some (key, t), ks) \<Rightarrow>
                (let leased = t\<lparr>t_state := TRunning, t_startedAt := Some now,
                                t_workerId := Some workerId, t_leaseId := Some uuid\<rparr>
                 in (Inr (Some leased), q\<lparr>q_pending := ks, q_tasks := jset (q_tasks q) key leased\<rparr>))))"

subsection \<open>Updates and queries\<close>

definition updateTask :: "task \<Rightarrow> queue \<Rightarrow> (queue_error + unit) \<times> queue" where
  "updateTask task q =
     (case normalizeTenantId (Some (t_tenantId task)) of
        None \<Rightarrow> (Inl InvalidTenantId, q)
      | Some tenant \<Rightarrow>
        let t = task\<lparr>t_tenantId := tenant\<rparr>; key = taskKey tenant (t_id t)
        in if \<not> lease_owned (map_of (q_tasks q) key) t then (Inl TASK_LEASE_LOST, q)
           else (Inr (), q\<lparr>q_tasks := jset (q_tasks q) key t\<rparr>))"

text \<open>An absent identifier and an empty one are both falsy.\<close>

definition falsy :: "string option \<Rightarrow> bool" where
  "falsy s = (s = None \<or> s = Some [])"

definition renewTaskLease :: "task \<Rightarrow> queue \<Rightarrow> queue_error + bool" where
  "renewTaskLease task q =
     (if falsy (t_leaseId task) \<or> falsy (t_workerId task) then Inr False
      else case normalizeTenantId (Some (t_tenantId task)) of
        None \<Rightarrow> Inl InvalidTenantId
      | Some tenant \<Rightarrow>
        (case map_of (q_tasks q) (taskKey tenant (t_id task)) of
           None \<Rightarrow> Inr False
         | Some e \<Rightarrow> Inr (t_state e = TRunning \<and> t_workerId e = t_workerId task \<and> t_leaseId e = t_leaseId task)))"

definition getTask :: "string \<Rightarrow> string option \<Rightarrow> queue \<Rightarrow> queue_error + task option" where
  "getTask taskId tenantArg q =
     (case normalizeTenantId tenantArg of
        None \<Rightarrow> Inl InvalidTenantId
      | Some tenant \<Rightarrow> Inr (map_of (q_tasks q) (taskKey tenant taskId)))"

definition unset_or :: "'a option \<Rightarrow> ('a \<Rightarrow> bool) \<Rightarrow> bool" where
  "unset_or v P = (case v of None \<Rightarrow> True | Some x \<Rightarrow> P x)"

definition matchesTaskFilter :: "task \<Rightarrow> task_filter \<Rightarrow> bool" where
  "matchesTaskFilter t f =
     (unset_or (tf_projectId f) (\<lambda>v. t_projectId t = Some v)
      \<and> unset_or (tf_runId f) (\<lambda>v. t_runId t = Some v)
      \<and> unset_or (tf_state f) (\<lambda>v. t_state t = v)
      \<and> unset_or (tf_mode f) (\<lambda>v. t_mode t = v)
      \<and> unset_or (tf_priority f) (\<lambda>v. t_priority t = v)
      \<and> unset_or (tf_createdAfter f) (\<lambda>v. t_createdAt t \<ge> v)
      \<and> unset_or (tf_createdBefore f) (\<lambda>v. t_createdAt t \<le> v))"

definition listTasks :: "nat \<Rightarrow> string option \<Rightarrow> task_filter option \<Rightarrow> queue \<Rightarrow> queue_error + task list" where
  "listTasks limit tenantArg flt q =
     (case normalizeTenantId tenantArg of
        None \<Rightarrow> Inl InvalidTenantId
      | Some tenant \<Rightarrow>
        Inr (take limit (filter (\<lambda>t. unset_or flt (matchesTaskFilter t))
               (filter (\<lambda>t. t_tenantId t = tenant) (jvals (q_tasks q))))))"

subsection \<open>Workers and URL claims\<close>

definition updateWorkerHeartbeat :: "int \<Rightarrow> worker_node \<Rightarrow> queue \<Rightarrow> (queue_error + unit) \<times> queue" where
  "updateWorkerHeartbeat now w q =
     (case normalizeTenantId (Some (wn_tenantId w)) of
        None \<Rightarrow> (Inl InvalidTenantId, q)
      | Some tenant \<Rightarrow>
        (Inr (), q\<lparr>q_workers := jset (q_workers q) (taskKey tenant (wn_workerId w))
            (w\<lparr>wn_tenantId := tenant, wn_lastHeartbeat := now\<rparr>)\<rparr>))"

definition listWorkers :: "string option \<Rightarrow> queue \<Rightarrow> queue_error + worker_node list" where
  "listWorkers tenantArg q =
     (case normalizeTenantId tenantArg of
        None \<Rightarrow> Inl InvalidTenantId
      | Some tenant \<Rightarrow> Inr (filter (\<lambda>w. wn_tenantId w = tenant) (jvals (q_workers q))))"

definition isUrlSeen :: "int \<Rightarrow> string \<Rightarrow> string option \<Rightarrow> queue \<Rightarrow> (queue_error + bool) \<times> queue" where
  "isUrlSeen now url tenantArg q =
     (case normalizeTenantId tenantArg of
        None \<Rightarrow> (Inl InvalidTenantId, q)
      | Some tenant \<Rightarrow>
        let key = taskKey tenant url
        in (case map_of (q_seenUrls q) key of
              None \<Rightarrow> (Inr False, q)
            | Some expiresAt \<Rightarrow>
                if expiresAt \<le> now then (Inr False, q\<lparr>q_seenUrls := jdel (q_seenUrls q) key\<rparr>)
                else (Inr True, q)))"

definition url_claimed :: "int \<Rightarrow> string \<Rightarrow> (string, int) jmap \<Rightarrow> string \<Rightarrow> bool" where
  "url_claimed now tenant seen url =
     (case map_of seen (taskKey tenant url) of None \<Rightarrow> False | Some x \<Rightarrow> x > now)"

definition claimUrls ::
  "int \<Rightarrow> string list \<Rightarrow> int option \<Rightarrow> string option \<Rightarrow> queue \<Rightarrow> (queue_error + bool) \<times> queue" where
  "claimUrls now urls ttlArg tenantArg q =
     (let ttlSeconds = (case ttlArg of Some v \<Rightarrow> v | None \<Rightarrow> 2592000)
      in if urls = [] \<or> ttlSeconds \<le> 0 then (Inr False, q)
         else case normalizeTenantId tenantArg of
           None \<Rightarrow> (Inl InvalidTenantId, q)
         | Some tenant \<Rightarrow>
           if list_ex (url_claimed now tenant (q_seenUrls q)) urls then (Inr False, q)
           else (Inr True, q\<lparr>q_seenUrls :=
                   foldl (\<lambda>m url. jset m (taskKey tenant url) (now + ttlSeconds * 1000)) (q_seenUrls q) urls\<rparr>))"

definition claimUrl ::
  "int \<Rightarrow> string \<Rightarrow> int option \<Rightarrow> string option \<Rightarrow> queue \<Rightarrow> (queue_error + bool) \<times> queue" where
  "claimUrl now url ttlArg tenantArg = claimUrls now [url] ttlArg tenantArg"

definition releaseUrls :: "string list \<Rightarrow> string option \<Rightarrow> queue \<Rightarrow> (queue_error + unit) \<times> queue" where
  "releaseUrls urls tenantArg q =
     (if urls = [] then (Inr (), q)
      else case normalizeTenantId tenantArg of
        None \<Rightarrow> (Inl InvalidTenantId, q)
      | Some tenant \<Rightarrow>
        (Inr (), q\<lparr>q_seenUrls := foldl (\<lambda>m url. jdel m (taskKey tenant url)) (q_seenUrls q) urls\<rparr>))"

definition markUrlSeen ::
  "int \<Rightarrow> string \<Rightarrow> int option \<Rightarrow> string option \<Rightarrow> queue \<Rightarrow> (queue_error + unit) \<times> queue" where
  "markUrlSeen now url ttlArg tenantArg q =
     (let ttlSeconds = (case ttlArg of Some v \<Rightarrow> v | None \<Rightarrow> 2592000)
      in if ttlSeconds \<le> 0 then (Inr (), q)
         else case normalizeTenantId tenantArg of
           None \<Rightarrow> (Inl InvalidTenantId, q)
         | Some tenant \<Rightarrow>
           (Inr (), q\<lparr>q_seenUrls := jset (q_seenUrls q) (taskKey tenant url) (now + ttlSeconds * 1000)\<rparr>))"

definition closeQueue :: "queue \<Rightarrow> queue" where
  "closeQueue q = q\<lparr>q_tasks := [], q_pending := [], q_workers := [], q_seenUrls := []\<rparr>"

subsection \<open>The scan is a single pass\<close>

text \<open>
  Reference definition: walk the queue once, drop the tenant's keys whose task is gone or no longer
  queued, pass over the tasks reserved for other workers, stop at the first task left.
\<close>

fun dequeue_pass ::
  "string \<Rightarrow> string \<Rightarrow> (string, task) jmap \<Rightarrow> string list \<Rightarrow> (string \<times> task) option \<times> string list" where
  "dequeue_pass workerId pre tasks [] = (None, [])"
| "dequeue_pass workerId pre tasks (k # ks) =
     (let keep = (\<lambda>(r, ks'). (r, k # ks'))
      in if \<not> prefix pre k then keep (dequeue_pass workerId pre tasks ks)
         else case map_of tasks k of
           None \<Rightarrow> dequeue_pass workerId pre tasks ks
         | Some t \<Rightarrow>
             if \<not> is_queued t then dequeue_pass workerId pre tasks ks
             else if other_target workerId t then keep (dequeue_pass workerId pre tasks ks)
             else (Some (k, t), ks))"

text \<open>Keys the pass leaves where they are.\<close>

definition passed_over :: "string \<Rightarrow> string \<Rightarrow> (string, task) jmap \<Rightarrow> string \<Rightarrow> bool" where
  "passed_over workerId pre tasks k =
     (prefix pre k \<longrightarrow> (\<exists>t. map_of tasks k = Some t \<and> is_queued t \<and> other_target workerId t))"

lemma dequeue_pass_skip:
  "\<forall>k \<in> set a. passed_over w pre tasks k
   \<Longrightarrow> dequeue_pass w pre tasks (a @ b) = (fst (dequeue_pass w pre tasks b), a @ snd (dequeue_pass w pre tasks b))"
  by (induction a) (auto simp: passed_over_def Let_def split: prod.splits)

lemma next_index_None: "next_index pre n q = None \<Longrightarrow> \<forall>i. n \<le> i \<and> i < length q \<longrightarrow> \<not> prefix pre (q ! i)"
  by (auto simp: next_index_def find_None_iff)

lemma next_index_Some:
  assumes "next_index pre n q = Some i"
  shows "n \<le> i \<and> i < length q \<and> prefix pre (q ! i) \<and> (\<forall>j. n \<le> j \<and> j < i \<longrightarrow> \<not> prefix pre (q ! j))"
proof -
  obtain m where m: "m < length q - n" "i = n + m" "prefix pre (q ! (n + m))" "\<forall>j<m. \<not> prefix pre (q ! (n + j))"
    using assms unfolding next_index_def find_Some_iff by (auto simp del: upt_Suc)
  have "\<not> prefix pre (q ! j)" if "n \<le> j" "j < i" for j
    using m(4)[rule_format, of "j - n"] that m(2) by auto
  with m show ?thesis by auto
qed

lemma dequeue_scan_pass_ind:
  "pre \<noteq> [] \<Longrightarrow> next_index pre n q = oi \<Longrightarrow> \<forall>j < n. j < length q \<longrightarrow> passed_over w pre tasks (q ! j)
   \<Longrightarrow> dequeue_scan w pre tasks oi q = dequeue_pass w pre tasks q"
proof (induction w pre tasks oi q arbitrary: n rule: dequeue_scan.induct)
  case (1 w pre tasks q)
  have "\<forall>k \<in> set q. passed_over w pre tasks k"
  proof
    fix k
    assume "k \<in> set q"
    then obtain j where j: "j < length q" "q ! j = k" by (auto simp: in_set_conv_nth)
    then show "passed_over w pre tasks k"
      using 1(3) next_index_None[OF 1(2)] by (cases "j < n") (auto simp: passed_over_def)
  qed
  from dequeue_pass_skip[OF this, of "[]"] show ?case by simp
next
  case (2 w pre tasks i q)
  note i = next_index_Some[OF 2(5)]
  let ?k = "q ! i" and ?a = "take i q" and ?b = "drop (Suc i) q"
  have q: "q = ?a @ ?k # ?b" using i by (simp add: id_take_nth_drop)
  have before: "\<forall>j < i. passed_over w pre tasks (q ! j)"
    using 2(6) i unfolding passed_over_def by (metis not_less less_trans)
  have a: "\<forall>k \<in> set ?a. passed_over w pre tasks k"
    using before by (auto simp: in_set_conv_nth)
  have ne: "i < length q" "?k \<noteq> []" using i 2(4) by auto
  note skip = dequeue_pass_skip[OF a]
  have stale: "dequeue_scan w pre tasks (next_index pre 0 (?a @ ?b)) (?a @ ?b) = dequeue_pass w pre tasks q"
    if "map_of tasks ?k = None \<or> (\<exists>t. map_of tasks ?k = Some t \<and> \<not> is_queued t)"
  proof -
    have "dequeue_scan w pre tasks (next_index pre 0 (?a @ ?b)) (?a @ ?b) = dequeue_pass w pre tasks (?a @ ?b)"
      using that ne 2(1)[of "?a @ ?b" 0] 2(2)[of _ "?a @ ?b" 0] 2(4) by auto
    also have "\<dots> = dequeue_pass w pre tasks (?a @ ?k # ?b)"
      using that i unfolding skip by auto
    finally show ?thesis using q by simp
  qed
  show ?case
  proof (cases "map_of tasks ?k")
    case None
    with stale ne show ?thesis by simp
  next
    case (Some t)
    show ?thesis
    proof (cases "is_queued t")
      case False
      with Some stale ne show ?thesis by simp
    next
      case queued: True
      show ?thesis
      proof (cases "other_target w t")
        case True
        have "\<forall>j < Suc i. j < length q \<longrightarrow> passed_over w pre tasks (q ! j)"
          using before Some queued True by (auto simp: less_Suc_eq passed_over_def)
        with 2(3)[of t "Suc i"] ne Some queued True 2(4) show ?thesis by simp
      next
        case False
        have "dequeue_pass w pre tasks (?a @ ?k # ?b) = (Some (?k, t), ?a @ ?b)"
          unfolding skip using Some queued False i by simp
        with Some queued False ne q show ?thesis by simp
      qed
    qed
  qed
qed

text \<open>The loop with its restarts computes the single pass.\<close>

lemma dequeue_scan_pass:
  "pre \<noteq> [] \<Longrightarrow> dequeue_scan w pre tasks (next_index pre 0 q) q = dequeue_pass w pre tasks q"
  by (rule dequeue_scan_pass_ind[where n = 0]) simp_all

text \<open>A key this worker may take, and a key that stays in the queue when it is not taken.\<close>

definition eligible :: "string \<Rightarrow> string \<Rightarrow> (string, task) jmap \<Rightarrow> string \<Rightarrow> bool" where
  "eligible workerId pre tasks k =
     (prefix pre k \<and> (case map_of tasks k of None \<Rightarrow> False | Some t \<Rightarrow> is_queued t \<and> \<not> other_target workerId t))"

definition live_key :: "string \<Rightarrow> (string, task) jmap \<Rightarrow> string \<Rightarrow> bool" where
  "live_key pre tasks k =
     (prefix pre k \<longrightarrow> (case map_of tasks k of None \<Rightarrow> False | Some t \<Rightarrow> is_queued t))"

lemma dequeue_pass_Cons:
  "dequeue_pass w pre tasks (k # ks) =
     (if eligible w pre tasks k then (Some (k, the (map_of tasks k)), ks)
      else if live_key pre tasks k
        then (fst (dequeue_pass w pre tasks ks), k # snd (dequeue_pass w pre tasks ks))
      else dequeue_pass w pre tasks ks)"
  by (auto simp: eligible_def live_key_def Let_def split: prod.splits option.splits)

lemma eligible_live: "eligible w pre tasks k \<Longrightarrow> live_key pre tasks k"
  by (simp add: eligible_def live_key_def split: option.splits)

lemma dead_prefix: "\<not> live_key pre tasks k \<Longrightarrow> prefix pre k" and eligible_prefix: "eligible w pre tasks k \<Longrightarrow> prefix pre k"
  by (auto simp: eligible_def live_key_def)

lemma dequeue_pass_result:
  "fst (dequeue_pass w pre tasks ks)
     = map_option (\<lambda>k. (k, the (map_of tasks k))) (find (eligible w pre tasks) ks)"
  by (induction ks) (auto simp del: dequeue_pass.simps(2) simp: dequeue_pass_Cons)

lemma find_holds: "find P xs = Some x \<Longrightarrow> P x \<and> x \<in> set xs"
  by (auto simp: find_Some_iff)

lemma dequeue_pass_rest:
  "filter (live_key pre tasks) (snd (dequeue_pass w pre tasks ks))
     = (case find (eligible w pre tasks) ks of
          None \<Rightarrow> filter (live_key pre tasks) ks
        | Some k \<Rightarrow> remove1 k (filter (live_key pre tasks) ks))"
  by (induction ks)
     (auto simp del: dequeue_pass.simps(2) simp: dequeue_pass_Cons eligible_live dest: find_holds split: option.splits)

lemma dequeue_pass_others:
  "\<forall>k. P k \<longrightarrow> \<not> prefix pre k \<Longrightarrow> filter P (snd (dequeue_pass w pre tasks ks)) = filter P ks"
  by (induction ks)
     (auto simp del: dequeue_pass.simps(2) simp: dequeue_pass_Cons dest: dead_prefix eligible_prefix)


definition sample_task :: "string \<Rightarrow> string \<Rightarrow> task_priority \<Rightarrow> task" where
  "sample_task tn tid pr = \<lparr>t_id = tid, t_tenantId = tn, t_projectId = None, t_runId = None, t_url = ''https://example.com'',
     t_mode = FetchMode, t_priority = pr, t_state = TPending, t_retries = 0, t_maxRetries = 3,
     t_workerId = None, t_leaseId = None, t_sessionId = None, t_extractionSchema = None, t_timeoutMs = 30000,
     t_createdAt = 0, t_startedAt = None, t_completedAt = None, t_result = None, t_error = None,
     t_errorCode = None, t_durationMs = None, t_events = None, t_profileId = None, t_proxyId = None,
     t_accountGroup = None, t_targetWorkerId = None, t_placementGeneration = None\<rparr>"

definition sample_queue :: queue where
  "sample_queue = snd (enqueueBatch [sample_task ''t'' ''a'' LOW, sample_task ''u'' ''x'' HIGH, sample_task ''t'' ''b'' CRITICAL] empty_queue)"


text \<open>
  The interface of \<open>TaskQueueAdapter\<close> documents a priority order; the in-memory adapter serves a
  \<open>LOW\<close> task before a later \<open>CRITICAL\<close> one.
\<close>

lemma dequeue_ignores_priority:
  "map_sum id (map_option t_priority) (fst (dequeueTask 5 ''lease'' ''w1'' (Some ''t'') sample_queue)) = Inr (Some LOW)
   \<and> list_ex (\<lambda>t. t_priority t > LOW \<and> is_queued t \<and> t_tenantId t = ''t'') (jvals (q_tasks sample_queue))"
  by code_simp

subsection \<open>Runs\<close>

datatype queue_event =
    QEnqueue task
  | QDequeue int string string "string option"
  | QUpdate task
  | QHeartbeat int worker_node
  | QSeen int string "string option"
  | QClaim int "string list" "int option" "string option"
  | QRelease "string list" "string option"
  | QMark int string "int option" "string option"

fun queue_step :: "queue \<Rightarrow> queue_event \<Rightarrow> queue" where
  "queue_step q (QEnqueue t) = snd (enqueueTask t q)"
| "queue_step q (QDequeue now uuid w tn) = snd (dequeueTask now uuid w tn q)"
| "queue_step q (QUpdate t) = snd (updateTask t q)"
| "queue_step q (QHeartbeat now w) = snd (updateWorkerHeartbeat now w q)"
| "queue_step q (QSeen now url tn) = snd (isUrlSeen now url tn q)"
| "queue_step q (QClaim now urls ttl tn) = snd (claimUrls now urls ttl tn q)"
| "queue_step q (QRelease urls tn) = snd (releaseUrls urls tn q)"
| "queue_step q (QMark now url ttl tn) = snd (markUrlSeen now url ttl tn q)"

lemma dequeueTask_cases:
  obtains (invalid) "normalizeTenantId tn = None" "dequeueTask now uuid w tn q = (Inl InvalidTenantId, q)"
  | (idle) n ks where "normalizeTenantId tn = Some n"
      "dequeue_pass w (tenant_prefix n) (q_tasks q) (q_pending q) = (None, ks)"
      "dequeueTask now uuid w tn q = (Inr None, q\<lparr>q_pending := ks\<rparr>)"
  | (taken) n k t ks where "normalizeTenantId tn = Some n" "map_of (q_tasks q) k = Some t" "is_queued t"
      "prefix (tenant_prefix n) k" "k \<in> set (q_pending q)"
      "dequeue_pass w (tenant_prefix n) (q_tasks q) (q_pending q) = (Some (k, t), ks)"
      "dequeueTask now uuid w tn q
        = (Inr (Some (t\<lparr>t_state := TRunning, t_startedAt := Some now, t_workerId := Some w, t_leaseId := Some uuid\<rparr>)),
           q\<lparr>q_pending := ks, q_tasks := jset (q_tasks q) k
              (t\<lparr>t_state := TRunning, t_startedAt := Some now, t_workerId := Some w, t_leaseId := Some uuid\<rparr>)\<rparr>)"
proof (cases "normalizeTenantId tn")
  case None
  then show ?thesis by (intro invalid) (simp_all add: dequeueTask_def)
next
  case (Some n)
  obtain r ks where d: "dequeue_pass w (tenant_prefix n) (q_tasks q) (q_pending q) = (r, ks)"
    by (cases "dequeue_pass w (tenant_prefix n) (q_tasks q) (q_pending q)")
  have scan: "dequeue_scan w (tenant_prefix n) (q_tasks q) (next_index (tenant_prefix n) 0 (q_pending q)) (q_pending q) = (r, ks)"
    using dequeue_scan_pass[of "tenant_prefix n" w "q_tasks q" "q_pending q"] d by (simp add: tenant_prefix_def)
  show ?thesis
  proof (cases r)
    case None
    show ?thesis
      by (rule idle[OF Some]) (use Some None d scan in \<open>simp_all add: dequeueTask_def\<close>)
  next
    case (Some kt)
    with dequeue_pass_result[of w "tenant_prefix n" "q_tasks q" "q_pending q"] d
    obtain k where k: "find (eligible w (tenant_prefix n) (q_tasks q)) (q_pending q) = Some k"
      "kt = (k, the (map_of (q_tasks q) k))"
      by (cases "find (eligible w (tenant_prefix n) (q_tasks q)) (q_pending q)") auto
    then obtain t where "map_of (q_tasks q) k = Some t" "is_queued t" "prefix (tenant_prefix n) k" "k \<in> set (q_pending q)"
      by (auto simp: eligible_def dest!: find_holds split: option.splits)
    note facts = this
    show ?thesis
      by (rule taken[OF \<open>normalizeTenantId tn = Some n\<close> facts])
         (use \<open>normalizeTenantId tn = Some n\<close> facts(1) Some k d scan in \<open>simp_all add: dequeueTask_def Let_def\<close>)
  qed
qed

text \<open>The queue's maps have one entry per key, the queue has no duplicates, and records sit under their own key.\<close>

definition queue_wf :: "queue \<Rightarrow> bool" where
  "queue_wf q \<longleftrightarrow> jwf (q_tasks q) \<and> jwf (q_workers q) \<and> jwf (q_seenUrls q) \<and> distinct (q_pending q)
     \<and> (\<forall>k t. map_of (q_tasks q) k = Some t \<longrightarrow> isTenantId (t_tenantId t) \<and> k = taskKey (t_tenantId t) (t_id t))
     \<and> set (q_pending q) \<subseteq> dom (map_of (q_tasks q))"

lemma set_removePendingKey: "set (removePendingKey k ks) = set ks - {k}"
  and distinct_removePendingKey: "distinct ks \<Longrightarrow> distinct (removePendingKey k ks)"
  by (induction ks) (auto split: if_splits)

lemma normalizeTenantId_Some: "normalizeTenantId v = Some n \<Longrightarrow> isTenantId n"
  by (auto simp: normalizeTenantId_def Let_def split: if_splits)

lemma normalizeTenantId_id: "normalizeTenantId (Some v) = Some n \<Longrightarrow> n = v"
  by (auto simp: normalizeTenantId_def split: if_splits)

lemma jwf_foldl_jset: "jwf m \<Longrightarrow> jwf (foldl (\<lambda>m u. jset m (f u) v) m us)"
  by (induction us arbitrary: m) auto

lemma jwf_foldl_jdel: "jwf m \<Longrightarrow> jwf (foldl (\<lambda>m u. jdel m (f u)) m us)"
  by (induction us arbitrary: m) auto

lemma enqueueTask_cases:
  obtains (refused) e where "enqueueTask t q = (Inl e, q)"
  | (accepted) n where "normalizeTenantId (Some (t_tenantId t)) = Some n" "n = t_tenantId t" "isTenantId n"
      "lease_owned (map_of (q_tasks q) (taskKey n (t_id t))) t"
      "enqueueTask t q = (Inr (), q\<lparr>q_tasks := jset (q_tasks q) (taskKey n (t_id t)) t,
         q_pending := (if is_queued t then (if taskKey n (t_id t) \<in> set (q_pending q) then q_pending q else q_pending q @ [taskKey n (t_id t)])
            else removePendingKey (taskKey n (t_id t)) (q_pending q))\<rparr>)"
proof (cases "normalizeTenantId (Some (t_tenantId t))")
  case None
  then show ?thesis by (intro refused) (simp add: enqueueTask_def)
next
  case (Some n)
  have n: "n = t_tenantId t" "isTenantId n" using Some normalizeTenantId_id normalizeTenantId_Some by auto
  then have t: "t\<lparr>t_tenantId := n\<rparr> = t" by simp
  show ?thesis
  proof (cases "lease_owned (map_of (q_tasks q) (taskKey n (t_id t))) t")
    case True
    with Some n t show ?thesis by (intro accepted[of n]) (simp_all add: enqueueTask_def Let_def)
  next
    case False
    with Some t show ?thesis by (intro refused) (simp add: enqueueTask_def Let_def)
  qed
qed

lemma updateTask_cases:
  obtains (refused) e where "updateTask t q = (Inl e, q)"
  | (accepted) n where "n = t_tenantId t" "isTenantId n"
      "lease_owned (map_of (q_tasks q) (taskKey n (t_id t))) t"
      "updateTask t q = (Inr (), q\<lparr>q_tasks := jset (q_tasks q) (taskKey n (t_id t)) t\<rparr>)"
proof (cases "normalizeTenantId (Some (t_tenantId t))")
  case None
  then show ?thesis by (intro refused) (simp add: updateTask_def)
next
  case (Some n)
  have n: "n = t_tenantId t" "isTenantId n" using Some normalizeTenantId_id normalizeTenantId_Some by auto
  then have t: "t\<lparr>t_tenantId := n\<rparr> = t" by simp
  show ?thesis
  proof (cases "lease_owned (map_of (q_tasks q) (taskKey n (t_id t))) t")
    case True
    with Some n t show ?thesis by (intro accepted[of n]) (simp_all add: updateTask_def Let_def)
  next
    case False
    with Some t show ?thesis by (intro refused) (simp add: updateTask_def Let_def)
  qed
qed

lemma dequeue_pass_subset: "set (snd (dequeue_pass w pre tasks ks)) \<subseteq> set ks"
  by (induction ks) (auto simp del: dequeue_pass.simps(2) simp: dequeue_pass_Cons)

lemma dequeue_pass_set: "dequeue_pass w pre tasks ks = (r, ks') \<Longrightarrow> set ks' \<subseteq> set ks"
  using dequeue_pass_subset[of w pre tasks ks] by simp

lemma distinct_dequeue_pass: "distinct ks \<Longrightarrow> distinct (snd (dequeue_pass w pre tasks ks))"
  using dequeue_pass_subset[of w pre tasks]
  by (induction ks) (auto simp del: dequeue_pass.simps(2) simp: dequeue_pass_Cons)

lemma dequeue_pass_keeps:
  "dequeue_pass w pre tasks ks = (r, ks') \<Longrightarrow> set ks' \<subseteq> set ks \<and> (distinct ks \<longrightarrow> distinct ks')"
  using distinct_dequeue_pass[of ks w pre tasks] dequeue_pass_subset[of w pre tasks ks] by simp

lemma enqueueTask_wf: "queue_wf q \<Longrightarrow> queue_wf (snd (enqueueTask t q))"
  by (cases rule: enqueueTask_cases[of t q])
     (auto simp: queue_wf_def jset_apply set_removePendingKey distinct_removePendingKey dom_def
        simp del: map_of_eq_Some_iff map_of_eq_None_iff)

lemma updateTask_wf: "queue_wf q \<Longrightarrow> queue_wf (snd (updateTask t q))"
  by (cases rule: updateTask_cases[of t q])
     (auto simp: queue_wf_def jset_apply simp del: map_of_eq_Some_iff map_of_eq_None_iff)

lemma dequeueTask_wf: "queue_wf q \<Longrightarrow> queue_wf (snd (dequeueTask now uuid w tn q))"
  by (cases rule: dequeueTask_cases[of tn now uuid w q])
     (auto simp: queue_wf_def jset_apply simp del: map_of_eq_Some_iff map_of_eq_None_iff
        dest!: dequeue_pass_keeps)

lemma queue_step_wf: "queue_wf q \<Longrightarrow> queue_wf (queue_step q e)"
proof (cases e)
  case (QHeartbeat now w)
  then show "queue_wf q \<Longrightarrow> ?thesis"
    by (auto simp: queue_wf_def updateWorkerHeartbeat_def split: option.splits)
next
  case (QSeen now url tn)
  then show "queue_wf q \<Longrightarrow> ?thesis"
    by (auto simp: queue_wf_def isUrlSeen_def Let_def split: option.splits)
next
  case (QClaim now urls ttl tn)
  then show "queue_wf q \<Longrightarrow> ?thesis"
    by (auto simp: queue_wf_def claimUrls_def Let_def jwf_foldl_jset split: option.splits)
next
  case (QRelease urls tn)
  then show "queue_wf q \<Longrightarrow> ?thesis"
    by (auto simp: queue_wf_def releaseUrls_def jwf_foldl_jdel split: option.splits)
next
  case (QMark now url ttl tn)
  then show "queue_wf q \<Longrightarrow> ?thesis"
    by (auto simp: queue_wf_def markUrlSeen_def Let_def split: option.splits)
qed (simp_all add: enqueueTask_wf updateTask_wf dequeueTask_wf)

interpretation queue_machine: machine queue_step queue_wf
  by unfold_locales (rule queue_step_wf)

lemma enqueueBatch_wf: "queue_wf q \<Longrightarrow> queue_wf (snd (enqueueBatch ts q))"
proof (induction ts arbitrary: q)
  case Nil
  then show ?case by simp
next
  case (Cons t ts)
  show ?case unfolding enqueueBatch.simps
    by (rule andthen_post[where P = queue_wf]) (use Cons enqueueTask_wf in auto)
qed

lemma empty_queue_wf: "queue_wf empty_queue"
  by (simp add: queue_wf_def empty_queue_def)

subsection \<open>Fencing\<close>

text \<open>An event that does not present lease \<open>l\<close> of worker \<open>w\<close> for the task under key \<open>k\<close>.\<close>

fun foreign :: "string \<Rightarrow> string option \<Rightarrow> string option \<Rightarrow> queue_event \<Rightarrow> bool" where
  "foreign k l w (QEnqueue t) = (taskKey (t_tenantId t) (t_id t) = k \<longrightarrow> t_leaseId t \<noteq> l \<or> t_workerId t \<noteq> w)"
| "foreign k l w (QUpdate t) = (taskKey (t_tenantId t) (t_id t) = k \<longrightarrow> t_leaseId t \<noteq> l \<or> t_workerId t \<noteq> w)"
| "foreign k l w _ = True"

lemma leased_step:
  assumes "map_of (q_tasks q) k = Some t" "t_leaseId t = Some l" "k \<notin> set (q_pending q)"
    and "foreign k (Some l) (t_workerId t) e"
  shows "map_of (q_tasks (queue_step q e)) k = Some t \<and> k \<notin> set (q_pending (queue_step q e))"
proof (cases e)
  case (QEnqueue t')
  with assms show ?thesis
    by (cases rule: enqueueTask_cases[of t' q]) (auto simp: jset_apply lease_owned_def set_removePendingKey)
next
  case (QUpdate t')
  with assms show ?thesis
    by (cases rule: updateTask_cases[of t' q]) (auto simp: jset_apply lease_owned_def)
next
  case (QDequeue now uuid w tn)
  with assms show ?thesis
    by (cases rule: dequeueTask_cases[of tn now uuid w q]) (auto simp: jset_apply dest: dequeue_pass_set)
qed (use assms in \<open>auto simp: updateWorkerHeartbeat_def isUrlSeen_def claimUrls_def releaseUrls_def markUrlSeen_def Let_def
        split: option.splits\<close>)

lemma leased_run:
  "map_of (q_tasks q) k = Some t \<Longrightarrow> t_leaseId t = Some l \<Longrightarrow> k \<notin> set (q_pending q)
   \<Longrightarrow> \<forall>e \<in> set es. foreign k (Some l) (t_workerId t) e
   \<Longrightarrow> map_of (q_tasks (foldl queue_step q es)) k = Some t \<and> k \<notin> set (q_pending (foldl queue_step q es))"
proof (induction es arbitrary: q)
  case Nil
  then show ?case by simp
next
  case (Cons e es)
  with leased_step[of q k t l e] show ?case by simp
qed

lemma dequeue_leases:
  assumes "queue_wf q" and "dequeueTask now uuid w tn q = (Inr (Some t), q')"
  shows "normalizeTenantId tn = Some (t_tenantId t) \<and> t_leaseId t = Some uuid \<and> t_workerId t = Some w \<and> t_state t = TRunning
    \<and> map_of (q_tasks q') (taskKey (t_tenantId t) (t_id t)) = Some t
    \<and> taskKey (t_tenantId t) (t_id t) \<notin> set (q_pending q')"
proof (cases rule: dequeueTask_cases[of tn now uuid w q])
  case (taken n k t0 ks)
  have key: "k = taskKey (t_tenantId t0) (t_id t0)" "isTenantId (t_tenantId t0)" "distinct (q_pending q)"
    using assms(1) taken(2) unfolding queue_wf_def by blast+
  from taken(4) key have "n = t_tenantId t0"
    using normalizeTenantId_Some[OF taken(1)] taskKey_inject[of n "t_tenantId t0"]
    unfolding prefix_def taskKey_def by (metis append_assoc)
  moreover have "k \<notin> set ks"
  proof -
    have rest: "filter (live_key (tenant_prefix n) (q_tasks q)) ks = remove1 k (filter (live_key (tenant_prefix n) (q_tasks q)) (q_pending q))"
      using dequeue_pass_rest[of "tenant_prefix n" "q_tasks q" w "q_pending q"]
        dequeue_pass_result[of w "tenant_prefix n" "q_tasks q" "q_pending q"] taken(6)
      by (auto split: option.splits)
    have "live_key (tenant_prefix n) (q_tasks q) k" using taken by (simp add: live_key_def)
    with arg_cong[OF rest, of set] key(3) show ?thesis by auto
  qed
  ultimately show ?thesis using assms(2) taken key by (auto simp: jset_apply)
qed (use assms in simp_all)

text \<open>
  C12: fencing. Once a worker has dequeued a task, then through every sequence of queue operations
  that does not present its lease (enqueues, updates, other workers' dequeues included) the
  stored record stays exactly the leased one, its lease keeps renewing, every write with another
  lease fails with \<open>TASK_LEASE_LOST\<close> and changes nothing, and no worker is handed the task again.
\<close>

theorem lease_fencing:
  assumes "queue_wf q0" and "dequeueTask now uuid w tn q0 = (Inr (Some t), q)" and "uuid \<noteq> []" "w \<noteq> []"
    and "\<forall>e \<in> set es. foreign (taskKey (t_tenantId t) (t_id t)) (Some uuid) (Some w) e"
  defines "q' \<equiv> foldl queue_step q es"
  shows "getTask (t_id t) tn q' = Inr (Some t) \<and> renewTaskLease t q' = Inr True
    \<and> (\<forall>u. t_tenantId u = t_tenantId t \<longrightarrow> t_id u = t_id t \<longrightarrow> t_leaseId u \<noteq> Some uuid \<longrightarrow>
          updateTask u q' = (Inl TASK_LEASE_LOST, q') \<and> enqueueTask u q' = (Inl TASK_LEASE_LOST, q'))
    \<and> (\<forall>now2 uuid2 w2 tn2 t2. fst (dequeueTask now2 uuid2 w2 tn2 q') = Inr (Some t2)
          \<longrightarrow> (t_tenantId t2, t_id t2) \<noteq> (t_tenantId t, t_id t))"
proof -
  note d = dequeue_leases[OF assms(1,2)]
  let ?k = "taskKey (t_tenantId t) (t_id t)"
  have held: "map_of (q_tasks q') ?k = Some t" "?k \<notin> set (q_pending q')"
    using leased_run[of q ?k t uuid es] d assms(5) by (simp_all add: q'_def)
  have norm: "normalizeTenantId (Some (t_tenantId t)) = Some (t_tenantId t)"
    using normalizeTenantId_Some[of tn "t_tenantId t"] d by (simp add: normalizeTenantId_def[of "Some _"])
  have wf: "queue_wf q'" unfolding q'_def
    by (rule queue_machine.run_good) (use dequeueTask_wf[OF assms(1), of now uuid w tn] assms(2) in simp)
  have A: "getTask (t_id t) tn q' = Inr (Some t)" using d held by (simp add: getTask_def)
  have B: "renewTaskLease t q' = Inr True"
    using d held norm assms(3,4) by (simp add: renewTaskLease_def falsy_def)
  have C: "updateTask u q' = (Inl TASK_LEASE_LOST, q') \<and> enqueueTask u q' = (Inl TASK_LEASE_LOST, q')"
    if "t_tenantId u = t_tenantId t" "t_id u = t_id t" "t_leaseId u \<noteq> Some uuid" for u
    using that d held norm by (simp add: updateTask_def enqueueTask_def lease_owned_def Let_def)
  have D: "(t_tenantId t2, t_id t2) \<noteq> (t_tenantId t, t_id t)"
    if other: "fst (dequeueTask now2 uuid2 w2 tn2 q') = Inr (Some t2)" for now2 uuid2 w2 tn2 t2
  proof (cases rule: dequeueTask_cases[of tn2 now2 uuid2 w2 q'])
    case (taken n k t0 ks)
    have "k = taskKey (t_tenantId t0) (t_id t0)" using wf taken(2) unfolding queue_wf_def by blast
    moreover have "t_tenantId t2 = t_tenantId t0 \<and> t_id t2 = t_id t0"
    proof -
      from other have "t2 = t0\<lparr>t_state := TRunning, t_startedAt := Some now2, t_workerId := Some w2, t_leaseId := Some uuid2\<rparr>"
        unfolding taken(7) by simp
      then show ?thesis by simp
    qed
    ultimately show ?thesis using taken(5) held(2) by (metis Pair_inject)
  qed (use other in simp_all)
  show ?thesis
    by (intro conjI allI impI; (rule A | rule B | rule C[THEN conjunct1] | rule C[THEN conjunct2] | rule D); assumption)
qed

theorem lease_fencing_witness:
  "getTask ''a'' (Some ''t'') (foldl queue_step (snd (dequeueTask 5 ''l1'' ''w1'' (Some ''t'') sample_queue))
     [QUpdate (sample_task ''t'' ''a'' LOW), QDequeue 6 ''l2'' ''w2'' (Some ''t'')])
   = Inr (Some ((sample_task ''t'' ''a'' LOW)\<lparr>t_state := TRunning, t_startedAt := Some 5, t_workerId := Some ''w1'', t_leaseId := Some ''l1''\<rparr>))"
proof -
  let ?t = "(sample_task ''t'' ''a'' LOW)\<lparr>t_state := TRunning, t_startedAt := Some 5, t_workerId := Some ''w1'', t_leaseId := Some ''l1''\<rparr>"
  have wf: "queue_wf sample_queue"
    unfolding sample_queue_def by (rule enqueueBatch_wf[OF empty_queue_wf])
  have deq: "dequeueTask 5 ''l1'' ''w1'' (Some ''t'') sample_queue = (Inr (Some ?t), snd (dequeueTask 5 ''l1'' ''w1'' (Some ''t'') sample_queue))"
    by (rule prod_eqI) (simp_all, code_simp)
  have ids: "t_id ?t = ''a''" "t_tenantId ?t = ''t''" by (simp_all add: sample_task_def)
  show ?thesis
    using lease_fencing[OF wf deq, of "[QUpdate (sample_task ''t'' ''a'' LOW), QDequeue 6 ''l2'' ''w2'' (Some ''t'')]"] ids
    by (simp add: sample_task_def)
qed

subsection \<open>Tenants do not see each other\<close>

text \<open>Everything the queue holds under one tenant's keys.\<close>

definition tenant_view :: "string \<Rightarrow> queue \<Rightarrow>
    (string, task) jmap \<times> string list \<times> (string, worker_node) jmap \<times> (string, int) jmap" where
  "tenant_view tn q =
     (filter (\<lambda>p. prefix (tenant_prefix tn) (fst p)) (q_tasks q),
      filter (prefix (tenant_prefix tn)) (q_pending q),
      filter (\<lambda>p. prefix (tenant_prefix tn) (fst p)) (q_workers q),
      filter (\<lambda>p. prefix (tenant_prefix tn) (fst p)) (q_seenUrls q))"

text \<open>The tenant on whose behalf an operation runs.\<close>

fun event_tenant :: "queue_event \<Rightarrow> string option" where
  "event_tenant (QEnqueue t) = Some (t_tenantId t)"
| "event_tenant (QDequeue now uuid w tn) = normalizeTenantId tn"
| "event_tenant (QUpdate t) = Some (t_tenantId t)"
| "event_tenant (QHeartbeat now w) = Some (wn_tenantId w)"
| "event_tenant (QSeen now url tn) = normalizeTenantId tn"
| "event_tenant (QClaim now urls ttl tn) = normalizeTenantId tn"
| "event_tenant (QRelease urls tn) = normalizeTenantId tn"
| "event_tenant (QMark now url ttl tn) = normalizeTenantId tn"

lemma key_prefix:
  assumes "isTenantId a" "isTenantId b"
  shows "prefix (tenant_prefix b) (taskKey a x) \<longleftrightarrow> a = b"
    "prefix (tenant_prefix b) k \<Longrightarrow> prefix (tenant_prefix a) k \<Longrightarrow> a = b"
proof -
  have split: "a = b" if "tenant_prefix a @ x = tenant_prefix b @ y" for x y
    using that taskKey_inject[OF assms] by (simp add: taskKey_def)
  then show "prefix (tenant_prefix b) (taskKey a x) \<longleftrightarrow> a = b"
    by (auto simp: taskKey_def prefix_def)
  show "prefix (tenant_prefix b) k \<Longrightarrow> prefix (tenant_prefix a) k \<Longrightarrow> a = b"
    by (metis prefix_def split)
qed

lemma filter_removePendingKey: "\<not> P k \<Longrightarrow> filter P (removePendingKey k ks) = filter P ks"
  by (induction ks) auto

lemma filter_foldl_jset:
  "\<forall>u. \<not> P (f u) \<Longrightarrow> filter (\<lambda>p. P (fst p)) (foldl (\<lambda>m u. jset m (f u) v) m us) = filter (\<lambda>p. P (fst p)) m"
  by (induction us arbitrary: m) (simp_all add: filter_jset)

lemma filter_foldl_jdel:
  "\<forall>u. \<not> P (f u) \<Longrightarrow> filter (\<lambda>p. P (fst p)) (foldl (\<lambda>m u. jdel m (f u)) m us) = filter (\<lambda>p. P (fst p)) m"
  by (induction us arbitrary: m) (simp_all add: filter_jdel)

text \<open>
  C13: tenant isolation. An operation on behalf of one tenant, whatever its arguments, leaves
  everything another tenant has in the queue, its records, its pending order, its workers and its
  URL claims, exactly as they were, and so does every sequence of them.
\<close>

theorem tenant_isolation:
  assumes "isTenantId b" and "\<forall>e \<in> set es. event_tenant e \<noteq> Some b"
  shows "tenant_view b (foldl queue_step q es) = tenant_view b q"
proof -
  have other: "\<not> prefix (tenant_prefix b) (taskKey a x)" if "isTenantId a" "a \<noteq> b" for a x
    using key_prefix(1)[OF that(1) assms(1)] that(2) by simp
  have step: "tenant_view b (queue_step q e) = tenant_view b q" if "event_tenant e \<noteq> Some b" for q e
  proof (cases e)
    case (QEnqueue t)
    with that other[of "t_tenantId t"] show ?thesis
      by (cases rule: enqueueTask_cases[of t q]) (auto simp: tenant_view_def filter_jset filter_removePendingKey)
  next
    case (QUpdate t)
    with that other[of "t_tenantId t"] show ?thesis
      by (cases rule: updateTask_cases[of t q]) (auto simp: tenant_view_def filter_jset)
  next
    case (QDequeue now uuid w tn)
    show ?thesis
    proof (cases rule: dequeueTask_cases[of tn now uuid w q])
      case invalid
      with QDequeue show ?thesis by simp
    next
      case (idle n ks)
      have "filter (prefix (tenant_prefix b)) (snd (dequeue_pass w (tenant_prefix n) (q_tasks q) (q_pending q)))
          = filter (prefix (tenant_prefix b)) (q_pending q)"
        using that QDequeue idle(1) key_prefix(2)[OF normalizeTenantId_Some[OF idle(1)] assms(1)]
        by (intro dequeue_pass_others) auto
      with idle QDequeue show ?thesis by (simp add: tenant_view_def)
    next
      case (taken n k t ks)
      note clash = key_prefix(2)[OF normalizeTenantId_Some[OF taken(1)] assms(1)]
      have "filter (prefix (tenant_prefix b)) (snd (dequeue_pass w (tenant_prefix n) (q_tasks q) (q_pending q)))
          = filter (prefix (tenant_prefix b)) (q_pending q)"
        using that QDequeue taken(1) clash by (intro dequeue_pass_others) auto
      moreover have "\<not> prefix (tenant_prefix b) k" using that QDequeue taken(1,4) clash by auto
      ultimately show ?thesis using taken QDequeue by (simp add: tenant_view_def filter_jset)
    qed
  qed (use that other normalizeTenantId_Some normalizeTenantId_id in
        \<open>fastforce simp: tenant_view_def updateWorkerHeartbeat_def isUrlSeen_def claimUrls_def releaseUrls_def markUrlSeen_def
          Let_def filter_jset filter_jdel filter_foldl_jset filter_foldl_jdel split: option.splits\<close>)+
  show ?thesis using assms(2) by (induction es arbitrary: q) (simp_all add: step)
qed

theorem tenant_isolation_witness:
  "tenant_view ''u'' (foldl queue_step sample_queue [QDequeue 5 ''l1'' ''w1'' (Some ''t''), QClaim 6 [''https://x''] None (Some ''t'')])
   = tenant_view ''u'' sample_queue"
  by (rule tenant_isolation) (code_simp, code_simp)

subsection \<open>URL claims\<close>

lemma map_of_foldl_jset:
  "map_of (foldl (\<lambda>m u. jset m (f u) v) m us) k = (if k \<in> f ` set us then Some v else map_of m k)"
  by (induction us arbitrary: m) (auto simp: jset_apply)

lemma map_of_foldl_jdel:
  "map_of (foldl (\<lambda>m u. jdel m (f u)) m us) k = (if k \<in> f ` set us then None else map_of m k)"
  by (induction us arbitrary: m) (auto simp: jdel_apply)

text \<open>
  URL claims are all or nothing. A claim of a non-empty batch for a positive time succeeds
  exactly when none of its URLs is currently claimed by the tenant, and then every URL of the batch
  is claimed until the expiry and no other is touched; otherwise the state is unchanged. Releasing
  the batch makes all of it claimable again.
\<close>

theorem claim_all_or_nothing:
  fixes later now :: int and q :: queue
  assumes "isTenantId tn" and "urls \<noteq> []" and "0 < ttl"
  defines "r \<equiv> claimUrls now urls (Some ttl) (Some tn) q" and "seen \<equiv> \<lambda>q url. fst (isUrlSeen later url (Some tn) q) = Inr True"
  shows "(fst r = Inr True \<or> fst r = Inr False)
    \<and> (fst r = Inr True \<longleftrightarrow> (\<forall>url \<in> set urls. fst (isUrlSeen now url (Some tn) q) = Inr False))
    \<and> (fst r = Inr False \<longrightarrow> snd r = q)
    \<and> (fst r = Inr True \<longrightarrow> (\<forall>url. seen (snd r) url \<longleftrightarrow> (if url \<in> set urls then later < now + ttl * 1000 else seen q url)))
    \<and> (\<forall>url \<in> set urls. \<not> seen (snd (releaseUrls urls (Some tn) (snd r))) url)"
proof -
  have norm: "normalizeTenantId (Some tn) = Some tn" using assms(1) by (simp add: normalizeTenantId_def)
  have key: "taskKey tn x = taskKey tn y \<longleftrightarrow> x = y" for x y using taskKey_inject[OF assms(1,1)] by simp
  have seen: "fst (isUrlSeen tm url (Some tn) q') = Inr (url_claimed tm tn (q_seenUrls q') url)" for tm url q'
    by (auto simp: isUrlSeen_def norm url_claimed_def Let_def split: option.split)
  have dom: "taskKey tn url \<in> taskKey tn ` set urls \<longleftrightarrow> url \<in> set urls" for url by (auto simp: key)
  show ?thesis
    using assms(2,3) unfolding r_def seen_def seen claimUrls_def releaseUrls_def
    by (auto simp: norm Let_def list_ex_iff url_claimed_def map_of_foldl_jset map_of_foldl_jdel dom split: option.splits)
qed

theorem claim_all_or_nothing_witness:
  "fst (claimUrls 100 [''https://a'', ''https://b''] (Some 60) (Some ''t'') empty_queue) = Inr True"
proof -
  have "isTenantId ''t''" by code_simp
  then show ?thesis
    using claim_all_or_nothing[where tn = "''t''" and urls = "[''https://a'', ''https://b'']" and ttl = 60 and now = 100 and q = empty_queue]
    by (simp add: isUrlSeen_def empty_queue_def normalizeTenantId_def Let_def)
qed

end
