(* ===== verification/JsText.thy ===== *)
theory JsText
  imports Prelude "HOL-Library.Sublist"
begin

text \<open>
  The string operations of JavaScript that the code applies to ASCII text: \<open>split\<close>, lower-casing,
  reading and printing of numbers, the trimming of a trailing dot.
\<close>

fun split_on :: "char \<Rightarrow> string \<Rightarrow> string list" where
  "split_on c [] = [[]]"
| "split_on c (x # xs) =
     (if x = c then [] # split_on c xs
      else (case split_on c xs of [] \<Rightarrow> [[x]] | w # ws \<Rightarrow> (x # w) # ws))"

fun join_with :: "string \<Rightarrow> string list \<Rightarrow> string" where
  "join_with sep [] = []"
| "join_with sep [w] = w"
| "join_with sep (w # ws) = w @ sep @ join_with sep ws"

text \<open>\<open>s.split(sep)\<close> for the two-character separator \<open>::\<close>.\<close>

fun split_pair :: "char \<Rightarrow> string \<Rightarrow> string list" where
  "split_pair c [] = [[]]"
| "split_pair c [x] = [[x]]"
| "split_pair c (x # y # ys) =
     (if x = c \<and> y = c then [] # split_pair c ys
      else (case split_pair c (y # ys) of [] \<Rightarrow> [[x]] | w # ws \<Rightarrow> (x # w) # ws))"

definition code_point :: "char \<Rightarrow> nat" where "code_point c = of_char c"

definition ascii_lower_char :: "char \<Rightarrow> char" where
  "ascii_lower_char c = (if 65 \<le> code_point c \<and> code_point c \<le> 90 then char_of (code_point c + 32) else c)"

definition ascii_lower :: "string \<Rightarrow> string" where
  "ascii_lower s = map ascii_lower_char s"

definition startsWith :: "string \<Rightarrow> string \<Rightarrow> bool" where "startsWith s p = prefix p s"
definition endsWith :: "string \<Rightarrow> string \<Rightarrow> bool" where "endsWith s p = suffix p s"
definition includes_text :: "string \<Rightarrow> string \<Rightarrow> bool" where "includes_text s p = sublist p s"

text \<open>\<open>.replace(/\.$/, '')\<close>.\<close>

definition drop_final_dot :: "string \<Rightarrow> string" where
  "drop_final_dot s = (if s \<noteq> [] \<and> last s = CHR ''.'' then butlast s else s)"

text \<open>\<open>String.prototype.trim\<close> on the white space among the first 256 characters.\<close>

definition js_white :: "char \<Rightarrow> bool" where
  "js_white c = (let n = code_point c in (9 \<le> n \<and> n \<le> 13) \<or> n = 32 \<or> n = 160)"

definition js_trim :: "string \<Rightarrow> string" where
  "js_trim s = rev (dropWhile js_white (rev (dropWhile js_white s)))"

lemma dropWhile_hd: "s = [] \<or> \<not> P (hd s) \<Longrightarrow> dropWhile P s = s"
  by (cases s) auto

lemma trim_fixed: "s = [] \<or> \<not> js_white (hd s) \<and> \<not> js_white (last s) \<Longrightarrow> js_trim s = s"
  by (auto simp: js_trim_def dropWhile_hd hd_rev)

lemma trim_ends: "js_trim s = [] \<or> \<not> js_white (hd (js_trim s)) \<and> \<not> js_white (last (js_trim s))"
proof (cases "js_trim s = []")
  case False
  let ?a = "dropWhile js_white s"
  have ne: "dropWhile js_white (rev ?a) \<noteq> []" using False by (simp add: js_trim_def)
  have last: "\<not> js_white (last (js_trim s))" using hd_dropWhile[OF ne] ne by (simp add: js_trim_def last_rev)
  obtain zs where zs: "rev ?a = zs @ dropWhile js_white (rev ?a)"
    by (metis takeWhile_dropWhile_id)
  then have "?a = js_trim s @ rev zs" unfolding js_trim_def by (metis rev_append rev_rev_ident)
  moreover have "?a \<noteq> []" using ne by (metis dropWhile.simps(1) rev.simps(1))
  ultimately have "hd (js_trim s) = hd ?a" using False by (metis hd_append2)
  moreover have "\<not> js_white (hd ?a)" by (rule hd_dropWhile) fact
  ultimately show ?thesis using last by simp
qed simp

lemma trim_trim [simp]: "js_trim (js_trim s) = js_trim s"
  using trim_ends by (rule trim_fixed)

subsection \<open>Digits\<close>

definition is_digit :: "char \<Rightarrow> bool" where "is_digit c = (48 \<le> code_point c \<and> code_point c \<le> 57)"

definition digit_val :: "char \<Rightarrow> nat" where "digit_val c = code_point c - 48"

definition dec_val :: "string \<Rightarrow> nat" where
  "dec_val s = foldl (\<lambda>n c. n * 10 + digit_val c) 0 s"

definition digit_char :: "nat \<Rightarrow> char" where "digit_char n = char_of (48 + n)"

fun dec_of :: "nat \<Rightarrow> string" where
  "dec_of n = (if n < 10 then [digit_char n] else dec_of (n div 10) @ [digit_char (n mod 10)])"

declare dec_of.simps [simp del]

definition is_hex :: "char \<Rightarrow> bool" where
  "is_hex c = (is_digit c \<or> (97 \<le> code_point c \<and> code_point c \<le> 102) \<or> (65 \<le> code_point c \<and> code_point c \<le> 70))"

definition hex_digit :: "char \<Rightarrow> nat" where
  "hex_digit c = (if is_digit c then code_point c - 48
     else if 97 \<le> code_point c then code_point c - 87 else code_point c - 55)"

definition hex_val :: "string \<Rightarrow> nat" where
  "hex_val s = foldl (\<lambda>n c. n * 16 + hex_digit c) 0 s"

definition hex_char :: "nat \<Rightarrow> char" where
  "hex_char n = (if n < 10 then char_of (48 + n) else char_of (87 + n))"

fun hex_of :: "nat \<Rightarrow> string" where
  "hex_of n = (if n < 16 then [hex_char n] else hex_of (n div 16) @ [hex_char (n mod 16)])"

declare hex_of.simps [simp del]

lemma digit_char_simps [simp]: "n < 10 \<Longrightarrow> is_digit (digit_char n) \<and> digit_val (digit_char n) = n"
  by (simp add: is_digit_def digit_val_def digit_char_def code_point_def)

lemma dec_of_digits: "list_all is_digit (dec_of n) \<and> dec_of n \<noteq> []"
proof (induction n rule: dec_of.induct)
  case (1 n)
  then show ?case by (simp add: dec_of.simps[of n])
qed

lemma dec_val_snoc: "dec_val (s @ [c]) = dec_val s * 10 + digit_val c"
  by (simp add: dec_val_def)

lemma dec_val_dec_of [simp]: "dec_val (dec_of n) = n"
proof (induction n rule: dec_of.induct)
  case (1 n)
  then show ?case by (cases "n < 10") (simp_all add: dec_of.simps[of n] dec_val_snoc, simp add: dec_val_def)
qed

lemma split_on_nonempty [simp]: "split_on c s \<noteq> []"
  by (cases s) (auto split: list.split)

lemma split_on_single: "c \<notin> set s \<Longrightarrow> split_on c s = [s]"
  by (induction s) auto

lemma split_on_append: "c \<notin> set s \<Longrightarrow> split_on c (s @ c # t) = s # split_on c t"
  by (induction s) auto

subsection \<open>Reading parsed JSON\<close>

text \<open>A text that counts as present: the empty string is falsy.\<close>

definition truthy_text :: "string option \<Rightarrow> string option" where
  "truthy_text v = (case v of Some [] \<Rightarrow> None | _ \<Rightarrow> v)"

text \<open>\<open>m[k]\<close> of a parsed object, and the text it holds.\<close>

definition jfield :: "json \<Rightarrow> string \<Rightarrow> json option" where
  "jfield m k = (case m of JObject fs \<Rightarrow> map_of fs k | _ \<Rightarrow> None)"

definition jtext :: "json option \<Rightarrow> string option" where
  "jtext v = (case v of Some (JString t) \<Rightarrow> Some t | _ \<Rightarrow> None)"

text \<open>\<open>a ?? b\<close>.\<close>

definition nullish :: "json option \<Rightarrow> 'a \<Rightarrow> (json \<Rightarrow> 'a) \<Rightarrow> 'a" where
  "nullish v dflt f = (case v of None \<Rightarrow> dflt | Some JNull \<Rightarrow> dflt | Some x \<Rightarrow> f x)"

end
