(* ===== verification/Placement.thy ===== *)
theory Placement
  imports TaskTypes JsText "HOL-Library.Word" "HOL-Library.Sorting_Algorithms" "HOL-Library.List_Lexorder" "HOL-Library.Char_ord"
begin

text \<open>
  \<open>src/distributed/account-placement.ts\<close>: which worker serves an account. The registry of workers
  is local to a process; the placement records live in a versioned store that several registries
  share, and \<open>acquirePlacement\<close> awaits between its read and its compare-and-set. \<open>collate\<close> is the
  order of \<open>String.prototype.localeCompare\<close>, a comparator.
\<close>

datatype placement_error =
    BadScope string | BadNamespace | BadCapacity | BadLoad | BadVersion | BadClock | BadTimeout
  | CorruptPlacement | NamespaceLocked | NoFailover string | NoWorkers | GenerationExhausted | CasConflict

subsection \<open>Validation\<close>

definition validateScope :: "string \<Rightarrow> string \<Rightarrow> placement_error + string" where
  "validateScope v name =
     (let normalized = js_trim v
      in if normalized = [] \<or> length normalized > 256 then Inl (BadScope name) else Inr normalized)"

definition ns_char :: "char \<Rightarrow> bool" where
  "ns_char c = (ident_char c \<or> c = CHR '':'')"

fun namespace_pattern :: "string \<Rightarrow> bool" where
  "namespace_pattern [] = False"
| "namespace_pattern (c # cs) = (alnum_char c \<and> length cs \<le> 127 \<and> list_all ns_char cs)"

definition validateStorageNamespace :: "string \<Rightarrow> placement_error + string" where
  "validateStorageNamespace v =
     (let normalized = js_trim v in if namespace_pattern normalized then Inr normalized else Inl BadNamespace)"

definition placement_now :: "int option \<Rightarrow> placement_error + int" where
  "placement_now clk = (case clk of Some t \<Rightarrow> if t < 0 then Inl BadClock else Inr t | None \<Rightarrow> Inl BadClock)"

subsection \<open>The versioned store\<close>

record placement =
  pr_workerId :: string
  pr_storageNamespace :: string
  pr_generation :: int

text \<open>\<open>stateKey\<close> is the JSON text of the pair of identifiers, here the pair itself.\<close>

type_synonym 'a state_store = "string \<times> string \<Rightarrow> ('a \<times> int) option"

definition store_version :: "'a state_store \<Rightarrow> string \<times> string \<Rightarrow> int" where
  "store_version st k = (case st k of Some (d, v) \<Rightarrow> v | None \<Rightarrow> 0)"

definition stateKey :: "string \<Rightarrow> string \<Rightarrow> placement_error + string \<times> string" where
  "stateKey tenantId accountId =
     (case validateScope tenantId ''tenantId'' of Inl e \<Rightarrow> Inl e | Inr t \<Rightarrow>
      (case validateScope accountId ''accountId'' of Inl e \<Rightarrow> Inl e | Inr a \<Rightarrow> Inr (t, a)))"

definition store_get :: "string \<Rightarrow> string \<Rightarrow> 'a state_store \<Rightarrow> placement_error + ('a \<times> int) option" where
  "store_get tenantId accountId st =
     (case stateKey tenantId accountId of Inl e \<Rightarrow> Inl e | Inr k \<Rightarrow> Inr (st k))"

definition compareAndSet ::
  "string \<Rightarrow> string \<Rightarrow> jsnum \<Rightarrow> 'a \<Rightarrow> 'a state_store \<Rightarrow> (placement_error + bool) \<times> 'a state_store" where
  "compareAndSet tenantId accountId expected data st =
     (case expected of
        OtherN \<Rightarrow> (Inl BadVersion, st)
      | IntN v \<Rightarrow>
        if \<not> is_safe_integer expected \<or> v < 0 then (Inl BadVersion, st)
        else (case stateKey tenantId accountId of
            Inl e \<Rightarrow> (Inl e, st)
          | Inr k \<Rightarrow> if store_version st k \<noteq> v then (Inr False, st)
                     else (Inr True, st(k := Some (data, v + 1)))))"

subsection \<open>The registry of workers\<close>

record worker_slot =
  ws_id :: string
  ws_tenantId :: string
  ws_capacity :: int
  ws_load :: int
  ws_storageNamespace :: string
  ws_lastHeartbeat :: int

record registry =
  rg_workers :: "(string, worker_slot) jmap"
  rg_timeoutMs :: int

definition newRegistry :: "jsnum option \<Rightarrow> placement_error + registry" where
  "newRegistry timeout =
     (case (case timeout of Some v \<Rightarrow> v | None \<Rightarrow> IntN 30000) of
        OtherN \<Rightarrow> Inl BadTimeout
      | IntN t \<Rightarrow> if \<not> is_safe_integer (IntN t) \<or> t < 1000 then Inl BadTimeout
                  else Inr \<lparr>rg_workers = [], rg_timeoutMs = t\<rparr>)"

definition capacity_ok :: "jsnum \<Rightarrow> bool" where
  "capacity_ok c = (case c of IntN n \<Rightarrow> is_safe_integer c \<and> 1 \<le> n \<and> n \<le> 10000 | OtherN \<Rightarrow> False)"

definition registerWorker ::
  "int option \<Rightarrow> string \<Rightarrow> jsnum \<Rightarrow> string \<Rightarrow> string option \<Rightarrow> registry \<Rightarrow> (placement_error + unit) \<times> registry" where
  "registerWorker clk wid capacity ns tenantArg reg =
     (case validateScope wid ''workerId'' of Inl e \<Rightarrow> (Inl e, reg) | Inr w \<Rightarrow>
      if \<not> capacity_ok capacity then (Inl BadCapacity, reg) else
      (case validateScope (case tenantArg of Some t \<Rightarrow> t | None \<Rightarrow> ''*'') ''tenantId'' of Inl e \<Rightarrow> (Inl e, reg) | Inr t \<Rightarrow>
      (case validateStorageNamespace ns of Inl e \<Rightarrow> (Inl e, reg) | Inr n \<Rightarrow>
      (case placement_now clk of Inl e \<Rightarrow> (Inl e, reg) | Inr now \<Rightarrow>
        (Inr (), reg\<lparr>rg_workers := jset (rg_workers reg) w
           \<lparr>ws_id = w, ws_tenantId = t, ws_capacity = (case capacity of IntN c \<Rightarrow> c | OtherN \<Rightarrow> 0), ws_load = 0,
            ws_storageNamespace = n, ws_lastHeartbeat = now\<rparr>\<rparr>)))))"

definition heartbeatWorker :: "int option \<Rightarrow> string \<Rightarrow> registry \<Rightarrow> (placement_error + unit) \<times> registry" where
  "heartbeatWorker clk wid reg =
     (case map_of (rg_workers reg) wid of
        None \<Rightarrow> (Inr (), reg)
      | Some w \<Rightarrow> (case placement_now clk of
          Inl e \<Rightarrow> (Inl e, reg)
        | Inr now \<Rightarrow> (Inr (), reg\<lparr>rg_workers := jset (rg_workers reg) wid (w\<lparr>ws_lastHeartbeat := now\<rparr>)\<rparr>)))"

definition updateLoad :: "string \<Rightarrow> jsnum \<Rightarrow> registry \<Rightarrow> (placement_error + unit) \<times> registry" where
  "updateLoad wid load reg =
     (case load of
        OtherN \<Rightarrow> (Inl BadLoad, reg)
      | IntN l \<Rightarrow>
        if \<not> is_safe_integer load \<or> l < 0 then (Inl BadLoad, reg)
        else (case map_of (rg_workers reg) wid of
            None \<Rightarrow> (Inr (), reg)
          | Some w \<Rightarrow> (Inr (), reg\<lparr>rg_workers := jset (rg_workers reg) wid (w\<lparr>ws_load := l\<rparr>)\<rparr>)))"

definition removeWorker :: "string \<Rightarrow> registry \<Rightarrow> registry" where
  "removeWorker wid reg = reg\<lparr>rg_workers := jdel (rg_workers reg) wid\<rparr>"

text \<open>One heartbeat record of \<open>syncWorkers\<close>; \<open>None\<close> is an entry that is skipped.\<close>

definition sync_entry :: "worker_node \<Rightarrow> worker_slot option" where
  "sync_entry n =
     (if \<not> wn_healthy n \<or> \<not> capacity_ok (IntN (wn_capacity n))
         \<or> \<not> is_safe_integer (IntN (wn_activeTasks n)) \<or> wn_activeTasks n < 0 then None
      else (case validateScope (wn_workerId n) ''workerId'' of Inl e \<Rightarrow> None | Inr w \<Rightarrow>
           (case validateScope (wn_tenantId n) ''tenantId'' of Inl e \<Rightarrow> None | Inr t \<Rightarrow>
           (case validateStorageNamespace (case wn_storageNamespace n of Some s \<Rightarrow> s | None \<Rightarrow> ''local:'' @ w) of
              Inl e \<Rightarrow> None
            | Inr ns \<Rightarrow> Some \<lparr>ws_id = w, ws_tenantId = t, ws_capacity = wn_capacity n,
                ws_load = wn_activeTasks n, ws_storageNamespace = ns, ws_lastHeartbeat = wn_lastHeartbeat n\<rparr>))))"

definition syncWorkers :: "worker_node list \<Rightarrow> registry \<Rightarrow> registry" where
  "syncWorkers nodes reg =
     (let entries = List.map_filter sync_entry nodes;
          merged = foldl (\<lambda>m e. jset m (ws_id e) e) (rg_workers reg) entries
      in reg\<lparr>rg_workers := filter (\<lambda>p. fst p \<in> set (map ws_id entries)) merged\<rparr>)"

subsection \<open>Choosing a worker\<close>

text \<open>FNV-1a over 32-bit words: \<open>^=\<close>, \<open>Math.imul\<close>, and \<open>>>> 0\<close> at the end.\<close>

definition fnv1a :: "string \<Rightarrow> 32 word" where
  "fnv1a text = foldl (\<lambda>h c. xor h (of_nat (of_char c)) * 16777619) 2166136261 text"

definition selectWorker :: "string comparator \<Rightarrow> worker_slot list \<Rightarrow> string \<Rightarrow> worker_slot" where
  "selectWorker collate workers text =
     Sorting_Algorithms.sort (key ws_id collate) workers ! (unat (fnv1a text) mod length workers)"

definition serves :: "int \<Rightarrow> string \<Rightarrow> registry \<Rightarrow> worker_slot \<Rightarrow> bool" where
  "serves now tenantId reg w =
     ((ws_tenantId w = ''*'' \<or> ws_tenantId w = tenantId) \<and> now - ws_lastHeartbeat w \<le> rg_timeoutMs reg)"

definition candidates :: "int \<Rightarrow> string \<Rightarrow> registry \<Rightarrow> worker_slot list" where
  "candidates now tenantId reg =
     filter (\<lambda>w. serves now tenantId reg w \<and> ws_load w < ws_capacity w) (jvals (rg_workers reg))"

definition validatePlacementRecord :: "placement \<Rightarrow> placement_error + placement" where
  "validatePlacementRecord p =
     (if \<not> is_safe_integer (IntN (pr_generation p)) \<or> pr_generation p < 1 then Inl CorruptPlacement
      else (case validateScope (pr_workerId p) ''placement workerId'' of Inl e \<Rightarrow> Inl e | Inr w \<Rightarrow>
           (case validateStorageNamespace (pr_storageNamespace p) of Inl e \<Rightarrow> Inl e | Inr n \<Rightarrow>
             Inr \<lparr>pr_workerId = w, pr_storageNamespace = n, pr_generation = pr_generation p\<rparr>)))"

text \<open>
  What \<open>acquirePlacement\<close> does between reading \<open>current\<close> and its compare-and-set: keep the placement,
  or write the next record over the version it read.
\<close>

datatype placement_plan = Keep string int | Write int placement

definition plan_failover ::
  "string comparator \<Rightarrow> int \<Rightarrow> string \<Rightarrow> string \<Rightarrow> string option \<Rightarrow> registry \<Rightarrow> placement \<times> int
   \<Rightarrow> placement_error + placement_plan" where
  "plan_failover collate now tenantId accountId required reg current =
     (case validatePlacementRecord (fst current) of Inl e \<Rightarrow> Inl e | Inr rec \<Rightarrow>
      (let alive = (case map_of (rg_workers reg) (pr_workerId rec) of
             None \<Rightarrow> False
           | Some w \<Rightarrow> serves now tenantId reg w \<and> ws_storageNamespace w = pr_storageNamespace rec)
       in if required \<noteq> None \<and> required \<noteq> Some (pr_storageNamespace rec) then Inl NamespaceLocked
          else if alive then Inr (Keep (pr_workerId rec) (pr_generation rec))
          else
            (let cs = filter (\<lambda>w. ws_storageNamespace w = pr_storageNamespace rec) (candidates now tenantId reg)
             in if cs = [] then Inl (NoFailover (pr_storageNamespace rec))
                else if pr_generation rec = MAX_SAFE then Inl GenerationExhausted
                else Inr (Write (snd current)
                  \<lparr>pr_workerId = ws_id (selectWorker collate cs (tenantId @ NUL # accountId)),
                   pr_storageNamespace = pr_storageNamespace rec, pr_generation = pr_generation rec + 1\<rparr>))))"

definition plan_new ::
  "string comparator \<Rightarrow> int \<Rightarrow> string \<Rightarrow> string \<Rightarrow> string option \<Rightarrow> registry \<Rightarrow> placement_error + placement_plan" where
  "plan_new collate now tenantId accountId required reg =
     (let cs = (case required of
            None \<Rightarrow> candidates now tenantId reg
          | Some n \<Rightarrow> filter (\<lambda>w. ws_storageNamespace w = n) (candidates now tenantId reg))
      in if cs = [] then Inl NoWorkers
         else (let selected = selectWorker collate cs (tenantId @ NUL # accountId)
               in Inr (Write 0 \<lparr>pr_workerId = ws_id selected,
                    pr_storageNamespace = (case required of Some n \<Rightarrow> n | None \<Rightarrow> ws_storageNamespace selected),
                    pr_generation = 1\<rparr>)))"

text \<open>The first half: validate, read the store, decide.\<close>

definition placement_begin ::
  "string comparator \<Rightarrow> int option \<Rightarrow> string \<Rightarrow> string \<Rightarrow> string option \<Rightarrow> registry \<Rightarrow> placement state_store
   \<Rightarrow> placement_error + (string \<times> string) \<times> placement_plan" where
  "placement_begin collate clk tenantInput accountInput requiredArg reg st =
     (case validateScope tenantInput ''tenantId'' of Inl e \<Rightarrow> Inl e | Inr tenantId \<Rightarrow>
      (case validateScope accountInput ''accountId'' of Inl e \<Rightarrow> Inl e | Inr accountId \<Rightarrow>
      (case (case requiredArg of None \<Rightarrow> Inr None
             | Some n \<Rightarrow> map_sum id Some (validateStorageNamespace n)) of Inl e \<Rightarrow> Inl e | Inr required \<Rightarrow>
      (case store_get tenantId accountId st of Inl e \<Rightarrow> Inl e | Inr current \<Rightarrow>
      (case placement_now clk of Inl e \<Rightarrow> Inl e | Inr now \<Rightarrow>
        map_sum id (Pair (tenantId, accountId))
          (case current of
             Some c \<Rightarrow> plan_failover collate now tenantId accountId required reg c
           | None \<Rightarrow> plan_new collate now tenantId accountId required reg))))))"

text \<open>The second half, on the store as it is when the compare-and-set runs.\<close>

definition placement_commit ::
  "(string \<times> string) \<times> placement_plan \<Rightarrow> placement state_store
   \<Rightarrow> (placement_error + string \<times> int) \<times> placement state_store" where
  "placement_commit p st =
     (case p of
        ((tenantId, accountId), Keep w g) \<Rightarrow> (Inr (w, g), st)
      | ((tenantId, accountId), Write v nxt) \<Rightarrow>
        (case compareAndSet tenantId accountId (IntN v) nxt st of
           (Inl e, st') \<Rightarrow> (Inl e, st')
         | (Inr ok, st') \<Rightarrow> (if ok then Inr (pr_workerId nxt, pr_generation nxt) else Inl CasConflict, st')))"

text \<open>\<open>acquirePlacement\<close> with the store it reads and the store it meets at its compare-and-set.\<close>

definition acquirePlacement ::
  "string comparator \<Rightarrow> int option \<Rightarrow> string \<Rightarrow> string \<Rightarrow> string option \<Rightarrow> registry
   \<Rightarrow> placement state_store \<Rightarrow> placement state_store
   \<Rightarrow> (placement_error + string \<times> int) \<times> placement state_store" where
  "acquirePlacement collate clk tenantInput accountInput requiredArg reg st_read st_write =
     (case placement_begin collate clk tenantInput accountInput requiredArg reg st_read of
        Inl e \<Rightarrow> (Inl e, st_write)
      | Inr p \<Rightarrow> placement_commit p st_write)"

subsection \<open>Trimmed names\<close>

lemma validateScope_Inr: "validateScope v f = Inr t \<Longrightarrow> js_trim t = t \<and> t \<noteq> [] \<and> length t \<le> 256"
  by (auto simp: validateScope_def Let_def split: if_splits)

lemma validateScope_again: "validateScope v f = Inr t \<Longrightarrow> validateScope t g = Inr t"
  using validateScope_Inr[of v f t] by (simp add: validateScope_def Let_def)

lemma stateKey_scoped:
  "validateScope t0 f = Inr t \<Longrightarrow> validateScope a0 g = Inr a \<Longrightarrow> stateKey t a = Inr (t, a)"
  by (simp add: stateKey_def validateScope_again)

lemma ns_char_not_white: "ns_char c \<Longrightarrow> \<not> js_white c"
  by (auto simp: ns_char_def ident_char_def alnum_char_def char_in_def js_white_def code_point_def)

lemma namespace_ns_chars: "namespace_pattern s \<Longrightarrow> s \<noteq> [] \<and> list_all ns_char s"
  by (cases s) (auto simp: ns_char_def ident_char_def)

lemma namespace_trim: "namespace_pattern s \<Longrightarrow> js_trim s = s"
  using namespace_ns_chars[of s] ns_char_not_white
  by (intro trim_fixed) (auto simp: list_all_iff)

lemma validateStorageNamespace_Inr: "validateStorageNamespace v = Inr n \<Longrightarrow> namespace_pattern n"
  by (auto simp: validateStorageNamespace_def Let_def split: if_splits)

lemma validateStorageNamespace_valid: "namespace_pattern n \<Longrightarrow> validateStorageNamespace n = Inr n"
  by (simp add: validateStorageNamespace_def namespace_trim)

subsection \<open>The in-memory store is a versioned store\<close>

definition memory_lookup :: "'a state_store \<Rightarrow> string \<times> string \<Rightarrow> ('a \<times> int) option" where
  "memory_lookup st k = (case store_get (fst k) (snd k) st of Inl e \<Rightarrow> None | Inr r \<Rightarrow> r)"

definition memory_cas :: "string \<times> string \<Rightarrow> int \<Rightarrow> 'a \<Rightarrow> 'a state_store \<Rightarrow> bool \<times> 'a state_store" where
  "memory_cas k v d st =
     (case compareAndSet (fst k) (snd k) (IntN v) d st of (r, st') \<Rightarrow> (r = Inr True, st'))"

interpretation memory_store: versioned_store memory_lookup memory_cas
proof
  fix k v and d :: 'a and s s'
  show "memory_cas k v d s = (True, s') \<Longrightarrow>
      (case memory_lookup s k of Some (_, n) \<Rightarrow> n | None \<Rightarrow> 0) = v \<and> (\<exists>n. v < n \<and> memory_lookup s' k = Some (d, n))"
    by (auto simp: memory_cas_def memory_lookup_def compareAndSet_def store_get_def store_version_def split: sum.splits if_splits)
  show "memory_cas k v d s = (False, s') \<Longrightarrow> memory_lookup s' = memory_lookup s"
    by (auto simp: memory_cas_def compareAndSet_def split: sum.splits if_splits)
next
  fix s k' k v and d :: 'a
  show "(case memory_lookup s k' of Some (_, n) \<Rightarrow> n | None \<Rightarrow> 0)
      \<le> (case memory_lookup (snd (memory_cas k v d s)) k' of Some (_, n) \<Rightarrow> n | None \<Rightarrow> 0)"
    by (auto simp: memory_cas_def memory_lookup_def compareAndSet_def store_get_def store_version_def split: sum.splits option.splits)
qed

text \<open>A placement version that was replaced is never accepted again, whatever is written in between.\<close>

lemma consumed_placement_version:
  assumes "memory_cas k v d s = (True, s')" "v' \<le> v"
  shows "\<not> fst (memory_cas k v' d' (foldl memory_store.attempt s' ws))"
  using assms by (rule memory_store.consumed_version_fails)

subsection \<open>The registry's invariant\<close>

definition slot_wf :: "worker_slot \<Rightarrow> bool" where
  "slot_wf w \<longleftrightarrow> namespace_pattern (ws_storageNamespace w) \<and> js_trim (ws_id w) = ws_id w \<and> ws_id w \<noteq> []
     \<and> length (ws_id w) \<le> 256 \<and> 1 \<le> ws_capacity w \<and> ws_capacity w \<le> 10000 \<and> 0 \<le> ws_load w"

definition registry_wf :: "registry \<Rightarrow> bool" where
  "registry_wf reg \<longleftrightarrow> jwf (rg_workers reg)
     \<and> (\<forall>k w. map_of (rg_workers reg) k = Some w \<longrightarrow> k = ws_id w \<and> slot_wf w)"

datatype registry_event =
    RgRegister "int option" string jsnum string "string option"
  | RgHeartbeat "int option" string
  | RgLoad string jsnum
  | RgSync "worker_node list"
  | RgRemove string

fun registry_step :: "registry \<Rightarrow> registry_event \<Rightarrow> registry" where
  "registry_step reg (RgRegister clk w c ns tn) = snd (registerWorker clk w c ns tn reg)"
| "registry_step reg (RgHeartbeat clk w) = snd (heartbeatWorker clk w reg)"
| "registry_step reg (RgLoad w l) = snd (updateLoad w l reg)"
| "registry_step reg (RgSync ns) = syncWorkers ns reg"
| "registry_step reg (RgRemove w) = removeWorker w reg"

lemma registry_wf_jset:
  "registry_wf reg \<Longrightarrow> slot_wf w \<Longrightarrow> registry_wf (reg\<lparr>rg_workers := jset (rg_workers reg) (ws_id w) w\<rparr>)"
  by (auto simp: registry_wf_def jset_apply simp del: map_of_eq_Some_iff)

lemma sync_entry_wf: "sync_entry n = Some w \<Longrightarrow> slot_wf w"
  by (auto simp: sync_entry_def slot_wf_def capacity_ok_def
      dest: validateScope_Inr validateStorageNamespace_Inr split: if_splits sum.splits)

lemma registry_wf_fold:
  "registry_wf reg \<Longrightarrow> \<forall>e \<in> set es. slot_wf e
   \<Longrightarrow> registry_wf (reg\<lparr>rg_workers := foldl (\<lambda>m e. jset m (ws_id e) e) (rg_workers reg) es\<rparr>)"
proof (induction es arbitrary: reg)
  case Nil
  then show ?case by simp
next
  case (Cons e es)
  from registry_wf_jset[of reg e] Cons.prems
    Cons.IH[of "reg\<lparr>rg_workers := jset (rg_workers reg) (ws_id e) e\<rparr>"]
  show ?case by simp
qed

lemma registry_wf_filter:
  assumes "registry_wf reg"
  shows "registry_wf (reg\<lparr>rg_workers := filter P (rg_workers reg)\<rparr>)"
proof -
  have wf: "jwf (rg_workers reg)"
    and ok: "map_of (rg_workers reg) k = Some w \<Longrightarrow> k = ws_id w \<and> slot_wf w" for k w
    using assms unfolding registry_wf_def by blast+
  have "map_of (rg_workers reg) k = Some w" if "map_of (filter P (rg_workers reg)) k = Some w" for k w
    using map_of_SomeD[OF that] wf by simp
  then show ?thesis
    using ok by (simp add: registry_wf_def distinct_map_filter[OF wf] del: map_of_eq_Some_iff) blast
qed

lemma registry_step_wf: "registry_wf reg \<Longrightarrow> registry_wf (registry_step reg e)"
proof (cases e)
  case (RgRegister clk w c ns tn)
  assume wf: "registry_wf reg"
  have "registry_wf (reg\<lparr>rg_workers := jset (rg_workers reg) w' \<lparr>ws_id = w', ws_tenantId = t, ws_capacity = c',
        ws_load = 0, ws_storageNamespace = n, ws_lastHeartbeat = now\<rparr>\<rparr>)"
    if "validateScope w ''workerId'' = Inr w'" "validateStorageNamespace ns = Inr n" "1 \<le> c'" "c' \<le> 10000" for w' t c' n now
    using registry_wf_jset[OF wf, of "\<lparr>ws_id = w', ws_tenantId = t, ws_capacity = c', ws_load = 0, ws_storageNamespace = n, ws_lastHeartbeat = now\<rparr>"]
      validateScope_Inr[OF that(1)] validateStorageNamespace_Inr[OF that(2)] that(3,4)
    by (simp add: slot_wf_def)
  then show ?thesis
    using wf by (auto simp: RgRegister registerWorker_def capacity_ok_def split: sum.splits jsnum.splits)
next
  case (RgHeartbeat clk w)
  assume wf: "registry_wf reg"
  show ?thesis
  proof (cases "map_of (rg_workers reg) w")
    case (Some s)
    with wf have "w = ws_id s" "slot_wf s" unfolding registry_wf_def by blast+
    then show ?thesis
      using wf Some registry_wf_jset[OF wf, of "s\<lparr>ws_lastHeartbeat := now\<rparr>" for now]
      by (simp add: RgHeartbeat heartbeatWorker_def slot_wf_def split: sum.splits)
  qed (use wf in \<open>simp add: RgHeartbeat heartbeatWorker_def\<close>)
next
  case (RgLoad w l)
  assume wf: "registry_wf reg"
  show ?thesis
  proof (cases "map_of (rg_workers reg) w")
    case (Some s)
    with wf have "w = ws_id s" "slot_wf s" unfolding registry_wf_def by blast+
    then show ?thesis
      using wf Some registry_wf_jset[OF wf, of "s\<lparr>ws_load := n\<rparr>" for n]
      by (simp add: RgLoad updateLoad_def slot_wf_def split: jsnum.splits)
  qed (use wf in \<open>simp add: RgLoad updateLoad_def split: jsnum.splits\<close>)
next
  case (RgSync ns)
  assume wf: "registry_wf reg"
  have "\<forall>e \<in> set (List.map_filter sync_entry ns). slot_wf e"
    by (auto simp: List.map_filter_def intro: sync_entry_wf)
  from registry_wf_filter[OF registry_wf_fold[OF wf this]] show ?thesis
    by (simp add: RgSync syncWorkers_def Let_def)
next
  case (RgRemove w)
  show "registry_wf reg \<Longrightarrow> ?thesis"
    by (auto simp: RgRemove removeWorker_def registry_wf_def jdel_apply simp del: map_of_eq_Some_iff)
qed

interpretation registry_machine: machine registry_step registry_wf
  by unfold_locales (rule registry_step_wf)

subsection \<open>Interleaved registries\<close>

text \<open>
  Several callers, each between its read and its compare-and-set, on one store. A caller may read,
  stop, and commit any number of other steps later; its registry is any well-formed one.
\<close>

record placement_world =
  pw_store :: "placement state_store"
  pw_plans :: "nat \<Rightarrow> ((string \<times> string) \<times> placement_plan) option"

inductive placement_step :: "string comparator \<Rightarrow> placement_world \<Rightarrow> placement_world \<Rightarrow> bool"
  for collate :: "string comparator" where
  begin_step: "registry_wf reg \<Longrightarrow> placement_begin collate clk t a req reg (pw_store w) = Inr p
    \<Longrightarrow> placement_step collate w (w\<lparr>pw_plans := (pw_plans w)(c := Some p)\<rparr>)"
| commit_step: "pw_plans w c = Some p \<Longrightarrow> placement_commit p (pw_store w) = (r, st)
    \<Longrightarrow> placement_step collate w (w\<lparr>pw_store := st, pw_plans := (pw_plans w)(c := None)\<rparr>)"

inductive_cases placement_stepE: "placement_step collate w w'"

text \<open>Each stored record carries its own version as generation.\<close>

definition store_ok :: "placement state_store \<Rightarrow> bool" where
  "store_ok st \<longleftrightarrow> (\<forall>k r v. st k = Some (r, v) \<longrightarrow>
     namespace_pattern (pr_storageNamespace r) \<and> pr_generation r = v \<and> 1 \<le> v)"

text \<open>A planned write follows the record it would replace, if that is still there.\<close>

fun plan_ok :: "placement state_store \<Rightarrow> (string \<times> string) \<times> placement_plan \<Rightarrow> bool" where
  "plan_ok st (k, Keep w g) = True"
| "plan_ok st (k, Write v nxt) =
     (stateKey (fst k) (snd k) = Inr k \<and> 0 \<le> v \<and> v \<le> store_version st k \<and> namespace_pattern (pr_storageNamespace nxt)
      \<and> pr_generation nxt = v + 1
      \<and> (\<forall>r. st k = Some (r, v) \<longrightarrow> pr_storageNamespace nxt = pr_storageNamespace r))"

definition world_ok :: "placement_world \<Rightarrow> bool" where
  "world_ok w \<longleftrightarrow> store_ok (pw_store w) \<and> (\<forall>c p. pw_plans w c = Some p \<longrightarrow> plan_ok (pw_store w) p)"

lemma selectWorker_mem: "cs \<noteq> [] \<Longrightarrow> selectWorker collate cs text \<in> set cs"
proof -
  assume "cs \<noteq> []"
  then have "unat (fnv1a text) mod length cs < length (Sorting_Algorithms.sort (key ws_id collate) cs)" by simp
  then have "selectWorker collate cs text \<in> set (Sorting_Algorithms.sort (key ws_id collate) cs)"
    unfolding selectWorker_def by (rule nth_mem)
  then show ?thesis by simp
qed

lemma candidates_mem:
  "registry_wf reg \<Longrightarrow> w \<in> set (candidates now t reg)
   \<Longrightarrow> map_of (rg_workers reg) (ws_id w) = Some w \<and> serves now t reg w \<and> ws_load w < ws_capacity w \<and> slot_wf w"
  by (auto simp: candidates_def registry_wf_def)

lemma validatePlacementRecord_stored:
  "namespace_pattern (pr_storageNamespace r) \<Longrightarrow> validatePlacementRecord r = Inr r'
   \<Longrightarrow> pr_storageNamespace r' = pr_storageNamespace r \<and> pr_generation r' = pr_generation r"
  by (auto simp: validatePlacementRecord_def validateStorageNamespace_valid split: if_splits sum.splits)

text \<open>What a successful read phase has decided.\<close>

lemma placement_begin_cases:
  assumes "placement_begin collate clk t a req reg st = Inr p"
  obtains (failover) now t' a' req' r v where "clk = Some now" "stateKey t' a' = Inr (t', a')" "st (t', a') = Some (r, v)"
      "map_sum id (Pair (t', a')) (plan_failover collate now t' a' req' reg (r, v)) = Inr p"
  | (fresh) now t' a' req' where "clk = Some now" "stateKey t' a' = Inr (t', a')" "st (t', a') = None"
      "req' = None \<or> (\<exists>n. req' = Some n \<and> namespace_pattern n)"
      "map_sum id (Pair (t', a')) (plan_new collate now t' a' req' reg) = Inr p"
proof -
  obtain t' a' req' now where v: "validateScope t ''tenantId'' = Inr t'" "validateScope a ''accountId'' = Inr a'"
      "placement_now clk = Inr now"
      "(case req of None \<Rightarrow> Inr None | Some n \<Rightarrow> map_sum id Some (validateStorageNamespace n)) = Inr req'"
    using assms by (auto simp: placement_begin_def split: sum.splits)
  have key: "stateKey t' a' = Inr (t', a')" using v by (intro stateKey_scoped)
  have clk: "clk = Some now" using v(3) by (auto simp: placement_now_def split: option.splits if_splits)
  have req: "req' = None \<or> (\<exists>n. req' = Some n \<and> namespace_pattern n)"
    using v(4) by (cases req; cases "validateStorageNamespace (the req)") (auto dest: validateStorageNamespace_Inr)
  show ?thesis
  proof (cases "st (t', a')")
    case None
    with assms v key show ?thesis by (intro fresh[OF clk key None req]) (simp add: placement_begin_def store_get_def)
  next
    case (Some rv)
    obtain r v' where rv: "rv = (r, v')" by (cases rv)
    from assms v key Some rv show ?thesis
      by (intro failover[OF clk key Some[unfolded rv]]) (simp add: placement_begin_def store_get_def)
  qed
qed

lemma plan_failover_write:
  assumes "plan_failover collate now t a req reg (r, v) = Inr (Write ev nxt)" and "namespace_pattern (pr_storageNamespace r)"
  shows "ev = v \<and> pr_storageNamespace nxt = pr_storageNamespace r \<and> pr_generation nxt = pr_generation r + 1
    \<and> (\<exists>w \<in> set (candidates now t reg). ws_id w = pr_workerId nxt \<and> ws_storageNamespace w = pr_storageNamespace r)"
proof -
  obtain rec where rec: "validatePlacementRecord r = Inr rec"
    using assms(1) by (auto simp: plan_failover_def split: sum.splits)
  let ?cs = "filter (\<lambda>w. ws_storageNamespace w = pr_storageNamespace rec) (candidates now t reg)"
  have "?cs \<noteq> []" using assms(1) rec by (auto simp: plan_failover_def Let_def split: if_splits)
  from selectWorker_mem[OF this, of collate "t @ NUL # a"]
  have "selectWorker collate ?cs (t @ NUL # a) \<in> set ?cs" .
  then show ?thesis
    using assms(1) rec validatePlacementRecord_stored[OF assms(2) rec]
    by (auto simp: plan_failover_def Let_def split: if_splits)
qed

lemma plan_new_write:
  assumes "plan_new collate now t a req reg = Inr p"
  shows "\<exists>nxt w. p = Write 0 nxt \<and> w \<in> set (candidates now t reg) \<and> ws_id w = pr_workerId nxt \<and> pr_generation nxt = 1
    \<and> pr_storageNamespace nxt = ws_storageNamespace w \<and> (\<forall>n. req = Some n \<longrightarrow> ws_storageNamespace w = n)"
proof -
  let ?cs = "case req of None \<Rightarrow> candidates now t reg | Some n \<Rightarrow> filter (\<lambda>w. ws_storageNamespace w = n) (candidates now t reg)"
  have ne: "?cs \<noteq> []" using assms by (auto simp: plan_new_def Let_def split: if_splits)
  define sel where "sel = selectWorker collate ?cs (t @ NUL # a)"
  have "sel \<in> set ?cs" unfolding sel_def by (rule selectWorker_mem[OF ne])
  moreover have "plan_new collate now t a req reg = Inr (Write 0 \<lparr>pr_workerId = ws_id sel,
      pr_storageNamespace = (case req of Some n \<Rightarrow> n | None \<Rightarrow> ws_storageNamespace sel), pr_generation = 1\<rparr>)"
    by (simp only: plan_new_def Let_def ne sel_def if_False)
  moreover note assms
  ultimately show ?thesis by (cases req) auto
qed

lemma begin_plan_ok:
  assumes "store_ok st" "registry_wf reg" "placement_begin collate clk t a req reg st = Inr p"
  shows "plan_ok st p"
  using assms(3)
proof (cases rule: placement_begin_cases)
  case (failover now t' a' req' r v)
  obtain pl where pl: "p = ((t', a'), pl)" "plan_failover collate now t' a' req' reg (r, v) = Inr pl"
    using failover(4) by (cases "plan_failover collate now t' a' req' reg (r, v)") auto
  have r: "namespace_pattern (pr_storageNamespace r)" "pr_generation r = v" "1 \<le> v"
    using assms(1) failover(3) unfolding store_ok_def by blast+
  show ?thesis
  proof (cases pl)
    case (Write ev nxt)
    with plan_failover_write[of collate now t' a' req' reg r v ev nxt] pl r failover show ?thesis
      by (auto simp: store_version_def)
  qed (use pl in simp)
next
  case (fresh now t' a' req')
  obtain pl where pl: "p = ((t', a'), pl)" "plan_new collate now t' a' req' reg = Inr pl"
    using fresh(5) by (cases "plan_new collate now t' a' req' reg") auto
  from plan_new_write[OF pl(2)] obtain nxt w where
    w: "pl = Write 0 nxt" "w \<in> set (candidates now t' reg)" "pr_generation nxt = 1" "pr_storageNamespace nxt = ws_storageNamespace w" by blast
  from candidates_mem[OF assms(2) w(2)] have "namespace_pattern (pr_storageNamespace nxt)"
    using w(4) by (simp add: slot_wf_def)
  with pl w fresh show ?thesis by (simp add: store_version_def)
qed

text \<open>A commit either leaves the store alone or installs the planned record over the version it read.\<close>

lemma commit_cases:
  assumes "placement_commit (k, pl) st = (r, st')" and "plan_ok st (k, pl)"
  obtains (same) "st' = st"
  | (written) v nxt where "pl = Write v nxt" "store_version st k = v" "st' = st(k := Some (nxt, v + 1))"
proof (cases pl)
  case (Keep w g)
  with assms(1) show ?thesis by (intro same) (cases k; simp add: placement_commit_def)
next
  case (Write v nxt)
  show ?thesis
  proof (cases "store_version st k = v \<and> is_safe_integer (IntN v)")
    case True
    with assms Write show ?thesis
      by (intro written[OF Write]) (cases k; auto simp: placement_commit_def compareAndSet_def)+
  next
    case False
    with assms Write show ?thesis
      by (intro same) (cases k; auto simp: placement_commit_def compareAndSet_def split: if_splits)
  qed
qed

lemma written_plans_ok:
  assumes "plan_ok st (k, Write v nxt)" "store_version st k = v" "plan_ok st q"
  shows "plan_ok (st(k := Some (nxt, v + 1))) q"
proof -
  obtain k2 pl where q: "q = (k2, pl)" by (cases q)
  show ?thesis
    using assms unfolding q by (cases pl; cases "k2 = k") (auto simp: store_version_def)
qed

lemma world_step_ok:
  assumes "placement_step collate w w'" "world_ok w"
  shows "world_ok w'"
  using assms(1)
proof cases
  case (begin_step reg clk t a req p c)
  with assms(2) begin_plan_ok show ?thesis by (auto simp: world_ok_def)
next
  case (commit_step c p r st)
  obtain k pl where p: "p = (k, pl)" by (cases p)
  have ok: "plan_ok (pw_store w) (k, pl)" "store_ok (pw_store w)"
    using assms(2) commit_step(2) p unfolding world_ok_def by blast+
  from commit_step(3)[unfolded p] ok(1) show ?thesis
  proof (cases rule: commit_cases)
    case same
    with assms(2) commit_step show ?thesis by (auto simp: world_ok_def)
  next
    case (written v nxt)
    have "store_ok st" using ok written by (auto simp: store_ok_def)
    moreover have "plan_ok st q" if "pw_plans w c' = Some q" for c' q
    proof -
      have "plan_ok (pw_store w) q" using that assms(2) unfolding world_ok_def by blast
      with written_plans_ok[of "pw_store w" k v nxt q] ok(1) written show ?thesis by simp
    qed
    ultimately show ?thesis using commit_step by (auto simp: world_ok_def)
  qed
qed

lemma world_ok_reachable:
  "rtranclp (placement_step collate) \<lparr>pw_store = \<lambda>_. None, pw_plans = \<lambda>_. None\<rparr> w \<Longrightarrow> world_ok w"
proof (induction rule: rtranclp_induct)
  case base
  show ?case by (simp add: world_ok_def store_ok_def)
next
  case (step y z)
  then show ?case by (blast intro: world_step_ok)
qed


definition sample_registry :: registry where
  "sample_registry = snd (registerWorker (Some 100) ''w1'' (IntN 4) ''disk-a'' None \<lparr>rg_workers = [], rg_timeoutMs = 30000\<rparr>)"

definition sample_placement :: placement where
  "sample_placement = \<lparr>pr_workerId = ''w1'', pr_storageNamespace = ''disk-a'', pr_generation = 1\<rparr>"

lemma sample_registry_wf: "registry_wf sample_registry"
  using registry_machine.run_good[of "\<lparr>rg_workers = [], rg_timeoutMs = 30000\<rparr>" "[RgRegister (Some 100) ''w1'' (IntN 4) ''disk-a'' None]"]
  by (simp add: sample_registry_def registry_wf_def)

lemma sample_registry_workers:
  "rg_workers sample_registry = [(''w1'', \<lparr>ws_id = ''w1'', ws_tenantId = ''*'', ws_capacity = 4, ws_load = 0,
     ws_storageNamespace = ''disk-a'', ws_lastHeartbeat = 100\<rparr>)]" "rg_timeoutMs sample_registry = 30000"
  by code_simp+

lemma sample_begin:
  "placement_begin collate (Some 200) ''t'' ''acc'' None sample_registry (\<lambda>_. None) = Inr ((''t'', ''acc''), Write 0 sample_placement)"
proof -
  have scopes: "validateScope ''t'' f = Inr ''t''" "validateScope ''acc'' f = Inr ''acc''" for f
    by (simp_all add: validateScope_def js_trim_def js_white_def code_point_def)
  have cs: "candidates 200 ''t'' sample_registry = [\<lparr>ws_id = ''w1'', ws_tenantId = ''*'', ws_capacity = 4, ws_load = 0,
     ws_storageNamespace = ''disk-a'', ws_lastHeartbeat = 100\<rparr>]"
    by (simp add: candidates_def serves_def sample_registry_workers)
  show ?thesis
    by (simp add: placement_begin_def scopes store_get_def stateKey_def placement_now_def plan_new_def cs Let_def
        selectWorker_def sample_placement_def)
qed


subsection \<open>What a caller gets\<close>

lemma commit_success:
  assumes "placement_commit (k, pl) st = (Inr (w, g), st')" "stateKey (fst k) (snd k) = Inr k"
  shows "(pl = Keep w g \<and> st' = st)
    \<or> (\<exists>v nxt. pl = Write v nxt \<and> w = pr_workerId nxt \<and> g = pr_generation nxt \<and> store_version st k = v
          \<and> st' = st(k := Some (nxt, v + 1)))"
  using assms by (cases pl; cases k) (auto simp: placement_commit_def compareAndSet_def split: if_splits)

lemma plan_failover_keep:
  assumes "plan_failover collate now t a req reg (r, v) = Inr (Keep w g)" and "namespace_pattern (pr_storageNamespace r)"
  shows "g = pr_generation r \<and> (\<exists>s. map_of (rg_workers reg) w = Some s \<and> serves now t reg s
    \<and> ws_storageNamespace s = pr_storageNamespace r)"
proof -
  obtain rec where rec: "validatePlacementRecord r = Inr rec"
    using assms(1) by (auto simp: plan_failover_def split: sum.splits)
  show ?thesis
    using assms(1) rec validatePlacementRecord_stored[OF assms(2) rec]
    by (auto simp: plan_failover_def Let_def split: if_splits option.splits)
qed

text \<open>
  A caller that gets a placement gets a live worker: the worker is registered for the tenant,
  its last heartbeat is within the timeout, and it serves the account's storage namespace, which is
  the one the caller required. Either the stored placement was kept, or a worker below its capacity
  was written with the returned generation over exactly the version that had been read.
\<close>

theorem placement_live:
  assumes "registry_wf reg" "store_ok st1"
    and "acquirePlacement collate clk t a req reg st1 st2 = (Inr (wid, g), st')"
  shows "\<exists>now k w r. clk = Some now \<and> map_of (rg_workers reg) wid = Some w \<and> serves now (fst k) reg w
    \<and> ws_storageNamespace w = pr_storageNamespace r \<and> pr_generation r = g
    \<and> ((st' = st2 \<and> st1 k = Some (r, g))
       \<or> (ws_load w < ws_capacity w \<and> store_version st2 k = store_version st1 k \<and> st' = st2(k := Some (r, g))))"
proof -
  obtain k pl where p: "placement_begin collate clk t a req reg st1 = Inr (k, pl)" "placement_commit (k, pl) st2 = (Inr (wid, g), st')"
    using assms(3) by (auto simp: acquirePlacement_def split: sum.splits)
  from p(1) show ?thesis
  proof (cases rule: placement_begin_cases)
    case (failover now t' a' req' r v)
    then have k: "k = (t', a')" "plan_failover collate now t' a' req' reg (r, v) = Inr pl"
      by (cases "plan_failover collate now t' a' req' reg (r, v)"; simp)+
    have r: "namespace_pattern (pr_storageNamespace r)" "pr_generation r = v"
      using assms(2) failover(3) unfolding store_ok_def by blast+
    from commit_success[OF p(2)] k(1) failover(2) consider "pl = Keep wid g" "st' = st2"
      | nxt where "pl = Write (store_version st2 k) nxt" "wid = pr_workerId nxt" "g = pr_generation nxt"
          "st' = st2(k := Some (nxt, store_version st2 k + 1))" by auto
    then show ?thesis
    proof cases
      case 1
      with plan_failover_keep[of collate now t' a' req' reg r v wid g] k r failover show ?thesis by auto
    next
      case 2
      from plan_failover_write[OF k(2)[unfolded 2(1)] r(1)] obtain w where
        w: "store_version st2 k = v" "pr_storageNamespace nxt = pr_storageNamespace r" "pr_generation nxt = v + 1"
          "w \<in> set (candidates now t' reg)" "ws_id w = pr_workerId nxt" "ws_storageNamespace w = pr_storageNamespace r"
        using r(2) by auto
      from candidates_mem[OF assms(1) w(4)] w 2 k(1) failover(1,3) show ?thesis
        by (intro exI[of _ now] exI[of _ k] exI[of _ w] exI[of _ nxt]) (auto simp: store_version_def)
    qed
  next
    case (fresh now t' a' req')
    then have k: "k = (t', a')" "plan_new collate now t' a' req' reg = Inr pl"
      by (cases "plan_new collate now t' a' req' reg"; simp)+
    from plan_new_write[OF k(2)] obtain nxt w where
      w: "pl = Write 0 nxt" "w \<in> set (candidates now t' reg)" "ws_id w = pr_workerId nxt" "pr_generation nxt = 1"
        "pr_storageNamespace nxt = ws_storageNamespace w" by blast
    from commit_success[OF p(2)] k(1) fresh(2) w(1) have c: "wid = pr_workerId nxt" "g = pr_generation nxt"
        "store_version st2 k = 0" "st' = st2(k := Some (nxt, 1))" by auto
    from candidates_mem[OF assms(1) w(2)] w c k(1) fresh(1,3) show ?thesis
      by (intro exI[of _ now] exI[of _ k] exI[of _ w] exI[of _ nxt]) (auto simp: store_version_def)
  qed
qed

lemma sample_acquire:
  "acquirePlacement collate (Some 200) ''t'' ''acc'' None sample_registry (\<lambda>_. None) (\<lambda>_. None)
     = (Inr (''w1'', 1), [(''t'', ''acc'') \<mapsto> (sample_placement, 1)])"
  by (simp add: acquirePlacement_def sample_begin placement_commit_def compareAndSet_def stateKey_def validateScope_def
      js_trim_def js_white_def code_point_def store_version_def MAX_SAFE_def sample_placement_def)

theorem placement_live_witness:
  "\<exists>w. map_of (rg_workers sample_registry) ''w1'' = Some w
     \<and> ws_storageNamespace w = pr_storageNamespace sample_placement"
proof -
  have "store_ok (\<lambda>_. None)" by (simp add: store_ok_def)
  from placement_live[OF sample_registry_wf this sample_acquire] show ?thesis
    by (auto simp: fun_eq_iff split: if_splits)
qed

subsection \<open>Registration order does not matter\<close>

lemma filter_equiv_perm:
  assumes "mset xs = mset ys" and "\<And>x. x \<in> set xs \<Longrightarrow> P x \<Longrightarrow> x = a"
  shows "filter P xs = filter P ys"
proof -
  have all: "zs = replicate (length zs) a" if "\<And>x. x \<in> set zs \<Longrightarrow> x = a" for zs
    using that by (induction zs) auto
  have ys: "\<And>x. x \<in> set ys \<Longrightarrow> P x \<Longrightarrow> x = a" using assms(2) mset_eq_setD[OF assms(1)] by simp
  have "filter P xs = replicate (length (filter P xs)) a" by (rule all) (use assms(2) in auto)
  moreover have "filter P ys = replicate (length (filter P ys)) a" by (rule all) (use ys in auto)
  moreover have "length (filter P xs) = length (filter P ys)"
    using assms(1) by (metis mset_filter size_mset)
  ultimately show ?thesis by metis
qed

lemma sort_perm:
  assumes "mset xs = mset ys" and "\<And>x y. x \<in> set xs \<Longrightarrow> y \<in> set xs \<Longrightarrow> compare cmp x y = Equiv \<Longrightarrow> x = y"
  shows "Sorting_Algorithms.sort cmp xs = Sorting_Algorithms.sort cmp ys"
proof (rule sort_eqI)
  show "mset xs = mset (Sorting_Algorithms.sort cmp ys)" using assms(1) by simp
  show "stable_segment cmp y xs = stable_segment cmp y (Sorting_Algorithms.sort cmp ys)" if "y \<in> set xs" for y
    unfolding stable_sort using filter_equiv_perm[OF assms(1), of "\<lambda>x. compare cmp y x = Equiv" y] assms(2) that by auto
qed simp

lemma selectWorker_perm:
  assumes "mset xs = mset ys" and "\<And>x y. x \<in> set xs \<Longrightarrow> y \<in> set xs \<Longrightarrow> ws_id x = ws_id y \<Longrightarrow> x = y"
    and "\<And>a b. compare collate a b = Equiv \<Longrightarrow> a = b"
  shows "selectWorker collate xs text = selectWorker collate ys text"
proof -
  have "Sorting_Algorithms.sort (key ws_id collate) xs = Sorting_Algorithms.sort (key ws_id collate) ys"
    using assms by (intro sort_perm) auto
  moreover have "length xs = length ys" using assms(1) by (metis size_mset)
  ultimately show ?thesis by (simp add: selectWorker_def)
qed


lemma default_string_comparator: "compare (default :: string comparator) a b = Equiv \<longrightarrow> a = b"
  by simp


end
