(* ===== verification/Scheduler.thy ===== *)
theory Scheduler
  imports TaskQueue Placement
begin

text \<open>
  \<open>src/distributed/scheduler.ts\<close>: the master scheduler over the in-memory adapter, with its
  placement registry and store. The URL policy is the parameter \<open>policy\<close> (\<open>None\<close> when the
  scheduler was built without one). Generated task ids and the clock are arguments; \<open>env\<close> is what
  other processes write to the placement store between a read and its compare-and-set. The two
  Chinese event messages are represented by ASCII constants.
\<close>

datatype sched_error =
    SInvalid string | SPolicyDenied string | STaskNotFound | STaskRunning | STaskNotRetryable
  | SQueue queue_error | SPlacement placement_error | SAggregate queue_error queue_error

text \<open>What \<open>urlPolicy.assertAllowed\<close> did: throw, return \<open>false\<close>, a \<open>URL\<close>, an object with an
  \<open>allowed\<close> field, or anything else.\<close>

datatype policy_result = PolicyThrew string | PolicyFalse | PolicyUrl string | PolicyObject bool | PolicyOther

type_synonym url_policy = "(string \<Rightarrow> policy_result) option"

record task_def =
  td_taskId :: "string option"
  td_projectId :: "string option"
  td_runId :: "string option"
  td_url :: string
  td_mode :: "execution_mode option"
  td_priority :: "task_priority option"
  td_extractionSchema :: "json option"
  td_maxRetries :: "jsreal option"
  td_timeoutMs :: "jsreal option"
  td_profileId :: "string option"
  td_proxyId :: "string option"
  td_accountGroup :: "string option"

record sched =
  sc_queue :: queue
  sc_registry :: registry
  sc_store :: "placement state_store"

text \<open>The options of one task after validation.\<close>

record task_args =
  ta_id :: string
  ta_projectId :: "string option"
  ta_runId :: "string option"
  ta_mode :: execution_mode
  ta_priority :: task_priority
  ta_maxRetries :: int
  ta_timeoutMs :: int
  ta_profileId :: "string option"
  ta_proxyId :: "string option"
  ta_accountGroup :: "string option"

subsection \<open>Validation of a definition\<close>

definition task_id_char :: "char \<Rightarrow> bool" where
  "task_id_char c = (alnum_char c \<or> c \<in> {CHR ''_'', CHR ''-''})"

definition taskId :: "string \<Rightarrow> string option \<Rightarrow> sched_error + string" where
  "taskId generated v =
     (case v of
        None \<Rightarrow> Inr generated
      | Some s \<Rightarrow> if s \<noteq> [] \<and> length s \<le> 128 \<and> list_all task_id_char s then Inr s
                  else Inl (SInvalid ''invalid-task-id''))"

definition taskLabel :: "string option \<Rightarrow> string \<Rightarrow> sched_error + string option" where
  "taskLabel v name =
     (case v of
        None \<Rightarrow> Inr None
      | Some s \<Rightarrow> if ident_pattern 63 s then Inr (Some s) else Inl (SInvalid (''invalid-'' @ name)))"

definition clamp_number :: "int \<Rightarrow> int \<Rightarrow> int \<Rightarrow> string \<Rightarrow> jsreal option \<Rightarrow> sched_error + int" where
  "clamp_number lo hi dflt name v =
     (case v of
        None \<Rightarrow> Inr (max lo (min hi dflt))
      | Some NonFinite \<Rightarrow> Inl (SInvalid name)
      | Some (Fin x) \<Rightarrow> Inr (max lo (min hi \<lfloor>x\<rfloor>)))"

definition maxRetries :: "jsreal option \<Rightarrow> sched_error + int" where
  "maxRetries v = clamp_number 0 10 3 ''maxRetries'' v"

definition timeoutMs :: "jsreal option \<Rightarrow> sched_error + int" where
  "timeoutMs v = clamp_number 1000 120000 30000 ''timeoutMs'' v"

definition task_args_of :: "string \<Rightarrow> task_def \<Rightarrow> sched_error + task_args" where
  "task_args_of generated d =
     (case taskId generated (td_taskId d) of Inl e \<Rightarrow> Inl e | Inr tid \<Rightarrow>
      (case taskLabel (td_projectId d) ''projectId'' of Inl e \<Rightarrow> Inl e | Inr project \<Rightarrow>
      (case taskLabel (td_runId d) ''runId'' of Inl e \<Rightarrow> Inl e | Inr run \<Rightarrow>
      (case maxRetries (td_maxRetries d) of Inl e \<Rightarrow> Inl e | Inr retries \<Rightarrow>
      (case timeoutMs (td_timeoutMs d) of Inl e \<Rightarrow> Inl e | Inr timeout \<Rightarrow>
      (case taskLabel (td_profileId d) ''profileId'' of Inl e \<Rightarrow> Inl e | Inr profile \<Rightarrow>
      (case taskLabel (td_proxyId d) ''proxyId'' of Inl e \<Rightarrow> Inl e | Inr proxy \<Rightarrow>
      (case taskLabel (td_accountGroup d) ''accountGroup'' of Inl e \<Rightarrow> Inl e | Inr grp \<Rightarrow>
        Inr \<lparr>ta_id = tid, ta_projectId = project, ta_runId = run,
             ta_mode = (case td_mode d of Some m \<Rightarrow> m | None \<Rightarrow> FetchMode),
             ta_priority = (case td_priority d of Some p \<Rightarrow> p | None \<Rightarrow> NORMAL),
             ta_maxRetries = retries, ta_timeoutMs = timeout,
             ta_profileId = profile, ta_proxyId = proxy, ta_accountGroup = grp\<rparr>))))))))"

subsection \<open>Policy, placement and claims\<close>

definition assertTaskUrl :: "url_policy \<Rightarrow> string \<Rightarrow> sched_error + string" where
  "assertTaskUrl policy url =
     (case policy of
        None \<Rightarrow> Inl (SPolicyDenied ''missing-url-policy'')
      | Some assertAllowed \<Rightarrow>
        (case assertAllowed url of
           PolicyThrew m \<Rightarrow> Inl (SPolicyDenied m)
         | PolicyFalse \<Rightarrow> Inl (SPolicyDenied ''url-not-allowed'')
         | PolicyObject allowed \<Rightarrow> if allowed then Inr url else Inl (SPolicyDenied ''url-not-allowed'')
         | PolicyUrl u \<Rightarrow> Inr u
         | PolicyOther \<Rightarrow> Inr url))"

datatype preflight_policy = PfAllow | PfDeny | PfUnavailable

text \<open>\<open>preflightTaskUrl\<close>; \<open>parse\<close> is \<open>new URL(url).origin\<close>, \<open>None\<close> when it throws.\<close>

definition preflightTaskUrl ::
  "(string \<Rightarrow> string option) \<Rightarrow> url_policy \<Rightarrow> string \<Rightarrow> bool \<times> string option \<times> preflight_policy \<times> string" where
  "preflightTaskUrl parse policy url =
     (case parse url of
        None \<Rightarrow> (False, None, PfDeny, ''invalid-url'')
      | Some origin \<Rightarrow>
        (case policy of
           None \<Rightarrow> (False, Some origin, PfUnavailable, ''missing-url-policy'')
         | Some assertAllowed \<Rightarrow>
           (case assertAllowed url of
              PolicyThrew m \<Rightarrow> (False, Some origin, PfDeny, take 120 m)
            | r \<Rightarrow> (let allowed = (case r of PolicyFalse \<Rightarrow> False | PolicyObject b \<Rightarrow> b | _ \<Rightarrow> True)
                    in (allowed, Some origin, if allowed then PfAllow else PfDeny,
                        if allowed then ''approved'' else ''url-not-allowed'')))))"

definition MSG_QUEUED :: string where "MSG_QUEUED = ''task queued''"
definition MSG_CANCELLED :: string where "MSG_CANCELLED = ''task cancelled by operator''"
definition MSG_RETRYING :: string where "MSG_RETRYING = ''task queued again''"

text \<open>
  \<open>resolvePlacement\<close>: only browser tasks with a profile are placed; a conflicting first attempt is
  repeated once.
\<close>

definition resolvePlacement ::
  "string comparator \<Rightarrow> (placement state_store \<Rightarrow> placement state_store) \<Rightarrow> int \<Rightarrow> string \<Rightarrow> execution_mode
   \<Rightarrow> string option \<Rightarrow> sched \<Rightarrow> (sched_error + (string \<times> int) option) \<times> sched" where
  "resolvePlacement collate env now tenantId mode profileId s =
     (case (mode, profileId) of
        (BrowserMode, Some profile) \<Rightarrow>
          (case listWorkers (Some tenantId) (sc_queue s) of
             Inl e \<Rightarrow> (Inl (SQueue e), s)
           | Inr nodes \<Rightarrow>
             (let reg = syncWorkers nodes (sc_registry s); s1 = s\<lparr>sc_registry := reg\<rparr>
              in case acquirePlacement collate (Some now) tenantId profile None reg (sc_store s) (env (sc_store s)) of
                   (Inr p, st) \<Rightarrow> (Inr (Some p), s1\<lparr>sc_store := st\<rparr>)
                 | (Inl CasConflict, st) \<Rightarrow>
                     (case acquirePlacement collate (Some now) tenantId profile None reg st st of
                        (Inr p, st2) \<Rightarrow> (Inr (Some p), s1\<lparr>sc_store := st2\<rparr>)
                      | (Inl e, st2) \<Rightarrow> (Inl (SPlacement e), s1\<lparr>sc_store := st2\<rparr>))
                 | (Inl e, st) \<Rightarrow> (Inl (SPlacement e), s1\<lparr>sc_store := st\<rparr>)))
      | _ \<Rightarrow> (Inr None, s))"

definition schedClaimUrls :: "int \<Rightarrow> string list \<Rightarrow> string \<Rightarrow> queue \<Rightarrow> (sched_error + unit) \<times> queue" where
  "schedClaimUrls now urls tenantId q =
     (case claimUrls now urls None (Some tenantId) q of
        (Inl e, q') \<Rightarrow> (Inl (SQueue e), q')
      | (Inr ok, q') \<Rightarrow> (if ok then Inr () else Inl (SInvalid ''duplicate-url''), q'))"

definition compensateUrlClaim :: "string list \<Rightarrow> string \<Rightarrow> queue_error \<Rightarrow> queue \<Rightarrow> sched_error \<times> queue" where
  "compensateUrlClaim urls tenantId enqueueError q =
     (case releaseUrls urls (Some tenantId) q of
        (Inl releaseError, q') \<Rightarrow> (SAggregate enqueueError releaseError, q')
      | (Inr _, q') \<Rightarrow> (SQueue enqueueError, q'))"

definition new_record :: "int \<Rightarrow> string \<Rightarrow> task_args \<Rightarrow> string \<Rightarrow> json option \<Rightarrow> (string \<times> int) option \<Rightarrow> task" where
  "new_record now tenantId a url schema placement =
     \<lparr>t_id = ta_id a, t_tenantId = tenantId, t_projectId = ta_projectId a, t_runId = ta_runId a, t_url = url,
      t_mode = ta_mode a, t_priority = ta_priority a, t_state = TPending, t_retries = 0,
      t_maxRetries = ta_maxRetries a, t_workerId = None, t_leaseId = None, t_sessionId = None,
      t_extractionSchema = schema, t_timeoutMs = ta_timeoutMs a, t_createdAt = now, t_startedAt = None,
      t_completedAt = None, t_result = None, t_error = None, t_errorCode = None, t_durationMs = None,
      t_events = Some [\<lparr>ev_at = now, ev_state = TPending, ev_phase = PhQueued, ev_message = MSG_QUEUED, ev_workerId = None\<rparr>],
      t_profileId = ta_profileId a, t_proxyId = ta_proxyId a, t_accountGroup = ta_accountGroup a,
      t_targetWorkerId = map_option fst placement, t_placementGeneration = map_option snd placement\<rparr>"

text \<open>Claim the URLs, enqueue, and undo the claim when enqueueing throws.\<close>

definition enqueue_claimed ::
  "int \<Rightarrow> string list \<Rightarrow> string \<Rightarrow> (queue \<Rightarrow> (queue_error + unit) \<times> queue) \<Rightarrow> queue \<Rightarrow> (sched_error + unit) \<times> queue" where
  "enqueue_claimed now urls tenantId enqueue q =
     (case schedClaimUrls now urls tenantId q of
        (Inl e, q1) \<Rightarrow> (Inl e, q1)
      | (Inr _, q1) \<Rightarrow>
        (case enqueue q1 of
           (Inr _, q2) \<Rightarrow> (Inr (), q2)
         | (Inl enqueueError, q2) \<Rightarrow>
             (case compensateUrlClaim urls tenantId enqueueError q2 of (e, q3) \<Rightarrow> (Inl e, q3))))"

definition submitTask ::
  "string comparator \<Rightarrow> (placement state_store \<Rightarrow> placement state_store) \<Rightarrow> url_policy \<Rightarrow> int \<Rightarrow> string
   \<Rightarrow> task_def \<Rightarrow> string option \<Rightarrow> sched \<Rightarrow> (sched_error + task) \<times> sched" where
  "submitTask collate env policy now generated d tenantArg s =
     (case normalizeTenantId tenantArg of
        None \<Rightarrow> (Inl (SQueue InvalidTenantId), s)
      | Some tenantId \<Rightarrow>
     (case task_args_of generated d of
        Inl e \<Rightarrow> (Inl e, s)
      | Inr a \<Rightarrow>
     (case resolvePlacement collate env now tenantId (ta_mode a) (ta_profileId a) s of
        (Inl e, s1) \<Rightarrow> (Inl e, s1)
      | (Inr placement, s1) \<Rightarrow>
     (case assertTaskUrl policy (td_url d) of
        Inl e \<Rightarrow> (Inl e, s1)
      | Inr url \<Rightarrow>
        (let record = new_record now tenantId a url (td_extractionSchema d) placement
         in case enqueue_claimed now [url] tenantId (enqueueTask record) (sc_queue s1) of
              (Inl e, q) \<Rightarrow> (Inl e, s1\<lparr>sc_queue := q\<rparr>)
            | (Inr _, q) \<Rightarrow> (Inr record, s1\<lparr>sc_queue := q\<rparr>))))))"

subsection \<open>Batches\<close>

text \<open>
  Left to right, stopping at the first exception; the placements, which the code starts together
  with \<open>Promise.all\<close>, are resolved one after the other.
\<close>

fun map_sum_list :: "('a \<Rightarrow> 'e + 'b) \<Rightarrow> 'a list \<Rightarrow> 'e + 'b list" where
  "map_sum_list f [] = Inr []"
| "map_sum_list f (x # xs) =
     (case f x of Inl e \<Rightarrow> Inl e | Inr y \<Rightarrow> (case map_sum_list f xs of Inl e \<Rightarrow> Inl e | Inr ys \<Rightarrow> Inr (y # ys)))"

fun resolve_all ::
  "string comparator \<Rightarrow> (placement state_store \<Rightarrow> placement state_store) \<Rightarrow> int \<Rightarrow> string \<Rightarrow> task_args list \<Rightarrow> sched
   \<Rightarrow> (sched_error + (string \<times> int) option list) \<times> sched" where
  "resolve_all collate env now tenantId [] s = (Inr [], s)"
| "resolve_all collate env now tenantId (a # as) s =
     andthen (resolvePlacement collate env now tenantId (ta_mode a) (ta_profileId a)) (\<lambda>p.
     andthen (resolve_all collate env now tenantId as) (\<lambda>ps s. (Inr (p # ps), s))) s"

definition submitBatch ::
  "string comparator \<Rightarrow> (placement state_store \<Rightarrow> placement state_store) \<Rightarrow> url_policy \<Rightarrow> int \<Rightarrow> string list
   \<Rightarrow> task_def list \<Rightarrow> string option \<Rightarrow> sched \<Rightarrow> (sched_error + task list) \<times> sched" where
  "submitBatch collate env policy now generated ds tenantArg s =
     (case normalizeTenantId tenantArg of
        None \<Rightarrow> (Inl (SQueue InvalidTenantId), s)
      | Some tenantId \<Rightarrow>
     if length ds < 1 \<or> length ds > 500 then (Inl (SInvalid ''batch-size-out-of-range''), s) else
     (case map_sum_list (\<lambda>(g, d). task_args_of g d) (zip generated ds) of
        Inl e \<Rightarrow> (Inl e, s)
      | Inr as \<Rightarrow>
     if \<not> distinct (map ta_id as) then (Inl (SInvalid ''duplicate-task-id-in-batch''), s) else
     (case map_sum_list (\<lambda>d. assertTaskUrl policy (td_url d)) ds of
        Inl e \<Rightarrow> (Inl e, s)
      | Inr urls \<Rightarrow>
     if \<not> distinct urls then (Inl (SInvalid ''duplicate-url-in-batch''), s) else
     (case resolve_all collate env now tenantId as s of
        (Inl e, s1) \<Rightarrow> (Inl e, s1)
      | (Inr placements, s1) \<Rightarrow>
        (let records = map (\<lambda>(a, url, d, p). new_record now tenantId a url (td_extractionSchema d) p)
                         (zip as (zip urls (zip ds placements)))
         in case enqueue_claimed now urls tenantId (enqueueBatch records) (sc_queue s1) of
              (Inl e, q) \<Rightarrow> (Inl e, s1\<lparr>sc_queue := q\<rparr>)
            | (Inr _, q) \<Rightarrow> (Inr records, s1\<lparr>sc_queue := q\<rparr>))))))"

subsection \<open>Task control\<close>

definition phase_state :: "task_phase \<Rightarrow> task_state" where
  "phase_state p = (case p of PhQueued \<Rightarrow> TPending | PhRunning \<Rightarrow> TRunning | PhRetrying \<Rightarrow> TRetrying
     | PhCompleted \<Rightarrow> TCompleted | PhFailed \<Rightarrow> TFailed | PhCancelled \<Rightarrow> TCancelled)"

text \<open>\<open>slice(-n)\<close>.\<close>

definition last_n :: "nat \<Rightarrow> 'a list \<Rightarrow> 'a list" where
  "last_n n xs = drop (length xs - n) xs"

definition appendTaskEvent :: "int \<Rightarrow> task \<Rightarrow> task_phase \<Rightarrow> string \<Rightarrow> task_event list" where
  "appendTaskEvent now t phase message =
     last_n 50 ((case t_events t of Some es \<Rightarrow> es | None \<Rightarrow> [])
       @ [\<lparr>ev_at = now, ev_state = phase_state phase, ev_phase = phase, ev_message = message,
           ev_workerId = (if falsy (t_workerId t) then None else t_workerId t)\<rparr>])"

definition cancelTask :: "int \<Rightarrow> string \<Rightarrow> string option \<Rightarrow> sched \<Rightarrow> (sched_error + task) \<times> sched" where
  "cancelTask now tid tenantArg s =
     (case getTask tid tenantArg (sc_queue s) of
        Inl e \<Rightarrow> (Inl (SQueue e), s)
      | Inr None \<Rightarrow> (Inl STaskNotFound, s)
      | Inr (Some t) \<Rightarrow>
        if t_state t = TRunning then (Inl STaskRunning, s)
        else if t_state t = TCancelled then (Inr t, s)
        else (let updated = t\<lparr>t_state := TCancelled, t_completedAt := Some now,
                              t_events := Some (appendTaskEvent now t PhCancelled MSG_CANCELLED)\<rparr>
              in case updateTask updated (sc_queue s) of
                   (Inl e, q) \<Rightarrow> (Inl (SQueue e), s\<lparr>sc_queue := q\<rparr>)
                 | (Inr _, q) \<Rightarrow> (Inr updated, s\<lparr>sc_queue := q\<rparr>)))"

definition retryTask ::
  "string comparator \<Rightarrow> (placement state_store \<Rightarrow> placement state_store) \<Rightarrow> int \<Rightarrow> string \<Rightarrow> string option \<Rightarrow> sched
   \<Rightarrow> (sched_error + task) \<times> sched" where
  "retryTask collate env now tid tenantArg s =
     (case getTask tid tenantArg (sc_queue s) of
        Inl e \<Rightarrow> (Inl (SQueue e), s)
      | Inr None \<Rightarrow> (Inl STaskNotFound, s)
      | Inr (Some t) \<Rightarrow>
        if t_state t \<noteq> TFailed \<and> t_state t \<noteq> TCancelled then (Inl STaskNotRetryable, s)
        else (case resolvePlacement collate env now (t_tenantId t) (t_mode t) (t_profileId t) s of
            (Inl e, s1) \<Rightarrow> (Inl e, s1)
          | (Inr placement, s1) \<Rightarrow>
            (let updated = t\<lparr>t_state := TRetrying, t_retries := 0, t_completedAt := None, t_error := None,
                             t_errorCode := None, t_targetWorkerId := map_option fst placement,
                             t_placementGeneration := map_option snd placement,
                             t_events := Some (appendTaskEvent now t PhRetrying MSG_RETRYING)\<rparr>
             in case enqueueTask updated (sc_queue s1) of
                  (Inl e, q) \<Rightarrow> (Inl (SQueue e), s1\<lparr>sc_queue := q\<rparr>)
                | (Inr _, q) \<Rightarrow> (Inr updated, s1\<lparr>sc_queue := q\<rparr>))))"

definition schedRegisterWorker :: "int \<Rightarrow> worker_node \<Rightarrow> sched \<Rightarrow> (sched_error + unit) \<times> sched" where
  "schedRegisterWorker now n s =
     (case normalizeTenantId (Some (wn_tenantId n)) of
        None \<Rightarrow> (Inl (SQueue InvalidTenantId), s)
      | Some tenantId \<Rightarrow>
        (case registerWorker (Some now) (wn_workerId n) (IntN (wn_capacity n))
                (case wn_storageNamespace n of Some ns \<Rightarrow> ns | None \<Rightarrow> ''local:'' @ wn_workerId n) (Some tenantId) (sc_registry s) of
           (Inl e, reg) \<Rightarrow> (Inl (SPlacement e), s\<lparr>sc_registry := reg\<rparr>)
         | (Inr _, reg) \<Rightarrow>
        (case updateLoad (wn_workerId n) (IntN (wn_activeTasks n)) reg of
           (Inl e, reg') \<Rightarrow> (Inl (SPlacement e), s\<lparr>sc_registry := reg'\<rparr>)
         | (Inr _, reg') \<Rightarrow>
        (case updateWorkerHeartbeat now (n\<lparr>wn_tenantId := tenantId\<rparr>) (sc_queue s) of
           (Inl e, q) \<Rightarrow> (Inl (SQueue e), s\<lparr>sc_registry := reg', sc_queue := q\<rparr>)
         | (Inr _, q) \<Rightarrow> (Inr (), s\<lparr>sc_registry := reg', sc_queue := q\<rparr>)))))"

record cluster_status =
  cs_totalWorkers :: nat
  cs_healthyWorkers :: nat
  cs_totalCapacity :: int
  cs_activeTasks :: int
  cs_queuedTasks :: nat
  cs_completedTasks :: nat
  cs_failedTasks :: nat

definition getClusterStatus :: "int \<Rightarrow> string option \<Rightarrow> sched \<Rightarrow> sched_error + cluster_status" where
  "getClusterStatus now tenantArg s =
     (case normalizeTenantId tenantArg of
        None \<Rightarrow> Inl (SQueue InvalidTenantId)
      | Some tenantId \<Rightarrow>
     (case listWorkers (Some tenantId) (sc_queue s) of Inl e \<Rightarrow> Inl (SQueue e) | Inr workers \<Rightarrow>
     (case listTasks 500 (Some tenantId) None (sc_queue s) of Inl e \<Rightarrow> Inl (SQueue e) | Inr tasks \<Rightarrow>
       (let healthy = filter (\<lambda>w. wn_healthy w \<and> now - wn_lastHeartbeat w < 60000) workers
        in Inr \<lparr>cs_totalWorkers = length workers, cs_healthyWorkers = length healthy,
             cs_totalCapacity = sum_list (map wn_capacity healthy),
             cs_activeTasks = sum_list (map wn_activeTasks healthy),
             cs_queuedTasks = length (filter is_queued tasks),
             cs_completedTasks = length (filter (\<lambda>t. t_state t = TCompleted) tasks),
             cs_failedTasks = length (filter (\<lambda>t. t_state t = TFailed) tasks)\<rparr>))))"

definition schedListTasks :: "task_filter \<Rightarrow> nat \<Rightarrow> string option \<Rightarrow> sched \<Rightarrow> sched_error + task list" where
  "schedListTasks flt limit tenantArg s =
     (case taskLabel (tf_projectId flt) ''projectId'' of Inl e \<Rightarrow> Inl e | Inr project \<Rightarrow>
      (case taskLabel (tf_runId flt) ''runId'' of Inl e \<Rightarrow> Inl e | Inr run \<Rightarrow>
      (case normalizeTenantId tenantArg of None \<Rightarrow> Inl (SQueue InvalidTenantId) | Some tenantId \<Rightarrow>
        map_sum SQueue id (listTasks limit (Some tenantId)
          (Some (flt\<lparr>tf_projectId := project, tf_runId := run\<rparr>)) (sc_queue s)))))"

subsection \<open>Submitting one task\<close>

lemma clamp_bounds: "lo \<le> hi \<Longrightarrow> clamp_number lo hi d n v = Inr x \<Longrightarrow> lo \<le> x \<and> x \<le> hi"
  by (auto simp: clamp_number_def split: option.splits jsreal.splits)

lemma task_args_bounds:
  "task_args_of g d = Inr a \<Longrightarrow> 0 \<le> ta_maxRetries a \<and> ta_maxRetries a \<le> 10 \<and> 1000 \<le> ta_timeoutMs a \<and> ta_timeoutMs a \<le> 120000"
  by (auto simp: task_args_of_def maxRetries_def timeoutMs_def dest: clamp_bounds[rotated] split: sum.splits)

lemma resolvePlacement_queue: "sc_queue (snd (resolvePlacement collate env now tn m pr s)) = sc_queue s"
  by (auto simp: resolvePlacement_def Let_def split: execution_mode.splits option.splits sum.splits prod.splits placement_error.splits)

lemma claim_refused: "claimUrls now urls ttl tn q = (r, q') \<Longrightarrow> r \<noteq> Inr True \<Longrightarrow> q' = q"
  by (auto simp: claimUrls_def Let_def split: option.splits if_splits)

lemma enqueue_refused: "enqueueTask t q = (Inl e, q') \<Longrightarrow> q' = q"
  by (cases rule: enqueueTask_cases[of t q]) auto

text \<open>A claim followed by its release is as if it had never been made.\<close>

lemma claim_release:
  assumes "claimUrls now urls None (Some tn) q = (Inr True, q1)" "now \<le> tm"
  shows "q_tasks q1 = q_tasks q \<and> q_pending q1 = q_pending q \<and> q_workers q1 = q_workers q
    \<and> (\<exists>q2. releaseUrls urls (Some tn) q1 = (Inr (), q2) \<and> q_tasks q2 = q_tasks q \<and> q_pending q2 = q_pending q \<and> q_workers q2 = q_workers q
        \<and> url_claimed tm b (q_seenUrls q2) url = url_claimed tm b (q_seenUrls q) url)"
proof -
  have free: "\<not> list_ex (url_claimed now tn (q_seenUrls q)) urls" and n: "normalizeTenantId (Some tn) = Some tn" and ne: "urls \<noteq> []"
    and q1: "q1 = q\<lparr>q_seenUrls := foldl (\<lambda>m u. jset m (taskKey tn u) (now + 2592000 * 1000)) (q_seenUrls q) urls\<rparr>"
    using assms(1) by (auto simp: claimUrls_def Let_def dest: normalizeTenantId_id split: option.splits if_splits)
  have "url_claimed tm b (foldl (\<lambda>m u. jdel m (taskKey tn u)) (q_seenUrls q1) urls) url = url_claimed tm b (q_seenUrls q) url"
  proof (cases "taskKey b url \<in> taskKey tn ` set urls")
    case True
    then obtain u where u: "u \<in> set urls" "taskKey b url = taskKey tn u" by blast
    with free have "\<not> url_claimed now tn (q_seenUrls q) u" by (simp add: list_ex_iff)
    with u assms(2) True show ?thesis
      by (auto simp: url_claimed_def map_of_foldl_jdel split: option.splits)
  next
    case False
    then show ?thesis by (simp add: url_claimed_def map_of_foldl_jdel q1 map_of_foldl_jset)
  qed
  with q1 n ne show ?thesis by (simp add: releaseUrls_def)
qed

lemma enqueue_claimed_cases:
  assumes "enqueue_claimed now urls tn (enqueueTask t) q = (r, q')"
  obtains (queued) q1 where "r = Inr ()" "claimUrls now urls None (Some tn) q = (Inr True, q1)" "enqueueTask t q1 = (Inr (), q')"
  | (undone) e where "r = Inl e" "q_tasks q' = q_tasks q" "q_pending q' = q_pending q" "q_workers q' = q_workers q"
      "\<forall>tm b url. now \<le> tm \<longrightarrow> url_claimed tm b (q_seenUrls q') url = url_claimed tm b (q_seenUrls q) url"
proof -
  obtain rc q1 where c: "claimUrls now urls None (Some tn) q = (rc, q1)" by (cases "claimUrls now urls None (Some tn) q")
  show ?thesis
  proof (cases "rc = Inr True")
    case False
    with claim_refused[OF c] have q1: "q1 = q" by simp
    obtain e where "r = Inl e" "q' = q"
      using assms c q1 False by (auto simp: enqueue_claimed_def schedClaimUrls_def split: sum.splits if_splits)
    then show ?thesis by (intro undone) simp_all
  next
    case True
    then have cl: "claimUrls now urls None (Some tn) q = (Inr True, q1)" using c by simp
    obtain re q2 where e: "enqueueTask t q1 = (re, q2)" by (cases "enqueueTask t q1")
    show ?thesis
    proof (cases re)
      case (Inr u)
      with assms cl e show ?thesis by (intro queued[of q1]) (simp_all add: enqueue_claimed_def schedClaimUrls_def)
    next
      case (Inl err)
      with e enqueue_refused have q2: "q2 = q1" by blast
      obtain q3 where q3: "releaseUrls urls (Some tn) q1 = (Inr (), q3)" using claim_release[OF cl order_refl] by blast
      have "r = Inl (SQueue err) \<and> q' = q3"
        using assms cl e Inl q2 q3 by (simp add: enqueue_claimed_def schedClaimUrls_def compensateUrlClaim_def)
      then show ?thesis
        using claim_release[OF cl order_refl] claim_release[OF cl] q3 by (intro undone) auto
    qed
  qed
qed

lemma submitTask_cases:
  assumes "submitTask collate env policy now g d tnarg s = (r, s')"
  obtains (early) e where "r = Inl e" "sc_queue s' = sc_queue s"
  | (reached) tn a url p r1 where "normalizeTenantId tnarg = Some tn" "task_args_of g d = Inr a" "assertTaskUrl policy (td_url d) = Inr url"
      "enqueue_claimed now [url] tn (enqueueTask (new_record now tn a url (td_extractionSchema d) p)) (sc_queue s) = (r1, sc_queue s')"
      "r = map_sum id (\<lambda>_. new_record now tn a url (td_extractionSchema d) p) r1"
proof -
  consider (bad) "normalizeTenantId tnarg = None \<or> (\<exists>e. task_args_of g d = Inl e)"
    | (ok) tn a where "normalizeTenantId tnarg = Some tn" "task_args_of g d = Inr a"
    by (cases "normalizeTenantId tnarg"; cases "task_args_of g d") auto
  then show ?thesis
  proof cases
    case bad
    with assms show ?thesis by (intro early[of "projl r"]) (auto simp: submitTask_def split: option.splits sum.splits)
  next
    case (ok tn a)
    obtain rp s1 where rp: "resolvePlacement collate env now tn (ta_mode a) (ta_profileId a) s = (rp, s1)"
      by (cases "resolvePlacement collate env now tn (ta_mode a) (ta_profileId a) s")
    with resolvePlacement_queue[of collate env now tn "ta_mode a" "ta_profileId a" s] have q: "sc_queue s1 = sc_queue s" by simp
    show ?thesis
    proof (cases "(\<exists>e. rp = Inl e) \<or> (\<exists>e. assertTaskUrl policy (td_url d) = Inl e)")
      case True
      with assms ok rp q show ?thesis
        by (intro early[of "projl r"]) (auto simp: submitTask_def split: sum.splits)
    next
      case False
      then obtain p url where "rp = Inr p" "assertTaskUrl policy (td_url d) = Inr url"
        by (cases rp; cases "assertTaskUrl policy (td_url d)") auto
      with assms ok rp q show ?thesis
        by (intro reached[where tn = tn and a = a and url = url and p = p
             and ?r1.0 = "fst (enqueue_claimed now [url] tn (enqueueTask (new_record now tn a url (td_extractionSchema d) p)) (sc_queue s))"]) (auto simp: submitTask_def Let_def split: sum.splits prod.splits)
    qed
  qed
qed

text \<open>
  C16: a submitted task is really there: when \<open>submitTask\<close> returns a record, the caller reads exactly
  that record back, it is pending in the queue and eligible for its worker, its URL is claimed for
  the tenant for thirty days, and its limits lie in the documented ranges whatever the caller asked.
\<close>

theorem submit_round_trip:
  assumes "submitTask collate env policy now g d tnarg s = (Inr t, s')"
  shows "getTask (t_id t) tnarg (sc_queue s') = Inr (Some t)
    \<and> taskKey (t_tenantId t) (t_id t) \<in> set (q_pending (sc_queue s')) \<and> t_state t = TPending
    \<and> (\<forall>tm. fst (isUrlSeen tm (t_url t) tnarg (sc_queue s')) = Inr (tm < now + 2592000 * 1000))
    \<and> 0 \<le> t_maxRetries t \<and> t_maxRetries t \<le> 10 \<and> 1000 \<le> t_timeoutMs t \<and> t_timeoutMs t \<le> 120000"
  using assms
proof (cases rule: submitTask_cases)
  case (reached tn a url p r1)
  from reached(5) have r1: "r1 = Inr ()" and t: "t = new_record now tn a url (td_extractionSchema d) p" by (cases r1; simp)+
  from reached(4)[folded t] r1 show ?thesis
  proof (cases rule: enqueue_claimed_cases)
    case (queued q1)
    have ids: "t_tenantId t = tn" "t_id t = ta_id a" "t_url t = url" "is_queued t" "t_state t = TPending"
      "t_maxRetries t = ta_maxRetries a" "t_timeoutMs t = ta_timeoutMs a"
      by (simp_all add: t new_record_def is_queued_def)
    have seen: "map_of (q_seenUrls q1) (taskKey tn url) = Some (now + 2592000 * 1000)"
      using queued(2) by (auto simp: claimUrls_def Let_def jset_apply dest: normalizeTenantId_id split: option.splits if_splits)
    from queued(3) have q': "sc_queue s' = q1\<lparr>q_tasks := jset (q_tasks q1) (taskKey tn (t_id t)) t,
         q_pending := (if taskKey tn (t_id t) \<in> set (q_pending q1) then q_pending q1 else q_pending q1 @ [taskKey tn (t_id t)])\<rparr>"
      using ids by (cases rule: enqueueTask_cases[of t q1]) auto
    show ?thesis
      using q' seen ids reached(1) task_args_bounds[OF reached(2)]
      by (auto simp: getTask_def isUrlSeen_def Let_def jset_apply)
  qed (use r1 in simp)
qed simp

definition sample_sched :: sched where
  "sample_sched = \<lparr>sc_queue = empty_queue, sc_registry = \<lparr>rg_workers = [], rg_timeoutMs = 60000\<rparr>, sc_store = \<lambda>_. None\<rparr>"

definition sample_def :: "string \<Rightarrow> string \<Rightarrow> task_def" where
  "sample_def tid url = \<lparr>td_taskId = Some tid, td_projectId = None, td_runId = None, td_url = url, td_mode = None,
     td_priority = None, td_extractionSchema = None, td_maxRetries = Some (Fin 99), td_timeoutMs = None,
     td_profileId = None, td_proxyId = None, td_accountGroup = None\<rparr>"

lemma sample_submit:
  "\<exists>t s'. submitTask flat id (Some (\<lambda>_. PolicyOther)) 100 ''g'' (sample_def ''job'' ''https://a'') None sample_sched = (Inr t, s')
     \<and> t_id t = ''job'' \<and> t_maxRetries t = 10"
  by (simp add: submitTask_def sample_def_def sample_sched_def empty_queue_def normalizeTenantId_def DEFAULT_TENANT_ID_def
      isTenantId_def alnum_char_def char_in_def ident_char_def task_args_of_def taskId_def task_id_char_def taskLabel_def
      maxRetries_def timeoutMs_def clamp_number_def resolvePlacement_def assertTaskUrl_def enqueue_claimed_def
      schedClaimUrls_def claimUrls_def Let_def url_claimed_def enqueueTask_def new_record_def lease_owned_def)

theorem submit_round_trip_witness:
  "\<exists>t s'. submitTask flat id (Some (\<lambda>_. PolicyOther)) 100 ''g'' (sample_def ''job'' ''https://a'') None sample_sched = (Inr t, s')
     \<and> getTask ''job'' None (sc_queue s') = Inr (Some t) \<and> t_maxRetries t = 10"
proof -
  obtain t s' where s: "submitTask flat id (Some (\<lambda>_. PolicyOther)) 100 ''g'' (sample_def ''job'' ''https://a'') None sample_sched = (Inr t, s')"
      "t_id t = ''job''" "t_maxRetries t = 10"
    using sample_submit by blast
  from submit_round_trip[OF s(1)] s show ?thesis by auto
qed

text \<open>
  C17: a submission that throws, for whatever reason (validation, policy, placement, a duplicate
  URL, a lost lease while enqueueing), leaves no trace in the queue: tasks, pending order and
  workers are as before, and no URL of any tenant stays claimed that was not claimed already.
\<close>

theorem submit_failure_compensated:
  assumes "submitTask collate env policy now g d tnarg s = (Inl e, s')"
  shows "q_tasks (sc_queue s') = q_tasks (sc_queue s) \<and> q_pending (sc_queue s') = q_pending (sc_queue s)
    \<and> q_workers (sc_queue s') = q_workers (sc_queue s)
    \<and> (\<forall>tm b url. now \<le> tm \<longrightarrow> url_claimed tm b (q_seenUrls (sc_queue s')) url = url_claimed tm b (q_seenUrls (sc_queue s)) url)"
  using assms
proof (cases rule: submitTask_cases)
  case (reached tn a url p r1)
  from reached(5) obtain e1 where r1: "r1 = Inl e1" by (cases r1) auto
  from reached(4) r1 show ?thesis by (cases rule: enqueue_claimed_cases) auto
qed simp

definition leased_sched :: sched where
  "leased_sched = sample_sched\<lparr>sc_queue := snd (dequeueTask 50 ''l1'' ''w1'' None
     (snd (enqueueTask (sample_task ''default'' ''b'' NORMAL) empty_queue)))\<rparr>"

lemma leased_submit_fails:
  "fst (submitTask flat id (Some (\<lambda>_. PolicyOther)) 100 ''g'' (sample_def ''b'' ''https://b'') None leased_sched) = Inl (SQueue TASK_LEASE_LOST)"
  by code_simp

theorem submit_failure_compensated_witness:
  "\<not> url_claimed 100 ''default'' (q_seenUrls (sc_queue (snd
      (submitTask flat id (Some (\<lambda>_. PolicyOther)) 100 ''g'' (sample_def ''b'' ''https://b'') None leased_sched)))) ''https://b''"
proof -
  let ?r = "submitTask flat id (Some (\<lambda>_. PolicyOther)) 100 ''g'' (sample_def ''b'' ''https://b'') None leased_sched"
  have "?r = (Inl (SQueue TASK_LEASE_LOST), snd ?r)" by (rule prod_eqI) (simp_all add: leased_submit_fails)
  from submit_failure_compensated[OF this] have
    "url_claimed 100 ''default'' (q_seenUrls (sc_queue (snd ?r))) ''https://b'' = url_claimed 100 ''default'' (q_seenUrls (sc_queue leased_sched)) ''https://b''"
    by simp
  moreover have "\<not> url_claimed 100 ''default'' (q_seenUrls (sc_queue leased_sched)) ''https://b''" by code_simp
  ultimately show ?thesis by simp
qed

text \<open>
  A batch is not compensated that way: when its second task fails to enqueue, the first stays in the
  queue while the claim on its URL is released, so the same URL can be submitted again.
\<close>

lemma batch_partial_failure:
  "(let r = submitBatch flat id (Some (\<lambda>_. PolicyOther)) 100 [''g'', ''h'']
              [sample_def ''a'' ''https://a'', sample_def ''b'' ''https://b''] None leased_sched
    in fst r = Inl (SQueue TASK_LEASE_LOST)
       \<and> taskKey ''default'' ''a'' \<in> set (q_pending (sc_queue (snd r)))
       \<and> \<not> url_claimed 100 ''default'' (q_seenUrls (sc_queue (snd r))) ''https://a'')"
  by code_simp

subsection \<open>Submitting a batch\<close>

lemma enqueueBatch_success:
  assumes "enqueueBatch ts q = (Inr (), q')" "distinct (map t_id ts)" "\<forall>t \<in> set ts. t_tenantId t = tn \<and> is_queued t" "isTenantId tn"
  shows "(\<forall>t \<in> set ts. map_of (q_tasks q') (taskKey tn (t_id t)) = Some t \<and> taskKey tn (t_id t) \<in> set (q_pending q'))
    \<and> (\<forall>k. (\<forall>t \<in> set ts. k \<noteq> taskKey tn (t_id t)) \<longrightarrow> map_of (q_tasks q') k = map_of (q_tasks q) k)
    \<and> set (q_pending q) \<subseteq> set (q_pending q') \<and> q_seenUrls q' = q_seenUrls q"
  using assms
proof (induction ts arbitrary: q)
  case Nil
  then show ?case by simp
next
  case (Cons t ts)
  obtain r1 q1 where e: "enqueueTask t q = (r1, q1)" by (cases "enqueueTask t q")
  with Cons.prems(1) have r1: "r1 = Inr ()" and rest: "enqueueBatch ts q1 = (Inr (), q')"
    by (cases r1; simp add: andthen_def)+
  from e r1 Cons.prems(3) have q1: "q1 = q\<lparr>q_tasks := jset (q_tasks q) (taskKey tn (t_id t)) t,
      q_pending := (if taskKey tn (t_id t) \<in> set (q_pending q) then q_pending q else q_pending q @ [taskKey tn (t_id t)])\<rparr>"
    by (cases rule: enqueueTask_cases[of t q]) auto
  have fresh: "\<forall>u \<in> set ts. taskKey tn (t_id t) \<noteq> taskKey tn (t_id u)"
    using Cons.prems(2) taskKey_inject[OF assms(4,4)] by force
  from Cons.IH[OF rest] Cons.prems(2-4) have IH:
    "\<forall>u \<in> set ts. map_of (q_tasks q') (taskKey tn (t_id u)) = Some u \<and> taskKey tn (t_id u) \<in> set (q_pending q')"
    "\<forall>k. (\<forall>u \<in> set ts. k \<noteq> taskKey tn (t_id u)) \<longrightarrow> map_of (q_tasks q') k = map_of (q_tasks q1) k"
    "set (q_pending q1) \<subseteq> set (q_pending q')" "q_seenUrls q' = q_seenUrls q1" by auto
  have "map_of (q_tasks q') (taskKey tn (t_id t)) = Some t" using IH(2) fresh q1 by (simp add: jset_apply)
  moreover have "taskKey tn (t_id t) \<in> set (q_pending q')" "set (q_pending q) \<subseteq> set (q_pending q')"
    using IH(3) q1 by (auto split: if_splits)
  moreover have "map_of (q_tasks q') k = map_of (q_tasks q) k" if "\<forall>u \<in> set (t # ts). k \<noteq> taskKey tn (t_id u)" for k
    using IH(2) that q1 by (simp add: jset_apply)
  ultimately show ?case using IH(1,4) q1 by simp
qed

lemma map_sum_list_length: "map_sum_list f xs = Inr ys \<Longrightarrow> length ys = length xs"
  by (induction xs arbitrary: ys) (auto split: sum.splits)

lemma resolve_all_queue: "sc_queue (snd (resolve_all collate env now tn as s)) = sc_queue s"
proof (induction as arbitrary: s)
  case Nil
  then show ?case by simp
next
  case (Cons a as)
  show ?case unfolding resolve_all.simps
    by (rule andthen_post[where P = "\<lambda>s'. sc_queue s' = sc_queue s"], simp add: resolvePlacement_queue,
        rule andthen_post[where P = "\<lambda>s'. sc_queue s' = sc_queue s"]) (simp_all add: Cons.IH)
qed

lemma resolve_all_length: "resolve_all collate env now tn as s = (Inr ps, s') \<Longrightarrow> length ps = length as"
proof (induction as arbitrary: s ps)
  case Nil
  then show ?case by simp
next
  case (Cons a as)
  then show ?case by (auto simp: andthen_def split: sum.splits prod.splits)
qed

lemma claimed_all:
  assumes "claimUrls now urls None (Some tn) q = (Inr True, q1)" "u \<in> set urls"
  shows "url_claimed now tn (q_seenUrls q1) u"
  using assms by (auto simp: claimUrls_def Let_def url_claimed_def map_of_foldl_jset
      dest: normalizeTenantId_id split: option.splits if_splits)

text \<open>
  An accepted batch is complete: one task per definition, with distinct identifiers and
  distinct URLs, each of which can be read back exactly, is pending, and has its URL claimed.
\<close>

theorem submit_batch_complete:
  assumes "submitBatch collate env policy now gs ds tnarg s = (Inr ts, s')" and "length gs = length ds"
  shows "length ts = length ds \<and> 1 \<le> length ts \<and> length ts \<le> 500 \<and> distinct (map t_id ts) \<and> distinct (map t_url ts)
    \<and> (\<forall>t \<in> set ts. getTask (t_id t) tnarg (sc_queue s') = Inr (Some t)
          \<and> taskKey (t_tenantId t) (t_id t) \<in> set (q_pending (sc_queue s'))
          \<and> url_claimed now (t_tenantId t) (q_seenUrls (sc_queue s')) (t_url t))"
proof -
  obtain tn where tn: "normalizeTenantId tnarg = Some tn" using assms(1) by (auto simp: submitBatch_def split: option.splits)
  have "\<not> (length ds < 1 \<or> length ds > 500)"
  proof
    assume "length ds < 1 \<or> length ds > 500"
    with assms(1) tn show False unfolding submitBatch_def by (simp only: option.case if_True) simp
  qed
  then have size: "1 \<le> length ds" "length ds \<le> 500" "ds \<noteq> []" by (linarith, linarith, auto)
  obtain as urls where as: "map_sum_list (\<lambda>(g, d). task_args_of g d) (zip gs ds) = Inr as" "distinct (map ta_id as)"
      "map_sum_list (\<lambda>d. assertTaskUrl policy (td_url d)) ds = Inr urls" "distinct urls"
  proof (cases "map_sum_list (\<lambda>(g, d). task_args_of g d) (zip gs ds)")
    case (Inr as)
    then show ?thesis
      using that assms(1) tn size
      by (cases "map_sum_list (\<lambda>d. assertTaskUrl policy (td_url d)) ds") (auto simp: submitBatch_def split: if_splits)
  qed (use assms(1) tn size in \<open>simp add: submitBatch_def split: if_splits\<close>)
  obtain ps s1 where ps: "resolve_all collate env now tn as s = (Inr ps, s1)"
    using assms(1) tn size as by (auto simp: submitBatch_def split: sum.splits prod.splits)
  have len: "length as = length ds" "length urls = length ds" "length ps = length ds"
    using map_sum_list_length[OF as(1)] map_sum_list_length[OF as(3)] resolve_all_length[OF ps] assms(2) by simp_all
  define recs where "recs = map (\<lambda>(a, url, d, p). new_record now tn a url (td_extractionSchema d) p) (zip as (zip urls (zip ds ps)))"
  obtain q where q: "enqueue_claimed now urls tn (enqueueBatch recs) (sc_queue s1) = (Inr (), q)" "ts = recs" "s' = s1\<lparr>sc_queue := q\<rparr>"
    using assms(1) tn size as ps by (auto simp: submitBatch_def Let_def recs_def split: sum.splits prod.splits)
  have ids: "map t_id recs = map ta_id as" "map t_url recs = urls"
    using len by (auto intro!: nth_equalityI simp: new_record_def recs_def)
  have recs_len: "length recs = length ds" using len by (simp add: recs_def)
  obtain q1 where q1: "claimUrls now urls None (Some tn) (sc_queue s1) = (Inr True, q1)" "enqueueBatch recs q1 = (Inr (), q)"
    using q(1) by (auto simp: enqueue_claimed_def schedClaimUrls_def split: sum.splits prod.splits if_splits)
  have mine: "\<forall>t \<in> set recs. t_tenantId t = tn \<and> is_queued t" by (auto simp: new_record_def is_queued_def recs_def)
  from enqueueBatch_success[OF q1(2) _ mine normalizeTenantId_Some[OF tn]] ids as(2)
  have batch: "\<forall>t \<in> set recs. map_of (q_tasks q) (taskKey tn (t_id t)) = Some t \<and> taskKey tn (t_id t) \<in> set (q_pending q)"
    "q_seenUrls q = q_seenUrls q1" by simp_all
  have "url_claimed now tn (q_seenUrls q) (t_url t)" if "t \<in> set recs" for t
  proof -
    have "t_url t \<in> set (map t_url recs)" using that by simp
    with claimed_all[OF q1(1), of "t_url t"] batch(2) show ?thesis by (simp only: ids(2))
  qed
  then show ?thesis
    using batch(1) mine q(2,3) as(2,4) recs_len tn size
    by (simp add: getTask_def ids)
qed

theorem submit_batch_complete_witness:
  "\<exists>ts s'. submitBatch flat id (Some (\<lambda>_. PolicyOther)) 100 [''g'', ''h'']
       [sample_def ''a'' ''https://a'', sample_def ''c'' ''https://c''] None leased_sched = (Inr ts, s')
     \<and> length ts = 2 \<and> distinct (map t_id ts)"
proof -
  let ?r = "submitBatch flat id (Some (\<lambda>_. PolicyOther)) 100 [''g'', ''h'']
       [sample_def ''a'' ''https://a'', sample_def ''c'' ''https://c''] None leased_sched"
  have "case fst ?r of Inl _ \<Rightarrow> False | Inr _ \<Rightarrow> True" by code_simp
  then obtain ts where "fst ?r = Inr ts" by (cases "fst ?r") auto
  then have r: "?r = (Inr ts, snd ?r)" by (simp add: prod_eq_iff)
  from submit_batch_complete[OF r] have "length ts = 2 \<and> distinct (map t_id ts)" by simp
  with r show ?thesis by blast
qed

subsection \<open>Cancelling and retrying\<close>

lemma getTask_Some: "getTask tid tnarg q = Inr (Some t) \<Longrightarrow> \<exists>n. normalizeTenantId tnarg = Some n \<and> isTenantId n \<and> map_of (q_tasks q) (taskKey n tid) = Some t"
  by (auto simp: getTask_def dest: normalizeTenantId_Some split: option.splits)

lemma stored_ids:
  "queue_wf q \<Longrightarrow> getTask tid tnarg q = Inr (Some t)
   \<Longrightarrow> normalizeTenantId tnarg = Some (t_tenantId t) \<and> isTenantId (t_tenantId t) \<and> t_id t = tid
     \<and> map_of (q_tasks q) (taskKey (t_tenantId t) tid) = Some t"
  using getTask_Some[of tid tnarg q t] taskKey_inject unfolding queue_wf_def by metis

lemma last_n_snoc: "0 < n \<Longrightarrow> length (last_n n (xs @ [x])) \<le> n \<and> last (last_n n (xs @ [x])) = x \<and> last_n n (xs @ [x]) \<noteq> []"
  by (auto simp: last_n_def)

lemma cancelTask_ok:
  assumes "queue_wf (sc_queue s)" "getTask tid tnarg (sc_queue s) = Inr (Some t)" "t_state t \<noteq> TRunning"
  shows "\<exists>t1. fst (cancelTask now tid tnarg s) = Inr t1 \<and> t_state t1 = TCancelled \<and> t_id t1 = tid \<and> t_tenantId t1 = t_tenantId t
    \<and> t_mode t1 = t_mode t \<and> t_profileId t1 = t_profileId t \<and> queue_wf (sc_queue (snd (cancelTask now tid tnarg s)))
    \<and> getTask tid tnarg (sc_queue (snd (cancelTask now tid tnarg s))) = Inr (Some t1)"
proof (cases "t_state t = TCancelled")
  case True
  with assms stored_ids[OF assms(1,2)] show ?thesis by (simp add: cancelTask_def)
next
  case False
  note ids = stored_ids[OF assms(1,2)]
  let ?u = "t\<lparr>t_state := TCancelled, t_completedAt := Some now, t_events := Some (appendTaskEvent now t PhCancelled MSG_CANCELLED)\<rparr>"
  have norm: "normalizeTenantId (Some (t_tenantId t)) = Some (t_tenantId t)" using ids by (simp add: normalizeTenantId_def)
  have "updateTask ?u (sc_queue s) = (Inr (), (sc_queue s)\<lparr>q_tasks := jset (q_tasks (sc_queue s)) (taskKey (t_tenantId t) tid) ?u\<rparr>)"
    using ids norm by (simp add: updateTask_def Let_def lease_owned_def split: option.split)
  with assms False updateTask_wf[OF assms(1), of ?u] ids show ?thesis
    by (simp add: cancelTask_def Let_def getTask_def jset_apply)
qed

lemma not_queued_not_dequeued:
  assumes "queue_wf q" "map_of (q_tasks q) (taskKey tn tid) = Some t" "\<not> is_queued t"
    and "fst (dequeueTask tm uuid w tn2 q) = Inr (Some t')"
  shows "(t_tenantId t', t_id t') \<noteq> (tn, tid)"
proof (cases rule: dequeueTask_cases[of tn2 tm uuid w q])
  case (taken n k t0 ks)
  have "k = taskKey (t_tenantId t0) (t_id t0)" using assms(1) taken(2) unfolding queue_wf_def by blast
  moreover have "t_tenantId t' = t_tenantId t0 \<and> t_id t' = t_id t0"
  proof -
    from assms(4) have "t' = t0\<lparr>t_state := TRunning, t_startedAt := Some tm, t_workerId := Some w, t_leaseId := Some uuid\<rparr>"
      unfolding taken(7) by simp
    then show ?thesis by simp
  qed
  ultimately show ?thesis using taken(2,3) assms(2,3) by auto
qed (use assms(4) in simp_all)

lemma enqueue_replaces:
  assumes "isTenantId (t_tenantId u)" "map_of (q_tasks q) (taskKey (t_tenantId u) (t_id u)) = Some t"
    "t_leaseId u = t_leaseId t" "t_workerId u = t_workerId t" "is_queued u"
  shows "\<exists>q'. enqueueTask u q = (Inr (), q') \<and> map_of (q_tasks q') (taskKey (t_tenantId u) (t_id u)) = Some u
    \<and> taskKey (t_tenantId u) (t_id u) \<in> set (q_pending q')"
proof -
  have "lease_owned (Some t) u" using assms(3,4) by (simp add: lease_owned_def split: option.split)
  then show ?thesis
    using assms(1,2,5) by (simp add: enqueueTask_def normalizeTenantId_def Let_def jset_apply)
qed

lemma retryTask_ok:
  assumes "queue_wf (sc_queue s)" "getTask tid tnarg (sc_queue s) = Inr (Some t)" "t_state t = TFailed \<or> t_state t = TCancelled"
    and "t_mode t = FetchMode \<or> t_profileId t = None"
  shows "\<exists>t2. fst (retryTask collate env now tid tnarg s) = Inr t2 \<and> t_state t2 = TRetrying \<and> t_retries t2 = 0
    \<and> t_error t2 = None \<and> t_completedAt t2 = None
    \<and> t_events t2 = Some (appendTaskEvent now t PhRetrying MSG_RETRYING)
    \<and> getTask tid tnarg (sc_queue (snd (retryTask collate env now tid tnarg s))) = Inr (Some t2)
    \<and> taskKey (t_tenantId t) tid \<in> set (q_pending (sc_queue (snd (retryTask collate env now tid tnarg s))))"
proof -
  note ids = stored_ids[OF assms(1,2)]
  let ?u = "t\<lparr>t_state := TRetrying, t_retries := 0, t_completedAt := None, t_error := None, t_errorCode := None,
      t_targetWorkerId := None, t_placementGeneration := None, t_events := Some (appendTaskEvent now t PhRetrying MSG_RETRYING)\<rparr>"
  have place: "resolvePlacement collate env now (t_tenantId t) (t_mode t) (t_profileId t) s = (Inr None, s)"
    using assms(4) by (auto simp: resolvePlacement_def split: execution_mode.split)
  obtain q' where q': "enqueueTask ?u (sc_queue s) = (Inr (), q')" "map_of (q_tasks q') (taskKey (t_tenantId t) tid) = Some ?u"
      "taskKey (t_tenantId t) tid \<in> set (q_pending q')"
    using enqueue_replaces[of ?u "sc_queue s" t] ids by (auto simp: is_queued_def)
  have "retryTask collate env now tid tnarg s = (Inr ?u, s\<lparr>sc_queue := q'\<rparr>)"
    using assms(2,3) place q' by (auto simp: retryTask_def Let_def)
  then show ?thesis using q' ids by (simp add: getTask_def)
qed

text \<open>
  Cancelling and retrying. A cancelled task stays out of every worker's hands, whichever worker
  or tenant dequeues; a retry of it is accepted, resets its retry counter, error and completion,
  puts it back into the pending queue under the same identifier, and both operations keep at most
  fifty events with the new one last. A running task can be neither cancelled nor retried.
\<close>

theorem cancel_then_retry:
  fixes now now2 :: int and collate :: "string comparator" and env :: "placement state_store \<Rightarrow> placement state_store"
  assumes "queue_wf (sc_queue s)" and "getTask tid tnarg (sc_queue s) = Inr (Some t)" and "t_state t \<noteq> TRunning"
    and "t_mode t = FetchMode \<or> t_profileId t = None"
  defines "c \<equiv> cancelTask now tid tnarg s"
  defines "r \<equiv> retryTask collate env now2 tid tnarg (snd c)"
  shows "\<exists>t1 t2. fst c = Inr t1 \<and> t_state t1 = TCancelled \<and> t_id t1 = tid
    \<and> (\<forall>tm w2 uuid tn2 t'. fst (dequeueTask tm uuid w2 tn2 (sc_queue (snd c))) = Inr (Some t')
          \<longrightarrow> (t_tenantId t', t_id t') \<noteq> (t_tenantId t, tid))
    \<and> fst r = Inr t2 \<and> t_state t2 = TRetrying \<and> t_retries t2 = 0 \<and> t_error t2 = None \<and> t_completedAt t2 = None
    \<and> getTask tid tnarg (sc_queue (snd r)) = Inr (Some t2)
    \<and> taskKey (t_tenantId t) tid \<in> set (q_pending (sc_queue (snd r)))
    \<and> (case t_events t2 of None \<Rightarrow> False | Some es \<Rightarrow> length es \<le> 50 \<and> ev_phase (last es) = PhRetrying)"
proof -
  obtain t1 where t1: "fst c = Inr t1" "t_state t1 = TCancelled" "t_id t1 = tid" "t_tenantId t1 = t_tenantId t"
      "t_mode t1 = FetchMode \<or> t_profileId t1 = None" "queue_wf (sc_queue (snd c))"
      "getTask tid tnarg (sc_queue (snd c)) = Inr (Some t1)"
    using cancelTask_ok[OF assms(1-3), of now] assms(4) unfolding c_def by auto
  have idle: "(t_tenantId t', t_id t') \<noteq> (t_tenantId t, tid)"
    if "fst (dequeueTask tm uuid w2 tn2 (sc_queue (snd c))) = Inr (Some t')" for tm uuid w2 tn2 t'
    using not_queued_not_dequeued[OF t1(6) _ _ that, of "t_tenantId t" tid t1] stored_ids[OF t1(6,7)] t1(2,4)
    by (simp add: is_queued_def)
  obtain t2 where t2: "fst r = Inr t2" "t_state t2 = TRetrying" "t_retries t2 = 0" "t_error t2 = None" "t_completedAt t2 = None"
      "t_events t2 = Some (appendTaskEvent now2 t1 PhRetrying MSG_RETRYING)"
      "getTask tid tnarg (sc_queue (snd r)) = Inr (Some t2)" "taskKey (t_tenantId t) tid \<in> set (q_pending (sc_queue (snd r)))"
    using retryTask_ok[OF t1(6,7) _ t1(5), of collate env now2] t1(2,4) unfolding r_def by auto
  have "length (appendTaskEvent now2 t1 PhRetrying MSG_RETRYING) \<le> 50
      \<and> ev_phase (last (appendTaskEvent now2 t1 PhRetrying MSG_RETRYING)) = PhRetrying"
    unfolding appendTaskEvent_def by (simp add: last_n_snoc)
  with t1 t2 idle show ?thesis by (intro exI[of _ t1] exI[of _ t2]) simp
qed

theorem cancel_then_retry_witness:
  "\<exists>t2. fst (retryTask flat id 300 ''a'' (Some ''t'') (snd (cancelTask 200 ''a'' (Some ''t'') (sample_sched\<lparr>sc_queue := sample_queue\<rparr>)))) = Inr t2
     \<and> t_state t2 = TRetrying"
proof -
  have wf: "queue_wf (sc_queue (sample_sched\<lparr>sc_queue := sample_queue\<rparr>))"
    using enqueueBatch_wf[OF empty_queue_wf] by (simp add: sample_queue_def del: enqueueBatch.simps)
  have "getTask ''a'' (Some ''t'') sample_queue = Inr (Some (sample_task ''t'' ''a'' LOW))" by code_simp
  then have "getTask ''a'' (Some ''t'') (sc_queue (sample_sched\<lparr>sc_queue := sample_queue\<rparr>)) = Inr (Some (sample_task ''t'' ''a'' LOW))" by simp
  from cancel_then_retry[OF wf this, of 200 flat id 300] show ?thesis by (auto simp: sample_task_def)
qed

end
