(* ===== verification/UrlPolicy.thy ===== *)
theory UrlPolicy
  imports JsText "HOL-Library.Word" "HOL-Library.Code_Target_Nat"
begin

unbundle bit_operations_syntax

text \<open>
  \<open>src/policy/url-policy.ts\<close> (and the host rules of \<open>src/config.ts\<close>): which URLs the browser and the
  HTTP fetcher may reach. Addresses are classified from their text, as in the code. \<open>net.isIP\<close> and
  the address serialisation of \<open>new URL\<close> (RFC 5952) are written out; parsing a whole URL, the ASCII
  form of a domain name and the DNS answers are parameters.
\<close>

datatype address_reason = Loopback | Private | LinkLocal | Multicast | Reserved | Metadata

record classification =
  ac_reason :: "address_reason option"
  ac_version :: nat
  ac_address :: string

definition ac_blocked :: "classification \<Rightarrow> bool" where
  "ac_blocked c = (ac_reason c \<noteq> None)"

definition METADATA_IPV4 :: "string list" where
  "METADATA_IPV4 = [''169.254.169.254'', ''169.254.170.2'', ''169.254.170.23'', ''100.100.100.200'', ''168.63.129.16'']"

definition METADATA_IPV6 :: "string list" where
  "METADATA_IPV6 = [''fd00:ec2::254'', ''fe80::a9fe:a9fe'']"

definition METADATA_HOSTNAMES :: "string list" where
  "METADATA_HOSTNAMES = [''metadata'', ''metadata.google.internal'', ''metadata.google'',
     ''instance-data.ec2.internal'', ''metadata.azure.internal'']"

definition HOSTNAME_BLOCKLIST :: "string list" where
  "HOSTNAME_BLOCKLIST = [''localhost'', ''localhost.localdomain'', ''ip6-localhost'']"

subsection \<open>IPv4 text\<close>

text \<open>One decimal octet: one to three digits, no leading zero, at most 255.\<close>

definition octet_text :: "string \<Rightarrow> bool" where
  "octet_text s = (s \<noteq> [] \<and> length s \<le> 3 \<and> list_all is_digit s \<and> (length s = 1 \<or> hd s \<noteq> CHR ''0'') \<and> dec_val s \<le> 255)"

definition isIPv4 :: "string \<Rightarrow> bool" where
  "isIPv4 s = (let parts = split_on (CHR ''.'') s in length parts = 4 \<and> list_all octet_text parts)"

definition octets :: "string \<Rightarrow> nat list" where
  "octets s = map dec_val (split_on (CHR ''.'') s)"

definition dotted :: "nat \<Rightarrow> nat \<Rightarrow> nat \<Rightarrow> nat \<Rightarrow> string" where
  "dotted a b c d = dec_of a @ ''.'' @ dec_of b @ ''.'' @ dec_of c @ ''.'' @ dec_of d"

definition ipv4_reason :: "string \<Rightarrow> nat \<Rightarrow> nat \<Rightarrow> nat \<Rightarrow> nat \<Rightarrow> address_reason option" where
  "ipv4_reason address first second third fourth =
     (let v = ((first * 256 + second) * 256 + third) * 256 + fourth
      in if address \<in> set METADATA_IPV4 then Some Metadata
         else if first = 127 then Some Loopback
         else if first = 10 \<or> (first = 172 \<and> second \<ge> 16 \<and> second \<le> 31) \<or> (first = 192 \<and> second = 168) then Some Private
         else if first = 169 \<and> second = 254 then Some LinkLocal
         else if first \<ge> 224 then (if first \<ge> 240 then Some Reserved else Some Multicast)
         else if first = 0 then Some Reserved
         else if first = 100 \<and> second \<ge> 64 \<and> second \<le> 127 then Some Reserved
         else if first = 192 \<and> second = 0 \<and> third = 0 then Some Reserved
         else if first = 192 \<and> second = 0 \<and> third = 2 then Some Reserved
         else if first = 192 \<and> second = 88 \<and> third = 99 then Some Reserved
         else if first = 198 \<and> second \<ge> 18 \<and> second \<le> 19 then Some Reserved
         else if first = 198 \<and> second = 51 \<and> third = 100 then Some Reserved
         else if first = 203 \<and> second = 0 \<and> third = 113 then Some Reserved
         else if v = 0xffffffff then Some Reserved
         else None)"

definition classifyIpv4 :: "string \<Rightarrow> classification" where
  "classifyIpv4 address =
     (let os = octets address
      in \<lparr>ac_reason = ipv4_reason address (os ! 0) (os ! 1) (os ! 2) (os ! 3), ac_version = 4, ac_address = address\<rparr>)"

subsection \<open>IPv6 text\<close>

definition unbracket :: "string \<Rightarrow> string" where
  "unbracket v = (if startsWith v ''['' \<and> endsWith v '']'' then butlast (tl v) else v)"

definition parseHextet :: "string \<Rightarrow> int option" where
  "parseHextet s = (if s \<noteq> [] \<and> length s \<le> 4 \<and> list_all is_hex s then Some (int (hex_val s)) else None)"

text \<open>The groups of \<open>part.split(':')\<close>; an empty half has none.\<close>

definition hextets :: "string \<Rightarrow> int list option" where
  "hextets part = (if part = [] then Some []
     else those (map parseHextet (split_on (CHR '':'') part)))"

text \<open>The text after the last colon, and the text before it.\<close>

definition split_last_colon :: "string \<Rightarrow> (string \<times> string) option" where
  "split_last_colon v =
     (if CHR '':'' \<notin> set v then None
      else (let tail = takeWhile (\<lambda>c. c \<noteq> CHR '':'') (rev v)
            in Some (take (length v - length tail - 1) v, rev tail)))"

text \<open>\<open>None\<close> is a thrown \<open>invalid IPv6\<close> error.\<close>

definition parseIpv6 :: "string \<Rightarrow> int list option" where
  "parseIpv6 address =
     (let v0 = ascii_lower (unbracket address);
          expanded = (if CHR ''.'' \<notin> set v0 then Some v0
            else (case split_last_colon v0 of
                None \<Rightarrow> None
              | Some (before, v4) \<Rightarrow>
                  if \<not> isIPv4 v4 then None
                  else (let os = octets v4
                        in Some (before @ '':'' @ hex_of (os ! 0 * 256 + os ! 1) @ '':'' @ hex_of (os ! 2 * 256 + os ! 3)))))
      in case expanded of None \<Rightarrow> None
         | Some v \<Rightarrow>
           (let halves = split_pair (CHR '':'') v
            in if length halves > 2 then None
               else (case (hextets (halves ! 0), if length halves = 2 then hextets (halves ! 1) else Some []) of
                  (Some left, Some right) \<Rightarrow>
                    (let missing = 8 - int (length left) - int (length right)
                     in if missing < (if length halves = 2 then 1 else 0) then None
                        else Some (left @ replicate (nat missing) 0 @ right))
                | _ \<Rightarrow> None)))"

text \<open>\<open>net.isIP\<close>: 4, 6 or 0. Scoped literals (\<open>%zone\<close>) are not addresses here; \<open>parseIpv6\<close> rejects them.\<close>

definition isIP :: "string \<Rightarrow> nat" where
  "isIP s = (if isIPv4 s then 4
     else (case parseIpv6 s of
         Some gs \<Rightarrow> if length gs = 8 \<and> \<not> startsWith s ''['' then 6 else 0
       | None \<Rightarrow> 0))"

text \<open>The loop over 16-bit groups; \<open>index\<close> and \<open>remaining\<close> as in the code, an absent group is -1.\<close>

function prefix_loop :: "int list \<Rightarrow> int list \<Rightarrow> nat \<Rightarrow> nat \<Rightarrow> bool" where
  "prefix_loop groups pre index remaining =
     (if remaining = 0 then True
      else (let took = min remaining 16;
                msk = (if took = 16 then 0xffff else push_bit (16 - took) 0xffff AND 0xffff);
                expected = (if index < length pre then pre ! index else 0);
                grp = (if index < length groups then groups ! index else -1)
            in if (grp AND msk) \<noteq> (expected AND msk) then False
               else prefix_loop groups pre (Suc index) (remaining - took)))"
  by pat_completeness auto

termination by (relation "measure (\<lambda>(_, _, _, remaining). remaining)") auto

declare prefix_loop.simps [simp del]

definition hasIpv6Prefix :: "int list \<Rightarrow> int list \<Rightarrow> nat \<Rightarrow> bool" where
  "hasIpv6Prefix groups pre bits = prefix_loop groups pre 0 bits"

definition isIpv4Mapped :: "int list \<Rightarrow> string option" where
  "isIpv4Mapped groups =
     (if length groups \<noteq> 8 \<or> \<not> list_all (\<lambda>g. g = 0) (take 5 groups) \<or> groups ! 5 \<noteq> 0xffff then None
      else (let high = nat (groups ! 6); low = nat (groups ! 7)
            in Some (dotted (high div 256) (high mod 256) (low div 256) (low mod 256))))"

text \<open>
  RFC 5952 text, as \<open>new URL\<close> serialises a host: the first of the longest runs of at least two
  zero groups becomes \<open>::\<close>.
\<close>

fun zero_run :: "int list \<Rightarrow> nat" where
  "zero_run [] = 0"
| "zero_run (g # gs) = (if g = 0 then Suc (zero_run gs) else 0)"

definition best_run :: "int list \<Rightarrow> nat \<times> nat" where
  "best_run gs = foldl (\<lambda>(bi, bn) i. let n = zero_run (drop i gs) in if n > bn then (i, n) else (bi, bn)) (0, 0) [0..<length gs]"

definition serialize_ipv6 :: "int list \<Rightarrow> string" where
  "serialize_ipv6 gs =
     (let (i, n) = best_run gs; show_groups = (\<lambda>xs. join_with '':'' (map (\<lambda>g. hex_of (nat g)) xs))
      in if n < 2 then show_groups gs
         else show_groups (take i gs) @ ''::'' @ show_groups (drop (i + n) gs))"

definition canonicalIpv6 :: "string \<Rightarrow> string" where
  "canonicalIpv6 address = (case parseIpv6 address of Some gs \<Rightarrow> serialize_ipv6 gs | None \<Rightarrow> address)"

definition canonicalAddress :: "string \<Rightarrow> string" where
  "canonicalAddress address = (if isIP address = 6 then canonicalIpv6 address else address)"

definition ipv6_reason :: "string \<Rightarrow> int list \<Rightarrow> address_reason option" where
  "ipv6_reason v groups =
     (if canonicalIpv6 v \<in> set METADATA_IPV6 then Some Metadata
      else if list_all (\<lambda>g. g = 0) groups then Some Reserved
      else if groups = [0, 0, 0, 0, 0, 0, 0, 1] then Some Loopback
      else if hasIpv6Prefix groups [0xfc00] 7 then Some Private
      else if hasIpv6Prefix groups [0xfe80] 10 then Some LinkLocal
      else if hasIpv6Prefix groups [0xff00] 8 then Some Multicast
      else if hasIpv6Prefix groups [0x2001, 0x0db8] 32 then Some Reserved
      else if hasIpv6Prefix groups [0x2001, 0x0000] 32 then Some Reserved
      else if hasIpv6Prefix groups [0x2001, 0x0002, 0x0000] 48 then Some Reserved
      else if hasIpv6Prefix groups [0x0100, 0x0000] 32 then Some Reserved
      else if hasIpv6Prefix groups [0, 0, 0, 0, 0, 0] 96 then Some Reserved
      else None)"

definition classifyAddress :: "string \<Rightarrow> classification" where
  "classifyAddress address =
     (let v = ascii_lower (unbracket address)
      in if isIP v = 4 then classifyIpv4 v
         else if isIP v = 6 then
           (case parseIpv6 v of
              None \<Rightarrow> \<lparr>ac_reason = Some Reserved, ac_version = 4, ac_address = v\<rparr>
            | Some groups \<Rightarrow>
               (case isIpv4Mapped groups of
                  Some mapped \<Rightarrow> (classifyIpv4 mapped)\<lparr>ac_version := 6, ac_address := v\<rparr>
                | None \<Rightarrow> \<lparr>ac_reason = ipv6_reason v groups, ac_version = 6, ac_address = v\<rparr>))
         else \<lparr>ac_reason = Some Reserved, ac_version = 4, ac_address = v\<rparr>)"

subsection \<open>Host names and host rules\<close>

definition classifyHostname :: "string \<Rightarrow> address_reason option" where
  "classifyHostname host =
     (let n = drop_final_dot (ascii_lower (unbracket host))
      in if n \<in> set METADATA_HOSTNAMES \<or> endsWith n ''.metadata.google.internal''
            \<or> endsWith n ''.instance-data.ec2.internal'' \<or> endsWith n ''.metadata.azure.internal'' then Some Metadata
         else if n \<in> set HOSTNAME_BLOCKLIST \<or> endsWith n ''.localhost'' then Some Loopback
         else None)"

definition isSyntheticTunnelAddress :: "string \<Rightarrow> bool" where
  "isSyntheticTunnelAddress address =
     (let v = unbracket address; os = octets v
      in isIP v = 4 \<and> os ! 0 = 198 \<and> os ! 1 \<ge> 18 \<and> os ! 1 \<le> 19)"

text \<open>\<open>to_ascii\<close> is \<open>url.domainToASCII\<close>, which answers the empty string for an invalid name.\<close>

definition canonicalUrlHost :: "(string \<Rightarrow> string) \<Rightarrow> string \<Rightarrow> string" where
  "canonicalUrlHost to_ascii raw =
     (let host = drop_final_dot (ascii_lower (unbracket raw))
      in if host = [] then []
         else if isIP host = 6 then ''['' @ canonicalIpv6 host @ '']''
         else if isIP host = 4 then host
         else drop_final_dot (ascii_lower (to_ascii host)))"

definition HOST_LABEL :: "string \<Rightarrow> bool" where
  "HOST_LABEL s = (let ok = (\<lambda>c. (97 \<le> code_point c \<and> code_point c \<le> 122) \<or> is_digit c)
     in s \<noteq> [] \<and> length s \<le> 63 \<and> ok (hd s) \<and> ok (last s) \<and> list_all (\<lambda>c. ok c \<or> c = CHR ''-'') s)"

text \<open>\<open>normalizeHost\<close> of \<open>config.ts\<close>; \<open>None\<close> is a configuration error.\<close>

definition bracketed_text :: "string \<Rightarrow> string option" where
  "bracketed_text v =
     (if length v \<ge> 3 \<and> hd v = CHR ''['' \<and> last v = CHR '']''
         \<and> list_all (\<lambda>c. c \<noteq> CHR ''['' \<and> c \<noteq> CHR '']'') (butlast (tl v))
      then Some (butlast (tl v)) else None)"

definition normalizeHost :: "(string \<Rightarrow> string) \<Rightarrow> string \<Rightarrow> string option" where
  "normalizeHost to_ascii raw =
     (let v = js_trim raw
      in if v = [] \<or> CHR ''/'' \<in> set v \<or> CHR ''?'' \<in> set v \<or> CHR ''#'' \<in> set v then None
         else if CHR '':'' \<in> set v \<and> bracketed_text v = None \<and> \<not> isIPv4 v \<and> isIP v \<noteq> 6 then None
         else (case bracketed_text v of
             Some address \<Rightarrow> if isIP address = 6 then Some (''['' @ canonicalIpv6 address @ '']'') else None
           | None \<Rightarrow>
               if isIP v = 6 then Some (''['' @ canonicalIpv6 v @ '']'')
               else if isIPv4 v then Some v
               else (let ascii = drop_final_dot (ascii_lower (to_ascii v))
                     in if ascii = [] \<or> length ascii > 253 \<or> includes_text ascii ''..'' then None
                        else if list_all HOST_LABEL (split_on (CHR ''.'') ascii) then Some ascii else None)))"

definition isIpLiteralRule :: "string \<Rightarrow> bool" where
  "isIpLiteralRule v = (if startsWith v ''['' \<and> endsWith v '']'' then isIP (butlast (tl v)) = 6 else isIP v \<noteq> 0)"

definition normalizeHostPattern :: "(string \<Rightarrow> string) \<Rightarrow> string \<Rightarrow> string option" where
  "normalizeHostPattern to_ascii raw =
     (let v = js_trim raw
      in if v = [] \<or> v = ''*'' then None
         else if startsWith v ''*.'' then
           (case normalizeHost to_ascii (drop 2 v) of
              None \<Rightarrow> None
            | Some base \<Rightarrow> if isIpLiteralRule base then None
                else if length (split_on (CHR ''.'') base) < 2 then None
                else Some (''*.'' @ base))
         else if CHR ''*'' \<in> set v then None
         else normalizeHost to_ascii v)"

text \<open>Matching one normalised rule: an exact host, or exactly one label in front of the suffix.\<close>

definition rule_matches :: "string \<Rightarrow> string \<Rightarrow> bool" where
  "rule_matches candidate rule =
     (if startsWith rule ''*.'' then
        (let suf = drop 2 rule
         in candidate \<noteq> suf \<and> endsWith candidate (''.'' @ suf)
            \<and> length (split_on (CHR ''.'') candidate) = length (split_on (CHR ''.'') suf) + 1)
      else candidate = rule)"

text \<open>\<open>None\<close> is the configuration error \<open>getCompiledHostPatterns\<close> throws at a pattern it cannot normalise.\<close>

definition matchesHost :: "(string \<Rightarrow> string) \<Rightarrow> string \<Rightarrow> string list \<Rightarrow> bool option" where
  "matchesHost to_ascii host rules =
     (let candidate = canonicalUrlHost to_ascii host
      in if candidate = [] then Some False
         else map_option (list_ex (rule_matches candidate)) (those (map (normalizeHostPattern to_ascii) rules)))"

subsection \<open>Resolving a URL\<close>

datatype url_purpose = Navigation | Resource

datatype url_error =
    ConfigError
  | InvalidInput string
  | NavigationBlocked string
  | DomainNotAllowed
  | NetworkBlocked string
  | PrivateNetworkDenied address_reason

record url_parts =
  up_protocol :: string
  up_username :: string
  up_password :: string
  up_hostname :: string

text \<open>What the resolver did; an entry whose address is not text is \<open>None\<close>.\<close>

datatype dns_result = DnsThrew | DnsNotList | DnsAnswers "string option list"

record policy =
  pol_allowedHosts :: "string list"
  pol_resourceHosts :: "string list"
  pol_allowHttp :: bool
  pol_allowPrivateNetwork :: bool
  pol_allowSyntheticTunnel :: bool
  pol_customResolver :: bool
  pol_cache :: "(string, string list \<times> int) jmap"

definition newUrlPolicy ::
  "(string \<Rightarrow> string) \<Rightarrow> string list \<Rightarrow> string list \<Rightarrow> bool \<Rightarrow> bool \<Rightarrow> bool \<Rightarrow> bool \<Rightarrow> policy option" where
  "newUrlPolicy to_ascii allowed resource http priv synth custom =
     (case those (map (normalizeHostPattern to_ascii) allowed) of
        None \<Rightarrow> None
      | Some a \<Rightarrow>
        (case those (map (normalizeHostPattern to_ascii) (if resource \<noteq> [] then resource else a)) of
           None \<Rightarrow> None
         | Some r \<Rightarrow> Some \<lparr>pol_allowedHosts = a, pol_resourceHosts = r, pol_allowHttp = http,
             pol_allowPrivateNetwork = priv, pol_allowSyntheticTunnel = synth, pol_customResolver = custom,
             pol_cache = []\<rparr>))"

definition isPrivateException :: "policy \<Rightarrow> classification \<Rightarrow> bool" where
  "isPrivateException p c =
     (if pol_allowSyntheticTunnel p \<and> isSyntheticTunnelAddress (ac_address c) then ac_reason c = Some Reserved
      else pol_allowPrivateNetwork p \<and> ac_reason c \<noteq> Some Metadata)"

definition address_denied :: "policy \<Rightarrow> string \<Rightarrow> address_reason option" where
  "address_denied p address =
     (let c = classifyAddress address
      in if ac_blocked c \<and> \<not> isPrivateException p c
         then Some (case ac_reason c of Some r \<Rightarrow> r | None \<Rightarrow> Reserved) else None)"

text \<open>The loop over the DNS answers: the first bad one aborts the whole resolution.\<close>

fun approve_answers :: "policy \<Rightarrow> string option list \<Rightarrow> url_error + string list" where
  "approve_answers p [] = Inr []"
| "approve_answers p (e # es) =
     (case e of
        None \<Rightarrow> Inl (NetworkBlocked ''dns-invalid-address'')
      | Some address \<Rightarrow>
        if isIP (unbracket address) = 0 then Inl (NetworkBlocked ''dns-invalid-address'')
        else (case address_denied p (unbracket address) of
            Some r \<Rightarrow> Inl (PrivateNetworkDenied r)
          | None \<Rightarrow> map_sum id ((#) (canonicalAddress (unbracket address))) (approve_answers p es)))"

definition cache_put :: "string \<Rightarrow> string list \<Rightarrow> int \<Rightarrow> policy \<Rightarrow> policy" where
  "cache_put host addresses now p =
     (let m = (if length (pol_cache p) \<ge> 500 then (case pol_cache p of [] \<Rightarrow> [] | (k, _) # _ \<Rightarrow> jdel (pol_cache p) k) else pol_cache p)
      in p\<lparr>pol_cache := jset m host (addresses, now + 30000)\<rparr>)"

definition resolve_fresh :: "(string \<Rightarrow> dns_result) \<Rightarrow> int \<Rightarrow> string \<Rightarrow> policy \<Rightarrow> (url_error + string list) \<times> policy" where
  "resolve_fresh dns now host p =
     (case dns host of
        DnsThrew \<Rightarrow> (Inl (NetworkBlocked ''dns-resolution-failed''), p)
      | DnsNotList \<Rightarrow> (Inl (NetworkBlocked ''dns-invalid-address-list''), p)
      | DnsAnswers es \<Rightarrow>
        if es = [] then (Inl (NetworkBlocked ''dns-resolution-empty''), p)
        else (case approve_answers p es of
            Inl e \<Rightarrow> (Inl e, p)
          | Inr approved \<Rightarrow> (Inr approved, if pol_customResolver p then p else cache_put host approved now p)))"

definition resolve_host :: "(string \<Rightarrow> dns_result) \<Rightarrow> int \<Rightarrow> string \<Rightarrow> policy \<Rightarrow> (url_error + string list) \<times> policy" where
  "resolve_host dns now host p =
     (case (if pol_customResolver p then None else map_of (pol_cache p) host) of
        Some (addresses, expiresAt) \<Rightarrow>
          if expiresAt > now then (Inr addresses, p) else resolve_fresh dns now host p
      | None \<Rightarrow> resolve_fresh dns now host p)"

definition resolveAllowed ::
  "(string \<Rightarrow> string) \<Rightarrow> (string \<Rightarrow> url_parts option) \<Rightarrow> (string \<Rightarrow> dns_result) \<Rightarrow> int \<Rightarrow> string \<Rightarrow> url_purpose option
   \<Rightarrow> policy \<Rightarrow> (url_error + string \<times> string list) \<times> policy" where
  "resolveAllowed to_ascii parse dns now rawUrl purposeArg p =
     (case purposeArg of None \<Rightarrow> (Inl (InvalidInput ''invalid-purpose''), p) | Some purpose \<Rightarrow>
      if rawUrl = [] \<or> length rawUrl > 2048 then (Inl (NavigationBlocked ''invalid-url''), p)
      else if js_trim rawUrl \<noteq> rawUrl \<or> list_ex control_char rawUrl then (Inl (NavigationBlocked ''invalid-url''), p)
      else (case parse rawUrl of None \<Rightarrow> (Inl (NavigationBlocked ''invalid-url''), p) | Some url \<Rightarrow>
      (let protocol = ascii_lower (up_protocol url)
       in if protocol \<noteq> ''https:'' \<and> \<not> (protocol = ''http:'' \<and> pol_allowHttp p) then (Inl (NavigationBlocked ''scheme-not-allowed''), p)
          else if up_username url \<noteq> [] \<or> up_password url \<noteq> [] then (Inl (NavigationBlocked ''userinfo-not-allowed''), p)
          else (let host = canonicalUrlHost to_ascii (up_hostname url); literal = unbracket host
            in if host = [] then (Inl (NavigationBlocked ''missing-host''), p)
               else case matchesHost to_ascii host (case purpose of Navigation \<Rightarrow> pol_allowedHosts p | Resource \<Rightarrow> pol_resourceHosts p) of
                 None \<Rightarrow> (Inl ConfigError, p)
               | Some matched \<Rightarrow>
               if \<not> matched then (Inl DomainNotAllowed, p)
               else if isIP literal \<noteq> 0 then
                 (case address_denied p literal of
                    Some r \<Rightarrow> (Inl (PrivateNetworkDenied r), p)
                  | None \<Rightarrow> (Inr (host, [literal]), p))
               else (case classifyHostname host of
                   Some r \<Rightarrow> if r = Metadata \<or> \<not> pol_allowPrivateNetwork p then (Inl (PrivateNetworkDenied r), p)
                       else map_prod (map_sum id (Pair host)) id (resolve_host dns now host p)
                 | None \<Rightarrow> map_prod (map_sum id (Pair host)) id (resolve_host dns now host p))))))"

definition clearDnsCache :: "policy \<Rightarrow> policy" where
  "clearDnsCache p = p\<lparr>pol_cache := []\<rparr>"

subsection \<open>Only approved addresses come out\<close>

definition approved :: "policy \<Rightarrow> string \<Rightarrow> bool" where
  "approved p a = (\<exists>raw. (a = raw \<or> a = canonicalAddress raw) \<and> isIP raw \<noteq> 0 \<and> address_denied p raw = None)"

definition same_flags :: "policy \<Rightarrow> policy \<Rightarrow> bool" where
  "same_flags p q = (pol_allowPrivateNetwork p = pol_allowPrivateNetwork q
     \<and> pol_allowSyntheticTunnel p = pol_allowSyntheticTunnel q \<and> pol_allowHttp p = pol_allowHttp q
     \<and> pol_allowedHosts p = pol_allowedHosts q \<and> pol_resourceHosts p = pol_resourceHosts q)"

lemma approved_flags:
  assumes "same_flags p q"
  shows "approved p a = approved q a"
proof -
  have "address_denied p raw = address_denied q raw" for raw
    using assms by (simp add: address_denied_def isPrivateException_def same_flags_def Let_def)
  then show ?thesis by (simp add: approved_def)
qed

definition policy_ok :: "policy \<Rightarrow> bool" where
  "policy_ok p \<longleftrightarrow> length (pol_cache p) \<le> 500 \<and> jwf (pol_cache p)
     \<and> (\<forall>h as x. (h, as, x) \<in> set (pol_cache p) \<longrightarrow> as \<noteq> [] \<and> (\<forall>a \<in> set as. approved p a))"

lemma approve_answers_ok:
  "approve_answers p es = Inr as \<Longrightarrow> length as = length es \<and> (\<forall>a \<in> set as. approved p a)"
proof (induction es arbitrary: as)
  case Nil
  then show ?case by simp
next
  case (Cons e es)
  then obtain address rest where e: "e = Some address" "isIP (unbracket address) \<noteq> 0" "address_denied p (unbracket address) = None"
      "approve_answers p es = Inr rest" "as = canonicalAddress (unbracket address) # rest"
    by (cases "approve_answers p es") (auto split: option.splits if_splits)
  then have "approved p (canonicalAddress (unbracket address))" by (auto simp: approved_def)
  with Cons.IH[OF e(4)] e(5) show ?case by simp
qed

lemma cache_put_ok:
  assumes "policy_ok p" "as \<noteq> []" "\<forall>a \<in> set as. approved p a"
  shows "policy_ok (cache_put host as now p) \<and> same_flags (cache_put host as now p) p"
proof -
  let ?m = "if length (pol_cache p) \<ge> 500 then (case pol_cache p of [] \<Rightarrow> [] | (k, _) # _ \<Rightarrow> jdel (pol_cache p) k) else pol_cache p"
  have m: "set ?m \<subseteq> set (pol_cache p)" "jwf ?m" using assms(1) by (auto simp: policy_ok_def split: list.split)
  have small: "length ?m < 500"
  proof (cases "pol_cache p")
    case (Cons kv rest)
    then have "map_of (pol_cache p) (fst kv) \<noteq> None" by (cases kv) simp
    from jdel_length_less[OF this] show ?thesis
      using assms(1) Cons by (cases kv) (auto simp: policy_ok_def)
  qed simp
  have flags: "same_flags (cache_put host as now p) p" by (simp add: cache_put_def same_flags_def)
  have "set (jset ?m host (as, now + 30000)) \<subseteq> insert (host, as, now + 30000) (set (pol_cache p))"
    using jset_set_subset m(1) by fast
  then have "\<forall>h bs x. (h, bs, x) \<in> set (jset ?m host (as, now + 30000)) \<longrightarrow> bs \<noteq> [] \<and> (\<forall>a \<in> set bs. approved p a)"
    using assms unfolding policy_ok_def by blast
  moreover have "length (jset ?m host (as, now + 30000)) \<le> 500" using small by (simp add: jset_length)
  moreover have "jwf (jset ?m host (as, now + 30000))" using m(2) by simp
  ultimately show ?thesis
    using flags approved_flags[OF flags] by (simp add: policy_ok_def cache_put_def Let_def)
qed

lemma resolve_host_ok:
  assumes "policy_ok p" "resolve_host dns now host p = (r, p')"
  shows "policy_ok p' \<and> same_flags p' p \<and> (\<forall>as. r = Inr as \<longrightarrow> as \<noteq> [] \<and> (\<forall>a \<in> set as. approved p a))"
proof -
  have fresh: "policy_ok p' \<and> same_flags p' p \<and> (\<forall>as. r = Inr as \<longrightarrow> as \<noteq> [] \<and> (\<forall>a \<in> set as. approved p a))"
    if f: "resolve_fresh dns now host p = (r, p')"
  proof (cases "dns host")
    case (DnsAnswers es)
    show ?thesis
    proof (cases "es = [] \<or> (\<exists>e. approve_answers p es = Inl e)")
      case True
      have "p' = p \<and> (\<exists>e. r = Inl e)"
      proof (cases "es = []")
        case True
        with f DnsAnswers show ?thesis by (auto simp: resolve_fresh_def)
      next
        case False
        with True obtain e where "approve_answers p es = Inl e" by blast
        then have "resolve_fresh dns now host p = (Inl e, p)" using DnsAnswers False by (simp add: resolve_fresh_def)
        with f have "r = Inl e" "p' = p" by simp_all
        then show ?thesis by blast
      qed
      with assms(1) show ?thesis by (auto simp: same_flags_def)
    next
      case False
      then obtain as where as: "approve_answers p es = Inr as" by (cases "approve_answers p es") auto
      from approve_answers_ok[OF as] False have ok: "as \<noteq> []" "\<forall>a \<in> set as. approved p a" by auto
      from cache_put_ok[OF assms(1) ok, of host now] f DnsAnswers as False ok assms(1) show ?thesis
        by (auto simp: resolve_fresh_def same_flags_def split: if_splits)
    qed
  qed (use f assms(1) in \<open>auto simp: resolve_fresh_def same_flags_def\<close>)
  show ?thesis
  proof (cases "if pol_customResolver p then None else map_of (pol_cache p) host")
    case None
    with assms(2) fresh show ?thesis by (simp add: resolve_host_def)
  next
    case (Some e)
    obtain as x where e: "e = (as, x)" by (cases e)
    have mem: "(host, as, x) \<in> set (pol_cache p)" using Some e by (auto split: if_splits dest: map_of_SomeD)
    show ?thesis
    proof (cases "x > now")
      case True
      with assms Some e mem show ?thesis by (auto simp: resolve_host_def policy_ok_def same_flags_def)
    next
      case False
      with assms(2) Some e fresh show ?thesis by (simp add: resolve_host_def)
    qed
  qed
qed

text \<open>One call on the policy: a resolution with its own clock, resolver and URL parser, or a cache clear.\<close>

datatype url_call =
    Resolve "string \<Rightarrow> string" "string \<Rightarrow> url_parts option" "string \<Rightarrow> dns_result" int string "url_purpose option"
  | ClearDnsCache

primrec url_step :: "policy \<Rightarrow> url_call \<Rightarrow> policy" where
  "url_step p (Resolve to_ascii parse dns now rawUrl purpose) = snd (resolveAllowed to_ascii parse dns now rawUrl purpose p)"
| "url_step p ClearDnsCache = clearDnsCache p"

text \<open>What a returned resolution went through; every other outcome leaves the policy as it was.\<close>

lemma resolveAllowed_cases:
  assumes "resolveAllowed to_ascii parse dns now rawUrl purpose p = (r, p')"
  obtains (refused) e where "r = Inl e" "p' = p"
  | (literal) host where "r = Inr (host, [unbracket host])" "p' = p" "isIP (unbracket host) \<noteq> 0"
      "address_denied p (unbracket host) = None"
      "Some True \<in> {matchesHost to_ascii host (pol_allowedHosts p), matchesHost to_ascii host (pol_resourceHosts p)}"
  | (resolved) host r0 where "r = map_sum id (Pair host) r0" "resolve_host dns now host p = (r0, p')"
      "classifyHostname host \<noteq> Some Metadata"
      "classifyHostname host = None \<or> pol_allowPrivateNetwork p"
      "Some True \<in> {matchesHost to_ascii host (pol_allowedHosts p), matchesHost to_ascii host (pol_resourceHosts p)}"
proof (cases "resolve_host dns now (canonicalUrlHost to_ascii (up_hostname (the (parse rawUrl)))) p")
  case (Pair r1 p1)
  with assms show thesis
    unfolding resolveAllowed_def Let_def
    by (auto split: option.splits if_splits url_purpose.splits intro: refused literal resolved)
qed

lemma resolveAllowed_ok:
  assumes "policy_ok p" "resolveAllowed to_ascii parse dns now rawUrl purpose p = (r, p')"
  shows "policy_ok p' \<and> same_flags p' p
    \<and> (\<forall>host as. r = Inr (host, as) \<longrightarrow> as \<noteq> [] \<and> (\<forall>a \<in> set as. approved p a)
        \<and> Some True \<in> {matchesHost to_ascii host (pol_allowedHosts p), matchesHost to_ascii host (pol_resourceHosts p)})"
  using assms(2)
proof (cases rule: resolveAllowed_cases)
  case (refused e)
  with assms(1) show ?thesis by (simp add: same_flags_def)
next
  case (literal host)
  with assms(1) show ?thesis by (auto simp: same_flags_def approved_def)
next
  case (resolved host r0)
  from resolve_host_ok[OF assms(1) resolved(2)] resolved show ?thesis by (cases r0) auto
qed

lemma same_flags_trans: "same_flags p q \<Longrightarrow> same_flags q r \<Longrightarrow> same_flags p r"
  by (simp add: same_flags_def)

interpretation url_machine: machine url_step "\<lambda>p. policy_ok p \<and> same_flags p p0" for p0
proof
  fix p c
  assume p: "policy_ok p \<and> same_flags p p0"
  show "policy_ok (url_step p c) \<and> same_flags (url_step p c) p0"
  proof (cases c)
    case (Resolve to_ascii parse dns now rawUrl purpose)
    obtain r p' where e: "resolveAllowed to_ascii parse dns now rawUrl purpose p = (r, p')" by fastforce
    with resolveAllowed_ok[OF _ e] p Resolve show ?thesis by (auto intro: same_flags_trans)
  next
    case ClearDnsCache
    with p show ?thesis by (simp add: clearDnsCache_def policy_ok_def same_flags_def)
  qed
qed

lemma approved_reason:
  assumes "approved p a"
  shows "\<exists>raw. (a = raw \<or> a = canonicalAddress raw) \<and> isIP raw \<noteq> 0
    \<and> ac_reason (classifyAddress raw) \<noteq> Some Metadata
    \<and> (\<not> pol_allowPrivateNetwork p \<longrightarrow> ac_reason (classifyAddress raw) = None
        \<or> pol_allowSyntheticTunnel p \<and> isSyntheticTunnelAddress (ac_address (classifyAddress raw)))"
proof -
  from assms obtain raw where raw: "a = raw \<or> a = canonicalAddress raw" "isIP raw \<noteq> 0" "address_denied p raw = None"
    by (auto simp: approved_def)
  from raw(3) have "ac_reason (classifyAddress raw) \<noteq> Some Metadata
    \<and> (\<not> pol_allowPrivateNetwork p \<longrightarrow> ac_reason (classifyAddress raw) = None
        \<or> pol_allowSyntheticTunnel p \<and> isSyntheticTunnelAddress (ac_address (classifyAddress raw)))"
    by (auto simp: address_denied_def isPrivateException_def ac_blocked_def Let_def split: if_splits)
  with raw(1,2) show ?thesis by blast
qed


definition sample_policy :: policy where
  "sample_policy = \<lparr>pol_allowedHosts = [''*.ex.com''], pol_resourceHosts = [''*.ex.com''], pol_allowHttp = False,
     pol_allowPrivateNetwork = False, pol_allowSyntheticTunnel = False, pol_customResolver = False, pol_cache = []\<rparr>"

definition sample_parse :: "string \<Rightarrow> url_parts option" where
  "sample_parse s = Some \<lparr>up_protocol = ''https:'', up_username = [], up_password = [], up_hostname = ''A.ex.com''\<rparr>"

definition sample_dns :: "string \<Rightarrow> dns_result" where
  "sample_dns h = DnsAnswers [Some ''93.184.216.34'', Some ''2606:2800:0::1'']"

definition sample_calls :: "url_call list" where
  "sample_calls = [ClearDnsCache, Resolve id sample_parse sample_dns 0 ''https://A.ex.com/'' (Some Navigation)]"


subsection \<open>The IPv4 table\<close>

lemma octet_text_dec:
  assumes n: "n < 256"
  shows "octet_text (dec_of n)"
proof -
  have ne: "digit_char k \<noteq> CHR ''0''" if "0 < k" "k < 10" for k
    using that digit_char_simps[of k] by (auto simp: digit_val_def code_point_def)
  have "length (dec_of n) \<le> 3 \<and> (length (dec_of n) = 1 \<or> hd (dec_of n) \<noteq> CHR ''0'')"
  proof (cases "n < 10")
    case True
    then show ?thesis by (simp add: dec_of.simps[of n])
  next
    case False
    show ?thesis
    proof (cases "n < 100")
      case True
      then have "n div 10 < 10" by linarith
      with False ne[of "n div 10"] show ?thesis by (simp add: dec_of.simps[of n] dec_of.simps[of "n div 10"])
    next
      case big: False
      then have "\<not> n div 10 < 10" "n div 10 div 10 < 10" using n by linarith+
      with False ne[of "n div 10 div 10"] show ?thesis
        by (simp add: dec_of.simps[of n] dec_of.simps[of "n div 10"] dec_of.simps[of "n div 10 div 10"])
    qed
  qed
  then show ?thesis using n dec_of_digits[of n] by (auto simp: octet_text_def)
qed

lemma digits_no: "list_all is_digit s \<Longrightarrow> c \<in> set s \<Longrightarrow> is_digit c"
  by (simp add: list_all_iff)

lemma no_dot_dec: "CHR ''.'' \<notin> set (dec_of n)"
  using dec_of_digits[of n] digits_no[of "dec_of n" "CHR ''.''"] by (auto simp: is_digit_def code_point_def)

lemma split_dotted: "split_on (CHR ''.'') (dotted a b c d) = [dec_of a, dec_of b, dec_of c, dec_of d]"
  by (simp add: dotted_def split_on_append split_on_single no_dot_dec)

lemma octets_dotted: "octets (dotted a b c d) = [a, b, c, d]"
  by (simp add: octets_def split_dotted)

lemma isIPv4_dotted: "a < 256 \<Longrightarrow> b < 256 \<Longrightarrow> c < 256 \<Longrightarrow> d < 256 \<Longrightarrow> isIPv4 (dotted a b c d)"
  by (simp add: isIPv4_def split_dotted octet_text_dec)

lemma dotted_chars: "x \<in> set (dotted a b c d) \<Longrightarrow> is_digit x \<or> x = CHR ''.''"
  using dec_of_digits digits_no by (auto simp: dotted_def)

lemma dotted_plain: "ascii_lower (unbracket (dotted a b c d)) = dotted a b c d"
proof -
  have "ascii_lower_char x = x" if "x \<in> set (dotted a b c d)" for x
    using dotted_chars[OF that] by (auto simp: ascii_lower_char_def is_digit_def code_point_def)
  then have low: "ascii_lower (dotted a b c d) = dotted a b c d" by (simp add: ascii_lower_def map_idI)
  have "CHR ''['' \<notin> set (dotted a b c d)"
    using dotted_chars[of "CHR ''[''"] by (auto simp: is_digit_def code_point_def)
  then have "\<not> startsWith (dotted a b c d) ''[''" by (auto simp: startsWith_def prefix_def)
  with low show ?thesis by (simp add: unbracket_def)
qed

lemma dotted_inject:
  "dotted a b c d = dotted a' b' c' d' \<longleftrightarrow> a = a' \<and> b = b' \<and> c = c' \<and> d = d'"
  by (metis list.inject octets_dotted)

lemma METADATA_IPV4_dotted:
  "METADATA_IPV4 = [dotted 169 254 169 254, dotted 169 254 170 2, dotted 169 254 170 23, dotted 100 100 100 200, dotted 168 63 129 16]"
  by code_simp

text \<open>A network as its base address and its prefix length.\<close>

definition ipv4_value :: "nat \<Rightarrow> nat \<Rightarrow> nat \<Rightarrow> nat \<Rightarrow> nat" where
  "ipv4_value a b c d = ((a * 256 + b) * 256 + c) * 256 + d"

definition in_network :: "nat \<Rightarrow> nat \<times> nat \<Rightarrow> bool" where
  "in_network v n = (case n of (base, bits) \<Rightarrow> v div 2 ^ (32 - bits) = base div 2 ^ (32 - bits))"

definition BLOCKED_NETWORKS :: "(nat \<times> nat) list" where
  "BLOCKED_NETWORKS =
     [(ipv4_value 0 0 0 0, 8), (ipv4_value 10 0 0 0, 8), (ipv4_value 127 0 0 0, 8), (ipv4_value 100 64 0 0, 10),
      (ipv4_value 169 254 0 0, 16), (ipv4_value 172 16 0 0, 12), (ipv4_value 192 168 0 0, 16),
      (ipv4_value 192 0 0 0, 24), (ipv4_value 192 0 2 0, 24), (ipv4_value 192 88 99 0, 24),
      (ipv4_value 198 18 0 0, 15), (ipv4_value 198 51 100 0, 24), (ipv4_value 203 0 113 0, 24),
      (ipv4_value 224 0 0 0, 3), (ipv4_value 168 63 129 16, 32)]"

lemma value_div:
  assumes "b < 256" "c < 256" "d < 256"
  shows "ipv4_value a b c d div 256 = (a * 256 + b) * 256 + c" "ipv4_value a b c d div 65536 = a * 256 + b"
    "ipv4_value a b c d div 16777216 = a" "ipv4_value a b c d div 4194304 = a * 4 + b div 64"
    "ipv4_value a b c d div 1048576 = a * 16 + b div 16" "ipv4_value a b c d div 131072 = a * 128 + b div 2"
    "ipv4_value a b c d div 536870912 = a div 32"
proof -
  let ?v = "ipv4_value a b c d"
  have chain: "?v div (m * n) = ?v div m div n" for m n by (rule div_mult2_eq)
  show v1: "?v div 256 = (a * 256 + b) * 256 + c" using assms by (simp add: ipv4_value_def)
  have "?v div (256 * 256) = ((a * 256 + b) * 256 + c) div 256" by (simp only: chain v1)
  also have "\<dots> = a * 256 + b" using assms by simp
  finally show v2: "?v div 65536 = a * 256 + b" by simp
  have "?v div (65536 * 256) = a" using assms by (simp only: chain v2)
  then show v3: "?v div 16777216 = a" by simp
  have "?v div (65536 * 64) = a * 4 + b div 64" unfolding chain v2 by presburger
  then show "?v div 4194304 = a * 4 + b div 64" by simp
  have "?v div (65536 * 16) = a * 16 + b div 16" unfolding chain v2 by presburger
  then show "?v div 1048576 = a * 16 + b div 16" by simp
  have "?v div (65536 * 2) = a * 128 + b div 2" unfolding chain v2 by presburger
  then show "?v div 131072 = a * 128 + b div 2" by simp
  have "?v div (16777216 * 32) = a div 32" by (simp only: chain v3)
  then show "?v div 536870912 = a div 32" by simp
qed

lemma digit_pair:
  assumes "b < m" "b' < m"
  shows "x * m + b = x' * m + (b'::nat) \<longleftrightarrow> x = x' \<and> b = b'"
proof
  assume eq: "x * m + b = x' * m + b'"
  have "(x * m + b) div m = x" "(x' * m + b') div m = x'" using assms by simp_all
  with eq show "x = x' \<and> b = b'" by simp
qed simp

lemma in_networks:
  assumes "a < 256" "b < 256" "c < 256" "d < 256"
  shows "in_network (ipv4_value a b c d) (ipv4_value A 0 0 0, 8) = (a = A)"
    and "in_network (ipv4_value a b c d) (ipv4_value 100 64 0 0, 10) = (a = 100 \<and> b \<ge> 64 \<and> b \<le> 127)"
    and "in_network (ipv4_value a b c d) (ipv4_value 172 16 0 0, 12) = (a = 172 \<and> b \<ge> 16 \<and> b \<le> 31)"
    and "in_network (ipv4_value a b c d) (ipv4_value 198 18 0 0, 15) = (a = 198 \<and> b \<ge> 18 \<and> b \<le> 19)"
    and "in_network (ipv4_value a b c d) (ipv4_value 224 0 0 0, 3) = (a \<ge> 224)"
    and "B < 256 \<Longrightarrow> in_network (ipv4_value a b c d) (ipv4_value A B 0 0, 16) = (a = A \<and> b = B)"
    and "B < 256 \<Longrightarrow> C < 256 \<Longrightarrow> in_network (ipv4_value a b c d) (ipv4_value A B C 0, 24) = (a = A \<and> b = B \<and> c = C)"
    and "in_network (ipv4_value a b c d) (ipv4_value 168 63 129 16, 32) = (a = 168 \<and> b = 63 \<and> c = 129 \<and> d = 16)"
proof -
  show "in_network (ipv4_value a b c d) (ipv4_value A 0 0 0, 8) = (a = A)"
    using assms by (simp add: in_network_def value_div)
  show "in_network (ipv4_value a b c d) (ipv4_value 100 64 0 0, 10) = (a = 100 \<and> b \<ge> 64 \<and> b \<le> 127)"
  proof -
    have "in_network (ipv4_value a b c d) (ipv4_value 100 64 0 0, 10) \<longleftrightarrow> a * 4 + b div 64 = 100 * 4 + 1"
      using assms(2-4) by (simp add: in_network_def value_div)
    also have "\<dots> \<longleftrightarrow> a = 100 \<and> b div 64 = 1" using assms(2) by (intro digit_pair) auto
    finally show ?thesis by auto
  qed
  show "in_network (ipv4_value a b c d) (ipv4_value 172 16 0 0, 12) = (a = 172 \<and> b \<ge> 16 \<and> b \<le> 31)"
  proof -
    have "in_network (ipv4_value a b c d) (ipv4_value 172 16 0 0, 12) \<longleftrightarrow> a * 16 + b div 16 = 172 * 16 + 1"
      using assms(2-4) by (simp add: in_network_def value_div)
    also have "\<dots> \<longleftrightarrow> a = 172 \<and> b div 16 = 1" using assms(2) by (intro digit_pair) auto
    finally show ?thesis by auto
  qed
  show "in_network (ipv4_value a b c d) (ipv4_value 198 18 0 0, 15) = (a = 198 \<and> b \<ge> 18 \<and> b \<le> 19)"
  proof -
    have "in_network (ipv4_value a b c d) (ipv4_value 198 18 0 0, 15) \<longleftrightarrow> a * 128 + b div 2 = 198 * 128 + 9"
      using assms(2-4) by (simp add: in_network_def value_div)
    also have "\<dots> \<longleftrightarrow> a = 198 \<and> b div 2 = 9" using assms(2) by (intro digit_pair) auto
    finally show ?thesis by auto
  qed
  show "in_network (ipv4_value a b c d) (ipv4_value 224 0 0 0, 3) = (a \<ge> 224)"
  proof -
    have "in_network (ipv4_value a b c d) (ipv4_value 224 0 0 0, 3) \<longleftrightarrow> a div 32 = 7"
      using assms(2-4) by (simp add: in_network_def value_div)
    then show ?thesis using assms(1) by auto
  qed
  show "in_network (ipv4_value a b c d) (ipv4_value A B 0 0, 16) = (a = A \<and> b = B)" if "B < 256"
    using assms that by (simp add: in_network_def value_div digit_pair)
  show "in_network (ipv4_value a b c d) (ipv4_value A B C 0, 24) = (a = A \<and> b = B \<and> c = C)" if "B < 256" "C < 256"
  proof -
    have "in_network (ipv4_value a b c d) (ipv4_value A B C 0, 24) \<longleftrightarrow> (a * 256 + b) * 256 + c = (A * 256 + B) * 256 + C"
    proof -
      have p: "(2::nat) ^ (32 - 24) = 256" by simp
      have z: "(0::nat) < 256" by simp
      show ?thesis unfolding in_network_def prod.case p value_div(1)[OF assms(2-4)] value_div(1)[OF that z] ..
    qed
    also have "\<dots> \<longleftrightarrow> a = A \<and> b = B \<and> c = C" unfolding digit_pair[OF assms(3) that(2)] digit_pair[OF assms(2) that(1)] by simp
    finally show ?thesis .
  qed
  show "in_network (ipv4_value a b c d) (ipv4_value 168 63 129 16, 32) = (a = 168 \<and> b = 63 \<and> c = 129 \<and> d = 16)"
  proof
    assume "in_network (ipv4_value a b c d) (ipv4_value 168 63 129 16, 32)"
    then have eq: "ipv4_value a b c d = ipv4_value 168 63 129 16" by (simp add: in_network_def)
    have "a = 168" using arg_cong[OF eq, of "\<lambda>v. v div 16777216"] assms by (simp add: value_div)
    moreover have "a * 256 + b = 168 * 256 + 63" using arg_cong[OF eq, of "\<lambda>v. v div 65536"] assms by (simp add: value_div)
    moreover have "(a * 256 + b) * 256 + c = (168 * 256 + 63) * 256 + 129"
      using arg_cong[OF eq, of "\<lambda>v. v div 256"] assms by (simp add: value_div)
    ultimately show "a = 168 \<and> b = 63 \<and> c = 129 \<and> d = 16" using eq by (simp add: ipv4_value_def)
  qed (simp add: in_network_def)
qed

lemma guarded:
  "(if c then Some r else x) \<noteq> None \<longleftrightarrow> c \<or> x \<noteq> None"
  "(if c then Some r else x) = Some r' \<longleftrightarrow> c \<and> r = r' \<or> \<not> c \<and> x = Some r'"
  "(if c then (if c' then Some r else Some r'') else x) \<noteq> None \<longleftrightarrow> c \<or> x \<noteq> None"
  by simp_all

text \<open>
  The IPv4 classifier is the table of networks. For every address written as four octets below
  256, the cascade of tests blocks it exactly when its 32-bit value lies in one of the fifteen CIDR
  blocks (unspecified, RFC 1918, loopback, carrier NAT, link local, documentation, benchmarking,
  multicast and reserved space, the Azure virtual IP), and it is metadata exactly for the five
  listed cloud addresses.
\<close>

theorem ipv4_classified_by_table:
  assumes "a < 256" "b < 256" "c < 256" "d < 256"
  shows "(ac_reason (classifyAddress (dotted a b c d)) \<noteq> None
      \<longleftrightarrow> list_ex (in_network (ipv4_value a b c d)) BLOCKED_NETWORKS)
    \<and> (ac_reason (classifyAddress (dotted a b c d)) = Some Metadata
      \<longleftrightarrow> (a, b, c, d) \<in> {(169, 254, 169, 254), (169, 254, 170, 2), (169, 254, 170, 23), (100, 100, 100, 200), (168, 63, 129, 16)})"
proof -
  have cls: "ac_reason (classifyAddress (dotted a b c d)) = ipv4_reason (dotted a b c d) a b c d"
    using isIPv4_dotted[OF assms]
    by (simp add: classifyAddress_def dotted_plain isIP_def classifyIpv4_def octets_dotted Let_def)
  have meta: "dotted a b c d \<in> set METADATA_IPV4 \<longleftrightarrow> (a = 169 \<and> b = 254 \<and> c = 169 \<and> d = 254)
      \<or> (a = 169 \<and> b = 254 \<and> c = 170 \<and> d = 2) \<or> (a = 169 \<and> b = 254 \<and> c = 170 \<and> d = 23)
      \<or> (a = 100 \<and> b = 100 \<and> c = 100 \<and> d = 200) \<or> (a = 168 \<and> b = 63 \<and> c = 129 \<and> d = 16)"
    by (simp add: METADATA_IPV4_dotted dotted_inject)
  have table: "list_ex (in_network (ipv4_value a b c d)) BLOCKED_NETWORKS
      \<longleftrightarrow> a = 0 \<or> a = 10 \<or> a = 127 \<or> (a = 100 \<and> b \<ge> 64 \<and> b \<le> 127) \<or> (a = 169 \<and> b = 254)
        \<or> (a = 172 \<and> b \<ge> 16 \<and> b \<le> 31) \<or> (a = 192 \<and> b = 168) \<or> (a = 192 \<and> b = 0 \<and> c = 0)
        \<or> (a = 192 \<and> b = 0 \<and> c = 2) \<or> (a = 192 \<and> b = 88 \<and> c = 99) \<or> (a = 198 \<and> b \<ge> 18 \<and> b \<le> 19)
        \<or> (a = 198 \<and> b = 51 \<and> c = 100) \<or> (a = 203 \<and> b = 0 \<and> c = 113) \<or> a \<ge> 224
        \<or> (a = 168 \<and> b = 63 \<and> c = 129 \<and> d = 16)"
    by (simp add: BLOCKED_NETWORKS_def in_networks[OF assms])
  have top: "((a * 256 + b) * 256 + c) * 256 + d = 0xffffffff \<Longrightarrow> a \<ge> 224"
    using value_div(3)[OF assms(2-4), of a] by (simp add: ipv4_value_def)
  have "ac_reason (classifyAddress (dotted a b c d)) \<noteq> None \<longleftrightarrow> list_ex (in_network (ipv4_value a b c d)) BLOCKED_NETWORKS"
    unfolding cls table ipv4_reason_def Let_def guarded meta
    apply (rule iffI)
    subgoal by (elim disjE conjE; simp add: top)
    subgoal by (elim disjE conjE; simp)
    done
  moreover have "ipv4_reason (dotted a b c d) a b c d = Some Metadata \<longleftrightarrow> dotted a b c d \<in> set METADATA_IPV4"
    unfolding ipv4_reason_def Let_def guarded by simp
  ultimately show ?thesis unfolding cls by (simp add: meta)
qed

theorem ipv4_classified_by_table_witness:
  "list_ex (in_network (ipv4_value 192 168 1 7)) BLOCKED_NETWORKS \<and> ac_reason (classifyAddress ''192.168.1.7'') \<noteq> None"
proof -
  have "''192.168.1.7'' = dotted 192 168 1 7" by code_simp
  moreover have "list_ex (in_network (ipv4_value 192 168 1 7)) BLOCKED_NETWORKS" by code_simp
  ultimately show ?thesis using ipv4_classified_by_table[of 192 168 1 7] by simp
qed

subsection \<open>The IPv6 prefix test\<close>

definition group_at :: "int list \<Rightarrow> int \<Rightarrow> nat \<Rightarrow> int" where
  "group_at gs d i = (if i < length gs then gs ! i else d)"

lemma top_bits:
  fixes g e :: int
  assumes "t \<le> 16"
  shows "(g AND (push_bit (16 - t) 0xffff AND 0xffff)) = (e AND (push_bit (16 - t) 0xffff AND 0xffff))
    \<longleftrightarrow> (\<forall>j < t. bit g (15 - j) = bit e (15 - j))"
proof -
  have m: "(0xffff :: int) = mask 16" by (simp add: mask_eq_exp_minus_1)
  have "bit (push_bit (16 - t) (0xffff::int) AND 0xffff) n \<longleftrightarrow> 16 - t \<le> n \<and> n < 16" for n
    unfolding m by (auto simp: bit_and_iff bit_push_bit_iff bit_mask_iff possible_bit_def)
  then have "(g AND (push_bit (16 - t) 0xffff AND 0xffff)) = (e AND (push_bit (16 - t) 0xffff AND 0xffff))
      \<longleftrightarrow> (\<forall>n. 16 - t \<le> n \<and> n < 16 \<longrightarrow> bit g n = bit e n)"
    by (auto simp: bit_eq_iff[of "g AND (push_bit (16 - t) 0xffff AND 0xffff)"] bit_and_iff[of g] bit_and_iff[of e])
  also have "\<dots> \<longleftrightarrow> (\<forall>j < t. bit g (15 - j) = bit e (15 - j))"
  proof safe
    fix j assume all: "\<forall>n. 16 - t \<le> n \<and> n < 16 \<longrightarrow> bit g n = bit e n" and j: "j < t"
    have "16 - t \<le> 15 - j \<and> 15 - j < 16" using j assms by linarith
    with all show "bit g (15 - j) \<Longrightarrow> bit e (15 - j)" "bit e (15 - j) \<Longrightarrow> bit g (15 - j)" by blast+
  next
    fix n assume all: "\<forall>j < t. bit g (15 - j) = bit e (15 - j)" and n: "16 - t \<le> n" "n < 16"
    have "15 - n < t" "15 - (15 - n) = n" using n assms by linarith+
    with all show "bit g n \<Longrightarrow> bit e n" "bit e n \<Longrightarrow> bit g n" by metis+
  qed
  finally show ?thesis .
qed

lemma full_mask: "(0xffff :: int) = push_bit (16 - 16) 0xffff AND 0xffff" by simp

lemma prefix_loop_step:
  assumes "remaining \<noteq> 0"
  shows "prefix_loop gs pre index remaining \<longleftrightarrow>
    (\<forall>j < min remaining 16. bit (group_at gs (-1) index) (15 - j) = bit (group_at pre 0 index) (15 - j))
    \<and> prefix_loop gs pre (Suc index) (remaining - min remaining 16)"
proof -
  let ?t = "min remaining 16"
  have msk: "(if ?t = 16 then 0xffff else push_bit (16 - ?t) 0xffff AND 0xffff :: int) = push_bit (16 - ?t) 0xffff AND 0xffff"
    using full_mask by simp
  show ?thesis
    unfolding prefix_loop.simps[of gs pre index remaining] Let_def msk
    using assms top_bits[of ?t "group_at gs (-1) index" "group_at pre 0 index"] by (simp add: group_at_def)
qed

lemma prefix_loop_bits:
  "prefix_loop gs pre index remaining \<longleftrightarrow>
    (\<forall>i < remaining. bit (group_at gs (-1) (index + i div 16)) (15 - i mod 16) = bit (group_at pre 0 (index + i div 16)) (15 - i mod 16))"
proof (induction remaining arbitrary: index rule: less_induct)
  case (less r)
  let ?B = "\<lambda>index i. bit (group_at gs (-1) (index + i div 16)) (15 - i mod 16) = bit (group_at pre 0 (index + i div 16)) (15 - i mod 16)"
  show ?case
  proof (cases "r = 0")
    case True
    then show ?thesis by (simp add: prefix_loop.simps)
  next
    case False
    have tail: "?B (Suc index) i = ?B index (16 + i)" for i by simp
    have "prefix_loop gs pre index r \<longleftrightarrow> (\<forall>j < min r 16. ?B index j) \<and> (\<forall>i < r - min r 16. ?B (Suc index) i)"
      using False by (simp add: prefix_loop_step less.IH)
    also have "\<dots> \<longleftrightarrow> (\<forall>i < r. ?B index i)"
    proof safe
      fix i
      assume head: "\<forall>j < min r 16. ?B index j" and rest: "\<forall>i < r - min r 16. ?B (Suc index) i" and i: "i < r"
      have "?B index i"
      proof (cases "i < 16")
        case True
        with head i show ?thesis by simp
      next
        case False
        then have "i - 16 < r - min r 16" "16 + (i - 16) = i" using i by linarith+
        with rest tail[of "i - 16"] show ?thesis by metis
      qed
      then show "bit (group_at gs (- 1) (index + i div 16)) (15 - i mod 16) \<Longrightarrow> bit (group_at pre 0 (index + i div 16)) (15 - i mod 16)"
        "bit (group_at pre 0 (index + i div 16)) (15 - i mod 16) \<Longrightarrow> bit (group_at gs (- 1) (index + i div 16)) (15 - i mod 16)"
        by simp_all
    next
      fix i
      assume all: "\<forall>i < r. ?B index i" and i: "i < r - min r 16"
      then have "16 + i < r" by linarith
      with all tail[of i] have "?B (Suc index) i" by metis
      then show "bit (group_at gs (- 1) (Suc index + i div 16)) (15 - i mod 16) \<Longrightarrow> bit (group_at pre 0 (Suc index + i div 16)) (15 - i mod 16)"
        "bit (group_at pre 0 (Suc index + i div 16)) (15 - i mod 16) \<Longrightarrow> bit (group_at gs (- 1) (Suc index + i div 16)) (15 - i mod 16)"
        by simp_all
    qed auto
    finally show ?thesis .
  qed
qed

text \<open>
  The IPv6 prefix loop compares exactly the leading bits. For eight groups and a prefix of at most
  128 bits, the loop over 16-bit masks answers true exactly when each of the first \<open>bits\<close> bits of the
  address, read from the top of the first group, equals the bit of the (zero padded) network.
\<close>

theorem ipv6_prefix_bits:
  assumes "length groups = 8" "bits \<le> 128"
  shows "hasIpv6Prefix groups pre bits \<longleftrightarrow>
    (\<forall>i < bits. bit (groups ! (i div 16)) (15 - i mod 16) = bit ((pre @ replicate 8 0) ! (i div 16)) (15 - i mod 16))"
proof -
  have g: "group_at groups (-1) (i div 16) = groups ! (i div 16)"
    and p: "group_at pre 0 (i div 16) = (pre @ replicate 8 0) ! (i div 16)" if "i < bits" for i
  proof -
    have k: "i div 16 < 8" using that assms(2) by linarith
    then show "group_at groups (-1) (i div 16) = groups ! (i div 16)" using assms(1) by (simp add: group_at_def)
    show "group_at pre 0 (i div 16) = (pre @ replicate 8 0) ! (i div 16)"
      using k by (auto simp: group_at_def nth_append)
  qed
  show ?thesis unfolding hasIpv6Prefix_def prefix_loop_bits by (auto simp: g p)
qed

theorem ipv6_prefix_bits_witness:
  "hasIpv6Prefix [0xfdff, 1, 2, 3, 4, 5, 6, 7] [0xfc00] 7
    \<and> list_all (\<lambda>i. bit ([0xfdff, 1, 2, 3, 4, 5, 6, 7::int] ! (i div 16)) (15 - i mod 16)
        = bit (([0xfc00] @ replicate 8 0 :: int list) ! (i div 16)) (15 - i mod 16)) [0..<7]"
proof -
  have "hasIpv6Prefix [0xfdff, 1, 2, 3, 4, 5, 6, 7] [0xfc00] 7" by code_simp
  with ipv6_prefix_bits[of "[0xfdff, 1, 2, 3, 4, 5, 6, 7]" 7 "[0xfc00]"] show ?thesis by (simp add: list_all_iff)
qed

text \<open>The IPv4 addresses embedded by NAT64 and 6to4 are not looked at: both carry 169.254.169.254.\<close>

lemma embedded_metadata_not_blocked:
  "classifyAddress ''64:ff9b::a9fe:a9fe'' = \<lparr>ac_reason = None, ac_version = 6, ac_address = ''64:ff9b::a9fe:a9fe''\<rparr>
   \<and> classifyAddress ''2002:a9fe:a9fe::'' = \<lparr>ac_reason = None, ac_version = 6, ac_address = ''2002:a9fe:a9fe::''\<rparr>
   \<and> ac_reason (classifyAddress ''::ffff:a9fe:a9fe'') = Some Metadata"
  by code_simp

end
