(* ===== verification/TokenBucket.thy ===== *)
theory TokenBucket
  imports Prelude
begin

text \<open>
  The token bucket that the account admission controller and the control-plane guard both write out,
  and what its clients rely on: a bound on the grants of any time window. Token counts are rationals
  (the rounding of double arithmetic is not modelled).
\<close>

text \<open>\<open>Math.min(capacity, tokens + Math.max(0, now - lastRefill) * ratePerSecond / 1000)\<close>.\<close>

definition refilled :: "rat \<Rightarrow> rat \<Rightarrow> rat \<Rightarrow> rat \<Rightarrow> rat \<Rightarrow> rat" where
  "refilled capacity ratePerSecond tokens lastRefill now =
     min capacity (tokens + max 0 (now - lastRefill) * ratePerSecond / 1000)"

lemma refilled_le: "refilled capacity r tokens l now \<le> capacity"
  by (simp add: refilled_def)

lemma refilled_nonneg: "0 \<le> capacity \<Longrightarrow> 0 \<le> r \<Longrightarrow> 0 \<le> tokens \<Longrightarrow> 0 \<le> refilled capacity r tokens l now"
  by (simp add: refilled_def)

lemma refilled_now [simp]: "refilled capacity r tokens now now = min capacity tokens"
  by (simp add: refilled_def)

lemma refilled_grows:
  assumes "t \<le> t'" "0 \<le> r"
  shows "refilled capacity r tokens l t' \<le> refilled capacity r tokens l t + (t' - t) * r / 1000"
proof -
  have "max 0 (t' - l) * r \<le> (max 0 (t - l) + (t' - t)) * r"
    using assms by (intro mult_right_mono) auto
  then have a: "max 0 (t' - l) * r / 1000 \<le> max 0 (t - l) * r / 1000 + (t' - t) * r / 1000"
    by (simp add: distrib_right add_divide_distrib[symmetric])
  have "0 \<le> (t' - t) * r / 1000" using assms by simp
  with a show ?thesis unfolding refilled_def by linarith
qed

text \<open>
  \<open>level s t\<close> is what the bucket would hold at time \<open>t\<close>. A grant takes a token from it, nothing else
  raises it but the passing of time. \<open>legal\<close> and \<open>ok\<close> delimit the requests and states for which the
  provider promises this.
\<close>

locale rate_limiter =
  fixes attempt :: "'r \<Rightarrow> rat \<Rightarrow> 's \<Rightarrow> bool \<times> 's"
    and level :: "'s \<Rightarrow> rat \<Rightarrow> rat"
    and ok :: "'s \<Rightarrow> bool"
    and legal :: "'r \<Rightarrow> bool"
    and capacity ratePerSecond :: rat
  assumes grant_takes: "ok s \<Longrightarrow> legal r \<Longrightarrow> attempt r now s = (g, s')
      \<Longrightarrow> level s' now + (if g then 1 else 0) \<le> level s now"
    and ok_kept: "ok s \<Longrightarrow> legal r \<Longrightarrow> ok (snd (attempt r now s))"
    and level_grows: "ok s \<Longrightarrow> t \<le> t' \<Longrightarrow> level s t' \<le> level s t + (t' - t) * ratePerSecond / 1000"
    and level_bounds: "ok s \<Longrightarrow> 0 \<le> level s t \<and> level s t \<le> capacity"
begin

fun grants :: "('r \<times> rat) list \<Rightarrow> 's \<Rightarrow> nat" where
  "grants [] s = 0"
| "grants ((r, now) # rs) s = (if fst (attempt r now s) then 1 else 0) + grants rs (snd (attempt r now s))"

lemma grants_level:
  assumes "ok s" "\<forall>(r, now) \<in> set rs. legal r" "sorted_wrt (\<le>) (t0 # map snd rs)"
  shows "of_nat (grants rs s) \<le> level s t0 + (last (t0 # map snd rs) - t0) * ratePerSecond / 1000"
  using assms
proof (induction rs arbitrary: s t0)
  case Nil
  then show ?case using level_bounds[of s t0] by simp
next
  case (Cons q rs)
  obtain r now where q: "q = (r, now)" by (cases q)
  obtain g s' where a: "attempt r now s = (g, s')" by (cases "attempt r now s")
  have ok': "ok s'" using ok_kept[OF Cons.prems(1), of r now] Cons.prems(2) q a by simp
  have take: "level s' now + (if g then 1 else 0) \<le> level s now"
    using grant_takes[OF Cons.prems(1) _ a] Cons.prems(2) q by simp
  have grow: "level s now \<le> level s t0 + (now - t0) * ratePerSecond / 1000"
    using level_grows[OF Cons.prems(1), of t0 now] Cons.prems(3) q by simp
  have IH: "of_nat (grants rs s') \<le> level s' now + (last (now # map snd rs) - now) * ratePerSecond / 1000"
    using Cons.IH[OF ok', of now] Cons.prems(2,3) q by simp
  have split: "(last (now # map snd rs) - t0) * ratePerSecond / 1000
      = (last (now # map snd rs) - now) * ratePerSecond / 1000 + (now - t0) * ratePerSecond / 1000"
    by (simp add: field_simps)
  have "of_nat (grants (q # rs) s) = (if g then 1 else 0) + of_nat (grants rs s')" by (simp add: q a)
  also have "\<dots> \<le> level s t0 + (last (now # map snd rs) - t0) * ratePerSecond / 1000"
    using take grow IH split by linarith
  finally show ?case by (simp add: q)
qed

lemma grants_window:
  assumes "ok s" "\<forall>(r, now) \<in> set rs. legal r" "sorted_wrt (\<le>) (t0 # map snd rs)"
  shows "of_nat (grants rs s) \<le> capacity + (last (t0 # map snd rs) - t0) * ratePerSecond / 1000"
  using grants_level[OF assms] level_bounds[OF assms(1), of t0] by linarith

end

end
