(* ===== verification/Admission.thy ===== *)
theory Admission
  imports TokenBucket JsText
begin

text \<open>
  \<open>src/operations/account-admission.ts\<close>: the admission controller that bounds how many sessions run
  at once per tenant, account, domain and proxy, and how fast a tenant may start them. The tokens of
  \<open>randomUUID\<close> are an argument of \<open>acquire\<close>.
\<close>

record admission_request =
  ar_tenantId :: string
  ar_accountId :: string
  ar_domainKey :: string
  ar_proxyId :: string

record admission_limits =
  lim_tenant :: int
  lim_account :: int
  lim_domain :: int
  lim_proxy :: int
  lim_burst :: rat
  lim_ratePerSecond :: rat

datatype admission_reason =
    RATE_LIMIT_EXCEEDED | CONCURRENCY_LIMIT_TENANT | CONCURRENCY_LIMIT_ACCOUNT
  | CONCURRENCY_LIMIT_DOMAIN | CONCURRENCY_LIMIT_PROXY | BUCKET_CAPACITY_EXHAUSTED

datatype admission_result = Allowed (permit_token: string) | Denied admission_reason int

datatype admission_error =
    BadConcurrencyLimit | BadRateLimit | BadMaxBuckets | BadAdmissionClock | BadDimension

record token_bucket =
  tb_tokens :: rat
  tb_lastRefill :: rat

record controller =
  adm_limits :: admission_limits
  adm_maxBuckets :: nat
  adm_tenants :: "(string, int) jmap"
  adm_accounts :: "(string \<times> string, int) jmap"
  adm_domains :: "(string, int) jmap"
  adm_proxies :: "(string, int) jmap"
  adm_buckets :: "(string, token_bucket) jmap"
  adm_permits :: "(string, admission_request) jmap"

text \<open>The constructor, in the order of its checks; the four limits are those of \<open>limits.concurrency\<close>.\<close>

definition newAdmission ::
  "jsnum \<Rightarrow> jsnum \<Rightarrow> jsnum \<Rightarrow> jsnum \<Rightarrow> jsreal \<Rightarrow> jsreal \<Rightarrow> jsnum \<Rightarrow> admission_error + controller" where
  "newAdmission tenant account domain proxy burst rate maxBuckets =
     (let positive = (\<lambda>n. is_safe_integer n \<and> (case n of IntN i \<Rightarrow> i \<ge> 1 | OtherN \<Rightarrow> False))
      in if \<not> list_all positive [tenant, account, domain, proxy] then Inl BadConcurrencyLimit
         else (case (tenant, account, domain, proxy) of
            (IntN t, IntN a, IntN d, IntN p) \<Rightarrow>
              (case (burst, rate) of
                 (Fin b, Fin r) \<Rightarrow>
                   if b < 1 \<or> r \<le> 0 then Inl BadRateLimit
                   else (case maxBuckets of
                      IntN m \<Rightarrow>
                        if \<not> is_safe_integer maxBuckets \<or> m < 1 \<or> m > 1000000 then Inl BadMaxBuckets
                        else Inr \<lparr>adm_limits = \<lparr>lim_tenant = t, lim_account = a, lim_domain = d, lim_proxy = p,
                                    lim_burst = b, lim_ratePerSecond = r\<rparr>,
                               adm_maxBuckets = nat m, adm_tenants = [], adm_accounts = [], adm_domains = [],
                               adm_proxies = [], adm_buckets = [], adm_permits = []\<rparr>
                    | OtherN \<Rightarrow> Inl BadMaxBuckets)
               | _ \<Rightarrow> Inl BadRateLimit)
          | _ \<Rightarrow> Inl BadConcurrencyLimit))"

definition validateRequest :: "admission_request \<Rightarrow> admission_error + admission_request" where
  "validateRequest r =
     (if list_ex (\<lambda>v. js_trim v = [] \<or> length v > 256) [ar_tenantId r, ar_accountId r, ar_domainKey r, ar_proxyId r]
      then Inl BadDimension else Inr r)"

text \<open>\<open>JSON.stringify([tenantId, accountId])\<close> is injective on pairs of strings: the pair itself.\<close>

definition account_key :: "admission_request \<Rightarrow> string \<times> string" where
  "account_key r = (ar_tenantId r, ar_accountId r)"

definition active :: "('k, int) jmap \<Rightarrow> 'k \<Rightarrow> int" where
  "active m k = (case map_of m k of Some n \<Rightarrow> n | None \<Rightarrow> 0)"

text \<open>When a new tenant meets a full table, the oldest bucket of an idle tenant makes room.\<close>

definition evict_idle :: "controller \<Rightarrow> controller" where
  "evict_idle s =
     (case find (\<lambda>t. map_of (adm_tenants s) t = None) (jkeys (adm_buckets s)) of
        None \<Rightarrow> s
      | Some t \<Rightarrow> s\<lparr>adm_buckets := jdel (adm_buckets s) t\<rparr>)"

definition current_tokens :: "controller \<Rightarrow> string \<Rightarrow> rat \<Rightarrow> rat" where
  "current_tokens s tenant now =
     (let bucket = (case map_of (adm_buckets s) tenant of
           Some b \<Rightarrow> b | None \<Rightarrow> \<lparr>tb_tokens = lim_burst (adm_limits s), tb_lastRefill = now\<rparr>)
      in refilled (lim_burst (adm_limits s)) (lim_ratePerSecond (adm_limits s)) (tb_tokens bucket) (tb_lastRefill bucket) now)"

definition set_bucket :: "string \<Rightarrow> rat \<Rightarrow> rat \<Rightarrow> controller \<Rightarrow> controller" where
  "set_bucket tenant tokens now s =
     s\<lparr>adm_buckets := jset (adm_buckets s) tenant \<lparr>tb_tokens = tokens, tb_lastRefill = now\<rparr>\<rparr>"

definition concurrency_reason :: "controller \<Rightarrow> admission_request \<Rightarrow> admission_reason option" where
  "concurrency_reason s r =
     (if active (adm_tenants s) (ar_tenantId r) \<ge> lim_tenant (adm_limits s) then Some CONCURRENCY_LIMIT_TENANT
      else if active (adm_accounts s) (account_key r) \<ge> lim_account (adm_limits s) then Some CONCURRENCY_LIMIT_ACCOUNT
      else if active (adm_domains s) (ar_domainKey r) \<ge> lim_domain (adm_limits s) then Some CONCURRENCY_LIMIT_DOMAIN
      else if active (adm_proxies s) (ar_proxyId r) \<ge> lim_proxy (adm_limits s) then Some CONCURRENCY_LIMIT_PROXY
      else None)"

definition increment :: "('k, int) jmap \<Rightarrow> 'k \<Rightarrow> ('k, int) jmap" where
  "increment m k = jset m k (active m k + 1)"

definition decrement :: "('k, int) jmap \<Rightarrow> 'k \<Rightarrow> ('k, int) jmap" where
  "decrement m k = (if active m k \<le> 1 then jdel m k else jset m k (active m k - 1))"

definition admit :: "string \<Rightarrow> admission_request \<Rightarrow> controller \<Rightarrow> controller" where
  "admit token r s =
     s\<lparr>adm_tenants := increment (adm_tenants s) (ar_tenantId r),
       adm_accounts := increment (adm_accounts s) (account_key r),
       adm_domains := increment (adm_domains s) (ar_domainKey r),
       adm_proxies := increment (adm_proxies s) (ar_proxyId r),
       adm_permits := jset (adm_permits s) token r\<rparr>"

text \<open>The end of \<open>acquire\<close>, once the tenant has a place in the bucket table.\<close>

definition acquire_with_bucket ::
  "string \<Rightarrow> rat \<Rightarrow> admission_request \<Rightarrow> controller \<Rightarrow> admission_result \<times> controller" where
  "acquire_with_bucket token now r s =
     (let tenant = ar_tenantId r;
          currentTokens = current_tokens s tenant now;
          s1 = set_bucket tenant currentTokens now s;
          perMs = lim_ratePerSecond (adm_limits s) / 1000
      in if currentTokens < 1 then (Denied RATE_LIMIT_EXCEEDED \<lceil>(1 - currentTokens) / perMs\<rceil>, s1)
         else (case concurrency_reason s1 r of
             Some reason \<Rightarrow> (Denied reason 1000, s1)
           | None \<Rightarrow> (Allowed token, admit token r (set_bucket tenant (currentTokens - 1) now s1))))"

definition acquire ::
  "string \<Rightarrow> jsreal \<Rightarrow> admission_request \<Rightarrow> controller \<Rightarrow> (admission_error + admission_result) \<times> controller" where
  "acquire token clk request s =
     (case validateRequest request of
        Inl e \<Rightarrow> (Inl e, s)
      | Inr r \<Rightarrow>
        (case clk of
           NonFinite \<Rightarrow> (Inl BadAdmissionClock, s)
         | Fin now \<Rightarrow>
           if now < 0 then (Inl BadAdmissionClock, s)
           else (let full = (map_of (adm_buckets s) (ar_tenantId r) = None \<and> length (adm_buckets s) \<ge> adm_maxBuckets s);
                     s0 = (if full then evict_idle s else s)
                 in if full \<and> length (adm_buckets s0) \<ge> adm_maxBuckets s0
                    then (Inr (Denied BUCKET_CAPACITY_EXHAUSTED 1000), s0)
                    else map_prod Inr id (acquire_with_bucket token now r s0))))"

definition release :: "string \<Rightarrow> controller \<Rightarrow> controller" where
  "release token s =
     (case map_of (adm_permits s) token of
        None \<Rightarrow> s
      | Some r \<Rightarrow>
          s\<lparr>adm_permits := jdel (adm_permits s) token,
            adm_tenants := decrement (adm_tenants s) (ar_tenantId r),
            adm_accounts := decrement (adm_accounts s) (account_key r),
            adm_domains := decrement (adm_domains s) (ar_domainKey r),
            adm_proxies := decrement (adm_proxies s) (ar_proxyId r)\<rparr>)"

definition getMetrics :: "controller \<Rightarrow> nat list" where
  "getMetrics s = [length (adm_tenants s), length (adm_accounts s), length (adm_domains s),
     length (adm_proxies s), length (adm_permits s), length (adm_buckets s)]"

subsection \<open>Counters are counts of permits\<close>

definition holders :: "(admission_request \<Rightarrow> 'k) \<Rightarrow> (string, admission_request) jmap \<Rightarrow> 'k \<Rightarrow> nat" where
  "holders f ps k = length (filter (\<lambda>p. f (snd p) = k) ps)"

definition counts :: "(admission_request \<Rightarrow> 'k) \<Rightarrow> ('k, int) jmap \<Rightarrow> (string, admission_request) jmap \<Rightarrow> bool" where
  "counts f m ps \<longleftrightarrow> jwf m \<and> (\<forall>k. map_of m k = (if holders f ps k = 0 then None else Some (int (holders f ps k))))"

lemma counts_active: "counts f m ps \<Longrightarrow> active m k = int (holders f ps k)"
  by (simp add: counts_def active_def)

lemma holders_set: "map_of ps t = None \<Longrightarrow> holders f (jset ps t r) k = holders f ps k + (if f r = k then 1 else 0)"
  by (simp add: holders_def jset_fresh)

lemma holders_del:
  assumes "jwf ps" "map_of ps t = Some r"
  shows "holders f ps k = holders f (jdel ps t) k + (if f r = k then 1 else 0)"
  using assms
proof (induction ps)
  case Nil
  then show ?case by simp
next
  case (Cons p ps)
  obtain t' r' where p: "p = (t', r')" by (cases p)
  show ?case
  proof (cases "t' = t")
    case True
    with Cons.prems p have "jdel ps t = ps" "r' = r" by (auto simp: delete_id)
    with True p show ?thesis by (simp add: holders_def)
  next
    case False
    with Cons.prems p have "jwf ps" "map_of ps t = Some r" by simp_all
    from Cons.IH[OF this] False p show ?thesis by (simp add: holders_def)
  qed
qed

lemma counts_increment:
  assumes "counts f m ps" "map_of ps t = None"
  shows "counts f (increment m (f r)) (jset ps t r)"
  unfolding counts_def
proof (intro conjI allI)
  show "jwf (increment m (f r))" using assms(1) by (simp add: counts_def increment_def)
  fix k
  show "map_of (increment m (f r)) k = (if holders f (jset ps t r) k = 0 then None else Some (int (holders f (jset ps t r) k)))"
  proof (cases "k = f r")
    case True
    then show ?thesis
      using counts_active[OF assms(1), of k] by (simp add: holders_set[OF assms(2)] increment_def jset_apply)
  next
    case False
    then show ?thesis using assms(1) by (simp add: holders_set[OF assms(2)] increment_def jset_apply counts_def)
  qed
qed

lemma counts_decrement:
  assumes "counts f m ps" "jwf ps" "map_of ps t = Some r"
  shows "counts f (decrement m (f r)) (jdel ps t)"
  unfolding counts_def
proof (intro conjI allI)
  show "jwf (decrement m (f r))" using assms(1) by (simp add: counts_def decrement_def)
  fix k
  note h = holders_del[OF assms(2,3), of f k]
  show "map_of (decrement m (f r)) k = (if holders f (jdel ps t) k = 0 then None else Some (int (holders f (jdel ps t) k)))"
  proof (cases "k = f r")
    case True
    then show ?thesis
      using h counts_active[OF assms(1), of k] by (simp add: decrement_def jset_apply jdel_apply)
  next
    case False
    then show ?thesis using assms(1) h
      by (simp add: decrement_def jset_apply jdel_apply counts_def del: map_of_eq_Some_iff)
  qed
qed

definition capped :: "(admission_request \<Rightarrow> 'k) \<Rightarrow> int \<Rightarrow> (string, admission_request) jmap \<Rightarrow> bool" where
  "capped f limit ps \<longleftrightarrow> (\<forall>k. int (holders f ps k) \<le> limit)"

lemma capped_set:
  assumes "counts f m ps" "map_of ps t = None" "capped f limit ps" "active m (f r) < limit"
  shows "capped f limit (jset ps t r)"
  using assms counts_active[OF assms(1), of "f r"] by (auto simp: capped_def holders_set)

lemma capped_del: "jwf ps \<Longrightarrow> map_of ps t = Some r \<Longrightarrow> capped f limit ps \<Longrightarrow> capped f limit (jdel ps t)"
  unfolding capped_def
proof
  fix k
  assume "jwf ps" "map_of ps t = Some r" "\<forall>k. int (holders f ps k) \<le> limit"
  from holders_del[OF this(1,2), of f k] spec[OF this(3), of k] show "int (holders f (jdel ps t) k) \<le> limit" by simp
qed

text \<open>One dimension: its counters count the permits, and no value of it is over its limit.\<close>

definition dimension_ok :: "(admission_request \<Rightarrow> 'k) \<Rightarrow> ('k, int) jmap \<Rightarrow> int \<Rightarrow> (string, admission_request) jmap \<Rightarrow> bool" where
  "dimension_ok f m limit ps \<longleftrightarrow> counts f m ps \<and> capped f limit ps"

lemma dimension_admit:
  "dimension_ok f m limit ps \<Longrightarrow> map_of ps t = None \<Longrightarrow> active m (f r) < limit
   \<Longrightarrow> dimension_ok f (increment m (f r)) limit (jset ps t r)"
  unfolding dimension_ok_def by (blast intro: counts_increment capped_set)

lemma dimension_release:
  "dimension_ok f m limit ps \<Longrightarrow> jwf ps \<Longrightarrow> map_of ps t = Some r
   \<Longrightarrow> dimension_ok f (decrement m (f r)) limit (jdel ps t)"
  unfolding dimension_ok_def by (blast intro: counts_decrement capped_del)

definition admission_inv :: "controller \<Rightarrow> bool" where
  "admission_inv s \<longleftrightarrow> jwf (adm_permits s)
     \<and> dimension_ok ar_tenantId (adm_tenants s) (lim_tenant (adm_limits s)) (adm_permits s)
     \<and> dimension_ok account_key (adm_accounts s) (lim_account (adm_limits s)) (adm_permits s)
     \<and> dimension_ok ar_domainKey (adm_domains s) (lim_domain (adm_limits s)) (adm_permits s)
     \<and> dimension_ok ar_proxyId (adm_proxies s) (lim_proxy (adm_limits s)) (adm_permits s)
     \<and> jwf (adm_buckets s) \<and> length (adm_buckets s) \<le> adm_maxBuckets s"

lemma concurrency_reason_None:
  "concurrency_reason s r = None \<Longrightarrow>
     active (adm_tenants s) (ar_tenantId r) < lim_tenant (adm_limits s)
   \<and> active (adm_accounts s) (account_key r) < lim_account (adm_limits s)
   \<and> active (adm_domains s) (ar_domainKey r) < lim_domain (adm_limits s)
   \<and> active (adm_proxies s) (ar_proxyId r) < lim_proxy (adm_limits s)"
  by (auto simp: concurrency_reason_def split: if_splits)

lemma set_bucket_inv:
  assumes "admission_inv s" "map_of (adm_buckets s) t \<noteq> None \<or> length (adm_buckets s) < adm_maxBuckets s"
  shows "admission_inv (set_bucket t tokens now s)"
  using assms by (auto simp: admission_inv_def set_bucket_def jset_length)

lemma admit_inv:
  assumes "admission_inv s" "map_of (adm_permits s) token = None" "concurrency_reason s r = None"
  shows "admission_inv (admit token r s)"
  using assms concurrency_reason_None[OF assms(3)] by (auto simp: admission_inv_def admit_def intro: dimension_admit)

lemma set_bucket_again: "map_of (adm_buckets (set_bucket t x now s)) t \<noteq> None"
  by (simp add: set_bucket_def jset_apply)

lemma acquire_with_bucket_inv:
  assumes inv: "admission_inv s" and fresh: "map_of (adm_permits s) token = None"
    and room: "map_of (adm_buckets s) (ar_tenantId r) \<noteq> None \<or> length (adm_buckets s) < adm_maxBuckets s"
  shows "admission_inv (snd (acquire_with_bucket token now r s))"
proof -
  let ?c = "current_tokens s (ar_tenantId r) now"
  let ?s1 = "set_bucket (ar_tenantId r) ?c now s"
  let ?s2 = "set_bucket (ar_tenantId r) (?c - 1) now ?s1"
  have s1: "admission_inv ?s1" by (rule set_bucket_inv[OF inv room])
  then have s2: "admission_inv ?s2" by (rule set_bucket_inv) (simp add: set_bucket_again del: map_of_eq_Some_iff)
  have same: "concurrency_reason ?s2 r = concurrency_reason ?s1 r" "adm_permits ?s2 = adm_permits s"
    by (simp_all add: concurrency_reason_def set_bucket_def)
  have "admission_inv (admit token r ?s2)" if "concurrency_reason ?s1 r = None"
    using s2 that fresh same by (intro admit_inv) simp_all
  with s1 show ?thesis by (auto simp: acquire_with_bucket_def Let_def split: option.split)
qed

lemma evict_idle_inv: "admission_inv s \<Longrightarrow> admission_inv (evict_idle s)"
  by (auto simp: admission_inv_def evict_idle_def split: option.split intro: order_trans[OF jdel_length_le])

lemma evict_idle_same [simp]:
  "adm_permits (evict_idle s) = adm_permits s" "adm_maxBuckets (evict_idle s) = adm_maxBuckets s"
  "adm_limits (evict_idle s) = adm_limits s" "adm_tenants (evict_idle s) = adm_tenants s"
  by (auto simp: evict_idle_def split: option.split)

definition table_full :: "controller \<Rightarrow> string \<Rightarrow> bool" where
  "table_full s t \<longleftrightarrow> map_of (adm_buckets s) t = None \<and> length (adm_buckets s) \<ge> adm_maxBuckets s"

lemma acquire_split:
  assumes "validateRequest r = Inr r'" "\<not> now < 0"
  shows "acquire token (Fin now) r s =
    (if \<not> table_full s (ar_tenantId r') then map_prod Inr id (acquire_with_bucket token now r' s)
     else if length (adm_buckets (evict_idle s)) \<ge> adm_maxBuckets s
       then (Inr (Denied BUCKET_CAPACITY_EXHAUSTED 1000), evict_idle s)
     else map_prod Inr id (acquire_with_bucket token now r' (evict_idle s)))"
  using assms by (cases "map_of (adm_buckets s) (ar_tenantId r')"; cases "length (adm_buckets s) \<ge> adm_maxBuckets s")
    (simp_all add: acquire_def table_full_def Let_def)

lemma acquire_inv:
  assumes inv: "admission_inv s" and fresh: "map_of (adm_permits s) token = None"
  shows "admission_inv (snd (acquire token clk r s))"
proof (cases "validateRequest r")
  case (Inr r')
  show ?thesis
  proof (cases clk)
    case (Fin now)
    show ?thesis
    proof (cases "now < 0")
      case True
      with inv Inr Fin show ?thesis by (simp add: acquire_def)
    next
      case False
      have "admission_inv (snd (acquire_with_bucket token now r' s))" if "\<not> table_full s (ar_tenantId r')"
        using that inv fresh by (intro acquire_with_bucket_inv) (auto simp: table_full_def)
      moreover have "admission_inv (snd (acquire_with_bucket token now r' (evict_idle s)))"
        if "\<not> length (adm_buckets (evict_idle s)) \<ge> adm_maxBuckets s"
        using that inv fresh by (intro acquire_with_bucket_inv) (auto intro: evict_idle_inv)
      ultimately show ?thesis using evict_idle_inv[OF inv] unfolding Fin acquire_split[OF Inr False] by simp
    qed
  qed (use inv Inr in \<open>simp add: acquire_def\<close>)
qed (use inv in \<open>simp add: acquire_def\<close>)

lemma release_inv: "admission_inv s \<Longrightarrow> admission_inv (release token s)"
  by (auto simp: release_def admission_inv_def split: option.split intro: dimension_release simp del: map_of_eq_Some_iff)

text \<open>Reachable controllers: the tokens of \<open>randomUUID\<close> are not those of a live permit.\<close>

inductive admission_reach :: "controller \<Rightarrow> controller \<Rightarrow> bool" where
  admission_start: "admission_reach s0 s0"
| admission_acquire: "admission_reach s0 s \<Longrightarrow> map_of (adm_permits s) token = None
    \<Longrightarrow> admission_reach s0 (snd (acquire token clk r s))"
| admission_release: "admission_reach s0 s \<Longrightarrow> admission_reach s0 (release token s)"

lemma newAdmission_inv: "newAdmission t a d p b r m = Inr s \<Longrightarrow> admission_inv s"
  by (auto simp: newAdmission_def Let_def admission_inv_def dimension_ok_def counts_def capped_def holders_def
      split: if_splits jsnum.splits jsreal.splits)

lemma reach_inv: "admission_reach s0 s \<Longrightarrow> admission_inv s0 \<Longrightarrow> admission_inv s"
  by (induction rule: admission_reach.induct) (auto intro: acquire_inv release_inv)

lemma acquire_keeps [simp]:
  "adm_limits (snd (acquire token clk r s)) = adm_limits s" "adm_maxBuckets (snd (acquire token clk r s)) = adm_maxBuckets s"
  by (auto simp: acquire_def acquire_with_bucket_def admit_def set_bucket_def Let_def
      split: sum.split jsreal.split option.split)

lemma release_keeps [simp]:
  "adm_limits (release token s) = adm_limits s" "adm_maxBuckets (release token s) = adm_maxBuckets s"
  "adm_buckets (release token s) = adm_buckets s"
  by (auto simp: release_def split: option.split)

lemma reach_keeps: "admission_reach s0 s \<Longrightarrow> adm_limits s = adm_limits s0 \<and> adm_maxBuckets s = adm_maxBuckets s0"
  by (induction rule: admission_reach.induct) auto

lemma dimension_facts:
  "dimension_ok f m l ps \<Longrightarrow> active m k = int (holders f ps k) \<and> active m k \<le> l
     \<and> (map_of m k = None \<longleftrightarrow> holders f ps k = 0)"
  using counts_active[of f m ps k] by (auto simp: dimension_ok_def capped_def counts_def)



subsection \<open>The rate limit\<close>

text \<open>An operation of the rate analysis: an admission attempt (with its token) or a release.\<close>

type_synonym admission_call = "(string \<times> admission_request) + string"

definition admission_attempt :: "string \<Rightarrow> admission_call \<Rightarrow> rat \<Rightarrow> controller \<Rightarrow> bool \<times> controller" where
  "admission_attempt tenant call now s =
     (case call of
        Inl (token, r) \<Rightarrow>
          (case acquire token (Fin now) r s of
             (Inr (Allowed _), s') \<Rightarrow> (ar_tenantId r = tenant, s')
           | (_, s') \<Rightarrow> (False, s'))
      | Inr token \<Rightarrow> (False, release token s))"

text \<open>Only these tenants call, and the bucket table has room for all of them: no bucket is evicted.\<close>

definition roomy :: "admission_limits \<Rightarrow> string set \<Rightarrow> nat \<Rightarrow> controller \<Rightarrow> bool" where
  "roomy lm T m s \<longleftrightarrow> adm_limits s = lm \<and> adm_maxBuckets s = m \<and> jwf (adm_buckets s)
     \<and> set (jkeys (adm_buckets s)) \<subseteq> T \<and> (\<forall>t b. map_of (adm_buckets s) t = Some b \<longrightarrow> 0 \<le> tb_tokens b)"

definition call_by :: "string set \<Rightarrow> admission_call \<Rightarrow> bool" where
  "call_by T call = (case call of Inl (_, r) \<Rightarrow> ar_tenantId r \<in> T | Inr _ \<Rightarrow> True)"

lemma roomy_not_full:
  assumes "roomy lm T m s" "finite T" "card T \<le> m" "t \<in> T" "map_of (adm_buckets s) t = None"
  shows "length (adm_buckets s) < m"
proof -
  have "t \<notin> set (jkeys (adm_buckets s))" using assms(5) by (simp add: map_of_eq_None_iff)
  then have "set (jkeys (adm_buckets s)) \<subset> T" using assms(1,4) by (auto simp: roomy_def)
  then have "card (set (jkeys (adm_buckets s))) < card T" using assms(2) by (rule psubset_card_mono[rotated])
  moreover have "card (set (jkeys (adm_buckets s))) = length (adm_buckets s)"
    using assms(1) distinct_card[of "jkeys (adm_buckets s)"] by (simp add: roomy_def)
  ultimately show ?thesis using assms(3) by simp
qed

text \<open>What an attempt does to a bucket table with room: the caller's bucket is refilled and, on a grant, charged.\<close>

lemma roomy_acquire:
  assumes ok: "roomy lm T m s" and T: "finite T" "card T \<le> m" and r: "ar_tenantId r \<in> T"
    and a: "acquire token (Fin now) r s = (res, s')"
  shows "s' = s \<and> \<not> (\<exists>k. res = Inr (Allowed k))
    \<or> (\<exists>x. adm_limits s' = lm \<and> adm_maxBuckets s' = m
        \<and> adm_buckets s' = jset (adm_buckets s) (ar_tenantId r) \<lparr>tb_tokens = x, tb_lastRefill = now\<rparr>
        \<and> (if \<exists>k. res = Inr (Allowed k) then x = current_tokens s (ar_tenantId r) now - 1 \<and> 0 \<le> x
           else x = current_tokens s (ar_tenantId r) now))"
proof (cases "validateRequest r = Inr r \<and> \<not> now < 0")
  case False
  then show ?thesis using a by (auto simp: acquire_def validateRequest_def split: if_splits)
next
  case True
  have lm: "adm_limits s = lm" "adm_maxBuckets s = m" using ok by (simp_all add: roomy_def)
  have "\<not> table_full s (ar_tenantId r)"
    using roomy_not_full[OF ok T r] lm by (auto simp: table_full_def)
  then have "(res, s') = map_prod Inr id (acquire_with_bucket token now r s)"
    using a True acquire_split[of r r now token s] by simp
  then show ?thesis
    by (auto simp: acquire_with_bucket_def set_bucket_def admit_def lm Let_def split: if_splits option.splits)
qed

definition tenant_level :: "admission_limits \<Rightarrow> string \<Rightarrow> controller \<Rightarrow> rat \<Rightarrow> rat" where
  "tenant_level lm tenant s now =
     (case map_of (adm_buckets s) tenant of
        None \<Rightarrow> lim_burst lm
      | Some b \<Rightarrow> refilled (lim_burst lm) (lim_ratePerSecond lm) (tb_tokens b) (tb_lastRefill b) now)"

lemma current_tokens_level: "adm_limits s = lm \<Longrightarrow> current_tokens s t now = tenant_level lm t s now"
  by (simp add: current_tokens_def tenant_level_def refilled_def Let_def split: option.split)

lemma tenant_level_bounds:
  "roomy lm T m s \<Longrightarrow> 0 \<le> lim_burst lm \<Longrightarrow> 0 \<le> lim_ratePerSecond lm
   \<Longrightarrow> 0 \<le> tenant_level lm t s now \<and> tenant_level lm t s now \<le> lim_burst lm"
  by (auto simp: tenant_level_def roomy_def refilled_le intro: refilled_nonneg split: option.split simp del: map_of_eq_Some_iff)

lemma tenant_level_set:
  "tenant_level lm t s' now = (if t = t' then min (lim_burst lm) x else tenant_level lm t s now)"
  if "adm_buckets s' = jset (adm_buckets s) t' \<lparr>tb_tokens = x, tb_lastRefill = now\<rparr>"
  using that by (simp add: tenant_level_def jset_apply)

lemma roomy_attempt:
  assumes ok: "roomy lm T m s" and T: "finite T" "card T \<le> m" and c: "call_by T call"
    and lm: "0 \<le> lim_burst lm" "0 \<le> lim_ratePerSecond lm"
    and a: "admission_attempt tenant call now s = (g, s')"
  shows "roomy lm T m s' \<and> tenant_level lm tenant s' now + (if g then 1 else 0) \<le> tenant_level lm tenant s now"
proof (cases call)
  case (Inr token)
  with a have "\<not> g" "s' = release token s" by (simp_all add: admission_attempt_def)
  moreover have "roomy lm T m (release token s)" using ok unfolding roomy_def release_keeps .
  moreover have "tenant_level lm tenant (release token s) now = tenant_level lm tenant s now"
    unfolding tenant_level_def release_keeps ..
  ultimately show ?thesis by simp
next
  case (Inl p)
  obtain token r where p: "p = (token, r)" by (cases p)
  obtain res s1 where acq: "acquire token (Fin now) r s = (res, s1)" by fastforce
  have s': "s' = s1" and g: "g \<longleftrightarrow> ar_tenantId r = tenant \<and> (\<exists>k. res = Inr (Allowed k))"
    using a Inl p acq by (auto simp: admission_attempt_def split: sum.splits admission_result.splits)
  have r: "ar_tenantId r \<in> T" using c Inl p by (simp add: call_by_def)
  note lvl = tenant_level_bounds[OF ok lm]
  have cur: "current_tokens s (ar_tenantId r) now = tenant_level lm (ar_tenantId r) s now"
    using ok by (intro current_tokens_level) (simp add: roomy_def)
  from roomy_acquire[OF ok T r acq] show ?thesis
  proof (elim disjE conjE exE)
    assume "s1 = s" "\<not> (\<exists>k. res = Inr (Allowed k))"
    with ok s' g show ?thesis by simp
  next
    fix x
    assume keep: "adm_limits s1 = lm" "adm_maxBuckets s1 = m"
      and b: "adm_buckets s1 = jset (adm_buckets s) (ar_tenantId r) \<lparr>tb_tokens = x, tb_lastRefill = now\<rparr>"
      and x: "if \<exists>k. res = Inr (Allowed k) then x = current_tokens s (ar_tenantId r) now - 1 \<and> 0 \<le> x
           else x = current_tokens s (ar_tenantId r) now"
    have x0: "0 \<le> x" using x cur lvl[of "ar_tenantId r" now] by (auto split: if_splits)
    have "roomy lm T m s1"
      using ok keep r x0 by (auto simp: roomy_def b jset_keys jset_apply simp del: map_of_eq_Some_iff split: if_splits)
    moreover have "tenant_level lm tenant s1 now + (if g then 1 else 0) \<le> tenant_level lm tenant s now"
      using tenant_level_set[OF b, of lm tenant] x g cur by (auto split: if_splits)
    ultimately show ?thesis using s' by simp
  qed
qed

text \<open>The limits, the calling tenants and the table bound of one analysis.\<close>

definition rate_setting :: "admission_limits \<Rightarrow> string set \<Rightarrow> nat \<Rightarrow> bool" where
  "rate_setting lm T m \<longleftrightarrow> finite T \<and> card T \<le> m \<and> 0 \<le> lim_burst lm \<and> 0 \<le> lim_ratePerSecond lm"

interpretation tenant_rate: rate_limiter "admission_attempt tenant" "tenant_level lm tenant"
    "\<lambda>s. rate_setting lm T m \<and> roomy lm T m s" "call_by T" "lim_burst lm" "lim_ratePerSecond lm" for tenant lm T m
proof
  fix s r now g s'
  assume "rate_setting lm T m \<and> roomy lm T m s" "call_by T r" "admission_attempt tenant r now s = (g, s')"
  then show "tenant_level lm tenant s' now + (if g then 1 else 0) \<le> tenant_level lm tenant s now"
    using roomy_attempt[of lm T m s r tenant now g s'] by (simp add: rate_setting_def)
next
  fix s r now
  assume "rate_setting lm T m \<and> roomy lm T m s" "call_by T r"
  then show "rate_setting lm T m \<and> roomy lm T m (snd (admission_attempt tenant r now s))"
    using roomy_attempt[of lm T m s r tenant now] by (cases "admission_attempt tenant r now s") (simp add: rate_setting_def)
next
  fix s and t t' :: rat
  assume a: "rate_setting lm T m \<and> roomy lm T m s" "t \<le> t'"
  then have "0 \<le> (t' - t) * lim_ratePerSecond lm / 1000" by (simp add: rate_setting_def)
  with a show "tenant_level lm tenant s t' \<le> tenant_level lm tenant s t + (t' - t) * lim_ratePerSecond lm / 1000"
    by (auto simp: tenant_level_def rate_setting_def intro: refilled_grows split: option.split)
next
  fix s t
  assume "rate_setting lm T m \<and> roomy lm T m s"
  then show "0 \<le> tenant_level lm tenant s t \<and> tenant_level lm tenant s t \<le> lim_burst lm"
    using tenant_level_bounds[of lm T m s tenant t] by (simp add: rate_setting_def)
qed

definition admission_run :: "(admission_call \<times> rat) list \<Rightarrow> controller \<Rightarrow> controller" where
  "admission_run calls s = foldl (\<lambda>s (c, now). snd (admission_attempt [] c now s)) s calls"

text \<open>How many of the calls admitted a session of \<open>tenant\<close>.\<close>

fun admitted :: "string \<Rightarrow> (admission_call \<times> rat) list \<Rightarrow> controller \<Rightarrow> nat" where
  "admitted tenant [] s = 0"
| "admitted tenant ((c, now) # cs) s =
     (if fst (admission_attempt tenant c now s) then 1 else 0) + admitted tenant cs (snd (admission_attempt tenant c now s))"

lemma attempt_state: "snd (admission_attempt t c now s) = snd (admission_attempt t' c now s)"
  by (auto simp: admission_attempt_def split: sum.split prod.split admission_result.split)

lemma admitted_grants: "admitted tenant cs s = tenant_rate.grants tenant cs s"
  by (induction tenant cs s rule: admitted.induct) auto

lemma admission_run_ok:
  "rate_setting lm T m \<and> roomy lm T m s \<Longrightarrow> \<forall>(c, now) \<in> set calls. call_by T c
   \<Longrightarrow> rate_setting lm T m \<and> roomy lm T m (admission_run calls s)"
proof (induction calls arbitrary: s)
  case Nil
  then show ?case by (simp add: admission_run_def)
next
  case (Cons x xs)
  obtain c now where x: "x = (c, now)" by (cases x)
  have "rate_setting lm T m \<and> roomy lm T m (snd (admission_attempt [] c now s))"
    using tenant_rate.ok_kept[OF Cons.prems(1), of c "[]" now] Cons.prems(2) x by simp
  from Cons.IH[OF this] Cons.prems(2) x show ?case by (simp add: admission_run_def)
qed

text \<open>
  C22: The rate limit holds over every window. Let at most \<open>maxBuckets\<close> tenants use a new controller,
  in any interleaving of admission attempts and releases. After any such history, the admissions of
  one tenant among any further such calls at nondecreasing times, between \<open>t0\<close> and the time of the
  last call, are at most the burst plus the refill rate times the length of that window.
\<close>

theorem admission_rate_bound:
  assumes "newAdmission t a d p (Fin burst) (Fin rate) (IntN m) = Inr s0"
    and "finite T" "card T \<le> nat m"
    and "\<forall>(c, now) \<in> set (history @ calls). call_by T c"
    and "sorted_wrt (\<le>) (t0 # map snd calls)"
  shows "of_nat (admitted tenant calls (admission_run history s0)) \<le> burst + (last (t0 # map snd calls) - t0) * rate / 1000"
proof -
  define lm where "lm = adm_limits s0"
  have new: "lim_burst lm = burst" "lim_ratePerSecond lm = rate" "rate_setting lm T (nat m) \<and> roomy lm T (nat m) s0"
    using assms(1-3) unfolding lm_def
    by (auto simp: newAdmission_def Let_def rate_setting_def roomy_def split: if_splits jsnum.splits)
  have ok: "rate_setting lm T (nat m) \<and> roomy lm T (nat m) (admission_run history s0)"
    using assms(4) by (intro admission_run_ok[OF new(3)]) auto
  have "\<forall>(c, now) \<in> set calls. call_by T c" using assms(4) by auto
  from tenant_rate.grants_window[OF ok this assms(5), of tenant] show ?thesis
    unfolding admitted_grants new(1,2) .
qed

theorem admission_rate_bound_witness:
  "\<exists>s0 calls. admitted ''t'' calls s0 = 1 \<and> length calls = 3 \<and> of_nat (admitted ''t'' calls s0) \<le> 1 + (500 - 0) * 1 / (1000 :: rat)"
proof -
  define r where "r = \<lparr>ar_tenantId = ''t'', ar_accountId = ''a'', ar_domainKey = ''d'', ar_proxyId = ''p''\<rparr>"
  define s0 where "s0 = \<lparr>adm_limits = \<lparr>lim_tenant = 2, lim_account = 2, lim_domain = 5, lim_proxy = 5, lim_burst = 1, lim_ratePerSecond = 1\<rparr>,
     adm_maxBuckets = 1, adm_tenants = [], adm_accounts = [], adm_domains = [], adm_proxies = [], adm_buckets = [], adm_permits = []\<rparr>"
  define calls where "calls = [(Inl (''k1'', r), 0 :: rat), (Inl (''k2'', r), 500), (Inr ''k1'', 500)]"
  have new: "newAdmission (IntN 2) (IntN 2) (IntN 5) (IntN 5) (Fin 1) (Fin 1) (IntN 1) = Inr s0"
    by (simp add: newAdmission_def s0_def MAX_SAFE_def)
  have one: "admitted ''t'' calls s0 = 1" unfolding calls_def s0_def r_def by code_simp
  have run: "admission_run [] s0 = s0" by (simp add: admission_run_def)
  have "of_nat (admitted ''t'' calls (admission_run [] s0)) \<le> 1 + (last (0 # map snd calls) - 0) * 1 / (1000 :: rat)"
    by (rule admission_rate_bound[OF new, of "{''t''}"]) (simp_all add: calls_def r_def call_by_def)
  then have "of_nat (admitted ''t'' calls s0) \<le> 1 + (500 - 0) * 1 / (1000 :: rat)" by (simp add: run calls_def)
  with one show ?thesis by (intro exI[of _ s0] exI[of _ calls]) (simp add: calls_def)
qed

end
