(* ===== verification/RuntimeGuard.thy ===== *)
theory RuntimeGuard
  imports TokenBucket
begin

text \<open>
  \<open>src/mcp/runtime-guard.ts\<close>: the process-local guard in front of the control plane. It refuses
  writes to a paused or user-controlled session, limits the rate of calls with a token bucket and
  keeps per-tool metrics. Durations and clock readings are finite numbers.
\<close>

datatype guard_error = GuardPausedChallenge | GuardUserHardStop | GuardRateLimited

datatype workspace_control = WsAgentControlled | WsUserControlled | WsInactive

record tool_metric =
  tm_calls :: nat
  tm_successes :: nat
  tm_failures :: nat
  tm_totalDurationMs :: int
  tm_maxDurationMs :: int

record call_context =
  cc_write :: bool
  cc_controlState :: "workspace_control option"
  cc_sessionState :: "string option"

record guard =
  gd_ratePerSecond :: rat
  gd_capacity :: rat
  gd_tokens :: rat
  gd_lastRefillMs :: rat
  gd_metrics :: "(string, tool_metric) jmap"

definition boundedNumber :: "jsreal option \<Rightarrow> rat \<Rightarrow> rat \<Rightarrow> rat \<Rightarrow> rat" where
  "boundedNumber v minimum maximum fallback =
     (case v of Some (Fin x) \<Rightarrow> max minimum (min maximum x) | _ \<Rightarrow> fallback)"

definition newGuard :: "jsreal option \<Rightarrow> jsreal option \<Rightarrow> rat \<Rightarrow> guard" where
  "newGuard ratePerSecond burst now =
     (let capacity = boundedNumber burst 1 10000 40
      in \<lparr>gd_ratePerSecond = boundedNumber ratePerSecond (1 / 10) 1000 20, gd_capacity = capacity, gd_tokens = capacity,
          gd_lastRefillMs = now, gd_metrics = []\<rparr>)"

definition beforeCall :: "call_context \<Rightarrow> rat \<Rightarrow> guard \<Rightarrow> (guard_error + unit) \<times> guard" where
  "beforeCall c now s =
     (if cc_write c \<and> cc_sessionState c = Some ''PAUSED_CHALLENGE'' then (Inl GuardPausedChallenge, s)
      else if cc_write c \<and> cc_controlState c = Some WsUserControlled then (Inl GuardUserHardStop, s)
      else (let tokens = refilled (gd_capacity s) (gd_ratePerSecond s) (gd_tokens s) (gd_lastRefillMs s) now;
                s1 = s\<lparr>gd_tokens := tokens, gd_lastRefillMs := now\<rparr>
            in if tokens < 1 then (Inl GuardRateLimited, s1) else (Inr (), s1\<lparr>gd_tokens := tokens - 1\<rparr>)))"

definition no_metric :: tool_metric where
  "no_metric = \<lparr>tm_calls = 0, tm_successes = 0, tm_failures = 0, tm_totalDurationMs = 0, tm_maxDurationMs = 0\<rparr>"

definition metric_of :: "guard \<Rightarrow> string \<Rightarrow> tool_metric" where
  "metric_of s tool = (case map_of (gd_metrics s) tool of Some m \<Rightarrow> m | None \<Rightarrow> no_metric)"

definition record_metric :: "bool \<Rightarrow> rat \<Rightarrow> tool_metric \<Rightarrow> tool_metric" where
  "record_metric success durationMs m =
     (let bounded = max 0 (min 86400000 \<lfloor>durationMs\<rfloor>)
      in \<lparr>tm_calls = tm_calls m + 1,
          tm_successes = (if success then tm_successes m + 1 else tm_successes m),
          tm_failures = (if success then tm_failures m else tm_failures m + 1),
          tm_totalDurationMs = tm_totalDurationMs m + bounded,
          tm_maxDurationMs = max (tm_maxDurationMs m) bounded\<rparr>)"

definition recordCall :: "string \<Rightarrow> bool \<Rightarrow> rat \<Rightarrow> guard \<Rightarrow> guard" where
  "recordCall tool success durationMs s =
     s\<lparr>gd_metrics := jset (gd_metrics s) tool (record_metric success durationMs (metric_of s tool))\<rparr>"

definition guard_snapshot :: "guard \<Rightarrow> (string, tool_metric) jmap" where
  "guard_snapshot s = gd_metrics s"

subsection \<open>The guard limits the rate\<close>

definition guard_ok :: "rat \<Rightarrow> rat \<Rightarrow> guard \<Rightarrow> bool" where
  "guard_ok cap rate s \<longleftrightarrow> gd_capacity s = cap \<and> gd_ratePerSecond s = rate \<and> 0 \<le> cap \<and> 0 \<le> rate \<and> 0 \<le> gd_tokens s"

definition guard_level :: "guard \<Rightarrow> rat \<Rightarrow> rat" where
  "guard_level s now = refilled (gd_capacity s) (gd_ratePerSecond s) (gd_tokens s) (gd_lastRefillMs s) now"

text \<open>A guarded call: admission, and the metric of a call that was let through.\<close>

definition guarded_call :: "call_context \<times> string \<times> bool \<times> rat \<Rightarrow> rat \<Rightarrow> guard \<Rightarrow> bool \<times> guard" where
  "guarded_call q now s =
     (case q of (c, tool, success, durationMs) \<Rightarrow>
       (case beforeCall c now s of
          (Inl _, s') \<Rightarrow> (False, s')
        | (Inr _, s') \<Rightarrow> (True, recordCall tool success durationMs s')))"

lemma guarded_call_step:
  assumes "guard_ok cap rate s" "guarded_call q now s = (g, s')"
  shows "guard_ok cap rate s' \<and> guard_level s' now + (if g then 1 else 0) \<le> guard_level s now"
  using assms refilled_nonneg[of cap rate "gd_tokens s" "gd_lastRefillMs s" now] refilled_le[of cap rate "gd_tokens s" "gd_lastRefillMs s" now]
  by (auto simp: guarded_call_def beforeCall_def guard_ok_def guard_level_def recordCall_def Let_def
      split: prod.splits if_splits sum.splits)

interpretation guard_rate: rate_limiter guarded_call guard_level "guard_ok cap rate" "\<lambda>_. True" cap rate for cap rate
proof
  fix s q now g s'
  assume "guard_ok cap rate s" "guarded_call q now s = (g, s')"
  from guarded_call_step[OF this] show "guard_level s' now + (if g then 1 else 0) \<le> guard_level s now" by simp
next
  fix s q now
  assume "guard_ok cap rate s"
  then show "guard_ok cap rate (snd (guarded_call q now s))"
    using guarded_call_step[of cap rate s q now] by (cases "guarded_call q now s") simp
next
  fix s and t t' :: rat
  assume "guard_ok cap rate s" "t \<le> t'"
  then show "guard_level s t' \<le> guard_level s t + (t' - t) * rate / 1000"
    by (auto simp: guard_level_def guard_ok_def intro: refilled_grows)
next
  fix s t
  assume "guard_ok cap rate s"
  then show "0 \<le> guard_level s t \<and> guard_level s t \<le> cap"
    by (auto simp: guard_level_def guard_ok_def refilled_le intro: refilled_nonneg)
qed

lemma newGuard_ok: "guard_ok (boundedNumber burst 1 10000 40) (boundedNumber rate (1 / 10) 1000 20) (newGuard rate burst now)"
  by (auto simp: guard_ok_def newGuard_def boundedNumber_def Let_def split: option.split jsreal.split)

text \<open>Metrics add up.\<close>

definition metric_ok :: "tool_metric \<Rightarrow> bool" where
  "metric_ok m \<longleftrightarrow> tm_calls m = tm_successes m + tm_failures m \<and> 0 \<le> tm_maxDurationMs m
     \<and> tm_maxDurationMs m \<le> 86400000 \<and> tm_maxDurationMs m \<le> tm_totalDurationMs m
     \<and> tm_totalDurationMs m \<le> int (tm_calls m) * tm_maxDurationMs m"

lemma record_metric_ok:
  assumes "metric_ok m"
  shows "metric_ok (record_metric success d m)"
proof -
  define b where "b = max 0 (min 86400000 \<lfloor>d\<rfloor>)"
  define n where "n = int (tm_calls m)"
  define M where "M = max (tm_maxDurationMs m) b"
  have b: "0 \<le> b" "b \<le> 86400000" by (auto simp: b_def)
  have m: "tm_calls m = tm_successes m + tm_failures m" "0 \<le> tm_maxDurationMs m" "tm_maxDurationMs m \<le> 86400000"
      "tm_maxDurationMs m \<le> tm_totalDurationMs m" "tm_totalDurationMs m \<le> n * tm_maxDurationMs m"
    using assms unfolding metric_ok_def n_def by blast+
  have M: "tm_maxDurationMs m \<le> M" "b \<le> M" "M \<le> 86400000" "0 \<le> M" using b m(2,3) by (auto simp: M_def)
  have "n * tm_maxDurationMs m \<le> n * M" using M(1) by (intro mult_left_mono) (simp_all add: n_def)
  then have "tm_totalDurationMs m + b \<le> (n + 1) * M" using m(5) M(2) by (simp add: distrib_right)
  moreover have "M \<le> tm_totalDurationMs m + b" using m(2,4) b by (auto simp: M_def)
  moreover have "int (tm_calls (record_metric success d m)) = n + 1" by (simp add: record_metric_def n_def Let_def)
  moreover have "tm_totalDurationMs (record_metric success d m) = tm_totalDurationMs m + b"
      "tm_maxDurationMs (record_metric success d m) = M" by (simp_all add: record_metric_def b_def M_def Let_def)
  moreover have "tm_calls (record_metric success d m) = tm_successes (record_metric success d m) + tm_failures (record_metric success d m)"
    using m(1) by (simp add: record_metric_def Let_def)
  ultimately show ?thesis using M(3,4) unfolding metric_ok_def by simp
qed

definition guard_run :: "((call_context \<times> string \<times> bool \<times> rat) \<times> rat) list \<Rightarrow> guard \<Rightarrow> guard" where
  "guard_run calls s = foldl (\<lambda>s (q, now). snd (guarded_call q now s)) s calls"

fun let_through :: "((call_context \<times> string \<times> bool \<times> rat) \<times> rat) list \<Rightarrow> guard \<Rightarrow> nat" where
  "let_through [] s = 0"
| "let_through ((q, now) # cs) s = (if fst (guarded_call q now s) then 1 else 0) + let_through cs (snd (guarded_call q now s))"

lemma let_through_grants: "let_through cs s = guard_rate.grants cs s"
  by (induction cs s rule: let_through.induct) auto

lemma guard_run_inv:
  assumes "\<And>s q now. I s \<Longrightarrow> I (snd (guarded_call q now s))"
  shows "I s \<Longrightarrow> I (guard_run calls s)"
  by (induction calls arbitrary: s) (auto simp: guard_run_def assms case_prod_beta)

lemma guarded_call_metrics:
  "\<forall>t. metric_ok (metric_of s t) \<Longrightarrow> \<forall>t. metric_ok (metric_of (snd (guarded_call q now s)) t)"
  by (auto simp: guarded_call_def beforeCall_def recordCall_def metric_of_def jset_apply Let_def record_metric_ok
      split: prod.split option.split)

text \<open>
  C24: The control-plane guard. For any options, after any history of guarded calls, the calls let
  through among further calls at nondecreasing times starting at \<open>t0\<close> are at most the clamped burst
  (between 1 and 10000) plus the clamped rate times the window; a write to a paused session or to
  one the user controls is refused with the state unchanged, so that it costs no token; and the
  metrics of every tool stay consistent (calls are successes plus failures, the maximum is bounded
  and the total lies between the maximum and calls times the maximum).
\<close>

theorem guard_bounds_calls:
  fixes rate burst :: "jsreal option" and now0 :: rat and history :: "((call_context \<times> string \<times> bool \<times> rat) \<times> rat) list"
  assumes "sorted_wrt (\<le>) (t0 # map snd calls)"
  defines "s \<equiv> guard_run history (newGuard rate burst now0)"
    and "cap \<equiv> boundedNumber burst 1 10000 40" and "r \<equiv> boundedNumber rate (1 / 10) 1000 20"
  shows "of_nat (let_through calls s) \<le> cap + (last (t0 # map snd calls) - t0) * r / 1000
    \<and> 1 \<le> cap \<and> cap \<le> 10000
    \<and> (cc_write c \<and> (cc_sessionState c = Some ''PAUSED_CHALLENGE'' \<or> cc_controlState c = Some WsUserControlled)
        \<longrightarrow> (\<exists>e. beforeCall c now s = (Inl e, s)))
    \<and> metric_ok (metric_of s tool)"
proof -
  have ok: "guard_ok cap r s"
    unfolding s_def cap_def r_def
    by (rule guard_run_inv[where I = "guard_ok (boundedNumber burst 1 10000 40) (boundedNumber rate (1 / 10) 1000 20)", OF _ newGuard_ok])
      (rule guard_rate.ok_kept[OF _ TrueI])
  have "of_nat (let_through calls s) \<le> cap + (last (t0 # map snd calls) - t0) * r / 1000"
    unfolding let_through_grants by (rule guard_rate.grants_window[OF ok _ assms(1)]) simp
  moreover have "\<forall>t. metric_ok (metric_of s t)"
    unfolding s_def
  proof (rule guard_run_inv[where I = "\<lambda>s. \<forall>t. metric_ok (metric_of s t)", OF guarded_call_metrics])
    show "\<forall>t. metric_ok (metric_of (newGuard rate burst now0) t)"
      by (simp add: newGuard_def metric_of_def metric_ok_def no_metric_def Let_def)
  qed
  moreover have "1 \<le> cap \<and> cap \<le> 10000" by (auto simp: cap_def boundedNumber_def split: option.split jsreal.split)
  ultimately show ?thesis by (auto simp: beforeCall_def)
qed

definition sample_call :: "call_context \<times> string \<times> bool \<times> rat" where
  "sample_call = (\<lparr>cc_write = True, cc_controlState = Some WsAgentControlled, cc_sessionState = None\<rparr>, ''click'', True, 12)"

theorem guard_bounds_calls_witness:
  "let_through [(sample_call, 0), (sample_call, 100), (sample_call, 200)] (newGuard (Some (Fin 5)) (Some (Fin 1)) 0) = 2
   \<and> of_nat (let_through [(sample_call, 0), (sample_call, 100), (sample_call, 200)] (newGuard (Some (Fin 5)) (Some (Fin 1)) 0)) \<le> (2 :: rat)"
proof -
  have "let_through [(sample_call, 0), (sample_call, 100), (sample_call, 200)] (newGuard (Some (Fin 5)) (Some (Fin 1)) 0) = 2"
    by code_simp
  moreover have "of_nat (let_through [(sample_call, 0), (sample_call, 100), (sample_call, 200)]
      (guard_run [] (newGuard (Some (Fin 5)) (Some (Fin 1)) 0)))
    \<le> boundedNumber (Some (Fin 1)) 1 10000 40 + (last (0 # map snd [(sample_call, 0), (sample_call, 100), (sample_call, 200)]) - 0)
        * boundedNumber (Some (Fin 5)) (1 / 10) 1000 20 / 1000"
    by (rule conjunct1[OF guard_bounds_calls]) simp
  then have "of_nat (let_through [(sample_call, 0), (sample_call, 100), (sample_call, 200)] (newGuard (Some (Fin 5)) (Some (Fin 1)) 0)) \<le> (2 :: rat)"
    by (simp add: guard_run_def boundedNumber_def)
  ultimately show ?thesis by blast
qed

end
