(* ===== verification/BrowserPool.thy ===== *)
theory BrowserPool
  imports JsText "HOL-Library.Code_Target_Nat"
begin

text \<open>
  \<open>src/control-plane/browser-pool.ts\<close>: the registry of browser instances, their site bindings, and the
  calls to browser extensions over bridge sockets. An \<open>async\<close> method is split at its \<open>await\<close>s
  (\<open>start\<close>, \<open>stop\<close>, \<open>remove\<close>), so that other operations can run in between; the reference a method
  keeps over an \<open>await\<close> is the object identity \<open>bi_object\<close>. Sockets are numbers, \<open>Date\<close>, random ids, the
  URL parser and the outcome of the session manager are arguments, and the state file can fail to be
  written (\<open>bp_diskOk\<close>), which the code ignores. What a promise was settled with is kept in
  \<open>bp_settled\<close>.
\<close>

datatype engine = EngineFirefox | EngineChromium
datatype instance_mode = ModeManaged | ModeCdp | ModeBridge
datatype instance_state = StStopped | StStarting | StReady | StAwaitingBridge | StError

record browser_instance =
  bi_object :: nat
  bi_id :: string
  bi_name :: string
  bi_engine :: engine
  bi_mode :: instance_mode
  bi_state :: instance_state
  bi_profileName :: "string option"
  bi_contextId :: "string option"
  bi_activeTab :: "json option"
  bi_cdpEndpoint :: "string option"
  bi_noVncPort :: "int option"
  bi_sessionId :: "string option"
  bi_bridgeConnectedAt :: "string option"
  bi_bridgeVersion :: "string option"
  bi_userAgent :: "string option"
  bi_createdAt :: string
  bi_updatedAt :: string

record site_binding =
  sb_host :: string
  sb_browserId :: string
  sb_createdAt :: string

datatype pool_error =
    InvalidName | InvalidUrl | InvalidCdpEndpoint | InvalidHost | InvalidPort
  | InstanceExists | InstanceNotFound | InstanceBusy | CdpEndpointRequired | CdpRequiresChromium
  | NotInBridgeMode | BridgeUrlRequired | BridgeOperationDenied | BridgePayloadTooLarge | BridgeFieldDenied
  | BridgeUrlDenied | BridgeNotConnected | SessionFailed

datatype bridge_outcome = Resolved json | RejectedWith string

record pool =
  bp_instances :: "(string, browser_instance) jmap"
  bp_bindings :: "(string, site_binding) jmap"
  bp_sockets :: "(string, nat) jmap"
  bp_closing :: "nat list"
  bp_pending :: "(string, string) jmap"
  bp_settled :: "(string \<times> bridge_outcome) list"
  bp_nextObject :: nat
  bp_statePath :: bool
  bp_diskOk :: bool
  bp_disk :: "(browser_instance list \<times> site_binding list) option"

subsection \<open>Validation\<close>

definition name_char_bad :: "char \<Rightarrow> bool" where
  "name_char_bad c = (code_point c \<le> 31 \<or> (127 \<le> code_point c \<and> code_point c \<le> 159))"

definition safeName :: "string \<Rightarrow> pool_error + string" where
  "safeName v = (let n = js_trim v in
     if n = [] \<or> length n > 64 \<or> list_ex name_char_bad n then Inl InvalidName else Inr n)"

text \<open>\<open>parse\<close> gives protocol, user name, password and text of \<open>new URL(value)\<close>.\<close>

definition safeEndpoint :: "(string \<Rightarrow> (string \<times> string \<times> string \<times> string) option) \<Rightarrow> string \<Rightarrow> pool_error + string" where
  "safeEndpoint parse v =
     (case parse v of
        None \<Rightarrow> Inl InvalidUrl
      | Some (protocol, user, pass, text) \<Rightarrow>
          if protocol \<notin> {''http:'', ''https:'', ''ws:'', ''wss:''} \<or> user \<noteq> [] \<or> pass \<noteq> [] then Inl InvalidCdpEndpoint
          else Inr text)"

definition host_char :: "char \<Rightarrow> bool" where
  "host_char c = ((97 \<le> code_point c \<and> code_point c \<le> 122) \<or> is_digit c \<or> c = CHR ''-'')"

definition poolHost :: "string \<Rightarrow> pool_error + string" where
  "poolHost v =
     (let host = drop_final_dot (ascii_lower (js_trim v))
      in if list_all (\<lambda>w. w \<noteq> [] \<and> list_all host_char w) (split_on (CHR ''.'') host) \<and> length host \<le> 253
         then Inr host else Inl InvalidHost)"

definition boundedPort :: "jsnum \<Rightarrow> pool_error + int" where
  "boundedPort v = (case v of IntN i \<Rightarrow> if i < 1 \<or> i > 65535 then Inl InvalidPort else Inr i | OtherN \<Rightarrow> Inl InvalidPort)"

text \<open>A check of an optional field: \<open>None\<close> and (for text) the empty string mean absent.\<close>

definition optional :: "('a \<Rightarrow> pool_error + 'b) \<Rightarrow> 'a option \<Rightarrow> pool_error + 'b option" where
  "optional f v = (case v of None \<Rightarrow> Inr None | Some x \<Rightarrow> map_sum id Some (f x))"

subsection \<open>State changes\<close>

definition pool_persist :: "pool \<Rightarrow> pool" where
  "pool_persist s =
     (if bp_statePath s \<and> bp_diskOk s
      then s\<lparr>bp_disk := Some (jvals (bp_instances s), jvals (bp_bindings s))\<rparr> else s)"

text \<open>Mutating an instance object: the map shows it exactly while it holds this very object.\<close>

definition mutate :: "string \<Rightarrow> nat \<Rightarrow> (browser_instance \<Rightarrow> browser_instance) \<Rightarrow> pool \<Rightarrow> pool" where
  "mutate i ob f s =
     (case map_of (bp_instances s) i of
        Some x \<Rightarrow> if bi_object x = ob then s\<lparr>bp_instances := jset (bp_instances s) i (f x)\<rparr> else s
      | None \<Rightarrow> s)"

definition updateInstance :: "string \<Rightarrow> string \<Rightarrow> nat \<Rightarrow> (browser_instance \<Rightarrow> browser_instance) \<Rightarrow> pool \<Rightarrow> pool" where
  "updateInstance now i ob f s = pool_persist (mutate i ob (\<lambda>x. (f x)\<lparr>bi_updatedAt := now\<rparr>) s)"

definition name_taken :: "string \<Rightarrow> (browser_instance \<Rightarrow> bool) \<Rightarrow> pool \<Rightarrow> bool" where
  "name_taken name skip s = list_ex (\<lambda>x. \<not> skip x \<and> bi_name x = name) (jvals (bp_instances s))"

record add_input =
  ai_name :: string
  ai_engine :: "engine option"
  ai_mode :: "instance_mode option"
  ai_profileName :: "string option"
  ai_cdpEndpoint :: "string option"
  ai_noVncPort :: "jsnum option"

text \<open>\<open>add\<close> up to the point where it may call \<open>start\<close>.\<close>

definition addInstance ::
  "(string \<Rightarrow> (string \<times> string \<times> string \<times> string) option) \<Rightarrow> string \<Rightarrow> string \<Rightarrow> add_input \<Rightarrow> pool
   \<Rightarrow> (pool_error + browser_instance) \<times> pool" where
  "addInstance parse now newId input s =
     (case safeName (ai_name input) of Inl e \<Rightarrow> (Inl e, s) | Inr name \<Rightarrow>
      if name_taken name (\<lambda>_. False) s then (Inl InstanceExists, s)
      else (let engine = (case ai_engine input of Some e \<Rightarrow> e | None \<Rightarrow> EngineChromium);
                mode = (case ai_mode input of Some m \<Rightarrow> m | None \<Rightarrow> ModeManaged)
      in if mode = ModeCdp \<and> truthy_text (ai_cdpEndpoint input) = None then (Inl CdpEndpointRequired, s)
         else if mode = ModeCdp \<and> engine \<noteq> EngineChromium then (Inl CdpRequiresChromium, s)
         else (case optional safeName (truthy_text (ai_profileName input)) of Inl e \<Rightarrow> (Inl e, s) | Inr profile \<Rightarrow>
               (case optional (safeEndpoint parse) (truthy_text (ai_cdpEndpoint input)) of Inl e \<Rightarrow> (Inl e, s) | Inr endpoint \<Rightarrow>
               (case optional boundedPort (ai_noVncPort input) of Inl e \<Rightarrow> (Inl e, s) | Inr port \<Rightarrow>
                 (let x = \<lparr>bi_object = bp_nextObject s, bi_id = newId, bi_name = name, bi_engine = engine, bi_mode = mode,
                           bi_state = (if mode = ModeBridge then StAwaitingBridge else StStopped),
                           bi_profileName = profile, bi_contextId = None, bi_activeTab = None, bi_cdpEndpoint = endpoint,
                           bi_noVncPort = port, bi_sessionId = None, bi_bridgeConnectedAt = None, bi_bridgeVersion = None,
                           bi_userAgent = None, bi_createdAt = now, bi_updatedAt = now\<rparr>
                  in (Inr x, pool_persist (s\<lparr>bp_instances := jset (bp_instances s) newId x,
                                            bp_nextObject := Suc (bp_nextObject s)\<rparr>))))))))"

text \<open>\<open>start\<close>: \<open>None\<close> when it returned at once (a bridge), else the object the session will be recorded in.\<close>

definition startBegin :: "string \<Rightarrow> string \<Rightarrow> pool \<Rightarrow> (pool_error + nat option) \<times> pool" where
  "startBegin now i s =
     (case map_of (bp_instances s) i of
        None \<Rightarrow> (Inl InstanceNotFound, s)
      | Some x \<Rightarrow>
          if bi_mode x = ModeBridge then (Inr None, updateInstance now i (bi_object x) (bi_state_update (\<lambda>_. StAwaitingBridge)) s)
          else (Inr (Some (bi_object x)), updateInstance now i (bi_object x) (bi_state_update (\<lambda>_. StStarting)) s))"

definition startFinish :: "string \<Rightarrow> string \<Rightarrow> nat \<Rightarrow> string option \<Rightarrow> pool \<Rightarrow> (pool_error + unit) \<times> pool" where
  "startFinish now i ob session s =
     (case session of
        None \<Rightarrow> (Inl SessionFailed, updateInstance now i ob (bi_state_update (\<lambda>_. StError)) s)
      | Some sid \<Rightarrow>
         (let s' = updateInstance now i ob (\<lambda>x. x\<lparr>bi_state := StReady, bi_sessionId := Some sid\<rparr>) s
          in (if map_of (bp_instances s') i = None then Inl InstanceNotFound else Inr (), s')))"

text \<open>A nullable field of a patch: absent, \<open>null\<close>, or given.\<close>

datatype 'a patch = Unset | Nulled | Given 'a

record configure_input =
  ci_name :: "string option"
  ci_engine :: "engine option"
  ci_mode :: "instance_mode option"
  ci_profileName :: "string patch"
  ci_cdpEndpoint :: "string patch"
  ci_noVncPort :: "jsnum patch"

definition patch_field :: "('a \<Rightarrow> pool_error + 'b) \<Rightarrow> 'a patch \<Rightarrow> 'b option \<Rightarrow> pool_error + 'b option" where
  "patch_field f p old = (case p of Unset \<Rightarrow> Inr old | Nulled \<Rightarrow> Inr None | Given v \<Rightarrow> map_sum id Some (f v))"

definition configuredEndpoint ::
  "(string \<Rightarrow> (string \<times> string \<times> string \<times> string) option) \<Rightarrow> string patch \<Rightarrow> string option \<Rightarrow> pool_error + string option" where
  "configuredEndpoint parse p old =
     (case p of
        Nulled \<Rightarrow> Inr None
      | Given v \<Rightarrow> if v \<noteq> [] then map_sum id Some (safeEndpoint parse v) else Inr old
      | Unset \<Rightarrow> Inr old)"

text \<open>
  \<open>configure\<close> writes the live object field by field; a check that throws late leaves the earlier
  fields changed and the file behind.
\<close>

definition configureInstance ::
  "(string \<Rightarrow> (string \<times> string \<times> string \<times> string) option) \<Rightarrow> string \<Rightarrow> configure_input \<Rightarrow> pool
   \<Rightarrow> (pool_error + unit) \<times> pool" where
  "configureInstance parse i input s =
     (case map_of (bp_instances s) i of None \<Rightarrow> (Inl InstanceNotFound, s) | Some x \<Rightarrow>
      if bi_state x \<in> {StStarting, StReady} then (Inl InstanceBusy, s)
      else (let mode = (case ci_mode input of Some m \<Rightarrow> m | None \<Rightarrow> bi_mode x);
                engine = (case ci_engine input of Some e \<Rightarrow> e | None \<Rightarrow> bi_engine x);
                set = (\<lambda>y. s\<lparr>bp_instances := jset (bp_instances s) i y\<rparr>)
      in (case configuredEndpoint parse (ci_cdpEndpoint input) (bi_cdpEndpoint x) of Inl e \<Rightarrow> (Inl e, s) | Inr endpoint \<Rightarrow>
         if mode = ModeCdp \<and> truthy_text endpoint = None then (Inl CdpEndpointRequired, s)
         else if mode = ModeCdp \<and> engine \<noteq> EngineChromium then (Inl CdpRequiresChromium, s)
         else (case optional safeName (ci_name input) of Inl e \<Rightarrow> (Inl e, s) | Inr name \<Rightarrow>
         if (case name of Some n \<Rightarrow> name_taken n (\<lambda>y. bi_id y = i) s | None \<Rightarrow> False) then (Inl InstanceExists, s)
         else (let x1 = x\<lparr>bi_name := (case name of Some n \<Rightarrow> n | None \<Rightarrow> bi_name x), bi_engine := engine, bi_mode := mode\<rparr>
         in (case patch_field safeName (ci_profileName input) (bi_profileName x1) of Inl e \<Rightarrow> (Inl e, set x1) | Inr profile \<Rightarrow>
            (let x2 = x1\<lparr>bi_profileName := profile, bi_cdpEndpoint := truthy_text endpoint\<rparr>
            in (case patch_field boundedPort (ci_noVncPort input) (bi_noVncPort x2) of Inl e \<Rightarrow> (Inl e, set x2) | Inr port \<Rightarrow>
               (Inr (), pool_persist (set (x2\<lparr>bi_noVncPort := port,
                   bi_state := (if mode = ModeBridge then StAwaitingBridge else StStopped), bi_sessionId := None\<rparr>)))))))))))"

subsection \<open>Bridge sockets\<close>

definition settle_all :: "string \<Rightarrow> bridge_outcome \<Rightarrow> pool \<Rightarrow> pool" where
  "settle_all i out s =
     s\<lparr>bp_settled := bp_settled s @ map (\<lambda>p. (fst p, out)) (filter (\<lambda>p. snd p = i) (bp_pending s)),
       bp_pending := filter (\<lambda>p. snd p \<noteq> i) (bp_pending s)\<rparr>"

definition rejectBridgeCalls :: "string \<Rightarrow> string \<Rightarrow> pool \<Rightarrow> pool" where
  "rejectBridgeCalls i code s = settle_all i (RejectedWith code) s"

definition closeSocket :: "string \<Rightarrow> pool \<Rightarrow> pool" where
  "closeSocket i s =
     (case map_of (bp_sockets s) i of Some sock \<Rightarrow> s\<lparr>bp_closing := bp_closing s @ [sock]\<rparr> | None \<Rightarrow> s)"

text \<open>\<open>stop\<close>: the session to await, then its continuation (run at once when there is none).\<close>

definition stopBegin :: "string \<Rightarrow> pool \<Rightarrow> pool_error + (string option \<times> nat)" where
  "stopBegin i s =
     (case map_of (bp_instances s) i of None \<Rightarrow> Inl InstanceNotFound | Some x \<Rightarrow> Inr (truthy_text (bi_sessionId x), bi_object x))"

definition stopFinish :: "string \<Rightarrow> string \<Rightarrow> nat \<Rightarrow> pool \<Rightarrow> pool" where
  "stopFinish now i ob s =
     (let s1 = closeSocket i s;
          s2 = rejectBridgeCalls i ''BRIDGE_STOPPED'' (s1\<lparr>bp_sockets := jdel (bp_sockets s1) i\<rparr>)
      in updateInstance now i ob
           (\<lambda>x. x\<lparr>bi_sessionId := None, bi_state := (if bi_mode x = ModeBridge then StAwaitingBridge else StStopped)\<rparr>) s2)"

text \<open>The end of \<open>remove\<close>, after \<open>stop\<close> returned or threw.\<close>

definition removeFinish :: "string \<Rightarrow> pool \<Rightarrow> pool" where
  "removeFinish i s =
     pool_persist (s\<lparr>bp_bindings := filter (\<lambda>p. sb_browserId (snd p) \<noteq> i) (bp_bindings s),
                     bp_instances := jdel (bp_instances s) i\<rparr>)"

definition connectSocket :: "string \<Rightarrow> nat \<Rightarrow> pool \<Rightarrow> pool" where
  "connectSocket i sock s = (let s1 = closeSocket i s in s1\<lparr>bp_sockets := jset (bp_sockets s1) i sock\<rparr>)"

definition attachBridge :: "string \<Rightarrow> string \<Rightarrow> nat \<Rightarrow> pool \<Rightarrow> (pool_error + unit) \<times> pool" where
  "attachBridge now i sock s =
     (case map_of (bp_instances s) i of
        None \<Rightarrow> (Inl InstanceNotFound, s)
      | Some x \<Rightarrow>
          if bi_mode x \<noteq> ModeBridge then (Inl NotInBridgeMode, s)
          else (Inr (), updateInstance now i (bi_object x)
                  (\<lambda>y. y\<lparr>bi_state := StReady, bi_bridgeConnectedAt := Some now\<rparr>) (connectSocket i sock s)))"

definition handleBridgeClose :: "string \<Rightarrow> string \<Rightarrow> nat \<Rightarrow> pool \<Rightarrow> pool" where
  "handleBridgeClose now i sock s =
     (if map_of (bp_sockets s) i \<noteq> Some sock then s
      else (let s1 = s\<lparr>bp_sockets := jdel (bp_sockets s) i\<rparr>;
                s2 = (case map_of (bp_instances s1) i of
                    None \<Rightarrow> s1
                  | Some x \<Rightarrow> updateInstance now i (bi_object x)
                      (\<lambda>y. y\<lparr>bi_bridgeConnectedAt := None, bi_bridgeVersion := None, bi_state := StAwaitingBridge\<rparr>) s1)
            in rejectBridgeCalls i ''BRIDGE_DISCONNECTED'' s2))"

subsection \<open>Messages from an extension\<close>

text \<open>\<open>/^\d+\.\d+\.\d+(?:[-+][A-Za-z0-9.-]+)?$/\<close>.\<close>

definition number_then :: "(string \<Rightarrow> bool) \<Rightarrow> string \<Rightarrow> bool" where
  "number_then k v = (takeWhile is_digit v \<noteq> [] \<and> k (dropWhile is_digit v))"

definition after_dot :: "(string \<Rightarrow> bool) \<Rightarrow> string \<Rightarrow> bool" where
  "after_dot k v = (case v of [] \<Rightarrow> False | c # cs \<Rightarrow> c = CHR ''.'' \<and> k cs)"

definition version_suffix :: "string \<Rightarrow> bool" where
  "version_suffix v = (case v of [] \<Rightarrow> True | c # cs \<Rightarrow> (c = CHR ''-'' \<or> c = CHR ''+'') \<and> cs \<noteq> []
     \<and> list_all (\<lambda>d. is_digit d \<or> d \<in> {CHR ''.'', CHR ''-''} \<or> (65 \<le> code_point d \<and> code_point d \<le> 90)
         \<or> (97 \<le> code_point d \<and> code_point d \<le> 122)) cs)"

definition version_pattern :: "string \<Rightarrow> bool" where
  "version_pattern = number_then (after_dot (number_then (after_dot (number_then version_suffix))))"

definition message_version :: "json \<Rightarrow> string option" where
  "message_version m = (case jtext (jfield m ''version'') of
     Some v \<Rightarrow> if version_pattern v then Some v else None | None \<Rightarrow> None)"

text \<open>\<open>String(v)\<close>; \<open>show_json\<close> prints what is not a string.\<close>

definition json_text :: "(json \<Rightarrow> string) \<Rightarrow> json \<Rightarrow> string" where
  "json_text show_json v = (case v of JString t \<Rightarrow> t | _ \<Rightarrow> show_json v)"

definition handleBridgeMessage :: "(json \<Rightarrow> string) \<Rightarrow> string \<Rightarrow> string \<Rightarrow> nat \<Rightarrow> json option \<Rightarrow> pool \<Rightarrow> pool" where
  "handleBridgeMessage show_json now i bytes parsed s =
     (if bytes > 9 * 1024 * 1024 then rejectBridgeCalls i ''BRIDGE_RESPONSE_TOO_LARGE'' (closeSocket i s)
      else (case parsed of
         Some (JObject fs) \<Rightarrow>
           (let m = JObject fs;
                s1 = (case map_of (bp_instances s) i of
                    Some x \<Rightarrow> if jfield m ''type'' = Some (JString ''ready'')
                      then updateInstance now i (bi_object x)
                        (\<lambda>y. case message_version m of
                           Some v \<Rightarrow> y\<lparr>bi_state := StReady, bi_bridgeVersion := Some v\<rparr>
                         | None \<Rightarrow> y\<lparr>bi_state := StReady\<rparr>) s
                      else s
                  | None \<Rightarrow> s)
            in (case truthy_text (jtext (jfield m ''requestId'')) of
                  None \<Rightarrow> s1
                | Some rid \<Rightarrow>
                    if map_of (bp_pending s1) rid \<noteq> Some i then s1
                    else s1\<lparr>bp_pending := jdel (bp_pending s1) rid,
                      bp_settled := bp_settled s1 @ [(rid,
                        if jfield m ''ok'' = Some (JBool False) \<or> jtext (jfield m ''error'') \<noteq> None
                        then RejectedWith (nullish (jfield m ''error'') ''BRIDGE_ERROR'' (json_text show_json))
                        else Resolved (nullish (jfield m ''result'') (nullish (jfield m ''payload'') m id) id))]\<rparr>))
       | _ \<Rightarrow> s))"

subsection \<open>Calls to an extension\<close>

definition BRIDGE_OPERATIONS :: "string list" where
  "BRIDGE_OPERATIONS = [''navigate'', ''click'', ''input'', ''select'', ''scroll'', ''snapshot'', ''screenshot'',
     ''tabs.list'', ''tabs.create'', ''tabs.switch'', ''tabs.close'', ''bind.current'']"

definition DENIED_FIELDS :: "string list" where
  "DENIED_FIELDS = [''script'', ''evaluate'', ''cookie'', ''credential'', ''token'', ''raw'', ''protocol'', ''header'',
     ''upload'', ''download'', ''request'']"

text \<open>\<open>chars\<close> is \<open>JSON.stringify(payload).length\<close>; \<open>None\<close> is a valid payload.\<close>

definition validateBridgePayload :: "nat \<Rightarrow> (string \<times> json) list \<Rightarrow> pool_error option" where
  "validateBridgePayload chars payload =
     (case map_of payload ''op'' of
        Some (JString oper) \<Rightarrow>
          if oper \<notin> set BRIDGE_OPERATIONS then Some BridgeOperationDenied
          else if length payload > 16 \<or> chars > 64 * 1024 then Some BridgePayloadTooLarge
          else if list_ex (\<lambda>p. list_ex (includes_text (ascii_lower (fst p))) DENIED_FIELDS) payload then Some BridgeFieldDenied
          else None
      | _ \<Rightarrow> Some BridgeOperationDenied)"

text \<open>The checks of \<open>bridgeCall\<close> before the socket is used; \<open>policy\<close> answers whether the URL is allowed.\<close>

definition bridgeCallCheck :: "(string \<Rightarrow> bool) option \<Rightarrow> nat \<Rightarrow> (string \<times> json) list \<Rightarrow> pool_error option" where
  "bridgeCallCheck policy chars payload =
     (case validateBridgePayload chars payload of
        Some e \<Rightarrow> Some e
      | None \<Rightarrow>
        (let url = map_of payload ''url''; navigate = (map_of payload ''op'' = Some (JString ''navigate''))
         in if navigate \<or> map_of payload ''op'' = Some (JString ''tabs.create'') then
              (case url of
                 Some (JString u) \<Rightarrow> (case policy of Some ok \<Rightarrow> if ok u then None else Some BridgeUrlDenied | None \<Rightarrow> None)
               | Some _ \<Rightarrow> Some BridgeUrlRequired
               | None \<Rightarrow> if navigate then Some BridgeUrlRequired else None)
            else None))"

text \<open>\<open>opened\<close>: the sockets whose \<open>readyState\<close> is 1; \<open>failed\<close>: what \<open>send\<close> threw, if it threw.\<close>

definition bridgeCall ::
  "(string \<Rightarrow> bool) option \<Rightarrow> (nat \<Rightarrow> bool) \<Rightarrow> string option \<Rightarrow> string \<Rightarrow> string \<Rightarrow> nat \<Rightarrow> (string \<times> json) list \<Rightarrow> pool
   \<Rightarrow> (pool_error + unit) \<times> pool" where
  "bridgeCall policy opened failed rid i chars payload s =
     (case bridgeCallCheck policy chars payload of
        Some e \<Rightarrow> (Inl e, s)
      | None \<Rightarrow>
        (case map_of (bp_sockets s) i of
           None \<Rightarrow> (Inl BridgeNotConnected, s)
         | Some sock \<Rightarrow>
             if \<not> opened sock then (Inl BridgeNotConnected, s)
             else (case failed of
                None \<Rightarrow> (Inr (), s\<lparr>bp_pending := jset (bp_pending s) rid i\<rparr>)
              | Some msg \<Rightarrow> (Inr (), s\<lparr>bp_settled := bp_settled s @ [(rid, RejectedWith msg)]\<rparr>))))"

definition bridgeTimeout :: "string \<Rightarrow> pool \<Rightarrow> pool" where
  "bridgeTimeout rid s =
     (if map_of (bp_pending s) rid = None then s
      else s\<lparr>bp_pending := jdel (bp_pending s) rid, bp_settled := bp_settled s @ [(rid, RejectedWith ''BRIDGE_TIMEOUT'')]\<rparr>)"

definition createTabPayload :: "string option \<Rightarrow> bool \<Rightarrow> (string \<times> json) list" where
  "createTabPayload url active =
     (''op'', JString ''tabs.create'') # (case truthy_text url of Some u \<Rightarrow> [(''url'', JString u)] | None \<Rightarrow> []) @ [(''active'', JBool active)]"

definition closeTabPayload :: "int \<Rightarrow> (string \<times> json) list" where
  "closeTabPayload tabId = [(''op'', JString ''tabs.close''), (''tabId'', JNumber (IntN tabId))]"

text \<open>What \<open>switchTab\<close> and \<open>bindCurrentTab\<close> record when the extension answered an object.\<close>

definition object_fields :: "json \<Rightarrow> (string \<times> json) list option" where
  "object_fields v = (case v of JObject fs \<Rightarrow> Some fs | JArray _ \<Rightarrow> Some [] | _ \<Rightarrow> None)"

definition recordActiveTab :: "string \<Rightarrow> string \<Rightarrow> json option \<Rightarrow> json \<Rightarrow> pool \<Rightarrow> pool" where
  "recordActiveTab now i dfltTab result s =
     (case (map_of (bp_instances s) i, object_fields result) of
        (Some x, Some fs) \<Rightarrow>
          updateInstance now i (bi_object x)
            (\<lambda>y. y\<lparr>bi_activeTab := Some (JObject
               ((case nullish (map_of fs ''tabId'') dfltTab Some of Some t \<Rightarrow> [(''tabId'', t)] | None \<Rightarrow> [])
                @ [(''title'', nullish (map_of fs ''title'') (JString []) id), (''url'', nullish (map_of fs ''url'') (JString []) id)]))\<rparr>) s
      | _ \<Rightarrow> s)"

definition switchTab :: "string \<Rightarrow> string \<Rightarrow> jsnum \<Rightarrow> json \<Rightarrow> pool \<Rightarrow> pool" where
  "switchTab now i tabId result s = recordActiveTab now i (Some (JNumber tabId)) result s"

definition bindCurrentTab :: "string \<Rightarrow> string \<Rightarrow> json \<Rightarrow> pool \<Rightarrow> pool" where
  "bindCurrentTab now i result s = recordActiveTab now i None result s"

text \<open>What \<open>pullTabs\<close> records: the first active one of the tabs, which are given converted.\<close>

record pulled_tab =
  pt_tabId :: jsnum
  pt_active :: bool
  pt_title :: string
  pt_url :: string

definition recordPulledTabs :: "string \<Rightarrow> string \<Rightarrow> pulled_tab list \<Rightarrow> pool \<Rightarrow> pool" where
  "recordPulledTabs now i tabs s =
     (case find pt_active tabs of
        None \<Rightarrow> s
      | Some t \<Rightarrow>
        (case map_of (bp_instances s) i of
           None \<Rightarrow> s
         | Some x \<Rightarrow> updateInstance now i (bi_object x) (\<lambda>y. y\<lparr>bi_activeTab := Some (JObject
             [(''tabId'', JNumber (pt_tabId t)), (''title'', JString (pt_title t)), (''url'', JString (pt_url t))])\<rparr>) s))"

subsection \<open>Site bindings\<close>

definition bindHost :: "string \<Rightarrow> string \<Rightarrow> string \<Rightarrow> pool \<Rightarrow> (pool_error + unit) \<times> pool" where
  "bindHost now host i s =
     (case poolHost host of Inl e \<Rightarrow> (Inl e, s) | Inr h \<Rightarrow>
      if map_of (bp_instances s) i = None then (Inl InstanceNotFound, s)
      else (Inr (), pool_persist (s\<lparr>bp_bindings := jset (bp_bindings s) h \<lparr>sb_host = h, sb_browserId = i, sb_createdAt = now\<rparr>\<rparr>)))"

definition unbindHost :: "string \<Rightarrow> pool \<Rightarrow> (pool_error + unit) \<times> pool" where
  "unbindHost host s =
     (case poolHost host of Inl e \<Rightarrow> (Inl e, s) | Inr h \<Rightarrow> (Inr (), pool_persist (s\<lparr>bp_bindings := jdel (bp_bindings s) h\<rparr>)))"

definition resolveBinding :: "string \<Rightarrow> pool \<Rightarrow> pool_error + browser_instance option" where
  "resolveBinding host s =
     (case poolHost host of Inl e \<Rightarrow> Inl e | Inr h \<Rightarrow>
      (case map_of (bp_bindings s) h of
         None \<Rightarrow> Inr None
       | Some b \<Rightarrow> (case map_of (bp_instances s) (sb_browserId b) of None \<Rightarrow> Inl InstanceNotFound | Some x \<Rightarrow> Inr (Some x))))"

subsection \<open>The state file\<close>

definition restored :: "nat \<Rightarrow> browser_instance \<Rightarrow> browser_instance" where
  "restored ob x = x\<lparr>bi_object := ob, bi_state := (if bi_mode x = ModeBridge then StAwaitingBridge else StStopped),
     bi_sessionId := None, bi_bridgeConnectedAt := None, bi_bridgeVersion := None\<rparr>"

fun load_instances :: "browser_instance list \<Rightarrow> pool \<Rightarrow> pool" where
  "load_instances [] s = s"
| "load_instances (x # xs) s =
     load_instances xs (s\<lparr>bp_instances := jset (bp_instances s) (bi_id x) (restored (bp_nextObject s) x),
                          bp_nextObject := Suc (bp_nextObject s)\<rparr>)"

text \<open>The constructor; \<open>None\<close> is a missing or unreadable file.\<close>

definition newPool :: "bool \<Rightarrow> (browser_instance list \<times> site_binding list) option \<Rightarrow> pool" where
  "newPool statePath disk =
     (let s = \<lparr>bp_instances = [], bp_bindings = [], bp_sockets = [], bp_closing = [], bp_pending = [], bp_settled = [],
               bp_nextObject = 0, bp_statePath = statePath, bp_diskOk = True, bp_disk = disk\<rparr>
      in if \<not> statePath then s
         else (case disk of
            None \<Rightarrow> s
          | Some (xs, bs) \<Rightarrow> (load_instances xs s)\<lparr>bp_bindings := foldl (\<lambda>m b. jset m (sb_host b) b) [] bs\<rparr>))"

subsection \<open>Automatic registration\<close>

text \<open>
  The loops that look for a free identifier or name: candidate \<open>n\<close> is tried from \<open>n\<close> on; \<open>Inl\<close> is a
  candidate that does not pass \<open>safeName\<close>. The fuel is one more than the number of instances, and
  \<open>first_free_enough\<close> shows that it suffices.
\<close>

fun first_free :: "nat \<Rightarrow> (nat \<Rightarrow> pool_error + string) \<Rightarrow> (string \<Rightarrow> bool) \<Rightarrow> nat \<Rightarrow> (pool_error + string) option" where
  "first_free 0 cand taken n = None"
| "first_free (Suc fuel) cand taken n =
     (case cand n of
        Inl e \<Rightarrow> Some (Inl e)
      | Inr c \<Rightarrow> if taken c then first_free fuel cand taken (Suc n) else Some (Inr c))"

definition id_candidate :: "string \<Rightarrow> nat \<Rightarrow> pool_error + string" where
  "id_candidate raw n = Inr (if n = 0 then raw else raw @ ''_'' @ dec_of n)"

definition name_candidate :: "string \<Rightarrow> nat \<Rightarrow> pool_error + string" where
  "name_candidate base n = safeName (if n = 0 then base else base @ ''-'' @ dec_of n)"

definition id_safe :: "char \<Rightarrow> bool" where
  "id_safe c = (is_digit c \<or> (65 \<le> code_point c \<and> code_point c \<le> 90) \<or> (97 \<le> code_point c \<and> code_point c \<le> 122)
     \<or> c = CHR ''_'' \<or> c = CHR ''-'')"

definition trimmed_text :: "json option \<Rightarrow> string option" where
  "trimmed_text v = truthy_text (map_option js_trim (jtext v))"

definition the_free :: "(pool_error + string) option \<Rightarrow> pool_error + string" where
  "the_free r = (case r of Some x \<Rightarrow> x | None \<Rightarrow> Inl InstanceExists)"

text \<open>The new instance of a \<open>ready\<close> message nobody claims; \<open>uuid\<close> is \<open>randomUUID\<close> without dashes.\<close>

definition registerBridge :: "string \<Rightarrow> string \<Rightarrow> string option \<Rightarrow> json \<Rightarrow> pool \<Rightarrow> (pool_error + browser_instance) \<times> pool" where
  "registerBridge now uuid specifiedId m s =
     (let ctx = trimmed_text (jfield m ''contextId'');
          rawId = (case truthy_text specifiedId of Some i \<Rightarrow> i | None \<Rightarrow>
            (case ctx of Some c \<Rightarrow> ''brw_'' @ take 16 (filter id_safe c) | None \<Rightarrow> ''brw_'' @ take 12 uuid));
          fuel = Suc (length (bp_instances s))
      in (case the_free (first_free fuel (id_candidate rawId) (\<lambda>i. map_of (bp_instances s) i \<noteq> None) 0) of
            Inl e \<Rightarrow> (Inl e, s)
          | Inr finalId \<Rightarrow>
            (let base = (case trimmed_text (jfield m ''profileName'') of Some p \<Rightarrow> p | None \<Rightarrow>
                   (case ctx of Some c \<Rightarrow> ''Chrome ('' @ c @ '')''
                    | None \<Rightarrow> ''Chrome ('' @ drop (length finalId - 4) finalId @ '')''))
             in (case the_free (first_free fuel (name_candidate base) (\<lambda>n. name_taken n (\<lambda>_. False) s) 0) of
                   Inl e \<Rightarrow> (Inl e, s)
                 | Inr finalName \<Rightarrow>
                   (let x = \<lparr>bi_object = bp_nextObject s, bi_id = finalId, bi_name = finalName, bi_engine = EngineChromium,
                             bi_mode = ModeBridge, bi_state = StReady, bi_profileName = Some finalName, bi_contextId = ctx,
                             bi_activeTab = (case jfield m ''activeTab'' of Some (JObject t) \<Rightarrow> Some (JObject t)
                               | Some (JArray t) \<Rightarrow> Some (JArray t) | _ \<Rightarrow> None),
                             bi_cdpEndpoint = None, bi_noVncPort = None, bi_sessionId = None, bi_bridgeConnectedAt = Some now,
                             bi_bridgeVersion = message_version m,
                             bi_userAgent = map_option (take 500) (jtext (jfield m ''userAgent'')),
                             bi_createdAt = now, bi_updatedAt = now\<rparr>
                    in (Inr x, pool_persist (s\<lparr>bp_instances := jset (bp_instances s) finalId x,
                                              bp_nextObject := Suc (bp_nextObject s)\<rparr>)))))))"

definition claimedInstance :: "string option \<Rightarrow> json \<Rightarrow> pool \<Rightarrow> browser_instance option" where
  "claimedInstance specifiedId m s =
     (case (case truthy_text specifiedId of Some i \<Rightarrow> map_of (bp_instances s) i | None \<Rightarrow> None) of
        Some x \<Rightarrow> Some x
      | None \<Rightarrow> (case trimmed_text (jfield m ''contextId'') of
          None \<Rightarrow> None
        | Some c \<Rightarrow> find (\<lambda>x. bi_mode x = ModeBridge \<and> bi_contextId x = Some c) (jvals (bp_instances s))))"

text \<open>The handshake listener of \<open>attachOrAutoRegisterBridge\<close>; a message that is not \<open>ready\<close> is ignored.\<close>

definition autoRegister :: "string \<Rightarrow> string \<Rightarrow> nat \<Rightarrow> string option \<Rightarrow> json option \<Rightarrow> pool \<Rightarrow> (pool_error + string option) \<times> pool" where
  "autoRegister now uuid sock specifiedId parsed s =
     (case parsed of
        Some (JObject fs) \<Rightarrow>
          (let m = JObject fs
           in if jfield m ''type'' \<noteq> Some (JString ''ready'') then (Inr None, s)
              else (case claimedInstance specifiedId m s of
                 Some x \<Rightarrow>
                   (Inr (Some (bi_id x)), connectSocket (bi_id x) sock (updateInstance now (bi_id x) (bi_object x)
                     (\<lambda>y. y\<lparr>bi_state := StReady, bi_bridgeConnectedAt := Some now,
                        bi_bridgeVersion := (case message_version m of Some v \<Rightarrow> Some v | None \<Rightarrow> bi_bridgeVersion y),
                        bi_contextId := (case trimmed_text (jfield m ''contextId'') of Some c \<Rightarrow> Some c | None \<Rightarrow> bi_contextId y),
                        bi_userAgent := (case jtext (jfield m ''userAgent'') of Some u \<Rightarrow> Some (take 500 u) | None \<Rightarrow> bi_userAgent y),
                        bi_activeTab := (case jfield m ''activeTab'' of Some (JObject t) \<Rightarrow> Some (JObject t)
                          | Some (JArray t) \<Rightarrow> Some (JArray t) | _ \<Rightarrow> bi_activeTab y)\<rparr>) s))
               | None \<Rightarrow>
                   (case registerBridge now uuid specifiedId m s of
                      (Inl e, s') \<Rightarrow> (Inl e, s')
                    | (Inr x, s') \<Rightarrow> (Inr (Some (bi_id x)), connectSocket (bi_id x) sock s'))))
      | _ \<Rightarrow> (Inr None, s))"

subsection \<open>The pool's invariant\<close>

definition cdp_ok :: "browser_instance \<Rightarrow> bool" where
  "cdp_ok x \<longleftrightarrow> (bi_mode x = ModeCdp \<longrightarrow> bi_engine x = EngineChromium)"

definition content_ok :: "(string, browser_instance) jmap \<Rightarrow> (string, site_binding) jmap \<Rightarrow> bool" where
  "content_ok xs bs \<longleftrightarrow> jwf xs \<and> jwf bs \<and> (\<forall>(i, x) \<in> set xs. bi_id x = i \<and> cdp_ok x)
     \<and> (\<forall>(i, x) \<in> set xs. \<forall>(j, y) \<in> set xs. bi_name x = bi_name y \<longrightarrow> i = j)
     \<and> (\<forall>(h, b) \<in> set bs. sb_host b = h \<and> sb_browserId b \<in> set (jkeys xs))"

definition keyed :: "('a \<Rightarrow> string) \<Rightarrow> 'a list \<Rightarrow> (string, 'a) jmap" where
  "keyed f xs = map (\<lambda>x. (f x, x)) xs"

definition pool_inv :: "pool \<Rightarrow> bool" where
  "pool_inv s \<longleftrightarrow> content_ok (bp_instances s) (bp_bindings s)
     \<and> (case bp_disk s of None \<Rightarrow> True | Some (xs, bs) \<Rightarrow> content_ok (keyed bi_id xs) (keyed sb_host bs))"

lemma keyed_values: "\<forall>(i, x) \<in> set m. f x = i \<Longrightarrow> keyed f (jvals m) = m"
  by (induction m) (auto simp: keyed_def)

lemma content_keyed:
  assumes "content_ok m b"
  shows "keyed bi_id (jvals m) = m" "keyed sb_host (jvals b) = b"
  using assms by (auto simp: content_ok_def intro!: keyed_values)

lemma jset_mem:
  "jwf m \<Longrightarrow> (j, x) \<in> set (jset m k v) \<Longrightarrow> (j = k \<and> x = v) \<or> (j \<noteq> k \<and> (j, x) \<in> set m)"
proof (induction m)
  case (Cons p m)
  obtain k0 v0 where "p = (k0, v0)" by (cases p)
  with Cons show ?case by (cases "k0 = k") (auto simp: image_iff)
qed simp

text \<open>Writing one instance keeps the content consistent when its name is nobody else's.\<close>

lemma content_okD:
  assumes "content_ok m b"
  shows "jwf m" "jwf b" "\<And>j x. (j, x) \<in> set m \<Longrightarrow> bi_id x = j \<and> cdp_ok x"
      "\<And>j x j' x'. (j, x) \<in> set m \<Longrightarrow> (j', x') \<in> set m \<Longrightarrow> bi_name x = bi_name x' \<Longrightarrow> j = j'"
      "\<And>h c. (h, c) \<in> set b \<Longrightarrow> sb_host c = h \<and> sb_browserId c \<in> set (jkeys m)"
  using assms unfolding content_ok_def by blast+

lemma content_okI:
  assumes "jwf m" "jwf b" "\<And>j x. (j, x) \<in> set m \<Longrightarrow> bi_id x = j \<and> cdp_ok x"
      "\<And>j x j' x'. (j, x) \<in> set m \<Longrightarrow> (j', x') \<in> set m \<Longrightarrow> bi_name x = bi_name x' \<Longrightarrow> j = j'"
      "\<And>h c. (h, c) \<in> set b \<Longrightarrow> sb_host c = h \<and> sb_browserId c \<in> set (jkeys m)"
  shows "content_ok m b"
  using assms unfolding content_ok_def by auto

lemma content_put:
  assumes ok: "content_ok m b" and y: "bi_id y = i" "cdp_ok y"
    and name: "\<forall>(j, x) \<in> set m. j \<noteq> i \<longrightarrow> bi_name x \<noteq> bi_name y"
  shows "content_ok (jset m i y) b"
proof -
  have mem: "(j, x) \<in> set (jset m i y) \<Longrightarrow> (j = i \<and> x = y) \<or> (j \<noteq> i \<and> (j, x) \<in> set m)" for j x
    using jset_mem[of m j x i y] ok by (simp add: content_ok_def)
  have keys: "set (jkeys m) \<subseteq> set (jkeys (jset m i y))" by (auto simp: jset_keys)
  note parts = content_okD[OF ok]
  have "bi_id x = j \<and> cdp_ok x" if "(j, x) \<in> set (jset m i y)" for j x
    using mem[OF that] y parts(3) by blast
  moreover have "j = j'" if "(j, x) \<in> set (jset m i y)" "(j', x') \<in> set (jset m i y)" "bi_name x = bi_name x'" for j x j' x'
  proof -
    have other: "bi_name z \<noteq> bi_name y" if "(k, z) \<in> set m" "k \<noteq> i" for k z using name that by auto
    from mem[OF that(1)] mem[OF that(2)] show ?thesis
    proof (elim disjE conjE)
      assume "(j, x) \<in> set m" "(j', x') \<in> set m"
      from parts(4)[OF this that(3)] show ?thesis .
    qed (use other[of j x] other[of j' x'] that(3) in \<open>simp_all\<close>)
  qed
  moreover have "sb_host c = h \<and> sb_browserId c \<in> set (jkeys (jset m i y))" if "(h, c) \<in> set b" for h c
    using parts(5)[OF that] keys by blast
  ultimately show ?thesis using parts(1,2) by (intro content_okI) auto
qed

lemma persist_fields [simp]:
  "bp_instances (pool_persist s) = bp_instances s" "bp_bindings (pool_persist s) = bp_bindings s"
  "bp_sockets (pool_persist s) = bp_sockets s" "bp_pending (pool_persist s) = bp_pending s"
  "bp_settled (pool_persist s) = bp_settled s" "bp_statePath (pool_persist s) = bp_statePath s"
  "bp_nextObject (pool_persist s) = bp_nextObject s" "bp_closing (pool_persist s) = bp_closing s"
  by (simp_all add: pool_persist_def)

lemma pool_inv_persist: "pool_inv s \<Longrightarrow> pool_inv (pool_persist s)"
  by (auto simp: pool_inv_def pool_persist_def content_keyed)

text \<open>A mutation that keeps the identifying fields keeps the invariant.\<close>

definition keeps_skeleton :: "(browser_instance \<Rightarrow> browser_instance) \<Rightarrow> bool" where
  "keeps_skeleton f \<longleftrightarrow> (\<forall>x. bi_id (f x) = bi_id x \<and> bi_name (f x) = bi_name x \<and> bi_mode (f x) = bi_mode x
     \<and> bi_engine (f x) = bi_engine x)"

lemma content_mem: "content_ok m b \<Longrightarrow> map_of m i = Some x \<Longrightarrow> bi_id x = i \<and> cdp_ok x"
  by (auto simp: content_ok_def dest: map_of_SomeD)

lemma content_names: "content_ok m b \<Longrightarrow> map_of m i = Some x \<Longrightarrow> (j, y) \<in> set m \<Longrightarrow> j \<noteq> i \<Longrightarrow> bi_name y \<noteq> bi_name x"
  unfolding content_ok_def by (blast dest: map_of_SomeD)

lemma pool_inv_update:
  assumes "pool_inv s" "keeps_skeleton f"
  shows "pool_inv (updateInstance now i ob f s)"
proof (cases "map_of (bp_instances s) i")
  case None
  with assms(1) show ?thesis by (simp add: updateInstance_def mutate_def pool_inv_persist)
next
  case (Some x)
  let ?y = "(f x)\<lparr>bi_updatedAt := now\<rparr>"
  have ok: "content_ok (bp_instances s) (bp_bindings s)" using assms(1) by (simp add: pool_inv_def)
  have sk: "bi_id ?y = bi_id x" "bi_name ?y = bi_name x" "cdp_ok ?y = cdp_ok x"
    using assms(2) by (auto simp: keeps_skeleton_def cdp_ok_def)
  have "content_ok (jset (bp_instances s) i ?y) (bp_bindings s)"
    using content_mem[OF ok Some] content_names[OF ok Some] sk by (intro content_put[OF ok]) auto
  then have "pool_inv (s\<lparr>bp_instances := jset (bp_instances s) i ?y\<rparr>)" using assms(1) by (simp add: pool_inv_def)
  with Some assms(1) show ?thesis
    by (simp add: updateInstance_def mutate_def pool_inv_persist del: map_of_eq_Some_iff)
qed

lemma pool_inv_same:
  "pool_inv s \<Longrightarrow> bp_instances s' = bp_instances s \<Longrightarrow> bp_bindings s' = bp_bindings s \<Longrightarrow> bp_disk s' = bp_disk s \<Longrightarrow> pool_inv s'"
  by (simp add: pool_inv_def)

subsection \<open>The free-candidate loop terminates\<close>

lemma first_free_None:
  "first_free fuel cand taken n = None
   \<Longrightarrow> \<forall>k. n \<le> k \<and> k < n + fuel \<longrightarrow> (\<exists>c. cand k = Inr c \<and> taken c)"
proof (induction fuel arbitrary: n)
  case (Suc fuel)
  then have "\<exists>c. cand n = Inr c \<and> taken c" "first_free fuel cand taken (Suc n) = None"
    by (auto split: sum.splits if_splits)
  with Suc.IH[of "Suc n"] show ?case by (metis Suc_leI add_Suc_right add_Suc_shift le_neq_implies_less)
qed auto

lemma first_free_Some: "first_free fuel cand taken n = Some (Inr c) \<Longrightarrow> \<not> taken c \<and> (\<exists>k. cand k = Inr c)"
  by (induction fuel arbitrary: n) (auto split: sum.splits if_splits)

text \<open>Candidates that differ cannot all be taken when there are more of them than taken texts.\<close>

lemma first_free_enough:
  assumes inj: "\<And>k k' c. cand k = Inr c \<Longrightarrow> cand k' = Inr c \<Longrightarrow> k = k'"
    and few: "\<And>c. taken c \<Longrightarrow> c \<in> T" "finite T" "card T < fuel"
  shows "first_free fuel cand taken n \<noteq> None"
proof
  assume "first_free fuel cand taken n = None"
  from first_free_None[OF this] have all: "\<exists>c. cand k = Inr c \<and> taken c" if "k \<in> {n..<n + fuel}" for k using that by auto
  then obtain g where g: "\<And>k. k \<in> {n..<n + fuel} \<Longrightarrow> cand k = Inr (g k) \<and> taken (g k)" by metis
  have "inj_on g {n..<n + fuel}" using g inj by (intro inj_onI) metis
  then have "card (g ` {n..<n + fuel}) = fuel" by (simp add: card_image)
  moreover have "g ` {n..<n + fuel} \<subseteq> T" using g few(1) by auto
  ultimately show False using card_mono[OF few(2)] few(3) by (metis linorder_not_less)
qed

lemma dec_of_inject: "dec_of a = dec_of b \<Longrightarrow> a = b"
  by (metis dec_val_dec_of)

lemma id_candidate_inj: "id_candidate raw k = Inr c \<Longrightarrow> id_candidate raw k' = Inr c \<Longrightarrow> k = k'"
  by (auto simp: id_candidate_def split: if_splits dest: dec_of_inject)

lemma digit_not_white: "is_digit c \<Longrightarrow> \<not> js_white c"
  by (auto simp: is_digit_def js_white_def Let_def)

text \<open>A base without white space at its ends is not changed by the trimming of \<open>safeName\<close>.\<close>

lemma name_candidate_text:
  assumes "js_trim base = base" "base \<noteq> []" "name_candidate base k = Inr c"
  shows "c = (if k = 0 then base else base @ ''-'' @ dec_of k)"
proof -
  have ends: "\<not> js_white (hd base)" using trim_ends[of base] assms(1,2) by auto
  have "js_trim (base @ ''-'' @ dec_of k) = base @ ''-'' @ dec_of k"
  proof (rule trim_fixed)
    have "list_all is_digit (dec_of k)" "dec_of k \<noteq> []" using dec_of_digits by auto
    then have "is_digit (last (dec_of k))" by (metis last_in_set list_all_iff)
    then show "base @ ''-'' @ dec_of k = [] \<or> \<not> js_white (hd (base @ ''-'' @ dec_of k)) \<and> \<not> js_white (last (base @ ''-'' @ dec_of k))"
      using ends assms(2) \<open>dec_of k \<noteq> []\<close> digit_not_white by auto
  qed
  with assms(1,3) show ?thesis by (auto simp: name_candidate_def safeName_def Let_def split: if_splits)
qed

lemma name_candidate_inj:
  assumes "js_trim base = base" "base \<noteq> []" "name_candidate base k = Inr c" "name_candidate base k' = Inr c"
  shows "k = k'"
  using name_candidate_text[OF assms(1,2,3)] name_candidate_text[OF assms(1,2,4)]
  by (auto split: if_splits dest: dec_of_inject)

lemma taken_ids: "map_of m i \<noteq> None \<Longrightarrow> i \<in> set (jkeys m)"
  by (metis map_of_eq_None_iff list.set_map)

lemma few_keys: "card (set (map f m)) < Suc (length m)"
  by (metis card_length le_imp_less_Suc length_map)

lemma free_id: "first_free (Suc (length m)) (id_candidate raw) (\<lambda>i. map_of m i \<noteq> None) 0 \<noteq> None"
  by (rule first_free_enough[where T = "set (jkeys m)", OF id_candidate_inj taken_ids _ few_keys]) auto

lemma free_name:
  assumes "js_trim base = base" "base \<noteq> []"
  shows "first_free (Suc (length (bp_instances s))) (name_candidate base) (\<lambda>n. name_taken n (\<lambda>_. False) s) 0 \<noteq> None"
  by (rule first_free_enough[where T = "set (map (bi_name \<circ> snd) (bp_instances s))", OF name_candidate_inj[OF assms] _ _ few_keys])
    (auto simp: name_taken_def list_ex_iff)

subsection \<open>Every operation keeps the invariant\<close>

lemma keeps_skeletonI [intro]:
  "(\<And>x. bi_id (f x) = bi_id x \<and> bi_name (f x) = bi_name x \<and> bi_mode (f x) = bi_mode x \<and> bi_engine (f x) = bi_engine x) \<Longrightarrow> keeps_skeleton f"
  by (simp add: keeps_skeleton_def)

lemma updateInstance_fields [simp]:
  "bp_bindings (updateInstance now i ob f s) = bp_bindings s" "bp_sockets (updateInstance now i ob f s) = bp_sockets s"
  "bp_pending (updateInstance now i ob f s) = bp_pending s" "bp_settled (updateInstance now i ob f s) = bp_settled s"
  by (simp_all add: updateInstance_def mutate_def split: option.split)

lemma socket_ops_fields [simp]:
  "bp_instances (closeSocket i s) = bp_instances s" "bp_bindings (closeSocket i s) = bp_bindings s" "bp_disk (closeSocket i s) = bp_disk s"
  "bp_sockets (closeSocket i s) = bp_sockets s" "bp_pending (closeSocket i s) = bp_pending s" "bp_settled (closeSocket i s) = bp_settled s"
  "bp_instances (rejectBridgeCalls i c s) = bp_instances s" "bp_bindings (rejectBridgeCalls i c s) = bp_bindings s"
  "bp_disk (rejectBridgeCalls i c s) = bp_disk s" "bp_sockets (rejectBridgeCalls i c s) = bp_sockets s"
  "bp_instances (connectSocket i k s) = bp_instances s" "bp_bindings (connectSocket i k s) = bp_bindings s"
  "bp_disk (connectSocket i k s) = bp_disk s" "bp_pending (connectSocket i k s) = bp_pending s"
  "bp_settled (connectSocket i k s) = bp_settled s"
  by (auto simp: closeSocket_def rejectBridgeCalls_def settle_all_def connectSocket_def Let_def split: option.split)

lemma pool_inv_store:
  assumes "pool_inv s" "bi_id y = i" "cdp_ok y" "\<not> list_ex (\<lambda>x. bi_id x \<noteq> i \<and> bi_name x = bi_name y) (jvals (bp_instances s))"
  shows "pool_inv (s\<lparr>bp_instances := jset (bp_instances s) i y, bp_nextObject := n\<rparr>)"
    "pool_inv (s\<lparr>bp_instances := jset (bp_instances s) i y\<rparr>)"
proof -
  have ok: "content_ok (bp_instances s) (bp_bindings s)" using assms(1) by (simp add: pool_inv_def)
  have "\<forall>(j, x) \<in> set (bp_instances s). j \<noteq> i \<longrightarrow> bi_name x \<noteq> bi_name y"
  proof clarify
    fix j x assume m: "(j, x) \<in> set (bp_instances s)" "j \<noteq> i" "bi_name x = bi_name y"
    then have "bi_id x = j" using ok by (auto simp: content_ok_def)
    with m assms(4) show False by (force simp: list_ex_iff)
  qed
  then have "content_ok (jset (bp_instances s) i y) (bp_bindings s)" by (rule content_put[OF ok assms(2,3)])
  with assms(1) show "pool_inv (s\<lparr>bp_instances := jset (bp_instances s) i y, bp_nextObject := n\<rparr>)"
    "pool_inv (s\<lparr>bp_instances := jset (bp_instances s) i y\<rparr>)" by (simp_all add: pool_inv_def)
qed

lemma not_taken: "\<not> name_taken n skip s \<Longrightarrow> \<forall>x. skip x \<longrightarrow> bi_id x = i
    \<Longrightarrow> \<not> list_ex (\<lambda>x. bi_id x \<noteq> i \<and> bi_name x = n) (jvals (bp_instances s))"
  by (auto simp: name_taken_def list_ex_iff)

lemma addInstance_inv:
  assumes "pool_inv s"
  shows "pool_inv (snd (addInstance parse now newId input s))"
proof (cases "fst (addInstance parse now newId input s)")
  case (Inl e)
  then have "snd (addInstance parse now newId input s) = s"
    by (auto simp: addInstance_def Let_def split: sum.splits if_splits)
  with assms show ?thesis by simp
next
  case (Inr x)
  then have "bi_id x = newId \<and> cdp_ok x \<and> \<not> name_taken (bi_name x) (\<lambda>_. False) s
      \<and> snd (addInstance parse now newId input s)
        = pool_persist (s\<lparr>bp_instances := jset (bp_instances s) newId x, bp_nextObject := Suc (bp_nextObject s)\<rparr>)"
    by (auto simp: addInstance_def Let_def cdp_ok_def split: sum.splits if_splits)
  with assms show ?thesis
    using not_taken[of "bi_name x" "\<lambda>_. False" s newId] pool_inv_store(1)[of s x newId "Suc (bp_nextObject s)"]
    by (simp add: pool_inv_persist)
qed

lemma patched_name_inv:
  assumes "pool_inv s" "map_of (bp_instances s) i = Some x"
    and "bi_id y = i" "cdp_ok y" "bi_name y = bi_name x \<or> \<not> name_taken (bi_name y) (\<lambda>z. bi_id z = i) s"
  shows "pool_inv (s\<lparr>bp_instances := jset (bp_instances s) i y\<rparr>)"
proof (rule pool_inv_store(2)[OF assms(1,3,4)])
  show "\<not> list_ex (\<lambda>z. bi_id z \<noteq> i \<and> bi_name z = bi_name y) (jvals (bp_instances s))"
    using assms(5)
  proof
    assume same: "bi_name y = bi_name x"
    have ok: "content_ok (bp_instances s) (bp_bindings s)" using assms(1) by (simp add: pool_inv_def)
    show ?thesis
    proof
      assume "list_ex (\<lambda>z. bi_id z \<noteq> i \<and> bi_name z = bi_name y) (jvals (bp_instances s))"
      then obtain j z where "(j, z) \<in> set (bp_instances s)" "bi_id z \<noteq> i" "bi_name z = bi_name x"
        using same by (auto simp: list_ex_iff)
      with content_names[OF ok assms(2), of j z] ok show False by (auto simp: content_ok_def)
    qed
  qed (auto simp: name_taken_def)
qed

text \<open>What \<open>configure\<close> leaves: nothing changed, or the object with some of its fields written.\<close>

lemma configureInstance_cases:
  assumes "map_of (bp_instances s) i = Some x" "bi_id x = i"
  obtains (same) "snd (configureInstance parse i input s) = s"
  | (put) y where "snd (configureInstance parse i input s) = s\<lparr>bp_instances := jset (bp_instances s) i y\<rparr>
          \<or> snd (configureInstance parse i input s) = pool_persist (s\<lparr>bp_instances := jset (bp_instances s) i y\<rparr>)"
        "bi_id y = i" "bi_name y = bi_name x \<or> \<not> name_taken (bi_name y) (\<lambda>z. bi_id z = i) s"
        "bi_mode y = (case ci_mode input of Some m \<Rightarrow> m | None \<Rightarrow> bi_mode x)"
        "bi_engine y = (case ci_engine input of Some e \<Rightarrow> e | None \<Rightarrow> bi_engine x)"
        "bi_mode y = ModeCdp \<longrightarrow> bi_engine y = EngineChromium"
proof -
  let ?r = "configureInstance parse i input s"
  define mode where "mode = (case ci_mode input of Some m \<Rightarrow> m | None \<Rightarrow> bi_mode x)"
  define eng where "eng = (case ci_engine input of Some e \<Rightarrow> e | None \<Rightarrow> bi_engine x)"
  note u = configureInstance_def assms(1) mode_def[symmetric] eng_def[symmetric] Let_def
  show thesis
  proof (cases "bi_state x \<in> {StStarting, StReady}")
    case True
    then show thesis by (intro same) (auto simp: u)
  next
    case idle: False
    show thesis
    proof (cases "configuredEndpoint parse (ci_cdpEndpoint input) (bi_cdpEndpoint x)")
      case (Inl e)
      with idle show thesis by (intro same) (simp add: u)
    next
      case (Inr endpoint)
      note ep = Inr
      show thesis
      proof (cases "(mode = ModeCdp \<and> truthy_text endpoint = None) \<or> (mode = ModeCdp \<and> eng \<noteq> EngineChromium)")
        case True
        with idle ep show thesis by (intro same) (auto simp: u)
      next
        case cdp: False
        show thesis
        proof (cases "optional safeName (ci_name input)")
          case (Inl e)
          with idle ep cdp show thesis by (intro same) (auto simp: u)
        next
          case (Inr name)
          note nm = Inr
          define nn where "nn = (case name of Some n \<Rightarrow> n | None \<Rightarrow> bi_name x)"
          show thesis
          proof (cases "case name of Some n \<Rightarrow> name_taken n (\<lambda>y. bi_id y = i) s | None \<Rightarrow> False")
            case True
            with idle ep cdp nm show thesis by (intro same) (auto simp: u)
          next
            case free: False
            have nn: "nn = bi_name x \<or> \<not> name_taken nn (\<lambda>z. bi_id z = i) s"
              using free by (auto simp: nn_def split: option.splits)
            define x1 where "x1 = x\<lparr>bi_name := nn, bi_engine := eng, bi_mode := mode\<rparr>"
            have off: "(bi_state x \<in> {StStarting, StReady}) = False" "(mode = ModeCdp \<and> truthy_text endpoint = None) = False"
              "(mode = ModeCdp \<and> eng \<noteq> EngineChromium) = False"
              "(case name of Some n \<Rightarrow> name_taken n (\<lambda>y. bi_id y = i) s | None \<Rightarrow> False) = False"
              using idle cdp free by blast+
            have x1: "bi_id x1 = i" "bi_name x1 = nn" "bi_mode x1 = mode" "bi_engine x1 = eng"
              "mode = ModeCdp \<longrightarrow> eng = EngineChromium" using assms(2) cdp by (auto simp: x1_def)
            have r: "?r = (case patch_field safeName (ci_profileName input) (bi_profileName x1) of Inl e \<Rightarrow>
                  (Inl e, s\<lparr>bp_instances := jset (bp_instances s) i x1\<rparr>) | Inr profile \<Rightarrow>
                (let x2 = x1\<lparr>bi_profileName := profile, bi_cdpEndpoint := truthy_text endpoint\<rparr>
                 in (case patch_field boundedPort (ci_noVncPort input) (bi_noVncPort x2) of
                     Inl e \<Rightarrow> (Inl e, s\<lparr>bp_instances := jset (bp_instances s) i x2\<rparr>)
                   | Inr port \<Rightarrow> (Inr (), pool_persist (s\<lparr>bp_instances := jset (bp_instances s) i (x2\<lparr>bi_noVncPort := port,
                       bi_state := (if mode = ModeBridge then StAwaitingBridge else StStopped), bi_sessionId := None\<rparr>)\<rparr>)))))"
              unfolding configureInstance_def
              by (simp only: assms(1) option.case Let_def mode_def[symmetric] eng_def[symmetric] ep nm sum.case off if_False
                  nn_def[symmetric] x1_def[symmetric])
            show thesis
            proof (cases "patch_field safeName (ci_profileName input) (bi_profileName x1)")
              case (Inl e)
              with r x1 nn show thesis by (intro put[of x1]) (simp_all add: mode_def eng_def)
            next
              case (Inr profile)
              define x2 where "x2 = x1\<lparr>bi_profileName := profile, bi_cdpEndpoint := truthy_text endpoint\<rparr>"
              show thesis
              proof (cases "patch_field boundedPort (ci_noVncPort input) (bi_noVncPort x2)")
                case (Inl e)
                with r Inr x1 nn show thesis by (intro put[of x2]) (simp_all add: mode_def eng_def x2_def Let_def)
              next
                case port: (Inr port)
                define x3 where "x3 = x2\<lparr>bi_noVncPort := port,
                  bi_state := (if mode = ModeBridge then StAwaitingBridge else StStopped), bi_sessionId := None\<rparr>"
                have "snd ?r = pool_persist (s\<lparr>bp_instances := jset (bp_instances s) i x3\<rparr>)"
                  using r Inr port by (simp add: x2_def x3_def Let_def)
                with x1 nn show thesis by (intro put[of x3]) (simp_all add: mode_def eng_def x2_def x3_def)
              qed
            qed
          qed
        qed
      qed
    qed
  qed
qed

lemma configureInstance_inv:
  assumes "pool_inv s"
  shows "pool_inv (snd (configureInstance parse i input s))"
proof (cases "map_of (bp_instances s) i")
  case None
  with assms show ?thesis by (simp add: configureInstance_def)
next
  case (Some x)
  have x: "bi_id x = i" using content_mem Some assms by (auto simp: pool_inv_def)
  show ?thesis
  proof (rule configureInstance_cases[OF Some x, of parse input])
    fix y
    assume "snd (configureInstance parse i input s) = s\<lparr>bp_instances := jset (bp_instances s) i y\<rparr>
          \<or> snd (configureInstance parse i input s) = pool_persist (s\<lparr>bp_instances := jset (bp_instances s) i y\<rparr>)"
      and y: "bi_id y = i" "bi_name y = bi_name x \<or> \<not> name_taken (bi_name y) (\<lambda>z. bi_id z = i) s"
        "bi_mode y = ModeCdp \<longrightarrow> bi_engine y = EngineChromium"
    moreover have "pool_inv (s\<lparr>bp_instances := jset (bp_instances s) i y\<rparr>)"
      using y by (intro patched_name_inv[OF assms Some]) (auto simp: cdp_ok_def)
    ultimately show "pool_inv (snd (configureInstance parse i input s))" by (auto intro: pool_inv_persist)
  qed (use assms in simp)
qed

lemma stopFinish_inv:
  assumes "pool_inv s"
  shows "pool_inv (stopFinish now i ob s)"
proof -
  let ?s1 = "closeSocket i s"
  have "pool_inv (rejectBridgeCalls i ''BRIDGE_STOPPED'' (?s1\<lparr>bp_sockets := jdel (bp_sockets ?s1) i\<rparr>))"
    by (rule pool_inv_same[OF assms]) simp_all
  then show ?thesis unfolding stopFinish_def Let_def by (rule pool_inv_update) (auto intro: keeps_skeletonI)
qed

lemma jdel_subset: "(j, x) \<in> set (jdel m k) \<Longrightarrow> (j, x) \<in> set m \<and> j \<noteq> k"
  by auto

lemma removeFinish_inv:
  assumes "pool_inv s"
  shows "pool_inv (removeFinish i s)"
proof -
  let ?m = "jdel (bp_instances s) i" and ?b = "filter (\<lambda>p. sb_browserId (snd p) \<noteq> i) (bp_bindings s)"
  have ok: "content_ok (bp_instances s) (bp_bindings s)" using assms by (simp add: pool_inv_def)
  have "jwf ?m" "jwf ?b" using content_okD(1,2)[OF ok] by (auto simp: distinct_map_filter)
  moreover have "bi_id x = j \<and> cdp_ok x" if "(j, x) \<in> set ?m" for j x
    using content_okD(3)[OF ok] jdel_subset[OF that] by blast
  moreover have "j = j'" if "(j, x) \<in> set ?m" "(j', y) \<in> set ?m" "bi_name x = bi_name y" for j x j' y
    using content_okD(4)[OF ok] jdel_subset[OF that(1)] jdel_subset[OF that(2)] that(3) by blast
  moreover have "sb_host b = h \<and> sb_browserId b \<in> set (jkeys ?m)" if "(h, b) \<in> set ?b" for h b
  proof -
    have b: "(h, b) \<in> set (bp_bindings s)" "sb_browserId b \<noteq> i" using that by auto
    from content_okD(5)[OF ok b(1)] obtain x where "(sb_browserId b, x) \<in> set (bp_instances s)" by auto
    with b(2) have "(sb_browserId b, x) \<in> set ?m" by simp
    then have "sb_browserId b \<in> set (jkeys ?m)" by (metis fst_conv imageI list.set_map)
    with content_okD(5)[OF ok b(1)] show ?thesis by simp
  qed
  ultimately have "content_ok ?m ?b" by (intro content_okI)
  with assms show ?thesis unfolding removeFinish_def by (intro pool_inv_persist) (simp add: pool_inv_def)
qed

lemma connectSocket_inv: "pool_inv s \<Longrightarrow> pool_inv (connectSocket i sock s)"
  by (erule pool_inv_same) simp_all

lemma attachBridge_inv: "pool_inv s \<Longrightarrow> pool_inv (snd (attachBridge now i sock s))"
  unfolding attachBridge_def
  by (auto split: option.split intro!: pool_inv_update keeps_skeletonI connectSocket_inv)

lemma handleBridgeClose_inv:
  assumes "pool_inv s"
  shows "pool_inv (handleBridgeClose now i sock s)"
proof -
  let ?s1 = "s\<lparr>bp_sockets := jdel (bp_sockets s) i\<rparr>"
  have "pool_inv ?s1" using assms by (simp add: pool_inv_def)
  then have "pool_inv (case map_of (bp_instances ?s1) i of None \<Rightarrow> ?s1 | Some x \<Rightarrow> updateInstance now i (bi_object x)
      (\<lambda>y. y\<lparr>bi_bridgeConnectedAt := None, bi_bridgeVersion := None, bi_state := StAwaitingBridge\<rparr>) ?s1)"
    by (auto split: option.split intro!: pool_inv_update keeps_skeletonI)
  then have "pool_inv (rejectBridgeCalls i ''BRIDGE_DISCONNECTED'' (case map_of (bp_instances ?s1) i of None \<Rightarrow> ?s1 | Some x \<Rightarrow>
      updateInstance now i (bi_object x)
      (\<lambda>y. y\<lparr>bi_bridgeConnectedAt := None, bi_bridgeVersion := None, bi_state := StAwaitingBridge\<rparr>) ?s1))"
    by (rule pool_inv_same) simp_all
  with assms show ?thesis unfolding handleBridgeClose_def Let_def by (simp split: if_split)
qed

lemma handleBridgeMessage_inv:
  assumes "pool_inv s"
  shows "pool_inv (handleBridgeMessage show_json now i bytes parsed s)"
proof -
  have a: "pool_inv (rejectBridgeCalls i c (closeSocket i s))" for c by (rule pool_inv_same[OF assms]) simp_all
  have b: "pool_inv (updateInstance now i ob (\<lambda>y. case v of Some w \<Rightarrow> y\<lparr>bi_state := StReady, bi_bridgeVersion := Some w\<rparr>
      | None \<Rightarrow> y\<lparr>bi_state := StReady\<rparr>) s)" for ob v
    by (rule pool_inv_update[OF assms]) (auto intro!: keeps_skeletonI split: option.split)
  have c: "pool_inv (s'\<lparr>bp_pending := p, bp_settled := q\<rparr>)" if "pool_inv s'" for s' p q
    by (rule pool_inv_same[OF that]) simp_all
  show ?thesis unfolding handleBridgeMessage_def Let_def
    using assms a b c by (simp split: option.split json.split)
qed

lemma bridgeCall_inv: "pool_inv s \<Longrightarrow> pool_inv (snd (bridgeCall policy opened failed rid i chars payload s))"
  by (erule pool_inv_same) (simp_all add: bridgeCall_def split: option.split)

lemma bridgeTimeout_inv: "pool_inv s \<Longrightarrow> pool_inv (bridgeTimeout rid s)"
  by (erule pool_inv_same) (simp_all add: bridgeTimeout_def)

lemma recordActiveTab_inv: "pool_inv s \<Longrightarrow> pool_inv (recordActiveTab now i d result s)"
  unfolding recordActiveTab_def
  by (auto split: option.split json.split intro!: pool_inv_update keeps_skeletonI)

lemma recordPulledTabs_inv: "pool_inv s \<Longrightarrow> pool_inv (recordPulledTabs now i tabs s)"
  unfolding recordPulledTabs_def
  by (auto split: option.split intro!: pool_inv_update keeps_skeletonI)

lemma content_bind:
  assumes "content_ok m b" "map_of m i \<noteq> None"
  shows "content_ok m (jset b h \<lparr>sb_host = h, sb_browserId = i, sb_createdAt = now\<rparr>)"
proof (rule content_okI)
  fix h' c
  assume "(h', c) \<in> set (jset b h \<lparr>sb_host = h, sb_browserId = i, sb_createdAt = now\<rparr>)"
  from jset_mem[OF content_okD(2)[OF assms(1)] this] show "sb_host c = h' \<and> sb_browserId c \<in> set (jkeys m)"
    using content_okD(5)[OF assms(1), of h' c] taken_ids[OF assms(2)] by (elim disjE conjE) simp_all
qed (use content_okD[OF assms(1)] in \<open>blast | auto\<close>)+

lemma bindHost_inv:
  assumes "pool_inv s"
  shows "pool_inv (snd (bindHost now host i s))"
proof -
  have "pool_inv (s\<lparr>bp_bindings := jset (bp_bindings s) h \<lparr>sb_host = h, sb_browserId = i, sb_createdAt = now\<rparr>\<rparr>)"
    if "map_of (bp_instances s) i \<noteq> None" for h
    using assms content_bind[OF _ that, of "bp_bindings s" h now] by (simp add: pool_inv_def)
  with assms show ?thesis by (auto simp: bindHost_def intro: pool_inv_persist split: sum.split simp del: map_of_eq_Some_iff)
qed

lemma content_unbind: "content_ok m b \<Longrightarrow> content_ok m (jdel b h)"
  by (intro content_okI) (auto dest: content_okD)

lemma unbindHost_inv:
  assumes "pool_inv s"
  shows "pool_inv (snd (unbindHost host s))"
proof -
  have "pool_inv (s\<lparr>bp_bindings := jdel (bp_bindings s) h\<rparr>)" for h using assms by (simp add: pool_inv_def content_unbind)
  with assms show ?thesis by (auto simp: unbindHost_def intro: pool_inv_persist split: sum.split)
qed

lemma start_inv:
  "pool_inv s \<Longrightarrow> pool_inv (snd (startBegin now i s))" "pool_inv s \<Longrightarrow> pool_inv (snd (startFinish now i ob session s))"
  by (auto simp: startBegin_def startFinish_def Let_def split: option.split intro!: pool_inv_update keeps_skeletonI)

lemma the_free_Inr: "the_free (first_free fuel cand taken n) = Inr c \<Longrightarrow> \<not> taken c"
  by (auto simp: the_free_def split: option.splits dest: first_free_Some)

lemma registerBridge_cases:
  obtains (threw) e where "registerBridge now uuid specifiedId m s = (Inl e, s)"
  | (registered) x where "registerBridge now uuid specifiedId m s
        = (Inr x, pool_persist (s\<lparr>bp_instances := jset (bp_instances s) (bi_id x) x, bp_nextObject := Suc (bp_nextObject s)\<rparr>))"
      "cdp_ok x" "bi_mode x = ModeBridge" "bi_state x = StReady" "\<not> name_taken (bi_name x) (\<lambda>_. False) s"
      "map_of (bp_instances s) (bi_id x) = None"
proof -
  define ctx where "ctx = trimmed_text (jfield m ''contextId'')"
  define rawId where "rawId = (case truthy_text specifiedId of Some i \<Rightarrow> i | None \<Rightarrow>
            (case ctx of Some c \<Rightarrow> ''brw_'' @ take 16 (filter id_safe c) | None \<Rightarrow> ''brw_'' @ take 12 uuid))"
  define fuel where "fuel = Suc (length (bp_instances s))"
  note u = registerBridge_def Let_def ctx_def[symmetric] rawId_def[symmetric] fuel_def[symmetric]
  show thesis
  proof (cases "the_free (first_free fuel (id_candidate rawId) (\<lambda>i. map_of (bp_instances s) i \<noteq> None) 0)")
    case (Inl e)
    then show thesis by (intro threw[of e]) (simp only: u sum.case)
  next
    case (Inr finalId)
    define base where "base = (case trimmed_text (jfield m ''profileName'') of Some p \<Rightarrow> p | None \<Rightarrow>
                   (case ctx of Some c \<Rightarrow> ''Chrome ('' @ c @ '')''
                    | None \<Rightarrow> ''Chrome ('' @ drop (length finalId - 4) finalId @ '')''))"
    show thesis
    proof (cases "the_free (first_free fuel (name_candidate base) (\<lambda>n. name_taken n (\<lambda>_. False) s) 0)")
      case (Inl e)
      with Inr show thesis by (intro threw[of e]) (simp only: u sum.case base_def[symmetric])
    next
      case name: (Inr finalName)
      have free: "map_of (bp_instances s) finalId = None" "\<not> name_taken finalName (\<lambda>_. False) s"
        using the_free_Inr[OF Inr] the_free_Inr[OF name] by auto
      obtain x where r: "registerBridge now uuid specifiedId m s
          = (Inr x, pool_persist (s\<lparr>bp_instances := jset (bp_instances s) finalId x, bp_nextObject := Suc (bp_nextObject s)\<rparr>))"
          and x: "bi_id x = finalId" "bi_name x = finalName" "bi_mode x = ModeBridge" "bi_state x = StReady"
        using Inr name by (simp only: u sum.case base_def[symmetric]) simp
      show thesis by (rule registered[of x]) (use r x free in \<open>simp_all add: cdp_ok_def\<close>)
    qed
  qed
qed

lemma registerBridge_inv:
  assumes "pool_inv s"
  shows "pool_inv (snd (registerBridge now uuid specifiedId m s))"
proof (cases rule: registerBridge_cases[of now uuid specifiedId m s])
  case (registered x)
  then show ?thesis
    using assms not_taken[of "bi_name x" "\<lambda>_. False" s "bi_id x"] pool_inv_store(1)[of s x "bi_id x" "Suc (bp_nextObject s)"]
    by (simp add: pool_inv_persist)
qed (use assms in simp)

lemma autoRegister_inv:
  assumes "pool_inv s"
  shows "pool_inv (snd (autoRegister now uuid sock specifiedId parsed s))"
proof -
  have claimed: "pool_inv (connectSocket i sock (updateInstance now i ob
      (\<lambda>y. y\<lparr>bi_state := StReady, bi_bridgeConnectedAt := Some now, bi_bridgeVersion := a y, bi_contextId := b y,
         bi_userAgent := c y, bi_activeTab := d y\<rparr>) s))" for i ob a b c d
    by (intro connectSocket_inv pool_inv_update assms keeps_skeletonI) simp
  have new: "pool_inv (snd (case registerBridge now uuid specifiedId m s of (Inl e, s') \<Rightarrow> (Inl e, s')
      | (Inr x, s') \<Rightarrow> (Inr (Some (bi_id x)), connectSocket (bi_id x) sock s')))" for m
    using registerBridge_inv[OF assms, of now uuid specifiedId m]
    by (auto split: prod.split sum.split intro: connectSocket_inv)
  show ?thesis unfolding autoRegister_def Let_def
    using assms claimed new by (simp split: option.split json.split)
qed

subsection \<open>Restart\<close>

lemma load_instances_keep:
  "distinct (jkeys (bp_instances s) @ map bi_id xs)
   \<Longrightarrow> jkeys (bp_instances (load_instances xs s)) = jkeys (bp_instances s) @ map bi_id xs
     \<and> map (\<lambda>x. x\<lparr>bi_object := 0\<rparr>) (jvals (bp_instances (load_instances xs s)))
       = map (\<lambda>x. x\<lparr>bi_object := 0\<rparr>) (jvals (bp_instances s)) @ map (restored 0) xs
     \<and> bp_bindings (load_instances xs s) = bp_bindings s \<and> bp_disk (load_instances xs s) = bp_disk s
     \<and> bp_pending (load_instances xs s) = bp_pending s \<and> bp_settled (load_instances xs s) = bp_settled s"
proof (induction xs arbitrary: s)
  case (Cons x xs)
  have fresh: "map_of (bp_instances s) (bi_id x) = None" using Cons.prems by (auto simp: map_of_eq_None_iff)
  show ?case using Cons.IH[of "s\<lparr>bp_instances := jset (bp_instances s) (bi_id x) (restored (bp_nextObject s) x),
      bp_nextObject := Suc (bp_nextObject s)\<rparr>"] Cons.prems
    by (simp add: jset_fresh[OF fresh] restored_def)
qed simp

lemma load_bindings: "distinct (jkeys m @ map sb_host bs) \<Longrightarrow> foldl (\<lambda>m b. jset m (sb_host b) b) m bs = m @ keyed sb_host bs"
proof (induction bs arbitrary: m)
  case (Cons b bs)
  then have "map_of m (sb_host b) = None" by (auto simp: map_of_eq_None_iff)
  with Cons show ?case by (simp add: jset_fresh keyed_def)
qed (simp add: keyed_def)

lemma keyed_simps: "jkeys (keyed f xs) = map f xs" "jvals (keyed f xs) = xs"
  by (simp_all add: keyed_def comp_def)

lemma newPool_load:
  assumes "content_ok (keyed bi_id xs) (keyed sb_host bs)"
  shows "jkeys (bp_instances (newPool True (Some (xs, bs)))) = map bi_id xs"
    "map (\<lambda>x. x\<lparr>bi_object := 0\<rparr>) (jvals (bp_instances (newPool True (Some (xs, bs))))) = map (restored 0) xs"
    "bp_bindings (newPool True (Some (xs, bs))) = keyed sb_host bs"
    "bp_disk (newPool True (Some (xs, bs))) = Some (xs, bs)"
    "bp_pending (newPool True (Some (xs, bs))) = []" "bp_settled (newPool True (Some (xs, bs))) = []"
proof -
  define s0 where "s0 = \<lparr>bp_instances = [], bp_bindings = [], bp_sockets = [], bp_closing = [], bp_pending = [], bp_settled = [],
               bp_nextObject = 0, bp_statePath = True, bp_diskOk = True, bp_disk = Some (xs, bs)\<rparr>"
  have d: "distinct (map bi_id xs)" "distinct (map sb_host bs)"
    using content_okD(1,2)[OF assms] by (simp_all add: keyed_simps)
  have n: "newPool True (Some (xs, bs)) = (load_instances xs s0)\<lparr>bp_bindings := foldl (\<lambda>m b. jset m (sb_host b) b) [] bs\<rparr>"
    by (simp add: newPool_def s0_def)
  have l: "jkeys (bp_instances (load_instances xs s0)) = map bi_id xs"
      "map (\<lambda>x. x\<lparr>bi_object := 0\<rparr>) (jvals (bp_instances (load_instances xs s0))) = map (restored 0) xs"
      "bp_disk (load_instances xs s0) = Some (xs, bs)" "bp_pending (load_instances xs s0) = []" "bp_settled (load_instances xs s0) = []"
    using load_instances_keep[of s0 xs] d(1) by (simp_all add: s0_def)
  show "jkeys (bp_instances (newPool True (Some (xs, bs)))) = map bi_id xs"
    "map (\<lambda>x. x\<lparr>bi_object := 0\<rparr>) (jvals (bp_instances (newPool True (Some (xs, bs))))) = map (restored 0) xs"
    "bp_bindings (newPool True (Some (xs, bs))) = keyed sb_host bs"
    "bp_disk (newPool True (Some (xs, bs))) = Some (xs, bs)"
    "bp_pending (newPool True (Some (xs, bs))) = []" "bp_settled (newPool True (Some (xs, bs))) = []"
    using l load_bindings[of "[]" bs] d(2) by (simp_all add: n)
qed

text \<open>Loading keeps identifiers, names, modes and engines, so that it keeps consistency.\<close>

lemma content_restored:
  assumes ok: "content_ok (keyed bi_id xs) b" and k: "jkeys m = map bi_id xs"
    and v: "map (\<lambda>x. x\<lparr>bi_object := 0\<rparr>) (jvals m) = map (restored 0) xs"
  shows "content_ok m b"
proof -
  have len: "length m = length xs" using arg_cong[OF k, of length] by simp
  have at: "fst (m ! n) = bi_id (xs ! n)" "(snd (m ! n))\<lparr>bi_object := 0\<rparr> = restored 0 (xs ! n)" if "n < length xs" for n
    using that len arg_cong[OF k, of "\<lambda>l. l ! n"] arg_cong[OF v, of "\<lambda>l. l ! n"] by simp_all
  have mem: "\<exists>y. (j, y) \<in> set (keyed bi_id xs) \<and> bi_id x = bi_id y \<and> bi_name x = bi_name y \<and> cdp_ok x = cdp_ok y"
    if jx: "(j, x) \<in> set m" for j x
  proof -
    obtain n where n: "n < length xs" "m ! n = (j, x)" using jx len by (metis in_set_conv_nth)
    have x: "x\<lparr>bi_object := 0\<rparr> = restored 0 (xs ! n)" "j = bi_id (xs ! n)" using at[OF n(1)] n(2) by simp_all
    have f: "bi_id x = bi_id (x\<lparr>bi_object := 0\<rparr>)" "bi_name x = bi_name (x\<lparr>bi_object := 0\<rparr>)"
      "cdp_ok x = cdp_ok (x\<lparr>bi_object := 0\<rparr>)" by (simp_all add: cdp_ok_def)
    have "bi_id x = bi_id (xs ! n)" "bi_name x = bi_name (xs ! n)" "cdp_ok x = cdp_ok (xs ! n)"
      unfolding f x(1) by (simp_all add: restored_def cdp_ok_def)
    then show ?thesis using n(1) x(2) by (intro exI[of _ "xs ! n"]) (auto simp: keyed_def)
  qed
  note D = content_okD[OF ok]
  show ?thesis
  proof (rule content_okI)
    show "jwf m" using D(1) k by (simp add: keyed_simps)
    show "jwf b" by (rule D(2))
    fix j x assume "(j, x) \<in> set m"
    from mem[OF this] D(3) show "bi_id x = j \<and> cdp_ok x" by metis
  next
    fix j x j' x' assume a: "(j, x) \<in> set m" "(j', x') \<in> set m" "bi_name x = bi_name x'"
    from mem[OF a(1)] mem[OF a(2)] a(3) D(4) show "j = j'" by metis
  next
    fix h c assume "(h, c) \<in> set b"
    from D(5)[OF this] k show "sb_host c = h \<and> sb_browserId c \<in> set (jkeys m)" by (simp add: keyed_simps)
  qed
qed

lemma newPool_inv:
  assumes "case disk of None \<Rightarrow> True | Some (xs, bs) \<Rightarrow> content_ok (keyed bi_id xs) (keyed sb_host bs)"
  shows "pool_inv (newPool sp disk) \<and> bp_pending (newPool sp disk) = [] \<and> bp_settled (newPool sp disk) = []"
proof (cases "sp \<and> disk \<noteq> None")
  case True
  then obtain xs bs where d: "disk = Some (xs, bs)" "sp" by (cases disk) auto
  with assms have ok: "content_ok (keyed bi_id xs) (keyed sb_host bs)" by simp
  note l = newPool_load[OF ok]
  from content_restored[OF ok l(1,2)] l ok d show ?thesis by (simp add: pool_inv_def)
next
  case False
  then have "newPool sp disk = \<lparr>bp_instances = [], bp_bindings = [], bp_sockets = [], bp_closing = [], bp_pending = [],
      bp_settled = [], bp_nextObject = 0, bp_statePath = sp, bp_diskOk = True, bp_disk = disk\<rparr>"
    by (cases disk) (auto simp: newPool_def Let_def)
  with assms show ?thesis by (simp add: pool_inv_def content_ok_def)
qed

subsection \<open>Bridge calls settle once\<close>

definition calls_ok :: "pool \<Rightarrow> bool" where
  "calls_ok s \<longleftrightarrow> distinct (map fst (bp_settled s) @ jkeys (bp_pending s))
     \<and> (\<forall>(r, i) \<in> set (bp_pending s). map_of (bp_sockets s) i \<noteq> None)"

lemma settle_all_calls:
  assumes "calls_ok s" "bp_sockets s' = bp_sockets s \<or> bp_sockets s' = jdel (bp_sockets s) i"
    and "bp_pending s' = bp_pending (settle_all i out s)" "bp_settled s' = bp_settled (settle_all i out s)"
  shows "calls_ok s'"
proof -
  let ?P = "bp_pending s"
  let ?in = "filter (\<lambda>p. snd p = i) ?P" and ?out = "filter (\<lambda>p. snd p \<noteq> i) ?P"
  have d: "distinct (map fst (bp_settled s))" "jwf ?P" "set (map fst (bp_settled s)) \<inter> set (jkeys ?P) = {}"
    using assms(1) by (auto simp: calls_ok_def)
  have "fst ` set ?in \<inter> fst ` set ?out = {}" using d(2) by (auto dest: eq_key_imp_eq_value)
  then have "distinct (map fst (bp_settled s @ map (\<lambda>p. (fst p, out)) ?in) @ jkeys ?out)"
    using d by (auto simp: distinct_map_filter comp_def)
  moreover have "\<forall>(r, j) \<in> set ?out. map_of (bp_sockets s') j \<noteq> None"
    using assms(1,2) by (auto simp: calls_ok_def jdel_apply)
  ultimately show ?thesis using assms(3,4) unfolding calls_ok_def settle_all_def by simp
qed

lemma calls_settle_one:
  assumes "calls_ok s" "map_of (bp_pending s) rid = Some i"
  shows "calls_ok (s\<lparr>bp_pending := jdel (bp_pending s) rid, bp_settled := bp_settled s @ [(rid, out)]\<rparr>)"
proof -
  have "rid \<in> fst ` set (bp_pending s)" using map_of_SomeD[OF assms(2)] by force
  then have "rid \<notin> fst ` set (bp_settled s)" using assms(1) by (auto simp: calls_ok_def)
  then show ?thesis using assms(1) unfolding calls_ok_def by (auto simp: distinct_delete)
qed

lemma calls_same:
  "calls_ok s \<Longrightarrow> bp_pending s' = bp_pending s \<Longrightarrow> bp_settled s' = bp_settled s
   \<Longrightarrow> (\<forall>i. map_of (bp_sockets s) i \<noteq> None \<longrightarrow> map_of (bp_sockets s') i \<noteq> None) \<Longrightarrow> calls_ok s'"
  unfolding calls_ok_def by fastforce

lemma connect_sockets: "map_of (bp_sockets (connectSocket i k s)) j = (if j = i then Some k else map_of (bp_sockets s) j)"
  by (simp add: connectSocket_def Let_def jset_apply)

text \<open>Reachable pools: any interleaving of operations, continuations, socket events, timeouts and restarts.\<close>

inductive pool_reach :: "pool \<Rightarrow> bool" where
  reach_new: "pool_reach (newPool sp None)"
| reach_restart: "pool_reach s \<Longrightarrow> pool_reach (newPool (bp_statePath s) (bp_disk s))"
| reach_disk: "pool_reach s \<Longrightarrow> pool_reach (s\<lparr>bp_diskOk := ok\<rparr>)"
| reach_add: "pool_reach s \<Longrightarrow> pool_reach (snd (addInstance parse now newId input s))"
| reach_startBegin: "pool_reach s \<Longrightarrow> pool_reach (snd (startBegin now i s))"
| reach_startFinish: "pool_reach s \<Longrightarrow> pool_reach (snd (startFinish now i ob session s))"
| reach_configure: "pool_reach s \<Longrightarrow> pool_reach (snd (configureInstance parse i cinput s))"
| reach_stop: "pool_reach s \<Longrightarrow> pool_reach (stopFinish now i ob s)"
| reach_remove: "pool_reach s \<Longrightarrow> pool_reach (removeFinish i s)"
| reach_attach: "pool_reach s \<Longrightarrow> pool_reach (snd (attachBridge now i sock s))"
| reach_auto: "pool_reach s \<Longrightarrow> pool_reach (snd (autoRegister now uuid sock specifiedId parsed s))"
| reach_close: "pool_reach s \<Longrightarrow> pool_reach (handleBridgeClose now i sock s)"
| reach_message: "pool_reach s \<Longrightarrow> pool_reach (handleBridgeMessage show_json now i bytes parsed s)"
| reach_call: "pool_reach s \<Longrightarrow> rid \<notin> set (map fst (bp_settled s) @ jkeys (bp_pending s))
    \<Longrightarrow> pool_reach (snd (bridgeCall policy opened failed rid i chars payload s))"
| reach_timeout: "pool_reach s \<Longrightarrow> pool_reach (bridgeTimeout rid s)"
| reach_tab: "pool_reach s \<Longrightarrow> pool_reach (recordActiveTab now i dfltTab result s)"
| reach_pulled: "pool_reach s \<Longrightarrow> pool_reach (recordPulledTabs now i tabs s)"
| reach_bind: "pool_reach s \<Longrightarrow> pool_reach (snd (bindHost now host i s))"
| reach_unbind: "pool_reach s \<Longrightarrow> pool_reach (snd (unbindHost host s))"

lemma stopFinish_calls: "calls_ok s \<Longrightarrow> calls_ok (stopFinish now i ob s)"
  by (rule settle_all_calls[of s _ i "RejectedWith ''BRIDGE_STOPPED''"])
    (simp_all add: stopFinish_def rejectBridgeCalls_def settle_all_def Let_def)

lemma handleBridgeClose_calls: "calls_ok s \<Longrightarrow> calls_ok (handleBridgeClose now i sock s)"
  by (cases "map_of (bp_sockets s) i = Some sock")
    (auto simp: handleBridgeClose_def rejectBridgeCalls_def settle_all_def Let_def split: option.split
      intro: settle_all_calls[of s _ i "RejectedWith ''BRIDGE_DISCONNECTED''"])

lemma handleBridgeMessage_calls:
  assumes "calls_ok s"
  shows "calls_ok (handleBridgeMessage show_json now i bytes parsed s)"
proof -
  have big: "calls_ok (rejectBridgeCalls i c (closeSocket i s))" for c
    by (rule settle_all_calls[OF assms, of _ i "RejectedWith c"]) (simp_all add: rejectBridgeCalls_def settle_all_def)
  have upd: "calls_ok (updateInstance now i ob f s)" for ob f by (rule calls_same[OF assms]) simp_all
  note one = calls_settle_one
  show ?thesis
    unfolding handleBridgeMessage_def Let_def
    using big upd assms one[OF assms] one[OF upd] by (simp split: option.split json.split)
qed

lemma addInstance_calls:
  "bp_pending (snd (addInstance parse now newId input s)) = bp_pending s \<and> bp_settled (snd (addInstance parse now newId input s)) = bp_settled s
   \<and> bp_sockets (snd (addInstance parse now newId input s)) = bp_sockets s"
  by (simp add: addInstance_def Let_def split: sum.split)

lemma configureInstance_calls:
  "bp_pending (snd (configureInstance parse i input s)) = bp_pending s \<and> bp_settled (snd (configureInstance parse i input s)) = bp_settled s
   \<and> bp_sockets (snd (configureInstance parse i input s)) = bp_sockets s"
  by (simp add: configureInstance_def Let_def split: sum.split option.split)

lemma registerBridge_calls:
  "registerBridge now uuid sp m s = (r, s') \<Longrightarrow> bp_pending s' = bp_pending s \<and> bp_settled s' = bp_settled s \<and> bp_sockets s' = bp_sockets s"
  by (cases rule: registerBridge_cases[of now uuid sp m s]) auto

lemma autoRegister_calls:
  assumes "calls_ok s"
  shows "calls_ok (snd (autoRegister now uuid sock specifiedId parsed s))"
proof -
  have "calls_ok (connectSocket i sock (updateInstance now i ob f s))" for i ob f
    by (rule calls_same[OF assms]) (simp_all add: connect_sockets)
  moreover have "calls_ok (snd (case registerBridge now uuid specifiedId m s of (Inl e, s') \<Rightarrow> (Inl e, s')
      | (Inr x, s') \<Rightarrow> (Inr (Some (bi_id x)), connectSocket (bi_id x) sock s')))" for m
  proof (cases "registerBridge now uuid specifiedId m s")
    case (Pair r s')
    from registerBridge_calls[OF Pair] show ?thesis
      unfolding Pair by (cases r) (auto intro: calls_same[OF assms] simp: connect_sockets simp del: map_of_eq_Some_iff)
  qed
  ultimately show ?thesis unfolding autoRegister_def Let_def using assms by (simp split: option.split json.split)
qed

lemma bridgeCall_calls:
  assumes "calls_ok s" "rid \<notin> set (map fst (bp_settled s) @ jkeys (bp_pending s))"
  shows "calls_ok (snd (bridgeCall policy opened failed rid i chars payload s))"
proof -
  have "map_of (bp_pending s) rid = None" using assms(2) by (auto simp: map_of_eq_None_iff)
  note fresh = jset_fresh[OF this]
  show ?thesis
    using assms unfolding bridgeCall_def calls_ok_def
    by (auto simp: fresh simp del: map_of_eq_Some_iff split: option.split)
qed

lemma bridgeTimeout_calls: "calls_ok s \<Longrightarrow> calls_ok (bridgeTimeout rid s)"
  using calls_settle_one[of s rid] by (auto simp: bridgeTimeout_def simp del: map_of_eq_Some_iff)

lemma update_only_calls: "calls_ok s \<Longrightarrow> calls_ok (updateInstance now i ob f s)"
  by (erule calls_same) simp_all

lemma other_calls:
  assumes "calls_ok s"
  shows "calls_ok (snd (startBegin now i s))" "calls_ok (snd (startFinish now i ob session s))"
    "calls_ok (removeFinish i s)" "calls_ok (snd (attachBridge now i sock s))" "calls_ok (recordActiveTab now i d result s)"
    "calls_ok (recordPulledTabs now i tabs s)" "calls_ok (snd (bindHost now host i s))" "calls_ok (snd (unbindHost host s))" "calls_ok (s\<lparr>bp_diskOk := ok\<rparr>)"
proof -
  show "calls_ok (snd (startBegin now i s))" "calls_ok (snd (startFinish now i ob session s))"
    "calls_ok (recordActiveTab now i d result s)" "calls_ok (recordPulledTabs now i tabs s)"
    using assms by (auto simp: startBegin_def startFinish_def recordActiveTab_def recordPulledTabs_def Let_def intro: update_only_calls
        split: option.split json.split)
  show "calls_ok (removeFinish i s)" "calls_ok (snd (bindHost now host i s))" "calls_ok (snd (unbindHost host s))"
    "calls_ok (s\<lparr>bp_diskOk := ok\<rparr>)"
    using assms by (simp_all add: removeFinish_def bindHost_def unbindHost_def calls_ok_def split: sum.split)
  have "calls_ok (connectSocket i sock s)" by (rule calls_same[OF assms]) (simp_all add: connect_sockets)
  then show "calls_ok (snd (attachBridge now i sock s))"
    using assms by (auto simp: attachBridge_def intro: update_only_calls split: option.split)
qed

lemma pool_reach_good: "pool_reach s \<Longrightarrow> pool_inv s \<and> calls_ok s"
proof (induction rule: pool_reach.induct)
  case (reach_new sp)
  then show ?case using newPool_inv[of None sp] by (simp add: calls_ok_def)
next
  case (reach_restart s)
  then show ?case using newPool_inv[of "bp_disk s" "bp_statePath s"] by (simp add: calls_ok_def pool_inv_def)
next
  case (reach_disk s ok)
  then show ?case using other_calls(9) pool_inv_same[of s "s\<lparr>bp_diskOk := ok\<rparr>"] by simp
next
  case (reach_add s parse now newId input)
  then show ?case using addInstance_inv addInstance_calls[of parse now newId input s] calls_same[of s] by simp
next
  case (reach_configure s parse i cinput)
  then show ?case using configureInstance_inv configureInstance_calls[of parse i cinput s] calls_same[of s] by simp
qed (simp_all add: start_inv other_calls stopFinish_inv stopFinish_calls removeFinish_inv attachBridge_inv autoRegister_inv
    autoRegister_calls handleBridgeClose_inv handleBridgeClose_calls handleBridgeMessage_inv handleBridgeMessage_calls
    bridgeCall_inv bridgeCall_calls bridgeTimeout_inv bridgeTimeout_calls recordActiveTab_inv recordPulledTabs_inv bindHost_inv unbindHost_inv)

text \<open>
  C25: The registry stays consistent. In every pool reachable by any interleaving of operations,
  continuations of \<open>start\<close>, \<open>stop\<close> and \<open>remove\<close>, socket events and restarts from its state file, an
  instance is filed under its own identifier, two different instances never share a name, a CDP
  instance runs Chromium, and a site binding always leads to an existing instance, so that resolving a
  host never fails with \<open>BROWSER_INSTANCE_NOT_FOUND\<close>.
\<close>

theorem pool_consistent:
  assumes "pool_reach s"
  shows "(map_of (bp_instances s) i = Some x \<longrightarrow> bi_id x = i \<and> (bi_mode x = ModeCdp \<longrightarrow> bi_engine x = EngineChromium))
    \<and> (map_of (bp_instances s) i = Some x \<and> map_of (bp_instances s) j = Some y \<and> bi_name x = bi_name y \<longrightarrow> i = j)
    \<and> resolveBinding host s \<noteq> Inl InstanceNotFound"
proof -
  have ok: "content_ok (bp_instances s) (bp_bindings s)" using pool_reach_good[OF assms] by (simp add: pool_inv_def)
  have "resolveBinding host s \<noteq> Inl InstanceNotFound"
  proof (cases "poolHost host")
    case (Inl e)
    then have "e = InvalidHost" by (simp add: poolHost_def Let_def split: if_splits)
    with Inl show ?thesis by (simp add: resolveBinding_def)
  next
    case (Inr h)
    show ?thesis
    proof (cases "map_of (bp_bindings s) h")
      case (Some b)
      from content_okD(5)[OF ok map_of_SomeD[OF this]] have "map_of (bp_instances s) (sb_browserId b) \<noteq> None"
        by (simp add: map_of_eq_None_iff)
      with Inr Some show ?thesis by (auto simp: resolveBinding_def simp del: map_of_eq_Some_iff)
    qed (use Inr in \<open>simp add: resolveBinding_def\<close>)
  qed
  moreover have "map_of (bp_instances s) i = Some x \<and> map_of (bp_instances s) j = Some y \<and> bi_name x = bi_name y \<longrightarrow> i = j"
    using content_okD(4)[OF ok] map_of_SomeD by metis
  ultimately show ?thesis using content_mem[OF ok] by (auto simp: cdp_ok_def)
qed

text \<open>
  C26: A bridge call is answered exactly once and by its own browser. In every reachable pool no request is
  settled twice or both settled and pending, and a pending one belongs to a browser with a socket; a
  message of another browser never settles it; when the browser's current socket closes, all of its
  pending calls are rejected as disconnected and the other browsers' calls stay; and the late close
  event of a socket that has been replaced changes nothing.
\<close>

theorem bridge_calls_settle_once:
  assumes "pool_reach s"
  shows "distinct (map fst (bp_settled s) @ jkeys (bp_pending s))
    \<and> (map_of (bp_pending s) rid = Some i \<longrightarrow> map_of (bp_sockets s) i \<noteq> None)
    \<and> (map_of (bp_pending s) rid = Some i \<and> j \<noteq> i
        \<longrightarrow> map_of (bp_pending (handleBridgeMessage show_json now j bytes parsed s)) rid = Some i)
    \<and> (map_of (bp_sockets s) i = Some k \<longrightarrow>
        (map_of (bp_pending s) rid = Some i \<longrightarrow> (rid, RejectedWith ''BRIDGE_DISCONNECTED'') \<in> set (bp_settled (handleBridgeClose now i k s)))
        \<and> i \<notin> set (jvals (bp_pending (handleBridgeClose now i k s)))
        \<and> (map_of (bp_pending s) rid = Some j \<and> j \<noteq> i \<longrightarrow> map_of (bp_pending (handleBridgeClose now i k s)) rid = Some j))
    \<and> (map_of (bp_sockets s) i \<noteq> Some k \<longrightarrow> handleBridgeClose now i k s = s)"
proof -
  have ok: "calls_ok s" using pool_reach_good[OF assms(1)] by simp
  then have wf: "jwf (bp_pending s)" by (simp add: calls_ok_def)
  have keep: "map_of (filter (\<lambda>p. snd p \<noteq> a) (bp_pending s)) rid = Some b" if "map_of (bp_pending s) rid = Some b" "b \<noteq> a" for a b
    using map_of_SomeD[OF that(1)] that(2) wf by (intro map_of_is_SomeI) (auto simp: distinct_map_filter)
  have "map_of (bp_pending (handleBridgeMessage show_json now j bytes parsed s)) rid = Some i"
    if p: "map_of (bp_pending s) rid = Some i" "j \<noteq> i"
    using p keep[OF p(1), of j]
    by (simp add: handleBridgeMessage_def Let_def rejectBridgeCalls_def settle_all_def jdel_apply
        del: map_of_eq_Some_iff split: option.split json.split)
  moreover have "(map_of (bp_pending s) rid = Some i \<longrightarrow> (rid, RejectedWith ''BRIDGE_DISCONNECTED'') \<in> set (bp_settled (handleBridgeClose now i k s)))
        \<and> i \<notin> set (jvals (bp_pending (handleBridgeClose now i k s)))
        \<and> (map_of (bp_pending s) rid = Some j \<and> j \<noteq> i \<longrightarrow> map_of (bp_pending (handleBridgeClose now i k s)) rid = Some j)"
    if k: "map_of (bp_sockets s) i = Some k"
  proof -
    have c: "bp_pending (handleBridgeClose now i k s) = filter (\<lambda>p. snd p \<noteq> i) (bp_pending s)"
      "bp_settled (handleBridgeClose now i k s) = bp_settled s @ map (\<lambda>p. (fst p, RejectedWith ''BRIDGE_DISCONNECTED'')) (filter (\<lambda>p. snd p = i) (bp_pending s))"
      using k by (simp_all add: handleBridgeClose_def rejectBridgeCalls_def settle_all_def Let_def split: option.split)
    have "map_of (bp_pending s) rid = Some i \<Longrightarrow> (rid, i) \<in> set (bp_pending s)" by (rule map_of_SomeD)
    then show ?thesis unfolding c using keep[of j i] by (force simp del: map_of_eq_Some_iff)
  qed
  moreover have "handleBridgeClose now i k s = s" if "map_of (bp_sockets s) i \<noteq> Some k" using that by (simp add: handleBridgeClose_def)
  moreover have "map_of (bp_pending s) rid = Some i \<longrightarrow> map_of (bp_sockets s) i \<noteq> None"
    using ok by (auto simp: calls_ok_def dest: map_of_SomeD simp del: map_of_eq_Some_iff)
  ultimately show ?thesis using ok unfolding calls_ok_def by blast
qed

text \<open>A pool with one bridge, its socket 7 and a pending call.\<close>

definition demo_pool :: pool where
  "demo_pool = snd (bridgeCall None (\<lambda>_. True) None ''r1'' ''b1'' 20 [(''op'', JString ''snapshot'')]
     (snd (attachBridge ''t1'' ''b1'' 7 (snd (addInstance (\<lambda>_. None) ''t0'' ''b1''
       \<lparr>ai_name = ''Home'', ai_engine = None, ai_mode = Some ModeBridge, ai_profileName = None, ai_cdpEndpoint = None,
        ai_noVncPort = None\<rparr> (newPool True None))))))"

lemma demo_calls: "bp_pending demo_pool = [(''r1'', ''b1'')] \<and> map_of (bp_sockets demo_pool) ''b1'' = Some 7 \<and> bp_statePath demo_pool"
  by code_simp

lemma demo_pool_reach: "pool_reach demo_pool"
  unfolding demo_pool_def
proof (rule reach_call, (rule reach_attach reach_add reach_new)+)
  show "''r1'' \<notin> set (map fst (bp_settled (snd (attachBridge ''t1'' ''b1'' 7 (snd (addInstance (\<lambda>_. None) ''t0'' ''b1''
       \<lparr>ai_name = ''Home'', ai_engine = None, ai_mode = Some ModeBridge, ai_profileName = None, ai_cdpEndpoint = None,
        ai_noVncPort = None\<rparr> (newPool True None)))))) @ jkeys (bp_pending (snd (attachBridge ''t1'' ''b1'' 7 (snd (addInstance (\<lambda>_. None) ''t0'' ''b1''
       \<lparr>ai_name = ''Home'', ai_engine = None, ai_mode = Some ModeBridge, ai_profileName = None, ai_cdpEndpoint = None,
        ai_noVncPort = None\<rparr> (newPool True None)))))))"
    by code_simp
qed

theorem pool_consistent_witness:
  "\<exists>x. map_of (bp_instances demo_pool) ''b1'' = Some x \<and> bi_id x = ''b1'' \<and> bi_name x = ''Home'' \<and> bi_state x = StReady
    \<and> resolveBinding ''example.com'' demo_pool \<noteq> Inl InstanceNotFound"
proof -
  have "\<exists>x. map_of (bp_instances demo_pool) ''b1'' = Some x \<and> bi_name x = ''Home'' \<and> bi_state x = StReady"
    by (rule exI[of _ "the (map_of (bp_instances demo_pool) ''b1'')"]) code_simp
  with pool_consistent[OF demo_pool_reach] show ?thesis by metis
qed

theorem bridge_calls_settle_once_witness:
  "(''r1'', RejectedWith ''BRIDGE_DISCONNECTED'') \<in> set (bp_settled (handleBridgeClose ''t2'' ''b1'' 7 demo_pool))
   \<and> handleBridgeClose ''t2'' ''b1'' 6 demo_pool = demo_pool"
  using bridge_calls_settle_once[OF demo_pool_reach, where rid = "''r1''" and i = "''b1''" and now = "''t2''"] demo_calls by simp



lemma trimmed_text_base: "trimmed_text v = Some p \<Longrightarrow> js_trim p = p \<and> p \<noteq> []"
  by (auto simp: trimmed_text_def truthy_text_def split: option.splits list.splits)

lemma chrome_base: "js_trim (''Chrome ('' @ c @ '')'') = ''Chrome ('' @ c @ '')''"
  by (rule trim_fixed) (simp add: js_white_def code_point_def)

lemma first_free_error:
  assumes "\<And>k e. cand k = Inl e \<Longrightarrow> P e" "first_free fuel cand taken n \<noteq> None"
    "the_free (first_free fuel cand taken n) = Inl e"
  shows "P e"
proof -
  have "first_free fuel cand taken n = Some (Inl e) \<Longrightarrow> P e" for n
    using assms(1) by (induction fuel arbitrary: n) (auto split: sum.splits if_splits)
  with assms(2,3) show ?thesis by (auto simp: the_free_def)
qed

lemma name_candidate_error: "name_candidate base k = Inl e \<Longrightarrow> e = InvalidName"
  by (simp add: name_candidate_def safeName_def Let_def split: if_splits)

lemma registerBridge_error:
  assumes "registerBridge now uuid specifiedId m s = (Inl e, s')"
  shows "e = InvalidName"
proof -
  define ctx where "ctx = trimmed_text (jfield m ''contextId'')"
  define rawId where "rawId = (case truthy_text specifiedId of Some i \<Rightarrow> i | None \<Rightarrow>
            (case ctx of Some c \<Rightarrow> ''brw_'' @ take 16 (filter id_safe c) | None \<Rightarrow> ''brw_'' @ take 12 uuid))"
  define fuel where "fuel = Suc (length (bp_instances s))"
  define base where "base = (\<lambda>finalId. case trimmed_text (jfield m ''profileName'') of Some p \<Rightarrow> p | None \<Rightarrow>
                   (case ctx of Some c \<Rightarrow> ''Chrome ('' @ c @ '')''
                    | None \<Rightarrow> ''Chrome ('' @ drop (length finalId - 4) finalId @ '')''))"
  have b: "js_trim (base i) = base i \<and> base i \<noteq> []" for i
    using trimmed_text_base chrome_base by (auto simp: base_def split: option.split)
  have "the_free (first_free fuel (id_candidate rawId) (\<lambda>i. map_of (bp_instances s) i \<noteq> None) 0) \<noteq> Inl e'" for e'
    using first_free_error[of "id_candidate rawId" "\<lambda>_. False", OF _ free_id[of "bp_instances s" rawId, folded fuel_def]]
    by (auto simp: id_candidate_def)
  then obtain i where i: "the_free (first_free fuel (id_candidate rawId) (\<lambda>i. map_of (bp_instances s) i \<noteq> None) 0) = Inr i"
    by (cases "the_free (first_free fuel (id_candidate rawId) (\<lambda>i. map_of (bp_instances s) i \<noteq> None) 0)") auto
  have "the_free (first_free fuel (name_candidate (base i)) (\<lambda>n. name_taken n (\<lambda>_. False) s) 0) = Inl e"
    using assms unfolding registerBridge_def Let_def
      ctx_def[symmetric] rawId_def[symmetric] fuel_def[symmetric] i sum.case base_def[symmetric]
    by (simp add: base_def split: sum.splits)
  moreover have "first_free fuel (name_candidate (base i)) (\<lambda>n. name_taken n (\<lambda>_. False) s) 0 \<noteq> None"
    unfolding fuel_def using b[of i] by (intro free_name) simp_all
  ultimately show ?thesis
    using first_free_error[of "name_candidate (base i)" "\<lambda>e. e = InvalidName"] name_candidate_error by metis
qed

text \<open>
  C28: Automatic registration terminates and never overwrites. The two loops that look for a free
  identifier and a free name end within one candidate more than there are instances; the only failure
  is a name the name check refuses, which leaves the pool as it was; otherwise exactly one instance is
  added, under an identifier and a name that no instance had.
\<close>

theorem register_bridge_fresh:
  "case registerBridge now uuid specifiedId m s of
     (Inl e, s') \<Rightarrow> e = InvalidName \<and> s' = s
   | (Inr x, s') \<Rightarrow> map_of (bp_instances s) (bi_id x) = None \<and> \<not> name_taken (bi_name x) (\<lambda>_. False) s
       \<and> map_of (bp_instances s') = (map_of (bp_instances s))(bi_id x \<mapsto> x)"
proof (cases rule: registerBridge_cases[of now uuid specifiedId m s])
  case (threw e)
  have "e = InvalidName" by (rule registerBridge_error[OF threw])
  with threw show ?thesis by simp
next
  case (registered x)
  then show ?thesis by (auto simp: jset_apply fun_eq_iff)
qed

text \<open>
  A refused \<open>configure\<close> is not undone: the name, engine and mode are written before the profile name is
  checked, so the live instance has changed although the call failed and nothing was saved.
\<close>

lemma configure_half_applied:
  "let s = snd (addInstance (\<lambda>_. None) ''t0'' ''b1''
       \<lparr>ai_name = ''Home'', ai_engine = None, ai_mode = None, ai_profileName = None, ai_cdpEndpoint = None,
        ai_noVncPort = None\<rparr> (newPool True None));
       r = configureInstance (\<lambda>_. None) ''b1'' \<lparr>ci_name = None, ci_engine = None, ci_mode = Some ModeBridge,
        ci_profileName = Given [], ci_cdpEndpoint = Unset, ci_noVncPort = Unset\<rparr> s
   in fst r = Inl InvalidName \<and> map_option bi_mode (map_of (bp_instances s) ''b1'') = Some ModeManaged
     \<and> map_option bi_mode (map_of (bp_instances (snd r)) ''b1'') = Some ModeBridge \<and> bp_disk (snd r) = bp_disk s"
  by code_simp

end
