(* ===== verification/Utf8Text.thy ===== *)
theory Utf8Text
  imports JsText "HOL-Library.Code_Target_Nat"
begin

text \<open>
  Text as UTF-8 bytes, for \<open>truncateUtf8\<close> of \<open>src/browser/semantic-snapshot.ts\<close>: a JavaScript string is
  the list of its code points (a lone surrogate is one of them), \<open>encode\<close> is \<open>Buffer.from(s, 'utf8')\<close>
  and \<open>decode\<close> is \<open>Buffer.toString('utf8')\<close>, which replaces every maximal part of a malformed sequence
  by one U+FFFD. The lemmas show that cutting the bytes anywhere cuts the text at a character.
\<close>

type_synonym code_text = "nat list"

definition FFFD :: nat where "FFFD = 65533"

definition surrogate :: "nat \<Rightarrow> bool" where "surrogate c = (55296 \<le> c \<and> c \<le> 57343)"

definition scrub :: "nat \<Rightarrow> nat" where "scrub c = (if surrogate c then FFFD else c)"

definition utf8 :: "nat \<Rightarrow> nat list" where
  "utf8 c =
     (if c < 128 then [c]
      else if c < 2048 then [192 + c div 64, 128 + c mod 64]
      else if c < 65536 then [224 + c div 4096, 128 + c div 64 mod 64, 128 + c mod 64]
      else [240 + c div 262144, 128 + c div 4096 mod 64, 128 + c div 64 mod 64, 128 + c mod 64])"

definition encode :: "code_text \<Rightarrow> nat list" where
  "encode s = concat (map (utf8 \<circ> scrub) s)"

definition byteLength :: "code_text \<Rightarrow> nat" where "byteLength s = length (encode s)"

text \<open>The continuation bytes a lead byte asks for: how many, the bits so far, and the range of the first.\<close>

definition lead :: "nat \<Rightarrow> (nat \<times> nat \<times> nat \<times> nat) option" where
  "lead b =
     (if 194 \<le> b \<and> b \<le> 223 then Some (1, b - 192, 128, 191)
      else if b = 224 then Some (2, 0, 160, 191)
      else if b = 237 then Some (2, 13, 128, 159)
      else if 225 \<le> b \<and> b \<le> 239 then Some (2, b - 224, 128, 191)
      else if b = 240 then Some (3, 0, 144, 191)
      else if 241 \<le> b \<and> b \<le> 243 then Some (3, b - 240, 128, 191)
      else if b = 244 then Some (3, 4, 128, 143)
      else None)"

text \<open>Reads continuation bytes; a byte out of range is not consumed.\<close>

fun continue_seq :: "nat \<Rightarrow> nat \<Rightarrow> nat \<Rightarrow> nat \<Rightarrow> nat list \<Rightarrow> nat option \<times> nat list" where
  "continue_seq n acc lo hi [] = (if n = 0 then Some acc else None, [])"
| "continue_seq n acc lo hi (b # bs) =
     (if n = 0 then (Some acc, b # bs)
      else if lo \<le> b \<and> b \<le> hi then continue_seq (n - 1) (acc * 64 + (b - 128)) 128 191 bs else (None, b # bs))"

lemma continue_seq_0 [simp]: "continue_seq 0 acc lo hi bs = (Some acc, bs)"
  by (cases bs) simp_all

lemma continue_seq_shorter: "length (snd (continue_seq n acc lo hi bs)) \<le> length bs"
  by (induction n acc lo hi bs rule: continue_seq.induct) auto

function decode :: "nat list \<Rightarrow> code_text" where
  "decode [] = []"
| "decode (b # bs) =
     (if b < 128 then b # decode bs
      else (case lead b of
         None \<Rightarrow> FFFD # decode bs
       | Some (n, acc, lo, hi) \<Rightarrow>
           (case fst (continue_seq n acc lo hi bs) of Some c \<Rightarrow> c | None \<Rightarrow> FFFD)
             # decode (snd (continue_seq n acc lo hi bs))))"
  by pat_completeness auto

termination
  by (relation "measure length") (auto simp: less_Suc_eq_le continue_seq_shorter)

declare decode.simps(2) [simp del]

subsection \<open>Cutting the bytes of a text\<close>

lemma bits: "c mod 64 < 64" "c div 64 * 64 + c mod 64 = c" "c div 4096 * 64 + c div 64 mod 64 = c div 64"
  "c div 262144 * 64 + c div 4096 mod 64 = c div 4096" for c :: nat
proof -
  show "c div 4096 * 64 + c div 64 mod 64 = c div 64"
    using div_mult_mod_eq[of "c div 64" 64] by (simp add: div_mult2_eq[symmetric])
  show "c div 262144 * 64 + c div 4096 mod 64 = c div 4096"
    using div_mult_mod_eq[of "c div 4096" 64] by (simp add: div_mult2_eq[symmetric])
qed simp_all

definition scalar :: "nat \<Rightarrow> bool" where "scalar c = (c < 1114112 \<and> \<not> surrogate c)"

lemma mod_block:
  fixes d :: nat
  assumes "64 * k \<le> d" "d < 64 * k + 64"
  shows "d mod 64 = d - 64 * k"
proof -
  obtain r where "d = 64 * k + r" "r < 64" using assms by (metis le_Suc_ex nat_add_left_cancel_less)
  then show ?thesis by simp
qed

lemma utf8_cases:
  assumes "scalar c"
  obtains (one) "utf8 c = [c]" "c < 128"
  | (two) b where "utf8 c = [b, 128 + c mod 64]" "lead b = Some (1, c div 64, 128, 191)" "\<not> b < 128"
  | (three) b lo hi where "utf8 c = [b, 128 + c div 64 mod 64, 128 + c mod 64]" "lead b = Some (2, c div 4096, lo, hi)" "\<not> b < 128"
      "lo \<le> 128 + c div 64 mod 64" "128 + c div 64 mod 64 \<le> hi"
  | (four) b lo hi where "utf8 c = [b, 128 + c div 4096 mod 64, 128 + c div 64 mod 64, 128 + c mod 64]"
      "lead b = Some (3, c div 262144, lo, hi)" "\<not> b < 128" "lo \<le> 128 + c div 4096 mod 64" "128 + c div 4096 mod 64 \<le> hi"
proof -
  consider "c < 128" | "128 \<le> c" "c < 2048" | "2048 \<le> c" "c < 65536" | "65536 \<le> c" "c < 1114112"
    using assms unfolding scalar_def by linarith
  then show thesis
  proof cases
    case 1
    then show thesis by (intro one) (simp add: utf8_def)
  next
    case 2
    then have "2 \<le> c div 64" "c div 64 \<le> 31" by auto
    with 2 show thesis by (intro two[of "192 + c div 64"]) (simp_all add: utf8_def lead_def)
  next
    case 3
    define q where "q = c div 4096"
    have q: "q \<le> 15" using 3 unfolding q_def by auto
    have u: "utf8 c = [224 + q, 128 + c div 64 mod 64, 128 + c mod 64]" using 3 by (simp add: utf8_def q_def)
    have m: "c div 64 mod 64 \<le> 63" by (simp add: less_Suc_eq_le[symmetric])
    consider "q = 0" | "q = 13" | "q \<noteq> 0" "q \<noteq> 13" by blast
    then show thesis
    proof cases
      case 1
      then have "c < 4096" by (simp add: q_def div_eq_0_iff)
      then have "c div 64 < 64" "32 \<le> c div 64" using 3 by auto
      then show thesis using u m 1 by (intro three[of "224 + q" 160 191]) (simp_all add: lead_def q_def[symmetric])
    next
      case 2
      then have "c < 57344" "53248 \<le> c"
        using div_mult_mod_eq[of c 4096] mod_less_divisor[of 4096 c] unfolding q_def by linarith+
      moreover have "\<not> surrogate c" using assms by (simp add: scalar_def)
      ultimately have "c < 55296" by (simp add: surrogate_def)
      then have "c div 64 < 864" "832 \<le> c div 64" using \<open>53248 \<le> c\<close> by auto
      then have "c div 64 mod 64 \<le> 31" using mod_block[of 13 "c div 64"] by linarith
      then show thesis using u 2 by (intro three[of "224 + q" 128 159]) (simp_all add: lead_def q_def[symmetric])
    next
      case 3
      then show thesis using u m q by (intro three[of "224 + q" 128 191]) (simp_all add: lead_def q_def[symmetric])
    qed
  next
    case 4
    define q where "q = c div 262144"
    have q: "q \<le> 4" using 4 unfolding q_def by auto
    have u: "utf8 c = [240 + q, 128 + c div 4096 mod 64, 128 + c div 64 mod 64, 128 + c mod 64]"
      using 4 by (simp add: utf8_def q_def)
    have m: "c div 4096 mod 64 \<le> 63" by (simp add: less_Suc_eq_le[symmetric])
    consider "q = 0" | "q = 4" | "q \<noteq> 0" "q \<noteq> 4" by blast
    then show thesis
    proof cases
      case 1
      then have "c < 262144" by (simp add: q_def div_eq_0_iff)
      then have "c div 4096 < 64" "16 \<le> c div 4096" using 4 by auto
      then show thesis using u m 1 by (intro four[of "240 + q" 144 191]) (simp_all add: lead_def q_def[symmetric])
    next
      case 2
      then have "c div 4096 < 272" "256 \<le> c div 4096" using 4 unfolding q_def by auto
      then have "c div 4096 mod 64 \<le> 15" using mod_block[of 4 "c div 4096"] by linarith
      then show thesis using u 2 by (intro four[of "240 + q" 128 143]) (simp_all add: lead_def q_def[symmetric])
    next
      case 3
      then show thesis using u m q by (intro four[of "240 + q" 128 191]) (simp_all add: lead_def q_def[symmetric])
    qed
  qed
qed

lemma last_byte: "128 \<le> 128 + x mod 64" "128 + x mod 64 \<le> 191" "x mod 64 \<le> 63" for x :: nat
proof -
  have "x mod 64 < 64" by simp
  then show "128 \<le> 128 + x mod 64" "128 + x mod 64 \<le> 191" "x mod 64 \<le> 63" by linarith+
qed

text \<open>A whole character decodes to itself, a proper part of one to a single U+FFFD.\<close>

lemma decode_char:
  assumes "scalar c"
  shows "decode (utf8 c @ bs) = c # decode bs"
  using assms
proof (cases rule: utf8_cases)
  case one
  then show ?thesis by (simp add: decode.simps(2))
next
  case (two b)
  with bits[of c] show ?thesis by (simp add: decode.simps(2) last_byte)
next
  case (three b lo hi)
  with bits[of c] show ?thesis by (simp add: decode.simps(2) last_byte)
next
  case (four b lo hi)
  with bits[of c] show ?thesis
    by (simp add: decode.simps(2) last_byte)
qed

lemma decode_part:
  assumes "scalar c" "0 < n" "n < length (utf8 c)"
  shows "decode (take n (utf8 c)) = [FFFD]"
  using assms(1)
proof (cases rule: utf8_cases)
  case one
  with assms show ?thesis by simp
next
  case (two b)
  with assms have "n = 1" by simp
  with two show ?thesis by (simp add: decode.simps(2))
next
  case (three b lo hi)
  with assms have "n = 1 \<or> n = 2" by auto
  with three show ?thesis by (auto simp: decode.simps(2))
next
  case (four b lo hi)
  with assms have "n = 1 \<or> n = 2 \<or> n = 3" by auto
  with four last_byte[of "c div 64"] show ?thesis by (auto simp: decode.simps(2))
qed

text \<open>The longest part at the front of a text whose bytes fit.\<close>

fun fitting :: "nat \<Rightarrow> code_text \<Rightarrow> code_text" where
  "fitting n [] = []"
| "fitting n (c # cs) = (if length (utf8 (scrub c)) \<le> n then c # fitting (n - length (utf8 (scrub c))) cs else [])"

abbreviation code_points :: "code_text \<Rightarrow> bool" where
  "code_points s \<equiv> list_all (\<lambda>c. c < 1114112) s"

lemma scrub_scalar: "c < 1114112 \<Longrightarrow> scalar (scrub c)"
  by (auto simp: scalar_def scrub_def surrogate_def FFFD_def)

lemma scrub_scrub [simp]: "scrub (scrub c) = scrub c"
  by (auto simp: scrub_def surrogate_def FFFD_def)

lemma encode_simps [simp]: "encode [] = []" "encode (c # s) = utf8 (scrub c) @ encode s" "encode (map scrub s) = encode s"
  by (simp_all add: encode_def comp_def)

lemma encode_append [simp]: "encode (s @ t) = encode s @ encode t"
  by (simp add: encode_def)

lemma utf8_length: "1 \<le> length (utf8 c)" "length (utf8 c) \<le> 4"
  by (simp_all add: utf8_def)

lemma decode_take:
  "code_points s \<Longrightarrow> \<exists>r. decode (take n (encode s)) = map scrub (fitting n s) @ r \<and> (r = [] \<or> r = [FFFD])"
proof (induction s arbitrary: n)
  case (Cons c s)
  let ?u = "utf8 (scrub c)"
  have sc: "scalar (scrub c)" using Cons.prems by (simp add: scrub_scalar)
  show ?case
  proof (cases "length ?u \<le> n")
    case True
    then have "take n (encode (c # s)) = ?u @ take (n - length ?u) (encode s)" by simp
    then have "decode (take n (encode (c # s))) = scrub c # decode (take (n - length ?u) (encode s))"
      by (simp only: decode_char[OF sc])
    with Cons.IH[of "n - length ?u"] Cons.prems True show ?thesis by simp
  next
    case False
    then show ?thesis
      using decode_part[OF sc, of n] by (cases "n = 0") auto
  qed
qed simp

lemma decode_encode: "code_points s \<Longrightarrow> decode (encode s) = map scrub s"
proof (induction s)
  case (Cons c s)
  then show ?case using decode_char[OF scrub_scalar, of c "encode s"] by simp
qed simp

lemma fitting_bytes: "byteLength (fitting n s) \<le> n"
  by (induction n s rule: fitting.induct) (auto simp: byteLength_def)

lemma fitting_prefix: "prefix (fitting n s) s"
  by (induction n s rule: fitting.induct) auto

lemma fitting_longest: "prefix t s \<Longrightarrow> byteLength t \<le> n \<Longrightarrow> prefix t (fitting n s)"
proof (induction n s arbitrary: t rule: fitting.induct)
  case (2 n c s)
  show ?case
  proof (cases t)
    case (Cons d ds)
    with 2 show ?thesis by (auto simp: byteLength_def)
  qed simp
qed simp

subsection \<open>Truncation\<close>

definition strip_end :: "code_text \<Rightarrow> code_text" where
  "strip_end s = rev (dropWhile (\<lambda>c. c = FFFD) (rev s))"

text \<open>The number is finite: the code's callers pass an integer or nothing.\<close>

definition truncateUtf8 :: "code_text \<Rightarrow> rat \<Rightarrow> code_text \<times> nat \<times> bool" where
  "truncateUtf8 s maxBytes =
     (let safeMax = nat (max 0 \<lfloor>maxBytes\<rfloor>)
      in if byteLength s \<le> safeMax then (s, byteLength s, False)
         else if safeMax = 0 then ([], 0, True)
         else (let bounded = strip_end (decode (take safeMax (encode s)))
               in (bounded, byteLength bounded, True)))"

lemma strip_end_prefix: "prefix (strip_end s) s"
  by (metis strip_end_def rev_rev_ident suffix_dropWhile suffix_to_prefix)

lemma strip_end_app: "r = [] \<or> r = [FFFD] \<Longrightarrow> strip_end (s @ r) = strip_end s"
  by (auto simp: strip_end_def)

lemma byteLength_prefix: "prefix s t \<Longrightarrow> byteLength s \<le> byteLength t"
  by (auto simp: prefix_def byteLength_def)

lemma byteLength_scrub [simp]: "byteLength (map scrub s) = byteLength s"
  by (simp add: byteLength_def)

lemma truncate_cut:
  assumes "code_points s" "n < byteLength s"
  shows "truncateUtf8 s (of_nat n) = (let w = strip_end (map scrub (fitting n s)) in (w, byteLength w, True))"
proof (cases "n = 0")
  case True
  have "fitting 0 s = []" using utf8_length(1) by (cases s) (auto simp: Suc_le_eq)
  with True assms(2) show ?thesis by (simp add: truncateUtf8_def Let_def strip_end_def byteLength_def)
next
  case False
  obtain r where "decode (take n (encode s)) = map scrub (fitting n s) @ r" "r = [] \<or> r = [FFFD]"
    using decode_take[OF assms(1)] by blast
  then have "strip_end (decode (take n (encode s))) = strip_end (map scrub (fitting n s))" by (simp add: strip_end_app)
  with False assms(2) show ?thesis by (simp add: truncateUtf8_def Let_def)
qed

text \<open>
  C29: Cutting page text to a byte budget keeps the budget and cuts at a character. Whatever the code
  points and the budget, the reported number of bytes is that of the result and within the budget, a
  text that fits is returned unchanged and only then reported as whole, and a longer one becomes the
  longest prefix that fits, lone surrogates replaced, without the U+FFFD at its end: no half of a
  character is ever left.
\<close>

theorem truncate_utf8_bounded:
  assumes "code_points s" "truncateUtf8 s (of_nat n) = (w, bytes, over)"
  shows "bytes = byteLength w \<and> bytes \<le> n \<and> (over \<longleftrightarrow> n < byteLength s) \<and> (\<not> over \<longrightarrow> w = s)
    \<and> (over \<longrightarrow> w = strip_end (map scrub (fitting n s)) \<and> prefix w (map scrub s))
    \<and> (prefix p s \<and> byteLength p \<le> n \<longrightarrow> prefix p (fitting n s))"
proof -
  have p: "prefix (strip_end (map scrub (fitting n s))) (map scrub (fitting n s))" by (rule strip_end_prefix)
  from byteLength_prefix[OF p] have b: "byteLength (strip_end (map scrub (fitting n s))) \<le> n"
    using fitting_bytes[of n s] by simp
  have q: "prefix (strip_end (map scrub (fitting n s))) (map scrub s)"
    using p map_mono_prefix[OF fitting_prefix, of scrub n s] by (rule prefix_order.order_trans)
  have l: "prefix p s \<and> byteLength p \<le> n \<longrightarrow> prefix p (fitting n s)" by (blast intro: fitting_longest)
  show ?thesis
  proof (cases "n < byteLength s")
    case True
    with truncate_cut[OF assms(1)] assms(2) b q l show ?thesis by (auto simp: Let_def)
  next
    case False
    with assms(2) l show ?thesis by (auto simp: truncateUtf8_def Let_def)
  qed
qed

theorem truncate_utf8_bounded_witness:
  "truncateUtf8 [65, 8364, 8364] 6 = ([65, 8364], 4, True) \<and> prefix [65, 8364] (map scrub [65, 8364, 8364])"
proof -
  have e: "encode [65, 8364, 8364] = [65, 226, 130, 172, 226, 130, 172]" "encode [65, 8364] = [65, 226, 130, 172]"
    "strip_end (decode (take 6 (encode [65, 8364, 8364]))) = [65, 8364]" by code_simp+
  have b: "byteLength [65, 8364, 8364] = 7" "byteLength [65, 8364] = 4" unfolding byteLength_def e by simp_all
  have n: "nat (max 0 \<lfloor>rat_of_nat 6\<rfloor>) = 6" by simp
  have v: "truncateUtf8 [65, 8364, 8364] (of_nat 6) = ([65, 8364], 4, True)"
    unfolding truncateUtf8_def Let_def n b e(3) by simp
  have "code_points [65, 8364, 8364]" by simp
  from truncate_utf8_bounded[OF this v] have "True \<longrightarrow> prefix [65, 8364] (map scrub [65, 8364, 8364])" by blast
  then show ?thesis using v by (simp only: of_nat_numeral simp_thms)
qed

end
