(* ===== verification/SemanticSnapshot.thy ===== *)
theory SemanticSnapshot
  imports Utf8Text
begin

text \<open>
  \<open>src/browser/semantic-snapshot.ts\<close>: the metadata of a page element, its redaction, the snapshot built
  from it and the compact text a model reads. Texts are Latin-1 strings; the compact content is
  handed to \<open>truncateUtf8\<close> as code points.
\<close>

text \<open>
  A role is a text, except that \<open>inferRole\<close> looks it up in an object literal and so finds the inherited
  members of \<open>Object.prototype\<close> as well, which are not texts.
\<close>

datatype semantic_role = Role string | Inherited

record metadata =
  md_role :: semantic_role
  md_name :: string
  md_tag :: string
  md_type :: "string option"
  md_testId :: "string option"
  md_frameId :: "string option"
  md_visible :: "bool option"
  md_enabled :: "bool option"
  md_editable :: "bool option"
  md_checked :: "bool option"
  md_required :: bool
  md_value :: "string option"
  md_text :: "string option"

record sem_node = metadata +
  nd_ref :: string
  nd_generation :: int
  nd_frameGeneration :: int

datatype snapshot_format = Structured | Compact
datatype truncation_reason = MaxBytes | MaxNodes

record sem_snapshot =
  sn_generation :: int
  sn_pageGeneration :: "int option"
  sn_pageRevision :: "int option"
  sn_frameGeneration :: "int option"
  sn_url :: "string option"
  sn_title :: "string option"
  sn_text :: "string option"
  sn_textTruncated :: bool
  sn_content :: "code_text option"
  sn_contentBytes :: "nat option"
  sn_format :: "snapshot_format option"
  sn_truncated :: "(bool \<times> bool \<times> truncation_reason option) option"
  sn_targets :: "sem_node list"

record snapshot_options =
  so_generation :: "int option"
  so_pageGeneration :: "int option"
  so_frameGeneration :: "int option"
  so_maxNodes :: "rat option"
  so_maxChars :: "rat option"
  so_includeText :: bool
  so_frameId :: "string option"

text \<open>\<open>a ?? b\<close> on an optional body.\<close>

definition or_else :: "'a option \<Rightarrow> 'a \<Rightarrow> 'a" where
  "or_else v d = (case v of Some x \<Rightarrow> x | None \<Rightarrow> d)"

definition redacted :: string where "redacted = ''<redacted>''"

definition sensitive_type :: "string option \<Rightarrow> bool" where
  "sensitive_type t = (case t of Some x \<Rightarrow> ascii_lower x \<in> {''password'', ''hidden'', ''secret''} | None \<Rightarrow> False)"

definition redactControlValue :: "('a) metadata_scheme \<Rightarrow> ('a) metadata_scheme" where
  "redactControlValue m = m\<lparr>md_value := (if sensitive_type (md_type m) \<or> md_value m \<noteq> None then Some redacted else None)\<rparr>"

definition truncateText :: "string \<Rightarrow> rat \<Rightarrow> string \<times> bool" where
  "truncateText v maxChars =
     (let safeMax = nat (max 0 \<lfloor>maxChars\<rfloor>)
      in if length v \<le> safeMax then (v, False) else (take safeMax v, True))"

definition node_limit :: "rat option \<Rightarrow> nat" where
  "node_limit n = nat (max 1 (min 2000 \<lfloor>or_else n 500\<rfloor>))"

definition createSemanticSnapshot :: "sem_node list \<Rightarrow> snapshot_options \<Rightarrow> sem_snapshot" where
  "createSemanticSnapshot candidates opts =
     \<lparr>sn_generation = or_else (so_generation opts) (or_else (so_pageGeneration opts) 0),
      sn_pageGeneration = so_pageGeneration opts, sn_pageRevision = None, sn_frameGeneration = so_frameGeneration opts,
      sn_url = None, sn_title = None, sn_text = None, sn_textTruncated = False, sn_content = None, sn_contentBytes = None,
      sn_format = None, sn_truncated = None,
      sn_targets = map redactControlValue (take (node_limit (so_maxNodes opts)) candidates)\<rparr>"

subsection \<open>Single lines\<close>

text \<open>\<open>.replace(/[...]+/g, ' ')\<close>: every run becomes one space; \<open>inRun\<close> says that one is being read.\<close>

fun collapse :: "(char \<Rightarrow> bool) \<Rightarrow> bool \<Rightarrow> string \<Rightarrow> string" where
  "collapse P inRun [] = []"
| "collapse P inRun (c # cs) =
     (if P c then (if inRun then [] else '' '') @ collapse P True cs else c # collapse P False cs)"

definition singleLine :: "string \<Rightarrow> nat \<Rightarrow> string" where
  "singleLine v maxChars = take maxChars (js_trim (collapse js_white False (collapse control_char False v)))"

text \<open>\<open>.split(/\r?\n/u)\<close>.\<close>

fun split_lines :: "string \<Rightarrow> string list" where
  "split_lines [] = [[]]"
| "split_lines (c # cs) =
     (if code_point c = 10 then [] # split_lines cs
      else if code_point c = 13 \<and> cs \<noteq> [] \<and> code_point (hd cs) = 10 then split_lines cs
      else (case split_lines cs of [] \<Rightarrow> [[c]] | w # ws \<Rightarrow> (c # w) # ws))"

definition newline :: string where "newline = [char_of (10::nat)]"

definition compactText :: "string \<Rightarrow> string" where
  "compactText v = join_with newline (filter (\<lambda>l. l \<noteq> []) (map (\<lambda>l. singleLine l 10000) (split_lines v)))"

text \<open>\<open>JSON.stringify\<close> of a text.\<close>

definition json_escape :: "char \<Rightarrow> string" where
  "json_escape c =
     (let n = code_point c
      in if n = 34 \<or> n = 92 then [char_of (92::nat), c]
         else if n = 8 then [char_of (92::nat), CHR ''b'']
         else if n = 9 then [char_of (92::nat), CHR ''t'']
         else if n = 10 then [char_of (92::nat), CHR ''n'']
         else if n = 12 then [char_of (92::nat), CHR ''f'']
         else if n = 13 then [char_of (92::nat), CHR ''r'']
         else if n < 32 then char_of (92::nat) # ''u00'' @ [hex_char (n div 16), hex_char (n mod 16)]
         else [c])"

definition json_quote :: "string \<Rightarrow> string" where
  "json_quote v = [char_of (34::nat)] @ concat (map json_escape v) @ [char_of (34::nat)]"

definition role_text :: "semantic_role \<Rightarrow> string option" where
  "role_text r = (case r of Role t \<Rightarrow> Some t | Inherited \<Rightarrow> None)"

definition target_attributes :: "sem_node \<Rightarrow> string list" where
  "target_attributes t =
     (case truthy_text (md_type t) of Some ty \<Rightarrow> [''type='' @ json_quote (singleLine ty 64)] | None \<Rightarrow> [])
     @ (if md_required t then [''required''] else [])
     @ (case md_checked t of Some b \<Rightarrow> [''checked='' @ (if b then ''true'' else ''false'')] | None \<Rightarrow> [])
     @ (if md_enabled t = Some False then [''disabled''] else [])
     @ (if md_editable t = Some True then [''editable''] else [])"

text \<open>\<open>None\<close>: the role is not a text, and \<open>replace\<close> throws.\<close>

definition formatTarget :: "sem_node \<Rightarrow> string option" where
  "formatTarget t =
     (case role_text (md_role t) of
        None \<Rightarrow> None
      | Some r \<Rightarrow>
        (let role = singleLine (or_else (truthy_text (Some r)) (or_else (truthy_text (Some (md_tag t))) ''generic'')) 64;
             name = singleLine (or_else (truthy_text (Some (md_name t))) (or_else (md_text t) [])) 500;
             attributes = target_attributes t
         in Some (singleLine (nd_ref t) 100 @ '' ['' @ role @ '']''
              @ (if name = [] then [] else '' '' @ json_quote name)
              @ (if attributes = [] then [] else '' '' @ join_with '' '' attributes))))"

definition MAX_SNAPSHOT_BYTES :: rat where "MAX_SNAPSHOT_BYTES = 4 * 1024 * 1024"

definition header_lines :: "sem_snapshot \<Rightarrow> string list" where
  "header_lines s =
     (case truthy_text (sn_title s) of Some t \<Rightarrow> [''Page: '' @ singleLine t 500] | None \<Rightarrow> [])
     @ (case truthy_text (sn_url s) of Some u \<Rightarrow> [''URL: '' @ singleLine u 2048] | None \<Rightarrow> [])"

definition content_lines :: "string list \<Rightarrow> sem_snapshot \<Rightarrow> string list" where
  "content_lines targets s =
     (let top = header_lines s @ (if header_lines s \<noteq> [] \<and> sn_targets s \<noteq> [] then [[]] else []) @ targets
      in (case truthy_text (sn_text s) of
            None \<Rightarrow> top
          | Some t \<Rightarrow> top @ (if top \<noteq> [] then [[]] else []) @ [''Text:'', compactText t]))"

definition addCompactSnapshotContent ::
  "sem_snapshot \<Rightarrow> rat option \<Rightarrow> snapshot_format option \<Rightarrow> sem_snapshot option" where
  "addCompactSnapshotContent s maxBytes format =
     (case those (map formatTarget (sn_targets s)) of
        None \<Rightarrow> None
      | Some targets \<Rightarrow>
        (let limit = max 100 (min MAX_SNAPSHOT_BYTES (of_int \<lfloor>or_else maxBytes 16000\<rfloor>));
             joined = join_with newline (content_lines targets s);
             (body, bytes, over) = truncateUtf8 (map code_point joined) limit;
             result = s\<lparr>sn_pageRevision := Some (or_else (sn_pageGeneration s) (sn_generation s)),
                        sn_content := Some body, sn_contentBytes := Some bytes,
                        sn_format := Some (or_else format Structured),
                        sn_truncated := Some (over, False, if over then Some MaxBytes else None)\<rparr>
         in Some (if format = Some Compact then result\<lparr>sn_targets := [], sn_text := None, sn_textTruncated := False\<rparr> else result)))"

subsection \<open>The lines of the compact content\<close>

definition plain_line :: "string \<Rightarrow> bool" where
  "plain_line s = (\<forall>c \<in> set s. \<not> control_char c)"

lemma control_code: "control_char c \<longleftrightarrow> code_point c < 32 \<or> code_point c = 127"
  by (simp add: control_char_def code_point_def)

lemma plain_simps [simp]: "plain_line []" "plain_line (c # s) \<longleftrightarrow> \<not> control_char c \<and> plain_line s"
  "plain_line (s @ t) \<longleftrightarrow> plain_line s \<and> plain_line t"
  by (auto simp: plain_line_def)

lemma plain_subset: "plain_line s \<Longrightarrow> set t \<subseteq> set s \<Longrightarrow> plain_line t"
  by (auto simp: plain_line_def)

lemma collapse_set: "set (collapse P r s) \<subseteq> insert (CHR '' '') {c \<in> set s. \<not> P c}"
  by (induction P r s rule: collapse.induct) auto

lemma space_plain [simp]: "\<not> control_char (CHR '' '')"
  by (simp add: control_char_def)

lemma trim_set: "c \<in> set (js_trim s) \<Longrightarrow> c \<in> set s"
  by (auto simp: js_trim_def dest!: set_dropWhileD)

lemma plain_singleLine [simp]: "plain_line (singleLine v n)"
proof -
  have "plain_line (collapse control_char False v)"
    using collapse_set[of control_char False v] by (auto simp: plain_line_def)
  then have "plain_line (collapse js_white False (collapse control_char False v))"
    using collapse_set[of js_white False "collapse control_char False v"] by (auto simp: plain_line_def)
  then show ?thesis
    unfolding singleLine_def by (rule plain_subset) (auto dest!: in_set_takeD trim_set)
qed

lemma plain_char_of: "32 \<le> n \<Longrightarrow> n < 127 \<Longrightarrow> \<not> control_char (char_of (n :: nat))"
  by (simp add: control_char_def)

lemma plain_hex: "n < 16 \<Longrightarrow> \<not> control_char (hex_char n)"
  by (simp add: hex_char_def plain_char_of)

lemma plain_escape: "\<not> control_char c \<Longrightarrow> plain_line (json_escape c)"
  by (simp add: json_escape_def Let_def control_code plain_char_of[unfolded control_code])

lemma plain_quote: "plain_line v \<Longrightarrow> plain_line (json_quote v)"
  using plain_escape by (auto simp: json_quote_def plain_line_def plain_char_of)

lemma plain_join: "plain_line sep \<Longrightarrow> (\<forall>w \<in> set ws. plain_line w) \<Longrightarrow> plain_line (join_with sep ws)"
  by (induction sep ws rule: join_with.induct) auto

lemma plain_literal [simp]: "\<not> control_char (CHR ''['')" "\<not> control_char (CHR '']'')"
  by (simp_all add: control_char_def)

lemma plain_attributes: "w \<in> set (target_attributes t) \<Longrightarrow> plain_line w"
  by (auto simp: target_attributes_def plain_quote control_char_def split: option.splits if_splits)

lemma plain_target:
  assumes "formatTarget t = Some l"
  shows "plain_line l"
proof -
  have "plain_line (join_with '' '' (target_attributes t))" using plain_attributes by (intro plain_join) auto
  then show ?thesis using assms by (auto simp: formatTarget_def Let_def plain_quote split: option.splits)
qed

lemma split_on_app: "split_on c (a @ c # b) = split_on c a @ split_on c b"
  by (induction a) (auto split: list.split)

lemma split_on_join: "ws \<noteq> [] \<Longrightarrow> split_on c (join_with [c] ws) = concat (map (split_on c) ws)"
  by (induction "[c]" ws rule: join_with.induct) (simp_all add: split_on_app)

definition nl :: char where "nl = char_of (10 :: nat)"

lemma plain_split: "plain_line l \<Longrightarrow> split_on nl l = [l]"
  by (rule split_on_single) (auto simp: plain_line_def nl_def control_char_def)

lemma plain_split_all: "\<forall>l \<in> set ls. plain_line l \<Longrightarrow> concat (map (split_on nl) ls) = ls"
  by (induction ls) (simp_all add: plain_split)

lemma plain_top:
  assumes "those (map formatTarget ts) = Some ls"
  shows "length ls = length ts \<and> (\<forall>l \<in> set ls. plain_line l)"
  using assms
proof (induction ts arbitrary: ls)
  case (Cons t ts)
  then show ?case by (auto split: option.splits dest: plain_target)
qed simp

lemma plain_header: "l \<in> set (header_lines s) \<Longrightarrow> plain_line l"
  by (auto simp: header_lines_def control_char_def split: option.splits)

lemma compact_text_plain: "l \<in> set (split_on nl (compactText v)) \<Longrightarrow> plain_line l"
proof -
  define ws where "ws = filter (\<lambda>l. l \<noteq> []) (map (\<lambda>l. singleLine l 10000) (split_lines v))"
  have "\<forall>w \<in> set ws. plain_line w" by (auto simp: ws_def)
  moreover have "compactText v = join_with [nl] ws" by (simp add: compactText_def ws_def newline_def nl_def)
  ultimately have "ws \<noteq> [] \<Longrightarrow> split_on nl (compactText v) = ws" by (simp add: split_on_join plain_split_all)
  moreover have "ws = [] \<Longrightarrow> split_on nl (compactText v) = [[]]" by (simp add: \<open>compactText v = _\<close>)
  ultimately show "l \<in> set (split_on nl (compactText v)) \<Longrightarrow> plain_line l"
    using \<open>\<forall>w \<in> set ws. plain_line w\<close> by (cases "ws = []") auto
qed

text \<open>What a reader of the content sees: the lines of the page's header, one line per target, the text.\<close>

definition content_plan :: "string list \<Rightarrow> sem_snapshot \<Rightarrow> string list" where
  "content_plan targets s =
     (let top = header_lines s @ (if header_lines s \<noteq> [] \<and> sn_targets s \<noteq> [] then [[]] else []) @ targets
      in (case truthy_text (sn_text s) of
            None \<Rightarrow> top
          | Some t \<Rightarrow> top @ (if top \<noteq> [] then [[]] else []) @ [''Text:''] @ split_on nl (compactText t)))"

lemma content_split:
  assumes "those (map formatTarget (sn_targets s)) = Some ls" "content_lines ls s \<noteq> []"
  shows "split_on nl (join_with newline (content_lines ls s)) = content_plan ls s"
proof -
  have t: "\<forall>l \<in> set ls. plain_line l" using plain_top[OF assms(1)] by simp
  have h: "\<forall>l \<in> set (header_lines s). plain_line l" using plain_header by blast
  have x: "plain_line ''Text:''" by (simp add: control_char_def)
  have n: "newline = [nl]" by (simp add: newline_def nl_def)
  show ?thesis
    unfolding n split_on_join[OF assms(2)]
    by (simp add: content_lines_def content_plan_def Let_def plain_split_all t h plain_split[OF x] plain_split[of "[]"] del: split_on.simps split: option.split)
qed

text \<open>
  A page cannot forge targets. In the compact content every target of the snapshot is exactly one
  line, in the order of the snapshot, after the lines of title and address, and no line holds a control
  character; what the page writes as text only ever appears after the line \<open>Text:\<close>, whatever line breaks
  its names, types, title or address contain. The content is those lines joined, cut by \<open>truncateUtf8\<close>
  to a budget between 100 bytes and 4 MiB, and the reported size is that of the content.
\<close>

theorem compact_content_lines:
  assumes "addCompactSnapshotContent s maxBytes format = Some r"
  shows "\<exists>ls joined body bytes over. those (map formatTarget (sn_targets s)) = Some ls
    \<and> length ls = length (sn_targets s)
    \<and> (content_plan ls s \<noteq> [] \<longrightarrow> split_on nl joined = content_plan ls s)
    \<and> list_all plain_line (content_plan ls s)
    \<and> truncateUtf8 (map code_point joined) (max 100 (min (4 * 1024 * 1024) (of_int \<lfloor>or_else maxBytes 16000\<rfloor>))) = (body, bytes, over)
    \<and> sn_content r = Some body \<and> sn_contentBytes r = Some bytes
    \<and> sn_truncated r = Some (over, False, if over then Some MaxBytes else None)
    \<and> bytes = byteLength body \<and> bytes \<le> 4 * 1024 * 1024"
proof -
  obtain ls where ls: "those (map formatTarget (sn_targets s)) = Some ls"
    using assms by (auto simp: addCompactSnapshotContent_def split: option.splits)
  define joined where "joined = join_with newline (content_lines ls s)"
  define limit where "limit = max 100 (min MAX_SNAPSHOT_BYTES (of_int \<lfloor>or_else maxBytes 16000\<rfloor>))"
  obtain body bytes over where tr: "truncateUtf8 (map code_point joined) limit = (body, bytes, over)"
    by (metis surj_pair)
  have r: "sn_content r = Some body \<and> sn_contentBytes r = Some bytes
      \<and> sn_truncated r = Some (over, False, if over then Some MaxBytes else None)"
    using assms ls tr by (auto simp: addCompactSnapshotContent_def Let_def joined_def limit_def split: if_splits)
  have plan: "content_lines ls s = [] \<longleftrightarrow> content_plan ls s = []"
    by (simp add: content_lines_def content_plan_def Let_def split: option.split)
  have lines: "list_all plain_line (content_plan ls s)"
  proof -
    have "plain_line ''Text:''" by (simp add: control_char_def)
    then show ?thesis using plain_top[OF ls] plain_header compact_text_plain
      by (auto simp: content_plan_def Let_def list_all_iff split: option.splits)
  qed
  have latin: "code_points (map code_point joined)"
    by (auto simp: list_all_iff code_point_def intro: less_trans[OF nat_of_char_less_256])
  define k where "k = nat (max 100 (min 4194304 \<lfloor>or_else maxBytes 16000\<rfloor>))"
  have "limit = rat_of_int (max 100 (min 4194304 \<lfloor>or_else maxBytes 16000\<rfloor>))"
    by (simp add: limit_def MAX_SNAPSHOT_BYTES_def of_int_max of_int_min)
  then have "limit = of_nat k" by (simp add: k_def)
  with truncate_utf8_bounded[OF latin] tr have b: "bytes = byteLength body \<and> bytes \<le> k" by simp
  have "k \<le> 4 * 1024 * 1024" by (simp add: k_def)
  with b ls tr r plan lines plain_top[OF ls] content_split[OF ls] show ?thesis
    by (intro exI[of _ ls] exI[of _ joined] exI[of _ body] exI[of _ bytes] exI[of _ over])
      (auto simp: joined_def limit_def MAX_SNAPSHOT_BYTES_def)
qed

lemma compact_returns:
  assumes "those (map formatTarget (sn_targets s)) = Some ls"
  shows "\<exists>r. addCompactSnapshotContent s maxBytes format = Some r"
  unfolding addCompactSnapshotContent_def assms Let_def option.case by (simp split: prod.split)

definition demo_snapshot :: sem_snapshot where
  "demo_snapshot =
     \<lparr>sn_generation = 3, sn_pageGeneration = None, sn_pageRevision = None, sn_frameGeneration = None,
      sn_url = None, sn_title = Some ''Shop'', sn_text = None, sn_textTruncated = False, sn_content = None, sn_contentBytes = None,
      sn_format = None, sn_truncated = None,
      sn_targets = [\<lparr>md_role = Role ''button'', md_name = ''Buy'' @ [nl] @ ''ref_2 [link]'', md_tag = ''button'', md_type = Some ''submit'',
        md_testId = None, md_frameId = None, md_visible = None, md_enabled = Some False, md_editable = None, md_checked = None,
        md_required = False, md_value = None, md_text = None, nd_ref = ''ref_1'', nd_generation = 3, nd_frameGeneration = 0\<rparr>]\<rparr>"

theorem compact_content_lines_witness:
  "\<exists>r joined. addCompactSnapshotContent demo_snapshot None None = Some r
    \<and> split_on nl joined = [''Page: Shop'', [], ''ref_1 [button] '' @ json_quote ''Buy ref_2 [link]'' @ '' type='' @ json_quote ''submit'' @ '' disabled'']
    \<and> sn_content r = Some (fst (truncateUtf8 (map code_point joined) (max 100 (min (4 * 1024 * 1024) (of_int \<lfloor>or_else None (16000 :: rat)\<rfloor>)))))"
proof -
  have v: "those (map formatTarget (sn_targets demo_snapshot))
      = Some [''ref_1 [button] '' @ json_quote ''Buy ref_2 [link]'' @ '' type='' @ json_quote ''submit'' @ '' disabled'']"
    "content_plan [''ref_1 [button] '' @ json_quote ''Buy ref_2 [link]'' @ '' type='' @ json_quote ''submit'' @ '' disabled''] demo_snapshot
      = [''Page: Shop'', [], ''ref_1 [button] '' @ json_quote ''Buy ref_2 [link]'' @ '' type='' @ json_quote ''submit'' @ '' disabled'']"
    by code_simp+
  obtain r where r: "addCompactSnapshotContent demo_snapshot None None = Some r"
    using compact_returns[OF v(1)] by blast
  obtain ls joined body bytes over where c: "those (map formatTarget (sn_targets demo_snapshot)) = Some ls"
      "content_plan ls demo_snapshot \<noteq> [] \<longrightarrow> split_on nl joined = content_plan ls demo_snapshot"
      "truncateUtf8 (map code_point joined) (max 100 (min (4 * 1024 * 1024) (of_int \<lfloor>or_else None (16000 :: rat)\<rfloor>))) = (body, bytes, over)"
      "sn_content r = Some body"
    using compact_content_lines[OF r] by blast
  from c(1) v(1) have ls: "[''ref_1 [button] '' @ json_quote ''Buy ref_2 [link]'' @ '' type='' @ json_quote ''submit'' @ '' disabled''] = ls"
    by (simp only: option.inject)
  have "split_on nl joined = content_plan ls demo_snapshot" using c(2) v(2) unfolding ls by simp
  then show ?thesis using r c(3,4) v(2) unfolding ls by (intro exI[of _ r] exI[of _ joined]) simp
qed

end
