(* ===== verification/TargetRegistry.thy ===== *)
theory TargetRegistry
  imports SemanticSnapshot
begin

text \<open>
  \<open>src/browser/target-registry.ts\<close>: opaque references to page elements, issued with a snapshot of the
  page and resolved later against the live page. A page is what the browser library answers when it is
  asked: \<open>observed\<close> holds the answers for one locator, \<open>page_view\<close> those for a whole page; the clock,
  the random bytes and the URL parser are arguments too. Targets arrive as parsed JSON.
\<close>

datatype target_error =
    InvalidTarget | TargetNotFound | TargetAmbiguous nat | TargetNotActionable | StaleTarget
  | GenerationRange | LocatorFailed

datatype locator =
    ByRole string "string option" "bool option" | ByLabel string bool | ByTestId string | BySelector string
  | Nth string nat

record page_api =
  pg_byRole :: bool
  pg_byLabel :: bool
  pg_byTestId :: bool

text \<open>
  What a locator answers: \<open>count\<close> (\<open>None\<close>: it throws), attributes (\<open>None\<close>: null, missing or failed), its
  text, the four state queries (\<open>None\<close>: the adapter has no such method; a failure is false) and the box
  (\<open>Some None\<close>: null or failed).
\<close>

record observed =
  ob_count :: "nat option"
  ob_attr :: "string \<Rightarrow> string option"
  ob_text :: string
  ob_visible :: "bool option"
  ob_enabled :: "bool option"
  ob_editable :: "bool option"
  ob_checked :: "bool option"
  ob_box :: "(rat \<times> rat) option option"

record target_record =
  tr_target :: json
  tr_metadata :: metadata
  tr_locator :: locator
  tr_generation :: int
  tr_frameGeneration :: int
  tr_frameId :: string
  tr_createdAt :: int

record registry =
  tg_records :: "(string, target_record) jmap"
  tg_sequence :: nat
  tg_generation :: int
  tg_frameGeneration :: int
  tg_maxRefs :: nat
  tg_refTtlMs :: int

definition newRegistry :: "int option \<Rightarrow> int option \<Rightarrow> rat option \<Rightarrow> rat option \<Rightarrow> registry" where
  "newRegistry gen frameGen maxRefs refTtlMs =
     \<lparr>tg_records = [], tg_sequence = 0, tg_generation = or_else gen 0, tg_frameGeneration = or_else frameGen 0,
      tg_maxRefs = nat (max 1 (min 10000 \<lfloor>or_else maxRefs 2000\<rfloor>)),
      tg_refTtlMs = max 100 (min 3600000 \<lfloor>or_else refTtlMs 120000\<rfloor>)\<rparr>"

subsection \<open>References\<close>

fun base36_of :: "nat \<Rightarrow> string" where
  "base36_of n = (if n < 36 then [hex_char n] else base36_of (n div 36) @ [hex_char (n mod 36)])"

declare base36_of.simps [simp del]

definition hex_byte :: "nat \<Rightarrow> string" where
  "hex_byte b = [hex_char (b div 16), hex_char (b mod 16)]"

definition opaqueRef :: "nat \<Rightarrow> nat list \<Rightarrow> string" where
  "opaqueRef counter bytes = ''ref_'' @ base36_of counter @ ''_'' @ concat (map hex_byte bytes)"

subsection \<open>Reading an element\<close>

definition cleanName :: "string option \<Rightarrow> string" where
  "cleanName v = take 200 (js_trim (collapse js_white False (or_else v [])))"

definition ROLE_TAGS :: "(string \<times> string) list" where
  "ROLE_TAGS = [(''button'', ''button''), (''a'', ''link''), (''textarea'', ''textbox''), (''select'', ''combobox'')]"

definition INPUT_ROLES :: "(string \<times> string) list" where
  "INPUT_ROLES = [(''button'', ''button''), (''checkbox'', ''checkbox''), (''email'', ''textbox''), (''number'', ''spinbutton''),
     (''radio'', ''radio''), (''range'', ''slider''), (''reset'', ''button''), (''search'', ''searchbox''), (''submit'', ''button''),
     (''tel'', ''textbox''), (''text'', ''textbox''), (''url'', ''textbox'')]"

text \<open>
  \<open>TABLE[key]\<close> of an object literal: its own entry, else an inherited member (the keys are lower case,
  so only \<open>constructor\<close> and \<open>__proto__\<close> exist), else undefined.
\<close>

definition table_get :: "(string \<times> string) list \<Rightarrow> string \<Rightarrow> semantic_role option" where
  "table_get t k = (case map_of t k of Some r \<Rightarrow> Some (Role r)
     | None \<Rightarrow> if k \<in> {''constructor'', ''__proto__''} then Some Inherited else None)"

definition inferRole :: "string \<Rightarrow> string \<Rightarrow> string option \<Rightarrow> semantic_role" where
  "inferRole tag type explicitRole =
     (case truthy_text explicitRole of
        Some r \<Rightarrow> Role r
      | None \<Rightarrow>
          if tag = ''input'' then or_else (table_get INPUT_ROLES type) (Role ''textbox'')
          else or_else (table_get ROLE_TAGS tag)
                 (Role (if tag = ''div'' then ''generic'' else or_else (truthy_text (Some tag)) ''generic'')))"

text \<open>\<open>a || b\<close> on texts that may be null.\<close>

definition text_or :: "string option \<Rightarrow> string option \<Rightarrow> string option" where
  "text_or a b = (case truthy_text a of Some t \<Rightarrow> Some t | None \<Rightarrow> b)"

definition readMetadata :: "observed \<Rightarrow> metadata option \<Rightarrow> metadata" where
  "readMetadata ob fallback =
     (let attr = ob_attr ob;
          type = cleanName (attr ''type'');
          tag = or_else (text_or (Some (cleanName (attr ''data-semantic-tag''))) (truthy_text (map_option md_tag fallback))) ''unknown'';
          ariaRole = text_or (attr ''role'') (attr ''data-role'');
          testId = (case attr ''data-testid'' of Some t \<Rightarrow> Some t | None \<Rightarrow> attr ''data-test-id'');
          content = cleanName (Some (ob_text ob));
          role = inferRole (ascii_lower tag) (ascii_lower type) ariaRole;
          isFormControl = ascii_lower tag \<in> {''input'', ''textarea'', ''select''};
          name = cleanName (text_or (attr ''aria-label'') (text_or (if isFormControl then None else Some content)
            (text_or (map_option md_name fallback) (text_or (attr ''title'') (text_or (attr ''placeholder'') (attr ''name''))))))
      in redactControlValue
        \<lparr>md_role = role, md_name = name, md_tag = tag,
         md_type = text_or (truthy_text (Some type)) (truthy_text (Option.bind fallback md_type)),
         md_testId = (case truthy_text testId of Some t \<Rightarrow> Some (cleanName (Some t)) | None \<Rightarrow> truthy_text (Option.bind fallback md_testId)),
         md_frameId = truthy_text (Option.bind fallback md_frameId),
         md_visible = ob_visible ob, md_enabled = ob_enabled ob, md_editable = ob_editable ob, md_checked = ob_checked ob,
         md_required = (attr ''required'' \<noteq> None \<or> (case fallback of Some m \<Rightarrow> md_required m | None \<Rightarrow> False)),
         md_value = (case Option.bind fallback md_value of Some _ \<Rightarrow> Some redacted | None \<Rightarrow> None),
         md_text = (if content \<noteq> [] \<and> ascii_lower type \<notin> {''password'', ''hidden''} then Some (take 500 content) else None)\<rparr>)"

subsection \<open>Targets\<close>

definition FORBIDDEN_KEYS :: "string list" where
  "FORBIDDEN_KEYS = [''css'', ''cssSelector'', ''xpath'', ''path'', ''coordinates'', ''coordinate'', ''x'', ''y'', ''script'', ''expression'']"

definition isForbiddenTarget :: "json \<Rightarrow> bool" where
  "isForbiddenTarget t =
     (case t of JObject fs \<Rightarrow> list_ex (\<lambda>k. map_of fs k \<noteq> None) FORBIDDEN_KEYS | JArray _ \<Rightarrow> False | _ \<Rightarrow> True)"

definition target_text :: "json \<Rightarrow> string \<Rightarrow> string option" where
  "target_text t k = truthy_text (jtext (jfield t k))"

definition text_at_most :: "nat \<Rightarrow> json option \<Rightarrow> bool" where
  "text_at_most n v = (case v of None \<Rightarrow> True | Some (JString s) \<Rightarrow> length s \<le> n | Some _ \<Rightarrow> False)"

definition validateSemanticTarget :: "json \<Rightarrow> bool" where
  "validateSemanticTarget t =
     (\<not> isForbiddenTarget t
      \<and> length (filter (\<lambda>k. target_text t k \<noteq> None) [''role'', ''label'', ''testId'', ''selector'']) = 1
      \<and> list_all (\<lambda>k. text_at_most 200 (jfield t k)) [''role'', ''name'', ''label'', ''testId'']
      \<and> (case jfield t ''selector'' of None \<Rightarrow> True | Some (JString s) \<Rightarrow> length s \<le> 2048 \<and> js_trim s \<noteq> [] | Some _ \<Rightarrow> False)
      \<and> (case jfield t ''exact'' of None \<Rightarrow> True | Some (JBool _) \<Rightarrow> True | Some _ \<Rightarrow> False))"

definition exact_of :: "json \<Rightarrow> bool option" where
  "exact_of t = (case jfield t ''exact'' of Some (JBool b) \<Rightarrow> Some b | _ \<Rightarrow> None)"

definition locatorForTarget :: "page_api \<Rightarrow> json \<Rightarrow> target_error + locator" where
  "locatorForTarget page t =
     (if \<not> validateSemanticTarget t then Inl InvalidTarget
      else (case target_text t ''role'' of
         Some r \<Rightarrow> if pg_byRole page then Inr (ByRole r (jtext (jfield t ''name'')) (exact_of t)) else Inl InvalidTarget
       | None \<Rightarrow> (case target_text t ''label'' of
         Some l \<Rightarrow> if pg_byLabel page then Inr (ByLabel l (or_else (exact_of t) True)) else Inl InvalidTarget
       | None \<Rightarrow> (case target_text t ''testId'' of
         Some i \<Rightarrow> if pg_byTestId page then Inr (ByTestId i) else Inl InvalidTarget
       | None \<Rightarrow> (case target_text t ''selector'' of
         Some s \<Rightarrow> Inr (BySelector s)
       | None \<Rightarrow> Inl InvalidTarget)))))"

text \<open>An inherited member is no text; \<open>JNull\<close> stands for it.\<close>

definition role_json :: "semantic_role \<Rightarrow> json" where
  "role_json r = (case r of Role t \<Rightarrow> JString t | Inherited \<Rightarrow> JNull)"

definition semanticTargetFromMetadata :: "('a) metadata_scheme \<Rightarrow> json" where
  "semanticTargetFromMetadata m =
     (case truthy_text (md_testId m) of
        Some i \<Rightarrow> JObject [(''testId'', JString i)]
      | None \<Rightarrow>
          if md_role m \<noteq> Role [] then
            (if md_name m \<noteq> [] then JObject [(''role'', role_json (md_role m)), (''name'', JString (md_name m)), (''exact'', JBool True)]
             else JObject [(''role'', role_json (md_role m))])
          else if md_name m \<noteq> [] then JObject [(''role'', JString ''generic''), (''name'', JString (md_name m)), (''exact'', JBool True)]
          else JObject [(''role'', JString ''generic''), (''exact'', JBool True)])"

subsection \<open>The registry\<close>

definition pruneExpired :: "int \<Rightarrow> registry \<Rightarrow> registry" where
  "pruneExpired now r = r\<lparr>tg_records := filter (\<lambda>p. \<not> now - tr_createdAt (snd p) > tg_refTtlMs r) (tg_records r)\<rparr>"

definition setGeneration :: "jsnum \<Rightarrow> int \<Rightarrow> registry \<Rightarrow> (target_error + unit) \<times> registry" where
  "setGeneration gen frameGen r =
     (case gen of
        IntN g \<Rightarrow> if g < 0 then (Inl GenerationRange, r)
          else (Inr (), r\<lparr>tg_generation := g, tg_frameGeneration := frameGen, tg_records := []\<rparr>)
      | OtherN \<Rightarrow> (Inl GenerationRange, r))"

definition advanceGeneration :: "registry \<Rightarrow> (target_error + int) \<times> registry" where
  "advanceGeneration r =
     (case setGeneration (IntN (tg_generation r + 1)) 0 r of
        (Inl e, r') \<Rightarrow> (Inl e, r') | (Inr _, r') \<Rightarrow> (Inr (tg_generation r'), r'))"

definition invalidate :: "int option \<Rightarrow> int option \<Rightarrow> registry \<Rightarrow> registry" where
  "invalidate gen frameGen r =
     (if gen = None \<and> frameGen = None then r\<lparr>tg_records := []\<rparr>
      else r\<lparr>tg_records := filter (\<lambda>p. \<not> ((gen \<noteq> None \<and> gen \<noteq> Some (tr_generation (snd p)))
             \<or> (frameGen \<noteq> None \<and> frameGen \<noteq> Some (tr_frameGeneration (snd p))))) (tg_records r)\<rparr>)"

definition clearRefs :: "registry \<Rightarrow> registry" where
  "clearRefs r = r\<lparr>tg_records := []\<rparr>"

text \<open>The loop that makes room for one more record.\<close>

fun evict_oldest :: "nat \<Rightarrow> (string, target_record) jmap \<Rightarrow> (string, target_record) jmap" where
  "evict_oldest maxRefs [] = []"
| "evict_oldest maxRefs (p # ps) = (if length (p # ps) \<ge> maxRefs then evict_oldest maxRefs ps else p # ps)"

record ref_context =
  rc_generation :: "int option"
  rc_frameGeneration :: "int option"
  rc_frameId :: "string option"

text \<open>\<open>clock\<close>: the time when \<open>register\<close> prunes and when it stores.\<close>

definition registerTarget ::
  "int \<times> int \<Rightarrow> nat list \<Rightarrow> json \<Rightarrow> locator \<Rightarrow> metadata \<Rightarrow> ref_context \<Rightarrow> registry \<Rightarrow> (target_error + string) \<times> registry" where
  "registerTarget clock bytes target locator m ctx r =
     (if \<not> validateSemanticTarget target then (Inl InvalidTarget, r)
      else (let r1 = pruneExpired (fst clock) r;
                counter = Suc (tg_sequence r1);
                ref = opaqueRef counter bytes;
                frameId = or_else (rc_frameId ctx) (or_else (md_frameId m) ''main'')
            in (Inr ref, r1\<lparr>tg_sequence := counter,
                 tg_records := jset (evict_oldest (tg_maxRefs r1) (tg_records r1)) ref
                   \<lparr>tr_target = target, tr_metadata = redactControlValue (m\<lparr>md_frameId := Some frameId\<rparr>), tr_locator = locator,
                    tr_generation = or_else (rc_generation ctx) (tg_generation r1),
                    tr_frameGeneration = or_else (rc_frameGeneration ctx) (tg_frameGeneration r1),
                    tr_frameId = frameId, tr_createdAt = snd clock\<rparr>\<rparr>)))"

definition getRecord :: "int \<Rightarrow> string \<Rightarrow> registry \<Rightarrow> target_record option \<times> registry" where
  "getRecord now ref r = (let r1 = pruneExpired now r in (map_of (tg_records r1) ref, r1))"

definition registrySize :: "int \<Rightarrow> registry \<Rightarrow> nat \<times> registry" where
  "registrySize now r = (let r1 = pruneExpired now r in (length (tg_records r1), r1))"

subsection \<open>Resolution\<close>

text \<open>What a caller expects of an element; \<open>None\<close> is a field it does not name.\<close>

record expectation =
  ex_role :: "semantic_role option"
  ex_name :: "string option"
  ex_tag :: "string option"
  ex_type :: "string option"
  ex_frameId :: "string option"

definition expectation_of :: "('a) metadata_scheme \<Rightarrow> expectation" where
  "expectation_of m = \<lparr>ex_role = Some (md_role m), ex_name = Some (md_name m), ex_tag = Some (md_tag m), ex_type = md_type m,
     ex_frameId = md_frameId m\<rparr>"

definition field_matches :: "bool \<Rightarrow> semantic_role option \<Rightarrow> semantic_role option \<Rightarrow> bool" where
  "field_matches allowUnknown current v =
     (v = None \<or> current = v \<or> (allowUnknown \<and> v \<in> {Some (Role ''unknown''), Some (Role ''generic''), Some (Role [])}))"

definition metadataMatches :: "bool \<Rightarrow> metadata \<Rightarrow> expectation \<Rightarrow> bool" where
  "metadataMatches allowUnknown current ex =
     (field_matches allowUnknown (Some (md_role current)) (ex_role ex)
      \<and> field_matches allowUnknown (Some (Role (md_name current))) (map_option Role (ex_name ex))
      \<and> field_matches allowUnknown (Some (Role (md_tag current))) (map_option Role (ex_tag ex))
      \<and> field_matches allowUnknown (map_option Role (md_type current)) (map_option Role (ex_type ex))
      \<and> field_matches allowUnknown (map_option Role (md_frameId current)) (map_option Role (ex_frameId ex)))"

definition assertActionable :: "observed \<Rightarrow> metadata \<Rightarrow> target_error option" where
  "assertActionable ob m =
     (if \<not> or_else (ob_visible ob) True then Some TargetNotActionable
      else if \<not> or_else (ob_enabled ob) True then Some TargetNotActionable
      else if (case ob_box ob of None \<Rightarrow> False | Some None \<Rightarrow> True | Some (Some (w, h)) \<Rightarrow> w \<le> 0 \<or> h \<le> 0) then Some TargetNotActionable
      else if map_option ascii_lower (md_type m) = Some ''hidden'' then Some TargetNotActionable
      else None)"

record resolve_options =
  ro_page :: "page_api option"
  ro_generation :: "int option"
  ro_frameGeneration :: "int option"
  ro_expected :: "expectation option"
  ro_requireActionable :: bool

record resolution =
  rs_locator :: locator
  rs_metadata :: metadata
  rs_generation :: int
  rs_frameGeneration :: int
  rs_frameId :: string
  rs_box :: "(rat \<times> rat) option"

text \<open>
  The page may change between the awaits: \<open>live 0\<close> answers \<open>count\<close>, \<open>live 1\<close> the metadata, \<open>live 2\<close> the
  check for action and \<open>live 3\<close> the box.
\<close>

type_synonym live_page = "nat \<Rightarrow> locator \<Rightarrow> observed"

definition checkLocator :: "live_page \<Rightarrow> locator \<Rightarrow> target_error option" where
  "checkLocator live l =
     (case ob_count (live 0 l) of
        None \<Rightarrow> Some LocatorFailed
      | Some n \<Rightarrow> if n = 0 then Some TargetNotFound else if n \<noteq> 1 then Some (TargetAmbiguous n) else None)"

definition resolveRecord :: "live_page \<Rightarrow> resolve_options \<Rightarrow> target_record \<Rightarrow> target_error + resolution" where
  "resolveRecord live opts rec =
     (case (case ro_page opts of Some page \<Rightarrow> locatorForTarget page (tr_target rec) | None \<Rightarrow> Inr (tr_locator rec)) of
        Inl e \<Rightarrow> Inl e
      | Inr l \<Rightarrow>
        (case checkLocator live l of
           Some e \<Rightarrow> Inl e
         | None \<Rightarrow>
           (let current = readMetadata (live 1 l) (Some (tr_metadata rec))
            in if \<not> metadataMatches True current (expectation_of (tr_metadata rec)) then Inl StaleTarget
               else if (case ro_expected opts of Some ex \<Rightarrow> \<not> metadataMatches False current ex | None \<Rightarrow> False) then Inl StaleTarget
               else (case (if ro_requireActionable opts then assertActionable (live 2 l) current else None) of
                  Some e \<Rightarrow> Inl e
                | None \<Rightarrow> Inr \<lparr>rs_locator = l, rs_metadata = redactControlValue current, rs_generation = tr_generation rec,
                    rs_frameGeneration = tr_frameGeneration rec, rs_frameId = tr_frameId rec,
                    rs_box = (case ob_box (live 3 l) of Some b \<Rightarrow> b | None \<Rightarrow> None)\<rparr>))))"

definition resolveRef :: "int \<Rightarrow> live_page \<Rightarrow> string \<Rightarrow> resolve_options \<Rightarrow> registry \<Rightarrow> (target_error + resolution) \<times> registry" where
  "resolveRef now live ref opts r =
     (let r1 = pruneExpired now r
      in (case map_of (tg_records r1) ref of
            None \<Rightarrow> (Inl TargetNotFound, r1)
          | Some rec \<Rightarrow>
              if tr_generation rec \<noteq> or_else (ro_generation opts) (tg_generation r1)
                 \<or> tr_frameGeneration rec \<noteq> or_else (ro_frameGeneration opts) (tg_frameGeneration r1)
              then (Inl StaleTarget, r1)
              else (resolveRecord live opts rec, r1)))"

definition resolveDirect :: "live_page \<Rightarrow> page_api \<Rightarrow> json \<Rightarrow> bool \<Rightarrow> target_error + (locator \<times> metadata)" where
  "resolveDirect live page target requireActionable =
     (case locatorForTarget page target of
        Inl e \<Rightarrow> Inl e
      | Inr l \<Rightarrow>
        (case checkLocator live l of
           Some e \<Rightarrow> Inl e
         | None \<Rightarrow>
           (let m = readMetadata (live 1 l) None
            in (case (if requireActionable then assertActionable (live 2 l) m else None) of
                  Some e \<Rightarrow> Inl e | None \<Rightarrow> Inr (l, redactControlValue m)))))"

subsection \<open>Snapshots\<close>

text \<open>
  What a page answers while \<open>snapshot\<close> reads it: the \<open>for\<close> and text of its labels up to the first
  failure, how many elements a selector matches (\<open>None\<close>: it throws), each element and its object
  identity, the text of the body (\<open>None\<close>: it throws), the title and the address.
\<close>

record page_view =
  pv_labels :: "(string option \<times> string) list"
  pv_count :: "string \<Rightarrow> nat option"
  pv_item :: "locator \<Rightarrow> observed"
  pv_identity :: "locator \<Rightarrow> nat"
  pv_body :: "string option"
  pv_title :: "string option"
  pv_url :: "string option"

record snap_state =
  ss_registry :: registry
  ss_nodes :: "sem_node list"
  ss_seen :: "nat list"
  ss_error :: "target_error option"

definition FIXED_SELECTORS :: "(string \<times> string) list" where
  "FIXED_SELECTORS = [(''button'', ''button''), (''a[href]'', ''a''), (''input'', ''input''), (''textarea'', ''textarea''),
     (''select'', ''select''), (''[role]:not(button):not(a[href]):not(input):not(textarea):not(select)'', ''unknown''),
     (''[contenteditable=\"true\"]:not([role])'', ''div'')]"

definition labelsByControlId :: "nat \<Rightarrow> (string option \<times> string) list \<Rightarrow> (string, string) jmap" where
  "labelsByControlId maxNodes labels =
     foldl (\<lambda>m (i, t). case truthy_text i of
              Some k \<Rightarrow> if cleanName (Some t) \<noteq> [] then jset m k (cleanName (Some t)) else m
            | None \<Rightarrow> m) [] (take maxNodes labels)"

definition no_metadata :: "semantic_role \<Rightarrow> string \<Rightarrow> metadata" where
  "no_metadata role tag = \<lparr>md_role = role, md_name = [], md_tag = tag, md_type = None, md_testId = None, md_frameId = None,
     md_visible = None, md_enabled = None, md_editable = None, md_checked = None, md_required = False, md_value = None, md_text = None\<rparr>"

definition item_metadata :: "page_view \<Rightarrow> (string, string) jmap \<Rightarrow> string \<Rightarrow> locator \<Rightarrow> metadata" where
  "item_metadata view labels hint item =
     (let m = readMetadata (pv_item view item)
                (Some (no_metadata (if hint = ''unknown'' then Role ''generic'' else inferRole hint [] None) hint));
          labelName = (case truthy_text (ob_attr (pv_item view item) ''id'') of Some i \<Rightarrow> map_of labels i | None \<Rightarrow> None)
      in (case truthy_text labelName of Some n \<Rightarrow> m\<lparr>md_name := n\<rparr> | None \<Rightarrow> m))"

text \<open>One element; the \<open>n\<close>-th reference is issued at the times \<open>clock n\<close> with the random bytes \<open>rnd n\<close>.\<close>

definition snapItem ::
  "page_view \<Rightarrow> snapshot_options \<Rightarrow> (nat \<Rightarrow> int \<times> int) \<Rightarrow> (nat \<Rightarrow> nat list) \<Rightarrow> (string, string) jmap \<Rightarrow> string
   \<Rightarrow> locator \<Rightarrow> snap_state \<Rightarrow> snap_state" where
  "snapItem view opts clock rnd labels hint item st =
     (if pv_identity view item \<in> set (ss_seen st) then st
      else (let m = item_metadata view labels hint item;
                r = ss_registry st;
                gen = or_else (so_generation opts) (tg_generation r);
                frameGen = or_else (so_frameGeneration opts) (tg_frameGeneration r);
                st1 = st\<lparr>ss_seen := pv_identity view item # ss_seen st\<rparr>
            in if md_name m = [] \<and> md_role m = Role ''generic'' then st1
               else (case registerTarget (clock (tg_sequence r)) (rnd (tg_sequence r)) (semanticTargetFromMetadata m) item m
                       \<lparr>rc_generation = Some gen, rc_frameGeneration = Some frameGen,
                        rc_frameId = Some (or_else (so_frameId opts) (or_else (md_frameId m) ''main''))\<rparr> r of
                  (Inl e, r') \<Rightarrow> st1\<lparr>ss_registry := r', ss_error := Some e\<rparr>
                | (Inr ref, r') \<Rightarrow> st1\<lparr>ss_registry := r',
                    ss_nodes := ss_nodes st @ [metadata.extend (redactControlValue m) (sem_node.fields ref gen frameGen)]\<rparr>)))"

fun snapItems :: "(locator \<Rightarrow> snap_state \<Rightarrow> snap_state) \<Rightarrow> locator list \<Rightarrow> snap_state \<Rightarrow> snap_state" where
  "snapItems f [] st = st"
| "snapItems f (x # xs) st = (if ss_error (f x st) \<noteq> None then f x st else snapItems f xs (f x st))"

fun snapSelectors ::
  "(string \<Rightarrow> locator \<Rightarrow> snap_state \<Rightarrow> snap_state) \<Rightarrow> (string \<Rightarrow> nat option) \<Rightarrow> nat \<Rightarrow> (string \<times> string) list
   \<Rightarrow> snap_state \<Rightarrow> snap_state" where
  "snapSelectors f count maxNodes [] st = st"
| "snapSelectors f count maxNodes ((sel, hint) # rest) st =
     (if length (ss_nodes st) \<ge> maxNodes then st
      else (case count sel of
         None \<Rightarrow> st\<lparr>ss_error := Some LocatorFailed\<rparr>
       | Some n \<Rightarrow>
           (let st' = snapItems (f hint) (map (Nth sel) [0..<min n (maxNodes - length (ss_nodes st))]) st
            in if ss_error st' \<noteq> None then st' else snapSelectors f count maxNodes rest st')))"

text \<open>\<open>parse\<close>: the address without search and hash, when it can be parsed.\<close>

definition sanitizePageUrl :: "(string \<Rightarrow> string option) \<Rightarrow> string \<Rightarrow> string" where
  "sanitizePageUrl parse v = or_else (parse v) []"

definition text_limit :: "rat option \<Rightarrow> nat" where
  "text_limit n = nat (max 0 (min 100000 \<lfloor>or_else n 10000\<rfloor>))"

definition takeSnapshot ::
  "(string \<Rightarrow> string option) \<Rightarrow> (nat \<Rightarrow> int \<times> int) \<Rightarrow> (nat \<Rightarrow> nat list) \<Rightarrow> page_view \<Rightarrow> snapshot_options \<Rightarrow> registry
   \<Rightarrow> (target_error + sem_snapshot) \<times> registry" where
  "takeSnapshot parse clock rnd view opts r =
     (let maxNodes = node_limit (so_maxNodes opts);
          st = snapSelectors (snapItem view opts clock rnd (labelsByControlId maxNodes (pv_labels view))) (pv_count view) maxNodes
                 FIXED_SELECTORS \<lparr>ss_registry = r, ss_nodes = [], ss_seen = [], ss_error = None\<rparr>
      in (case ss_error st of
            Some e \<Rightarrow> (Inl e, ss_registry st)
          | None \<Rightarrow>
            (let gen = or_else (so_generation opts) (tg_generation (ss_registry st));
                 body = (if so_includeText opts then pv_body view else None);
                 limit = text_limit (so_maxChars opts);
                 base = createSemanticSnapshot (ss_nodes st)
                          (opts\<lparr>so_generation := Some gen, so_pageGeneration := Some (or_else (so_pageGeneration opts) gen)\<rparr>)
             in (Inr (base\<lparr>sn_targets := ss_nodes st, sn_text := map_option (take limit) body,
                          sn_textTruncated := (case body of Some t \<Rightarrow> length t > limit | None \<Rightarrow> False),
                          sn_url := map_option (sanitizePageUrl parse) (pv_url view),
                          sn_title := map_option (take 500) (pv_title view)\<rparr>), ss_registry st))))"

subsection \<open>Later registries\<close>

lemma hex_char_36: "n < 36 \<Longrightarrow> hex_char n \<noteq> CHR ''_''"
proof -
  have "list_all (\<lambda>n. hex_char n \<noteq> CHR ''_'') [0..<36]" by code_simp
  then show "n < 36 \<Longrightarrow> hex_char n \<noteq> CHR ''_''" by (auto simp: list_all_iff)
qed

lemma hex_char_36_inj: "n < 36 \<Longrightarrow> m < 36 \<Longrightarrow> hex_char n = hex_char m \<Longrightarrow> n = m"
proof -
  have "distinct (map hex_char [0..<36])" by code_simp
  then show "n < 36 \<Longrightarrow> m < 36 \<Longrightarrow> hex_char n = hex_char m \<Longrightarrow> n = m"
    by (auto simp: distinct_map inj_on_def)
qed

lemma base36_chars: "CHR ''_'' \<notin> set (base36_of n)"
proof (induction n rule: base36_of.induct)
  case (1 n)
  then show ?case using hex_char_36[of n] hex_char_36[of "n mod 36"] by (subst base36_of.simps) auto
qed

lemma base36_inj: "base36_of n = base36_of m \<Longrightarrow> n = m"
proof (induction n arbitrary: m rule: base36_of.induct)
  case (1 n)
  have ne: "base36_of k \<noteq> []" for k by (subst base36_of.simps) simp
  have eq: "(if n < 36 then [hex_char n] else base36_of (n div 36) @ [hex_char (n mod 36)])
      = (if m < 36 then [hex_char m] else base36_of (m div 36) @ [hex_char (m mod 36)])"
    using "1.prems" base36_of.simps[of n] base36_of.simps[of m] by metis
  show ?case
  proof (cases "n < 36"; cases "m < 36")
    assume "\<not> n < 36" "\<not> m < 36"
    with eq have "base36_of (n div 36) = base36_of (m div 36)" "hex_char (n mod 36) = hex_char (m mod 36)" by auto
    with "1.IH"[OF \<open>\<not> n < 36\<close>] hex_char_36_inj[of "n mod 36" "m mod 36"] have "n div 36 = m div 36" "n mod 36 = m mod 36" by auto
    then show "n = m" by (metis div_mult_mod_eq)
  qed (use eq ne hex_char_36_inj in \<open>auto simp: Cons_eq_append_conv append_eq_Cons_conv\<close>)
qed

lemma opaqueRef_counter:
  assumes "opaqueRef k b = opaqueRef k' b'"
  shows "k = k'"
proof -
  have t: "takeWhile (\<lambda>c. c \<noteq> CHR ''_'') (base36_of n @ CHR ''_'' # x) = base36_of n" for n x
    by (subst takeWhile_append2) (use base36_chars[of n] in \<open>auto\<close>)
  have "base36_of k @ CHR ''_'' # concat (map hex_byte b) = base36_of k' @ CHR ''_'' # concat (map hex_byte b')"
    using assms by (simp add: opaqueRef_def)
  then have "base36_of k = base36_of k'" using t by metis
  then show ?thesis by (rule base36_inj)
qed

text \<open>A registry that comes later: counters only grow, and a reference in it is an old one or newly minted.\<close>

definition later :: "registry \<Rightarrow> registry \<Rightarrow> bool" where
  "later r r' \<longleftrightarrow> tg_sequence r \<le> tg_sequence r'
     \<and> (\<forall>ref \<in> set (jkeys (tg_records r')). ref \<in> set (jkeys (tg_records r))
          \<or> (\<exists>k b. tg_sequence r < k \<and> k \<le> tg_sequence r' \<and> ref = opaqueRef k b))"

definition redacted_ok :: "('a) metadata_scheme \<Rightarrow> bool" where
  "redacted_ok m \<longleftrightarrow> (md_value m = None \<or> md_value m = Some redacted) \<and> (sensitive_type (md_type m) \<longrightarrow> md_value m = Some redacted)"

definition record_ok :: "nat \<Rightarrow> string \<times> target_record \<Rightarrow> bool" where
  "record_ok n p \<longleftrightarrow> redacted_ok (tr_metadata (snd p)) \<and> (\<exists>k b. k \<le> n \<and> fst p = opaqueRef k b)"

definition registry_inv :: "registry \<Rightarrow> bool" where
  "registry_inv r \<longleftrightarrow> jwf (tg_records r) \<and> 0 < tg_maxRefs r \<and> tg_maxRefs r \<le> 10000 \<and> length (tg_records r) \<le> tg_maxRefs r
     \<and> (\<forall>p \<in> set (tg_records r). record_ok (tg_sequence r) p)"

lemma record_ok_mono: "record_ok n p \<Longrightarrow> n \<le> m \<Longrightarrow> record_ok m p"
  unfolding record_ok_def by (meson le_trans)

lemma redact_ok [simp]: "redacted_ok (redactControlValue m)"
  by (simp add: redacted_ok_def redactControlValue_def)

lemma later_refl [simp]: "later r r"
  by (auto simp: later_def)

lemma later_trans:
  assumes "later a b" "later b c"
  shows "later a c"
proof -
  have "ref \<in> set (jkeys (tg_records a)) \<or> (\<exists>k x. tg_sequence a < k \<and> k \<le> tg_sequence c \<and> ref = opaqueRef k x)"
    if "ref \<in> set (jkeys (tg_records c))" for ref
    using that assms unfolding later_def by (meson le_trans less_le_trans order_le_less_trans)
  then show ?thesis using assms unfolding later_def by (meson le_trans)
qed

text \<open>Operations that only drop records.\<close>

definition drops :: "registry \<Rightarrow> registry \<Rightarrow> bool" where
  "drops r r' \<longleftrightarrow> subseq (tg_records r') (tg_records r) \<and> tg_sequence r' = tg_sequence r \<and> tg_maxRefs r' = tg_maxRefs r"

lemma subseq_set: "subseq xs ys \<Longrightarrow> set xs \<subseteq> set ys"
  by (auto elim: list_emb_set)

lemma subseq_distinct: "subseq xs ys \<Longrightarrow> distinct ys \<Longrightarrow> distinct xs"
  by (induction xs ys rule: list_emb.induct) (auto dest: subseq_set)

lemma drops_refl [simp]: "drops r r"
  by (simp add: drops_def)

lemma drops_later: "drops r r' \<Longrightarrow> later r r'"
  unfolding drops_def later_def by (metis subseq_set subseq_map subsetD order_refl)

lemma drops_inv: "drops r r' \<Longrightarrow> registry_inv r \<Longrightarrow> registry_inv r'"
  unfolding drops_def registry_inv_def
  by (auto dest: subseq_distinct[OF subseq_map] list_emb_length subseq_set)

lemma pruneExpired_drops [simp]: "drops r (pruneExpired now r)"
  by (simp add: drops_def pruneExpired_def subseq_filter_left)

lemma setGeneration_drops: "drops r (snd (setGeneration gen frameGen r))"
  by (simp add: drops_def setGeneration_def split: jsnum.split)

lemma advanceGeneration_drops: "drops r (snd (advanceGeneration r))"
  using setGeneration_drops[of r "IntN (tg_generation r + 1)" 0] by (auto simp: advanceGeneration_def split: prod.split sum.split)

lemma invalidate_drops: "drops r (invalidate gen frameGen r)"
  by (simp add: drops_def invalidate_def subseq_filter_left)

lemma clearRefs_drops: "drops r (clearRefs r)"
  by (simp add: drops_def clearRefs_def)

lemma resolveRef_drops: "drops r (snd (resolveRef now live ref opts r))"
  by (simp add: resolveRef_def Let_def split: option.split)

lemma getRecord_drops: "drops r (snd (getRecord now ref r))"
  by (simp add: getRecord_def Let_def)

lemma registrySize_drops: "drops r (snd (registrySize now r))"
  by (simp add: registrySize_def Let_def)

lemma evict_oldest_subseq: "subseq (evict_oldest n ps) ps"
  by (induction n ps rule: evict_oldest.induct) auto

lemma evict_oldest_length: "0 < n \<Longrightarrow> length (evict_oldest n ps) < n"
  by (induction n ps rule: evict_oldest.induct) auto

lemma registerTarget_later:
  assumes "registry_inv r"
  shows "later r (snd (registerTarget clock bytes target l m ctx r)) \<and> registry_inv (snd (registerTarget clock bytes target l m ctx r))"
proof (cases "validateSemanticTarget target")
  case True
  define r1 where "r1 = pruneExpired (fst clock) r"
  define es where "es = evict_oldest (tg_maxRefs r1) (tg_records r1)"
  have i: "registry_inv r1" "later r r1" using drops_inv[OF pruneExpired_drops assms] drops_later[OF pruneExpired_drops] by (simp_all add: r1_def)
  have sub: "subseq es (tg_records r1)" by (simp add: es_def evict_oldest_subseq)
  have "drops r1 (r1\<lparr>tg_records := es\<rparr>)" using sub by (simp add: drops_def)
  then have e: "registry_inv (r1\<lparr>tg_records := es\<rparr>)" using i(1) drops_inv by blast
  have new: "map_of es (opaqueRef (Suc (tg_sequence r1)) bytes) = None"
  proof -
    have "opaqueRef (Suc (tg_sequence r1)) bytes \<notin> set (jkeys es)"
      using e opaqueRef_counter by (fastforce simp: registry_inv_def record_ok_def)
    then show ?thesis by (simp add: map_of_eq_None_iff)
  qed
  have len: "length es < tg_maxRefs r1" using i(1) by (simp add: es_def evict_oldest_length registry_inv_def)
  obtain rec where s: "snd (registerTarget clock bytes target l m ctx r)
      = r1\<lparr>tg_sequence := Suc (tg_sequence r1), tg_records := es @ [(opaqueRef (Suc (tg_sequence r1)) bytes, rec)]\<rparr>"
      and rec: "redacted_ok (tr_metadata rec)"
    using True by (simp add: registerTarget_def Let_def r1_def[symmetric] es_def[symmetric] jset_fresh[OF new])
  have "record_ok (Suc (tg_sequence r1)) (opaqueRef (Suc (tg_sequence r1)) bytes, rec)"
    using rec by (auto simp: record_ok_def)
  moreover have "\<forall>p \<in> set es. record_ok (Suc (tg_sequence r1)) p"
    using e record_ok_mono[of "tg_sequence r1" _ "Suc (tg_sequence r1)"] by (simp add: registry_inv_def)
  ultimately have "registry_inv (snd (registerTarget clock bytes target l m ctx r))"
    using e len new unfolding s registry_inv_def by (simp add: map_of_eq_None_iff less_imp_le_nat Suc_le_eq)
  moreover have "later r1 (snd (registerTarget clock bytes target l m ctx r))"
    using subseq_set[OF subseq_map[OF sub, of fst]] unfolding s later_def by auto
  ultimately show ?thesis using later_trans[OF i(2)] by blast
qed (use assms in \<open>simp add: registerTarget_def\<close>)

definition advances :: "(snap_state \<Rightarrow> snap_state) \<Rightarrow> bool" where
  "advances f \<longleftrightarrow> (\<forall>st. registry_inv (ss_registry st)
     \<longrightarrow> later (ss_registry st) (ss_registry (f st)) \<and> registry_inv (ss_registry (f st)))"

lemma snapItem_registry:
  "ss_registry (snapItem view opts clock rnd labels hint item st) = ss_registry st
   \<or> (\<exists>c b t m ctx. ss_registry (snapItem view opts clock rnd labels hint item st) = snd (registerTarget c b t item m ctx (ss_registry st)))"
proof -
  define m where "m = item_metadata view labels hint item"
  define r where "r = ss_registry st"
  define gen where "gen = or_else (so_generation opts) (tg_generation r)"
  define frameGen where "frameGen = or_else (so_frameGeneration opts) (tg_frameGeneration r)"
  obtain res r' where e: "registerTarget (clock (tg_sequence r)) (rnd (tg_sequence r)) (semanticTargetFromMetadata m) item m
       \<lparr>rc_generation = Some gen, rc_frameGeneration = Some frameGen,
        rc_frameId = Some (or_else (so_frameId opts) (or_else (md_frameId m) ''main''))\<rparr> r = (res, r')" by fastforce
  from arg_cong[OF this, of snd] have "r' = snd (registerTarget (clock (tg_sequence r)) (rnd (tg_sequence r)) (semanticTargetFromMetadata m) item m
       \<lparr>rc_generation = Some gen, rc_frameGeneration = Some frameGen,
        rc_frameId = Some (or_else (so_frameId opts) (or_else (md_frameId m) ''main''))\<rparr> r)" by simp
  moreover have "ss_registry (snapItem view opts clock rnd labels hint item st) \<in> {r, r'}"
    unfolding snapItem_def Let_def m_def[symmetric] r_def[symmetric] gen_def[symmetric] frameGen_def[symmetric] e
    by (cases res) (simp_all add: r_def)
  ultimately show ?thesis unfolding r_def by blast
qed

lemma snapItem_advances: "advances (snapItem view opts clock rnd labels hint item)"
  unfolding advances_def using snapItem_registry registerTarget_later later_refl by metis

lemma snapItems_advances: "(\<And>x. advances (f x)) \<Longrightarrow> advances (snapItems f xs)"
proof (induction xs)
  case (Cons x xs)
  then show ?case unfolding advances_def by (auto intro: later_trans)
qed (simp add: advances_def)

lemma snapSelectors_advances: "(\<And>h x. advances (f h x)) \<Longrightarrow> advances (snapSelectors f count n sels)"
proof (induction sels)
  case (Cons sh sels)
  obtain sel hint where sh: "sh = (sel, hint)" by (cases sh)
  have items: "advances (snapItems (f hint) xs)" for xs using Cons.prems by (rule snapItems_advances)
  have rest: "advances (snapSelectors f count n sels)" using Cons by blast
  show ?case
    unfolding advances_def sh
  proof (intro allI impI)
    fix st :: snap_state
    assume i: "registry_inv (ss_registry st)"
    define st' where "st' = (\<lambda>k. snapItems (f hint) (map (Nth sel) [0..<min k (n - length (ss_nodes st))]) st)"
    have a: "later (ss_registry st) (ss_registry (st' k)) \<and> registry_inv (ss_registry (st' k))" for k
      using items i by (simp add: advances_def st'_def)
    then have "later (ss_registry st) (ss_registry (snapSelectors f count n sels (st' k)))
        \<and> registry_inv (ss_registry (snapSelectors f count n sels (st' k)))" for k
      using rest unfolding advances_def by (blast intro: later_trans)
    with a i show "later (ss_registry st) (ss_registry (snapSelectors f count n ((sel, hint) # sels) st))
        \<and> registry_inv (ss_registry (snapSelectors f count n ((sel, hint) # sels) st))"
      by (simp add: Let_def st'_def split: option.split)
  qed
qed (simp add: advances_def)

lemma takeSnapshot_registry:
  "snd (takeSnapshot parse clock rnd view opts r)
     = ss_registry (snapSelectors (snapItem view opts clock rnd (labelsByControlId (node_limit (so_maxNodes opts)) (pv_labels view)))
         (pv_count view) (node_limit (so_maxNodes opts)) FIXED_SELECTORS \<lparr>ss_registry = r, ss_nodes = [], ss_seen = [], ss_error = None\<rparr>)"
  by (simp add: takeSnapshot_def Let_def split: option.split)

lemma takeSnapshot_later:
  assumes "registry_inv r"
  shows "later r (snd (takeSnapshot parse clock rnd view opts r)) \<and> registry_inv (snd (takeSnapshot parse clock rnd view opts r))"
proof -
  have "advances (snapSelectors (snapItem view opts clock rnd (labelsByControlId (node_limit (so_maxNodes opts)) (pv_labels view)))
         (pv_count view) (node_limit (so_maxNodes opts)) FIXED_SELECTORS)"
    by (rule snapSelectors_advances) (rule snapItem_advances)
  with assms show ?thesis unfolding takeSnapshot_registry advances_def by (metis snap_state.select_convs(1))
qed

subsection \<open>Runs\<close>

datatype reg_op =
    OpRegister "int \<times> int" "nat list" json locator metadata ref_context
  | OpGeneration jsnum int | OpAdvance | OpInvalidate "int option" "int option" | OpClear
  | OpSize int | OpGet int string | OpResolve int live_page string resolve_options
  | OpSnapshot "string \<Rightarrow> string option" "nat \<Rightarrow> int \<times> int" "nat \<Rightarrow> nat list" page_view snapshot_options

fun reg_step :: "registry \<Rightarrow> reg_op \<Rightarrow> registry" where
  "reg_step r (OpRegister clock bytes target l m ctx) = snd (registerTarget clock bytes target l m ctx r)"
| "reg_step r (OpGeneration gen frameGen) = snd (setGeneration gen frameGen r)"
| "reg_step r OpAdvance = snd (advanceGeneration r)"
| "reg_step r (OpInvalidate gen frameGen) = invalidate gen frameGen r"
| "reg_step r OpClear = clearRefs r"
| "reg_step r (OpSize now) = snd (registrySize now r)"
| "reg_step r (OpGet now ref) = snd (getRecord now ref r)"
| "reg_step r (OpResolve now live ref opts) = snd (resolveRef now live ref opts r)"
| "reg_step r (OpSnapshot parse clock rnd view opts) = snd (takeSnapshot parse clock rnd view opts r)"

lemma reg_step_later:
  assumes "registry_inv r"
  shows "later r (reg_step r oper) \<and> registry_inv (reg_step r oper)"
proof -
  have d: "drops r r' \<Longrightarrow> later r r' \<and> registry_inv r'" for r' using drops_later drops_inv assms by blast
  show ?thesis
    by (cases oper)
      (simp_all add: d setGeneration_drops advanceGeneration_drops invalidate_drops clearRefs_drops registrySize_drops getRecord_drops resolveRef_drops
        registerTarget_later[OF assms] takeSnapshot_later[OF assms])
qed

interpretation registry_run: machine reg_step registry_inv
  by unfold_locales (simp add: reg_step_later)

lemma newRegistry_inv: "registry_inv (newRegistry gen frameGen maxRefs ttl)"
proof -
  define n where "n = \<lfloor>or_else maxRefs 2000\<rfloor>"
  have "0 < nat (max 1 (min 10000 n)) \<and> nat (max 1 (min 10000 n)) \<le> 10000" by linarith
  then show ?thesis by (simp only: registry_inv_def newRegistry_def n_def registry.simps) simp
qed

text \<open>A reference that has been issued and dropped is never issued again.\<close>

definition retired :: "string \<Rightarrow> registry \<Rightarrow> bool" where
  "retired ref r \<longleftrightarrow> registry_inv r \<and> ref \<notin> set (jkeys (tg_records r)) \<and> (\<exists>k b. k \<le> tg_sequence r \<and> ref = opaqueRef k b)"

interpretation retired_run: machine reg_step "retired ref" for ref
proof
  fix r oper
  assume r: "retired ref r"
  then have l: "later r (reg_step r oper)" "registry_inv (reg_step r oper)" using reg_step_later by (simp_all add: retired_def)
  obtain k b where k: "k \<le> tg_sequence r" "ref = opaqueRef k b" using r by (auto simp: retired_def)
  have "ref \<notin> set (jkeys (tg_records (reg_step r oper)))"
  proof
    assume "ref \<in> set (jkeys (tg_records (reg_step r oper)))"
    then obtain k' b' where "tg_sequence r < k'" "ref = opaqueRef k' b'" using l(1) r unfolding later_def retired_def by blast
    with k opaqueRef_counter[of k b k' b'] show False by simp
  qed
  moreover have "k \<le> tg_sequence (reg_step r oper)" using l(1) k(1) by (simp add: later_def)
  ultimately show "retired ref (reg_step r oper)" using l(2) k(2) unfolding retired_def by blast
qed

subsection \<open>Resolution is safe\<close>

lemma run_inv: "registry_inv (foldl reg_step (newRegistry gen frameGen maxRefs ttl) ops)"
  by (rule registry_run.run_good) (rule newRegistry_inv)

lemma pruned_record:
  assumes "registry_inv r" "map_of (tg_records (pruneExpired now r)) ref = Some rec"
  shows "map_of (tg_records r) ref = Some rec \<and> now - tr_createdAt rec \<le> tg_refTtlMs r"
proof -
  have "(ref, rec) \<in> set (tg_records r)" "now - tr_createdAt rec \<le> tg_refTtlMs r"
    using map_of_SomeD[OF assms(2)] by (simp_all add: pruneExpired_def)
  with assms(1) show ?thesis by (simp add: registry_inv_def)
qed

lemma resolveRecord_success:
  assumes "resolveRecord live opts rec = Inr res"
  shows "(case ro_page opts of Some page \<Rightarrow> locatorForTarget page (tr_target rec) = Inr (rs_locator res) | None \<Rightarrow> rs_locator res = tr_locator rec)
    \<and> ob_count (live 0 (rs_locator res)) = Some 1
    \<and> rs_metadata res = redactControlValue (readMetadata (live 1 (rs_locator res)) (Some (tr_metadata rec)))
    \<and> metadataMatches True (readMetadata (live 1 (rs_locator res)) (Some (tr_metadata rec))) (expectation_of (tr_metadata rec))
    \<and> (ro_requireActionable opts \<longrightarrow>
         assertActionable (live 2 (rs_locator res)) (readMetadata (live 1 (rs_locator res)) (Some (tr_metadata rec))) = None)
    \<and> rs_generation res = tr_generation rec \<and> rs_frameGeneration res = tr_frameGeneration rec"
  using assms unfolding resolveRecord_def checkLocator_def Let_def
  by (auto split: sum.splits option.splits if_splits)


text \<open>One button, read alike by every query.\<close>

definition demo_button :: observed where
  "demo_button = \<lparr>ob_count = Some 1, ob_attr = (\<lambda>_. None), ob_text = ''Buy'', ob_visible = Some True, ob_enabled = Some True,
     ob_editable = None, ob_checked = None, ob_box = None\<rparr>"

definition demo_registry :: registry where
  "demo_registry = foldl reg_step (newRegistry None None None None)
     [OpRegister (0, 0) [1, 171] (JObject [(''role'', JString ''button''), (''name'', JString ''Buy'')]) (Nth ''button'' 0)
        (readMetadata demo_button (Some (no_metadata (Role ''button'') ''button'')))
        \<lparr>rc_generation = None, rc_frameGeneration = None, rc_frameId = None\<rparr>]"

definition demo_options :: resolve_options where
  "demo_options = \<lparr>ro_page = None, ro_generation = None, ro_frameGeneration = None, ro_expected = None, ro_requireActionable = True\<rparr>"

lemma demo_start: "newRegistry None None None None
  = \<lparr>tg_records = [], tg_sequence = 0, tg_generation = 0, tg_frameGeneration = 0, tg_maxRefs = 2000, tg_refTtlMs = 120000\<rparr>"
  by (simp add: newRegistry_def or_else_def)

lemma demo_resolves:
  "case resolveRef 5 (\<lambda>_ _. demo_button) ''ref_1_01ab'' demo_options demo_registry of
     (Inr res, _) \<Rightarrow> rs_locator res = Nth ''button'' 0 | _ \<Rightarrow> False"
  unfolding demo_registry_def demo_start by code_simp


subsection \<open>Snapshots are safe\<close>

text \<open>A role that a target can carry: a text of at most 200 characters.\<close>

definition usable_role :: "semantic_role \<Rightarrow> bool" where
  "usable_role r = (case r of Role t \<Rightarrow> length t \<le> 200 | Inherited \<Rightarrow> False)"

lemma cleanName_length [simp]: "length (cleanName v) \<le> 200"
  by (simp add: cleanName_def)

lemma truthy_Some: "truthy_text v = Some t \<longleftrightarrow> v = Some t \<and> t \<noteq> []"
  by (auto simp: truthy_text_def split: option.splits list.splits)

lemma truthy_given: "truthy_text (Some t) = (if t = [] then None else Some t)"
  by (cases t) (simp_all add: truthy_text_def)

lemma validate_testId: "i \<noteq> [] \<Longrightarrow> length i \<le> 200 \<Longrightarrow> validateSemanticTarget (JObject [(''testId'', JString i)])"
  by (simp add: validateSemanticTarget_def isForbiddenTarget_def FORBIDDEN_KEYS_def target_text_def jfield_def jtext_def
      truthy_given text_at_most_def, simp add: truthy_text_def)

lemma validate_role: "t \<noteq> [] \<Longrightarrow> length t \<le> 200 \<Longrightarrow> validateSemanticTarget (JObject [(''role'', JString t)])"
  by (simp add: validateSemanticTarget_def isForbiddenTarget_def FORBIDDEN_KEYS_def target_text_def jfield_def jtext_def
      truthy_given text_at_most_def, simp add: truthy_text_def)

lemma validate_exact: "t \<noteq> [] \<Longrightarrow> length t \<le> 200 \<Longrightarrow> validateSemanticTarget (JObject [(''role'', JString t), (''exact'', JBool b)])"
  by (simp add: validateSemanticTarget_def isForbiddenTarget_def FORBIDDEN_KEYS_def target_text_def jfield_def jtext_def
      truthy_given text_at_most_def, simp add: truthy_text_def)

lemma validate_named: "t \<noteq> [] \<Longrightarrow> length t \<le> 200 \<Longrightarrow> length n \<le> 200
   \<Longrightarrow> validateSemanticTarget (JObject [(''role'', JString t), (''name'', JString n), (''exact'', JBool b)])"
  by (simp add: validateSemanticTarget_def isForbiddenTarget_def FORBIDDEN_KEYS_def target_text_def jfield_def jtext_def
      truthy_given text_at_most_def, simp add: truthy_text_def)

lemma target_validates:
  assumes "usable_role (md_role m)" "length (md_name m) \<le> 200" "md_testId m = None \<or> length (the (md_testId m)) \<le> 200"
  shows "validateSemanticTarget (semanticTargetFromMetadata m)"
proof (cases "truthy_text (md_testId m)")
  case (Some i)
  then have "md_testId m = Some i" "i \<noteq> []" by (simp_all add: truthy_Some)
  with assms(3) validate_testId[of i] Some show ?thesis by (simp add: semanticTargetFromMetadata_def)
next
  case None
  obtain t where "md_role m = Role t" "length t \<le> 200" using assms(1) by (auto simp: usable_role_def split: semantic_role.splits)
  with assms(2) None show ?thesis
    by (simp add: semanticTargetFromMetadata_def role_json_def validate_role validate_exact validate_named)
qed

lemma no_metadata_fields [simp]: "md_type (no_metadata r t) = None" "md_testId (no_metadata r t) = None"
  "md_frameId (no_metadata r t) = None" "md_value (no_metadata r t) = None"
  by (simp_all add: no_metadata_def)

lemma redact_fields [simp]: "md_name (redactControlValue m) = md_name m" "md_type (redactControlValue m) = md_type m"
  "md_testId (redactControlValue m) = md_testId m" "md_text (redactControlValue m) = md_text m" "md_role (redactControlValue m) = md_role m"
  by (simp_all add: redactControlValue_def)

lemma read_fresh:
  "length (md_name (readMetadata ob (Some (no_metadata r t)))) \<le> 200"
  "md_testId (readMetadata ob (Some (no_metadata r t))) = None \<or> length (the (md_testId (readMetadata ob (Some (no_metadata r t))))) \<le> 200"
  "redacted_ok (readMetadata ob fallback)"
  "md_type (readMetadata ob (Some (no_metadata r t))) = truthy_text (Some (cleanName (ob_attr ob ''type'')))"
  "ascii_lower (cleanName (ob_attr ob ''type'')) \<in> {''password'', ''hidden''} \<Longrightarrow> md_text (readMetadata ob (Some (no_metadata r t))) = None"
  by (simp_all add: readMetadata_def Let_def text_or_def truthy_text_def split: option.split list.split)

lemma redacted_rename: "redacted_ok (m\<lparr>md_name := n\<rparr>) = redacted_ok m"
  by (simp add: redacted_ok_def)

definition item_type :: "page_view \<Rightarrow> locator \<Rightarrow> string" where
  "item_type view item = cleanName (ob_attr (pv_item view item) ''type'')"

lemma item_metadata_fields:
  "length (md_name (item_metadata view labels hint item)) \<le> 200 \<or> (\<exists>k. map_of labels k = Some (md_name (item_metadata view labels hint item)))"
  "md_testId (item_metadata view labels hint item) = None \<or> length (the (md_testId (item_metadata view labels hint item))) \<le> 200"
  "redacted_ok (item_metadata view labels hint item)"
  "md_type (item_metadata view labels hint item) = truthy_text (Some (item_type view item))"
  "ascii_lower (item_type view item) \<in> {''password'', ''hidden''} \<Longrightarrow> md_text (item_metadata view labels hint item) = None"
proof -
  obtain r t where m: "item_metadata view labels hint item = readMetadata (pv_item view item) (Some (no_metadata r t))
      \<or> (\<exists>k n. map_of labels k = Some n \<and> item_metadata view labels hint item
            = (readMetadata (pv_item view item) (Some (no_metadata r t)))\<lparr>md_name := n\<rparr>)"
  proof -
    define r where "r = (if hint = ''unknown'' then Role ''generic'' else inferRole hint [] None)"
    define l where "l = (case truthy_text (ob_attr (pv_item view item) ''id'') of Some i \<Rightarrow> map_of labels i | None \<Rightarrow> None)"
    have "item_metadata view labels hint item = (case truthy_text l of
        Some n \<Rightarrow> (readMetadata (pv_item view item) (Some (no_metadata r hint)))\<lparr>md_name := n\<rparr>
      | None \<Rightarrow> readMetadata (pv_item view item) (Some (no_metadata r hint)))"
      unfolding item_metadata_def Let_def r_def l_def by (rule refl)
    moreover have "\<exists>k. map_of labels k = Some n" if "truthy_text l = Some n" for n
      using that by (auto simp: truthy_Some l_def simp del: map_of_eq_Some_iff split: option.splits)
    ultimately show thesis using that[of r hint] by (cases "truthy_text l") auto
  qed
  note f = read_fresh(1,2,4,5)[of "pv_item view item" r t] read_fresh(3)[of "pv_item view item" "Some (no_metadata r t)"]
  show "length (md_name (item_metadata view labels hint item)) \<le> 200 \<or> (\<exists>k. map_of labels k = Some (md_name (item_metadata view labels hint item)))"
    "md_testId (item_metadata view labels hint item) = None \<or> length (the (md_testId (item_metadata view labels hint item))) \<le> 200"
    "redacted_ok (item_metadata view labels hint item)"
    "md_type (item_metadata view labels hint item) = truthy_text (Some (item_type view item))"
    "ascii_lower (item_type view item) \<in> {''password'', ''hidden''} \<Longrightarrow> md_text (item_metadata view labels hint item) = None"
    using m f by (auto simp: item_type_def redacted_rename simp del: map_of_eq_Some_iff)
qed

lemma foldl_keeps: "(\<And>s x. P s \<Longrightarrow> P (f s x)) \<Longrightarrow> P s \<Longrightarrow> P (foldl f s xs)"
  by (induction xs arbitrary: s) auto

lemma labels_clean:
  assumes "map_of (labelsByControlId n labels) k = Some v"
  shows "length v \<le> 200"
proof -
  have "\<forall>k v. map_of (labelsByControlId n labels) k = Some v \<longrightarrow> length v \<le> 200"
    unfolding labelsByControlId_def
    by (rule foldl_keeps) (auto simp: jset_apply simp del: map_of_eq_Some_iff split: prod.split option.split if_splits)
  with assms show ?thesis by blast
qed

lemma item_name_length: "length (md_name (item_metadata view (labelsByControlId n labels) hint item)) \<le> 200"
  using item_metadata_fields(1)[of view "labelsByControlId n labels" hint item] labels_clean by auto

lemma registerTarget_result:
  "registerTarget clock bytes target l m ctx r = (res, r')
   \<Longrightarrow> (case res of Inl e \<Rightarrow> e = InvalidTarget \<and> \<not> validateSemanticTarget target \<and> r' = r
       | Inr ref \<Rightarrow> ref = opaqueRef (tg_sequence r') bytes \<and> tg_sequence r' = Suc (tg_sequence r) \<and> tg_generation r' = tg_generation r)"
  by (auto simp: registerTarget_def Let_def pruneExpired_def split: if_splits)

text \<open>What a snapshot under way guarantees, relative to the registry it started from.\<close>

definition node_ok :: "int \<Rightarrow> nat \<Rightarrow> nat \<Rightarrow> sem_node \<Rightarrow> bool" where
  "node_ok gen lo hi n \<longleftrightarrow> redacted_ok n \<and> nd_generation n = gen
     \<and> (\<forall>ty. md_type n = Some ty \<and> ascii_lower ty \<in> {''password'', ''hidden''} \<longrightarrow> md_text n = None)
     \<and> (\<exists>k b. lo < k \<and> k \<le> hi \<and> nd_ref n = opaqueRef k b)"

definition snap_inv :: "page_view \<Rightarrow> (string, string) jmap \<Rightarrow> int \<Rightarrow> registry \<Rightarrow> snap_state \<Rightarrow> bool" where
  "snap_inv view labels gen r0 st \<longleftrightarrow> tg_generation (ss_registry st) = tg_generation r0
     \<and> tg_sequence r0 \<le> tg_sequence (ss_registry st)
     \<and> (\<forall>n \<in> set (ss_nodes st). node_ok gen (tg_sequence r0) (tg_sequence (ss_registry st)) n)
     \<and> distinct (map nd_ref (ss_nodes st))
     \<and> (ss_error st = Some InvalidTarget \<longrightarrow> (\<exists>hint item. \<not> usable_role (md_role (item_metadata view labels hint item))))"

lemma node_ok_mono: "node_ok gen lo hi n \<Longrightarrow> hi \<le> hi' \<Longrightarrow> node_ok gen lo hi' n"
  unfolding node_ok_def by (meson le_trans)

lemma snapItem_cases:
  obtains (skipped) "snapItem view opts clock rnd labels hint item st = st"
      | (unnamed) "snapItem view opts clock rnd labels hint item st = st\<lparr>ss_seen := pv_identity view item # ss_seen st\<rparr>"
      | (threw) "snapItem view opts clock rnd labels hint item st
            = st\<lparr>ss_seen := pv_identity view item # ss_seen st, ss_error := Some InvalidTarget\<rparr>"
          "\<not> validateSemanticTarget (semanticTargetFromMetadata (item_metadata view labels hint item))"
      | (added) r' b fg where "snapItem view opts clock rnd labels hint item st
            = st\<lparr>ss_seen := pv_identity view item # ss_seen st, ss_registry := r',
                 ss_nodes := ss_nodes st @ [metadata.extend (redactControlValue (item_metadata view labels hint item))
                   (sem_node.fields (opaqueRef (tg_sequence r') b) (or_else (so_generation opts) (tg_generation (ss_registry st))) fg)]\<rparr>"
          "tg_sequence r' = Suc (tg_sequence (ss_registry st))" "tg_generation r' = tg_generation (ss_registry st)"
proof -
  define m where "m = item_metadata view labels hint item"
  define r where "r = ss_registry st"
  define gen where "gen = or_else (so_generation opts) (tg_generation r)"
  define fg where "fg = or_else (so_frameGeneration opts) (tg_frameGeneration r)"
  obtain res r' where e: "registerTarget (clock (tg_sequence r)) (rnd (tg_sequence r)) (semanticTargetFromMetadata m) item m
       \<lparr>rc_generation = Some gen, rc_frameGeneration = Some fg,
        rc_frameId = Some (or_else (so_frameId opts) (or_else (md_frameId m) ''main''))\<rparr> r = (res, r')" by fastforce
  note u = snapItem_def Let_def m_def[symmetric] r_def[symmetric] gen_def[symmetric] fg_def[symmetric] e
  consider "pv_identity view item \<in> set (ss_seen st)"
    | "pv_identity view item \<notin> set (ss_seen st)" "md_name m = [] \<and> md_role m = Role ''generic''"
    | "pv_identity view item \<notin> set (ss_seen st)" "\<not> (md_name m = [] \<and> md_role m = Role ''generic'')" by blast
  then show thesis
  proof cases
    case 1
    then show thesis by (intro skipped) (simp add: snapItem_def)
  next
    case 2
    then show thesis by (intro unnamed) (simp only: u, simp)
  next
    case 3
    show thesis
    proof (cases res)
      case (Inl err)
      with registerTarget_result[OF e] have "err = InvalidTarget" "\<not> validateSemanticTarget (semanticTargetFromMetadata m)" "r' = r"
        by simp_all
      with 3 Inl show thesis by (intro threw) (simp_all only: u, simp_all add: r_def)
    next
      case (Inr ref)
      with registerTarget_result[OF e] have "ref = opaqueRef (tg_sequence r') (rnd (tg_sequence r))"
        "tg_sequence r' = Suc (tg_sequence r)" "tg_generation r' = tg_generation r" by simp_all
      moreover have "snapItem view opts clock rnd labels hint item st = st\<lparr>ss_seen := pv_identity view item # ss_seen st, ss_registry := r',
             ss_nodes := ss_nodes st @ [metadata.extend (redactControlValue m) (sem_node.fields ref gen fg)]\<rparr>"
        using 3 unfolding u Inr by auto
      ultimately show thesis by (intro added[of r' "rnd (tg_sequence r)" fg]) (simp_all add: r_def m_def gen_def)
    qed
  qed
qed

lemma extended_node:
  assumes "redacted_ok m"
  shows "redacted_ok (metadata.extend (redactControlValue m) (sem_node.fields ref gen fg))"
    "nd_generation (metadata.extend (redactControlValue m) (sem_node.fields ref gen fg)) = gen"
    "nd_ref (metadata.extend (redactControlValue m) (sem_node.fields ref gen fg)) = ref"
    "md_type (metadata.extend (redactControlValue m) (sem_node.fields ref gen fg)) = md_type m"
    "md_text (metadata.extend (redactControlValue m) (sem_node.fields ref gen fg)) = md_text m"
  by (cases m; simp add: metadata.defs sem_node.defs redactControlValue_def redacted_ok_def)+

lemma snapItem_keeps:
  assumes i: "snap_inv view (labelsByControlId n labels) (or_else (so_generation opts) (tg_generation r0)) r0 st"
  shows "snap_inv view (labelsByControlId n labels) (or_else (so_generation opts) (tg_generation r0)) r0
           (snapItem view opts clock rnd (labelsByControlId n labels) hint item st)"
proof (cases rule: snapItem_cases[of view opts clock rnd "labelsByControlId n labels" hint item st])
  case skipped
  with i show ?thesis by simp
next
  case unnamed
  with i show ?thesis by (simp add: snap_inv_def)
next
  case threw
  have "\<not> usable_role (md_role (item_metadata view (labelsByControlId n labels) hint item))"
    using threw(2) target_validates item_name_length item_metadata_fields(2) by metis
  with i threw(1) show ?thesis by (auto simp: snap_inv_def)
next
  case (added r' b fg)
  define m where "m = item_metadata view (labelsByControlId n labels) hint item"
  define gen where "gen = or_else (so_generation opts) (tg_generation r0)"
  define nd where "nd = metadata.extend (redactControlValue m) (sem_node.fields (opaqueRef (tg_sequence r') b) gen fg)"
  have g: "or_else (so_generation opts) (tg_generation (ss_registry st)) = gen" using i by (simp add: snap_inv_def gen_def)
  note ext = extended_node[of m "opaqueRef (tg_sequence r') b" gen fg, folded nd_def]
  have ok: "redacted_ok m" by (simp add: m_def item_metadata_fields(3))
  have old: "\<forall>x \<in> set (ss_nodes st). node_ok gen (tg_sequence r0) (tg_sequence (ss_registry st)) x"
    "tg_sequence r0 \<le> tg_sequence (ss_registry st)" "distinct (map nd_ref (ss_nodes st))"
    using i by (simp_all add: snap_inv_def gen_def)
  have hidden: "\<forall>ty. md_type nd = Some ty \<and> ascii_lower ty \<in> {''password'', ''hidden''} \<longrightarrow> md_text nd = None"
    using item_metadata_fields(4,5)[where view = view and labels = "labelsByControlId n labels" and hint = hint and item = item]
    unfolding ext(4)[OF ok] ext(5)[OF ok] m_def[symmetric] by (auto simp: truthy_Some)
  have "node_ok gen (tg_sequence r0) (tg_sequence r') nd"
  proof -
    have "tg_sequence r0 < tg_sequence r'" using old(2) added(2) by simp
    then show ?thesis using hidden unfolding node_ok_def ext(2)[OF ok] ext(3)[OF ok] by (simp add: ext(1)[OF ok]) blast
  qed
  moreover have "\<forall>x \<in> set (ss_nodes st). node_ok gen (tg_sequence r0) (tg_sequence r') x"
    using old(1) node_ok_mono added(2) by (metis le_SucI order_refl)
  moreover have "nd_ref nd \<notin> nd_ref ` set (ss_nodes st)"
  proof
    assume "nd_ref nd \<in> nd_ref ` set (ss_nodes st)"
    then obtain k b' where "k \<le> tg_sequence (ss_registry st)" "opaqueRef (tg_sequence r') b = opaqueRef k b'"
      using old(1) unfolding ext(3)[OF ok] node_ok_def by force
    with opaqueRef_counter[of "tg_sequence r'" b k b'] added(2) show False by simp
  qed
  moreover have "snapItem view opts clock rnd (labelsByControlId n labels) hint item st
      = st\<lparr>ss_seen := pv_identity view item # ss_seen st, ss_registry := r', ss_nodes := ss_nodes st @ [nd]\<rparr>"
    using added(1) unfolding g nd_def m_def .
  ultimately show ?thesis
    using i added(2,3) old(2,3) unfolding snap_inv_def gen_def[symmetric] by simp
qed

lemma snapItems_keeps: "(\<And>x st. P st \<Longrightarrow> P (f x st)) \<Longrightarrow> P st \<Longrightarrow> P (snapItems f xs st)"
  by (induction f xs st rule: snapItems.induct) auto

lemma snapSelectors_keeps:
  assumes "\<And>h x st. P st \<Longrightarrow> P (f h x st)" "\<And>st. P st \<Longrightarrow> P (st\<lparr>ss_error := Some LocatorFailed\<rparr>)"
  shows "P st \<Longrightarrow> P (snapSelectors f count n sels st)"
proof (induction sels arbitrary: st)
  case (Cons sh sels)
  obtain sel hint where sh: "sh = (sel, hint)" by (cases sh)
  have "P (snapItems (f hint) xs st)" for xs using assms(1) Cons.prems by (rule snapItems_keeps)
  with Cons assms(2) show ?case by (simp add: sh Let_def split: option.split)
qed simp

lemma snapItem_grows: "length (ss_nodes (snapItem view opts clock rnd labels hint item st)) \<le> Suc (length (ss_nodes st))"
  by (cases rule: snapItem_cases[of view opts clock rnd labels hint item st]) simp_all

lemma snapItems_grow:
  "(\<And>x st. length (ss_nodes (f x st)) \<le> Suc (length (ss_nodes st)))
   \<Longrightarrow> length (ss_nodes (snapItems f xs st)) \<le> length (ss_nodes st) + length xs"
proof (induction xs arbitrary: st)
  case (Cons x xs)
  have "length (ss_nodes (f x st)) \<le> Suc (length (ss_nodes st))" by (rule Cons.prems)
  with Cons.IH[OF Cons.prems, of "f x st"] show ?case by (auto intro: le_trans)
qed simp

lemma snapSelectors_bounded:
  assumes "\<And>h x st. length (ss_nodes (f h x st)) \<le> Suc (length (ss_nodes st))"
  shows "length (ss_nodes st) \<le> n \<Longrightarrow> length (ss_nodes (snapSelectors f count n sels st)) \<le> n"
proof (induction sels arbitrary: st)
  case (Cons sh sels)
  obtain sel hint where sh: "sh = (sel, hint)" by (cases sh)
  define st' where "st' = (\<lambda>k. snapItems (f hint) (map (Nth sel) [0..<min k (n - length (ss_nodes st))]) st)"
  have "length (ss_nodes (st' k)) \<le> n" for k
    using snapItems_grow[of "f hint" "map (Nth sel) [0..<min k (n - length (ss_nodes st))]" st, OF assms] Cons.prems
    by (simp add: st'_def)
  with Cons show ?case by (simp add: sh Let_def st'_def split: option.split)
qed simp


text \<open>A page with a button and a password field.\<close>

definition demo_password :: observed where
  "demo_password = \<lparr>ob_count = Some 1, ob_attr = (\<lambda>k. if k = ''type'' then Some ''password'' else if k = ''name'' then Some ''pin'' else None),
     ob_text = ''1234'', ob_visible = None, ob_enabled = None, ob_editable = None, ob_checked = None, ob_box = None\<rparr>"

definition demo_page :: page_view where
  "demo_page = \<lparr>pv_labels = [], pv_count = (\<lambda>s. if s \<in> {''button'', ''input''} then Some 1 else Some 0),
     pv_item = (\<lambda>l. case l of Nth s k \<Rightarrow> if s = ''button'' then demo_button else demo_password | _ \<Rightarrow> demo_button),
     pv_identity = (\<lambda>l. case l of Nth s k \<Rightarrow> if s = ''button'' then 1 else 2 | _ \<Rightarrow> 0),
     pv_body = Some ''Welcome'', pv_title = None, pv_url = None\<rparr>"

definition demo_snapshot_options :: snapshot_options where
  "demo_snapshot_options = \<lparr>so_generation = None, so_pageGeneration = None, so_frameGeneration = None, so_maxNodes = None,
     so_maxChars = None, so_includeText = False, so_frameId = None\<rparr>"

lemma demo_snapshot_taken:
  "case fst (takeSnapshot (\<lambda>_. None) (\<lambda>_. (0, 0)) (\<lambda>_. [7]) demo_page demo_snapshot_options demo_registry) of
     Inr s \<Rightarrow> map nd_ref (sn_targets s) = [''ref_2_07'', ''ref_3_07''] \<and> map md_value (sn_targets s) = [None, Some redacted]
   | Inl _ \<Rightarrow> False"
  unfolding demo_registry_def demo_start by code_simp


text \<open>
  Any page can make its own snapshot fail: one element with a role attribute of more than 200
  characters, or an input of type \<open>constructor\<close>, gives a target that \<open>register\<close> refuses.
\<close>

lemma snapshot_refused_by_page:
  "inferRole ''input'' ''constructor'' None = Inherited"
  "\<not> validateSemanticTarget (semanticTargetFromMetadata ((no_metadata Inherited ''input'')\<lparr>md_name := ''x''\<rparr>))"
  "\<not> validateSemanticTarget (semanticTargetFromMetadata (no_metadata (Role (replicate 201 (CHR ''a''))) ''div''))"
  by code_simp+

end
