(* ===== verification/Vault.thy ===== *)
theory Vault
  imports JsText
begin

text \<open>
  \<open>src/security/secret-vault.ts\<close>: the envelope of secrets at rest. The cipher is a parameter:
  \<open>va_seal\<close> is the text after the prefix that \<open>encrypt\<close> produces, \<open>va_open\<close> what \<open>decrypt\<close> makes of it
  (\<open>None\<close>: it throws).
\<close>

record vault =
  va_seal :: "string \<Rightarrow> string"
  va_open :: "string \<Rightarrow> string option"

definition VAULT_PREFIX :: string where "VAULT_PREFIX = ''enc:v1:''"

definition isEncrypted :: "string \<Rightarrow> bool" where
  "isEncrypted v = startsWith v VAULT_PREFIX"

definition vaultEncrypt :: "vault \<Rightarrow> string \<Rightarrow> string" where
  "vaultEncrypt va v = (if v = [] \<or> isEncrypted v then v else VAULT_PREFIX @ va_seal va v)"

definition vaultDecrypt :: "vault \<Rightarrow> string \<Rightarrow> string option" where
  "vaultDecrypt va v = (if \<not> isEncrypted v then Some v else va_open va (drop (length VAULT_PREFIX) v))"

text \<open>A cipher that opens what it sealed.\<close>

definition sound_vault :: "vault \<Rightarrow> bool" where
  "sound_vault va \<longleftrightarrow> (\<forall>v. va_open va (va_seal va v) = Some v)"

lemma vault_roundtrip:
  assumes "sound_vault va" "\<not> isEncrypted v"
  shows "vaultDecrypt va (vaultEncrypt va v) = Some v" "v \<noteq> [] \<Longrightarrow> isEncrypted (vaultEncrypt va v)"
  using assms by (auto simp: vaultDecrypt_def vaultEncrypt_def isEncrypted_def startsWith_def sound_vault_def)

text \<open>A secret that itself begins with the prefix is stored as it is, and cannot be read back.\<close>

lemma prefixed_secret_not_sealed: "isEncrypted v \<Longrightarrow> vaultEncrypt va v = v \<and> vaultDecrypt va v = va_open va (drop (length VAULT_PREFIX) v)"
  by (simp add: vaultEncrypt_def vaultDecrypt_def)

end
