(* ===== verification/ProxyPool.thy ===== *)
theory ProxyPool
  imports SemanticSnapshot Vault "HOL-Library.Multiset"
begin

text \<open>
  \<open>src/proxy/validator.ts\<close> and \<open>src/proxy/pool-store.ts\<close>: the normal form of a proxy's configuration,
  and the stored pool with its health record, quarantine and rotation. The URL parser, percent decoding,
  the cipher and the outcome of a check are arguments; an operation that awaits the checker is split
  there. The file is absent, unreadable or a list of records.
\<close>

datatype proxy_type = Http | Https | Socks4 | Socks5

record proxy_config =
  pc_server :: string
  pc_type :: "proxy_type option"
  pc_username :: "string option"
  pc_password :: "string option"
  pc_bypass :: "string option"

record normalized_proxy =
  np_server :: string
  np_type :: proxy_type
  np_username :: "string option"
  np_password :: "string option"
  np_bypass :: "string option"
  np_host :: string
  np_port :: nat

datatype proxy_error = InvalidArgument | UriMalformed | ProxyNotFound | LoadFailed | PersistFailed

definition type_name :: "proxy_type \<Rightarrow> string" where
  "type_name t = (case t of Http \<Rightarrow> ''http'' | Https \<Rightarrow> ''https'' | Socks4 \<Rightarrow> ''socks4'' | Socks5 \<Rightarrow> ''socks5'')"

definition SUPPORTED_PROTOCOLS :: "(string \<times> proxy_type) list" where
  "SUPPORTED_PROTOCOLS = [(''http:'', Http), (''https:'', Https), (''socks4:'', Socks4), (''socks5:'', Socks5)]"

text \<open>What \<open>new URL\<close> gives: protocol, host name, port, user and password; \<open>unescape\<close> is \<open>decodeURIComponent\<close>.\<close>

type_synonym parsed_url = "string \<times> string \<times> string \<times> string \<times> string"

definition proxy_port :: "proxy_type \<Rightarrow> string \<Rightarrow> nat" where
  "proxy_port t p = (let n = (if p = [] then 0 else dec_val p)
     in if n < 1 \<or> n > 65535 then (if t \<in> {Socks4, Socks5} then 1080 else 8080) else n)"

text \<open>The credential of the configuration, else the one of the address; the latter may not decode.\<close>

definition url_part :: "(string \<Rightarrow> string option) \<Rightarrow> string \<Rightarrow> proxy_error + string option" where
  "url_part unescape p = (if p = [] then Inr None else case unescape p of Some v \<Rightarrow> Inr (Some v) | None \<Rightarrow> Inl UriMalformed)"

definition normalizeProxyConfig ::
  "(string \<Rightarrow> parsed_url option) \<Rightarrow> (string \<Rightarrow> string option) \<Rightarrow> proxy_config \<Rightarrow> proxy_error + normalized_proxy" where
  "normalizeProxyConfig parse unescape raw =
     (let serverStr = js_trim (pc_server raw);
          explicitUser = truthy_text (map_option js_trim (pc_username raw));
          address = (if includes_text serverStr ''://'' then serverStr
             else (case pc_type raw of Some t \<Rightarrow> type_name t | None \<Rightarrow> ''http'') @ ''://'' @ serverStr)
      in if serverStr = [] then Inl InvalidArgument
         else (case parse address of
            None \<Rightarrow> Inl InvalidArgument
          | Some (protocol, host, port, user, pass) \<Rightarrow>
            (case map_of SUPPORTED_PROTOCOLS protocol of
               None \<Rightarrow> Inl InvalidArgument
             | Some protocolType \<Rightarrow>
               (let t = or_else (pc_type raw) protocolType; n = proxy_port t port
                in if host = [] then Inl InvalidArgument
                   else (case (case explicitUser of Some u \<Rightarrow> Inr (Some u) | None \<Rightarrow> url_part unescape user) of
                      Inl e \<Rightarrow> Inl e
                    | Inr username \<Rightarrow>
                      (case (case pc_password raw of Some p \<Rightarrow> Inr (Some p) | None \<Rightarrow> url_part unescape pass) of
                         Inl e \<Rightarrow> Inl e
                       | Inr password \<Rightarrow>
                           Inr \<lparr>np_server = type_name t @ ''://'' @ host @ '':'' @ dec_of n, np_type = t,
                                np_username = truthy_text username, np_password = password,
                                np_bypass = truthy_text (map_option js_trim (pc_bypass raw)), np_host = host, np_port = n\<rparr>))))))"

subsection \<open>The pool\<close>

text \<open>\<open>'c\<close> is the report of the checker; \<open>ph_ok\<close> is its \<open>success\<close>.\<close>

record 'c proxy_health =
  ph_lastCheckedAt :: int
  ph_ok :: bool
  ph_report :: 'c

record 'c proxy_record =
  pr_proxyId :: string
  pr_name :: string
  pr_server :: string
  pr_type :: "proxy_type option"
  pr_username :: "string option"
  pr_password :: "string option"
  pr_bypass :: "string option"
  pr_tags :: "string list"
  pr_enabled :: bool
  pr_createdAt :: int
  pr_updatedAt :: int
  pr_lastCheck :: "'c proxy_health option"
  pr_failures :: "nat option"
  pr_successes :: "nat option"
  pr_quarantineUntil :: "int option"

datatype 'c pool_file = NoFile | Unreadable | Records "'c proxy_record list"

record 'c proxy_pool =
  pp_records :: "(string, 'c proxy_record) jmap"
  pp_loaded :: bool
  pp_cursor :: nat
  pp_file :: "'c pool_file"
  pp_writable :: bool

definition newProxyPool :: "'c pool_file \<Rightarrow> 'c proxy_pool" where
  "newProxyPool file = \<lparr>pp_records = [], pp_loaded = False, pp_cursor = 0, pp_file = file, pp_writable = True\<rparr>"

definition stored_record :: "vault option \<Rightarrow> 'c proxy_record \<Rightarrow> 'c proxy_record" where
  "stored_record v x = x\<lparr>pr_password := map_option (case v of Some va \<Rightarrow> vaultEncrypt va | None \<Rightarrow> id) (pr_password x)\<rparr>"

text \<open>\<open>persist\<close>: when the write fails the operation rejects, and the map keeps the change.\<close>

definition persistPool :: "vault option \<Rightarrow> 'c proxy_pool \<Rightarrow> (proxy_error + unit) \<times> 'c proxy_pool" where
  "persistPool v s =
     (if pp_writable s then (Inr (), s\<lparr>pp_file := Records (map (stored_record v) (jvals (pp_records s)))\<rparr>)
      else (Inl PersistFailed, s))"

text \<open>The loop of \<open>load\<close>: \<open>Inl\<close> when a password does not decrypt; what was read before stays.\<close>

fun load_records :: "vault option \<Rightarrow> 'c proxy_record list \<Rightarrow> (string, 'c proxy_record) jmap
    \<Rightarrow> (proxy_error + unit) \<times> (string, 'c proxy_record) jmap" where
  "load_records v [] m = (Inr (), m)"
| "load_records v (x # xs) m =
     (case (case (v, pr_password x) of (Some va, Some p) \<Rightarrow> map_option Some (vaultDecrypt va p) | _ \<Rightarrow> Some (pr_password x)) of
        None \<Rightarrow> (Inl LoadFailed, m)
      | Some p \<Rightarrow> load_records v xs (jset m (pr_proxyId x) (x\<lparr>pr_password := p\<rparr>)))"

definition needs_migration :: "vault option \<Rightarrow> 'c proxy_record list \<Rightarrow> bool" where
  "needs_migration v xs = (case v of None \<Rightarrow> False
     | Some va \<Rightarrow> list_ex (\<lambda>x. case truthy_text (pr_password x) of Some p \<Rightarrow> \<not> isEncrypted p | None \<Rightarrow> False) xs)"

text \<open>\<open>load\<close> marks the pool as loaded before it reads.\<close>

definition loadPool :: "vault option \<Rightarrow> 'c proxy_pool \<Rightarrow> (proxy_error + unit) \<times> 'c proxy_pool" where
  "loadPool v s =
     (if pp_loaded s then (Inr (), s)
      else (let s1 = s\<lparr>pp_loaded := True\<rparr>
            in (case pp_file s1 of
                  NoFile \<Rightarrow> (Inr (), s1)
                | Unreadable \<Rightarrow> (Inl LoadFailed, s1)
                | Records xs \<Rightarrow>
                  (case load_records v xs (pp_records s1) of
                     (Inl e, m) \<Rightarrow> (Inl e, s1\<lparr>pp_records := m\<rparr>)
                   | (Inr _, m) \<Rightarrow>
                       (let s2 = s1\<lparr>pp_records := m\<rparr> in if needs_migration v xs then persistPool v s2 else (Inr (), s2))))))"

definition listPool :: "vault option \<Rightarrow> 'c proxy_pool \<Rightarrow> (proxy_error + 'c proxy_record list) \<times> 'c proxy_pool" where
  "listPool v = andthen (loadPool v) (\<lambda>_ s. (Inr (sort_key (\<lambda>x. - pr_updatedAt x) (jvals (pp_records s))), s))"

definition getProxy :: "vault option \<Rightarrow> string \<Rightarrow> 'c proxy_pool \<Rightarrow> (proxy_error + 'c proxy_record option) \<times> 'c proxy_pool" where
  "getProxy v i = andthen (loadPool v) (\<lambda>_ s. (Inr (map_of (pp_records s) i), s))"

record proxy_input =
  pi_config :: proxy_config
  pi_name :: "string option"
  pi_tags :: "string list option"
  pi_enabled :: "bool option"

definition clean_tags :: "string list \<Rightarrow> string list" where
  "clean_tags ts = take 32 (filter (\<lambda>t. t \<noteq> []) (map js_trim ts))"

text \<open>Stores a record and saves the pool.\<close>

definition put_record :: "vault option \<Rightarrow> 'c proxy_record \<Rightarrow> 'c proxy_pool \<Rightarrow> (proxy_error + 'c proxy_record) \<times> 'c proxy_pool" where
  "put_record v x s =
     andthen (persistPool v) (\<lambda>_ s'. (Inr x, s')) (s\<lparr>pp_records := jset (pp_records s) (pr_proxyId x) x\<rparr>)"

definition createProxy ::
  "(string \<Rightarrow> parsed_url option) \<Rightarrow> (string \<Rightarrow> string option) \<Rightarrow> vault option \<Rightarrow> int \<Rightarrow> string \<Rightarrow> proxy_input
   \<Rightarrow> 'c proxy_pool \<Rightarrow> (proxy_error + 'c proxy_record) \<times> 'c proxy_pool" where
  "createProxy parse unescape v now newId input =
     andthen (loadPool v) (\<lambda>_ s.
       case normalizeProxyConfig parse unescape (pi_config input) of
         Inl e \<Rightarrow> (Inl e, s)
       | Inr n \<Rightarrow> put_record v
           \<lparr>pr_proxyId = newId, pr_name = or_else (truthy_text (map_option js_trim (pi_name input))) newId, pr_server = np_server n,
            pr_type = Some (np_type n), pr_username = np_username n, pr_password = np_password n, pr_bypass = np_bypass n,
            pr_tags = clean_tags (or_else (pi_tags input) []), pr_enabled = or_else (pi_enabled input) True, pr_createdAt = now,
            pr_updatedAt = now, pr_lastCheck = None, pr_failures = None, pr_successes = None, pr_quarantineUntil = None\<rparr> s)"

definition withoutProxyHealth :: "'c proxy_record \<Rightarrow> 'c proxy_record" where
  "withoutProxyHealth x = x\<lparr>pr_lastCheck := None, pr_failures := None, pr_successes := None, pr_quarantineUntil := None\<rparr>"

record proxy_update =
  pu_server :: "string option"
  pu_username :: "string option"
  pu_password :: "string option"
  pu_bypass :: "string option"
  pu_name :: "string option"
  pu_tags :: "string list option"
  pu_enabled :: "bool option"

text \<open>\<open>a ?? b\<close> on optional texts.\<close>

definition given_or :: "'a option \<Rightarrow> 'a option \<Rightarrow> 'a option" where
  "given_or a b = (case a of Some x \<Rightarrow> Some x | None \<Rightarrow> b)"

definition updated_record :: "int \<Rightarrow> proxy_update \<Rightarrow> normalized_proxy \<Rightarrow> 'c proxy_record \<Rightarrow> 'c proxy_record" where
  "updated_record now input n old =
     (let changed = (np_server n \<noteq> pr_server old \<or> np_username n \<noteq> pr_username old \<or> np_password n \<noteq> pr_password old
            \<or> np_bypass n \<noteq> pr_bypass old)
      in (if changed then withoutProxyHealth old else old)
           \<lparr>pr_server := np_server n, pr_type := Some (np_type n),
            pr_username := given_or (np_username n) (pr_username old), pr_password := given_or (np_password n) (pr_password old),
            pr_bypass := given_or (np_bypass n) (pr_bypass old),
            pr_name := (case pu_name input of Some x \<Rightarrow> or_else (truthy_text (Some (js_trim x))) (pr_name old) | None \<Rightarrow> pr_name old),
            pr_tags := (case pu_tags input of Some ts \<Rightarrow> clean_tags ts | None \<Rightarrow> pr_tags old),
            pr_enabled := or_else (pu_enabled input) (pr_enabled old), pr_updatedAt := now\<rparr>)"

definition updateProxy ::
  "(string \<Rightarrow> parsed_url option) \<Rightarrow> (string \<Rightarrow> string option) \<Rightarrow> vault option \<Rightarrow> int \<Rightarrow> string \<Rightarrow> proxy_update
   \<Rightarrow> 'c proxy_pool \<Rightarrow> (proxy_error + 'c proxy_record) \<times> 'c proxy_pool" where
  "updateProxy parse unescape v now i input =
     andthen (loadPool v) (\<lambda>_ s.
       case map_of (pp_records s) i of
         None \<Rightarrow> (Inl ProxyNotFound, s)
       | Some old \<Rightarrow>
         (case normalizeProxyConfig parse unescape
             \<lparr>pc_server = or_else (pu_server input) (pr_server old), pc_type = None,
              pc_username = truthy_text (given_or (pu_username input) (pr_username old)),
              pc_password = truthy_text (given_or (pu_password input) (pr_password old)),
              pc_bypass = truthy_text (given_or (pu_bypass input) (pr_bypass old))\<rparr> of
            Inl e \<Rightarrow> (Inl e, s)
          | Inr n \<Rightarrow> put_record v (updated_record now input n old) s))"

definition deleteProxy :: "vault option \<Rightarrow> string \<Rightarrow> 'c proxy_pool \<Rightarrow> (proxy_error + bool) \<times> 'c proxy_pool" where
  "deleteProxy v i =
     andthen (loadPool v) (\<lambda>_ s.
       if map_of (pp_records s) i = None then (Inr False, s)
       else andthen (persistPool v) (\<lambda>_ s'. (Inr True, s')) (s\<lparr>pp_records := jdel (pp_records s) i\<rparr>))"

subsection \<open>Checks, quarantine and rotation\<close>

text \<open>\<open>check\<close> before it awaits the checker: the record it will write back.\<close>

definition checkBegin :: "vault option \<Rightarrow> string \<Rightarrow> 'c proxy_pool \<Rightarrow> (proxy_error + 'c proxy_record) \<times> 'c proxy_pool" where
  "checkBegin v i =
     andthen (loadPool v) (\<lambda>_ s. case map_of (pp_records s) i of None \<Rightarrow> (Inl ProxyNotFound, s) | Some x \<Rightarrow> (Inr x, s))"

definition cooldown :: "nat \<Rightarrow> int" where
  "cooldown failures = min (24 * 60 * 60 * 1000) (5 * 60 * 1000 * 2 ^ (failures - 3))"

definition checked_record :: "int \<Rightarrow> bool \<Rightarrow> 'c \<Rightarrow> 'c proxy_record \<Rightarrow> 'c proxy_record" where
  "checked_record now success report x =
     (let failures = or_else (pr_failures x) 0; successes = or_else (pr_successes x) 0; q = pr_quarantineUntil x;
          (f', s', q') =
            (if success then
               (if (case q of Some t \<Rightarrow> now < t | None \<Rightarrow> False) then (0, 0, q)
                else (0, successes + 1, if successes + 1 \<ge> 2 then None else q))
             else (failures + 1, 0, if failures + 1 \<ge> 3 then Some (now + cooldown (failures + 1)) else q))
      in x\<lparr>pr_updatedAt := now, pr_lastCheck := Some \<lparr>ph_lastCheckedAt = now, ph_ok = success, ph_report = report\<rparr>,
           pr_failures := Some f', pr_successes := Some s', pr_quarantineUntil := q'\<rparr>)"

text \<open>\<open>check\<close> after the checker answered: it writes the record it read before the await.\<close>

definition checkFinish :: "vault option \<Rightarrow> int \<Rightarrow> bool \<Rightarrow> 'c \<Rightarrow> 'c proxy_record \<Rightarrow> 'c proxy_pool
    \<Rightarrow> (proxy_error + 'c proxy_record) \<times> 'c proxy_pool" where
  "checkFinish v now success report x = put_record v (checked_record now success report x)"

definition eligible :: "string list \<Rightarrow> 'c proxy_record \<Rightarrow> bool" where
  "eligible tags x \<longleftrightarrow> pr_enabled x \<and> (case pr_lastCheck x of Some h \<Rightarrow> ph_ok h | None \<Rightarrow> False)
     \<and> pr_quarantineUntil x = None \<and> list_all (\<lambda>t. t \<in> set (pr_tags x)) tags"

definition candidates_of :: "string list \<Rightarrow> 'c proxy_pool \<Rightarrow> 'c proxy_record list" where
  "candidates_of tags s = filter (eligible tags) (sort_key (\<lambda>x. - pr_updatedAt x) (jvals (pp_records s)))"

definition nextProxy :: "vault option \<Rightarrow> string list \<Rightarrow> 'c proxy_pool \<Rightarrow> (proxy_error + 'c proxy_record option) \<times> 'c proxy_pool" where
  "nextProxy v tags =
     andthen (loadPool v) (\<lambda>_ s.
       (let xs = candidates_of tags s
        in if xs = [] then (Inr None, s)
           else (Inr (Some (xs ! (pp_cursor s mod length xs))), s\<lparr>pp_cursor := (pp_cursor s + 1) mod nat MAX_SAFE\<rparr>)))"

subsection \<open>Rotation\<close>

text \<open>What \<open>n\<close> calls of \<open>next\<close> in a row return.\<close>

fun rotation :: "vault option \<Rightarrow> string list \<Rightarrow> nat \<Rightarrow> 'c proxy_pool \<Rightarrow> 'c proxy_record list" where
  "rotation v tags 0 s = []"
| "rotation v tags (Suc n) s =
     (case nextProxy v tags s of (Inr (Some x), s') \<Rightarrow> x # rotation v tags n s' | _ \<Rightarrow> [])"

lemma loaded_again: "pp_loaded s \<Longrightarrow> loadPool v s = (Inr (), s)"
  by (simp add: loadPool_def)

lemma next_loaded:
  "pp_loaded s \<Longrightarrow> candidates_of tags s = xs \<Longrightarrow> xs \<noteq> [] \<Longrightarrow> pp_cursor s + 1 < nat MAX_SAFE
   \<Longrightarrow> nextProxy v tags s = (Inr (Some (xs ! (pp_cursor s mod length xs))), s\<lparr>pp_cursor := pp_cursor s + 1\<rparr>)"
  by (simp add: nextProxy_def andthen_def loaded_again Let_def)

lemma candidates_cursor [simp]: "candidates_of tags (s\<lparr>pp_cursor := k\<rparr>) = candidates_of tags s"
  by (simp add: candidates_of_def)

lemma rotation_indices:
  assumes "pp_loaded s" "candidates_of tags s = xs" "xs \<noteq> []" "pp_cursor s + n < nat MAX_SAFE"
  shows "rotation v tags n s = map (\<lambda>i. xs ! ((pp_cursor s + i) mod length xs)) [0..<n]"
  using assms
proof (induction n arbitrary: s)
  case (Suc n)
  have nx: "nextProxy v tags s = (Inr (Some (xs ! (pp_cursor s mod length xs))), s\<lparr>pp_cursor := pp_cursor s + 1\<rparr>)"
    using Suc.prems by (intro next_loaded) auto
  have "rotation v tags n (s\<lparr>pp_cursor := pp_cursor s + 1\<rparr>) = map (\<lambda>i. xs ! ((pp_cursor s + 1 + i) mod length xs)) [0..<n]"
    using Suc.IH[of "s\<lparr>pp_cursor := pp_cursor s + 1\<rparr>"] Suc.prems by simp
  then show ?case by (simp add: nx map_upt_Suc del: upt_Suc)
qed simp

lemma rotated_indices:
  fixes c k :: nat
  assumes "0 < k"
  shows "mset (map (\<lambda>i. (c + i) mod k) [0..<k]) = mset [0..<k]"
proof -
  have eq: "i = j" if "i \<le> j" "j < k" "(c + j) mod k = (c + i) mod k" for i j
  proof -
    have "k dvd j - i" using that(1,3) mod_eq_dvd_iff_nat[of "c + i" "c + j" k] by simp
    then show ?thesis using that(1,2) nat_dvd_not_less[of "j - i" k] by fastforce
  qed
  have inj: "inj_on (\<lambda>i. (c + i) mod k) {0..<k}"
    using eq by (intro inj_onI) (metis atLeastLessThan_iff nat_le_linear)
  have "(\<lambda>i. (c + i) mod k) ` {0..<k} \<subseteq> {0..<k}" using assms by auto
  then have im: "(\<lambda>i. (c + i) mod k) ` {0..<k} = {0..<k}" using inj by (simp add: endo_inj_surj)
  have "distinct (map (\<lambda>i. (c + i) mod k) [0..<k])" using inj by (simp add: distinct_map)
  then show ?thesis using im by (subst set_eq_iff_mset_eq_distinct[symmetric]) auto
qed


subsection \<open>Quarantine\<close>

definition run_check :: "'c proxy_record \<Rightarrow> int \<times> bool \<times> 'c \<Rightarrow> 'c proxy_record" where
  "run_check x c = checked_record (fst c) (fst (snd c)) (snd (snd c)) x"

lemma cooldown_bounds: "3 \<le> n \<Longrightarrow> 300000 \<le> cooldown n \<and> cooldown n \<le> 86400000"
  by (simp add: cooldown_def)

text \<open>Since time \<open>t\<close>: still in quarantine, or two successes have been counted.\<close>

definition serving_time :: "int \<Rightarrow> nat \<Rightarrow> 'c proxy_record \<Rightarrow> bool" where
  "serving_time t n x \<longleftrightarrow> 2 \<le> n \<or> ((\<exists>q. pr_quarantineUntil x = Some q \<and> t \<le> q) \<and> or_else (pr_successes x) 0 \<le> n)"

lemma serving_step:
  assumes "serving_time (t + 300000) n x" "t \<le> fst c"
  shows "serving_time (t + 300000) (n + (if fst (snd c) \<and> t + 300000 \<le> fst c then 1 else 0)) (run_check x c)"
proof (cases "2 \<le> n")
  case False
  with assms(1) obtain q where q: "pr_quarantineUntil x = Some q" "t + 300000 \<le> q" "or_else (pr_successes x) 0 \<le> n"
    by (auto simp: serving_time_def)
  then show ?thesis using assms(2) cooldown_bounds[of "Suc (or_else (pr_failures x) 0)"]
    by (auto simp: serving_time_def run_check_def checked_record_def Let_def or_else_def)
qed (simp add: serving_time_def)

lemma serving_run:
  "serving_time (t + 300000) n x \<Longrightarrow> \<forall>c \<in> set ys. t \<le> fst c
   \<Longrightarrow> serving_time (t + 300000) (n + length (filter (\<lambda>c. fst (snd c) \<and> t + 300000 \<le> fst c) ys)) (foldl run_check x ys)"
proof (induction ys arbitrary: n x)
  case (Cons c ys)
  from serving_step[OF Cons.prems(1), of c] Cons.prems(2)
    Cons.IH[of "n + (if fst (snd c) \<and> t + 300000 \<le> fst c then 1 else 0)" "run_check x c"]
  show ?case by (auto simp: add.assoc)
qed simp


subsection \<open>Concrete pools\<close>

definition demo_proxy :: "string \<Rightarrow> int \<Rightarrow> bool \<Rightarrow> unit proxy_record" where
  "demo_proxy i now good =
     \<lparr>pr_proxyId = i, pr_name = i, pr_server = ''http://h:8080'', pr_type = Some Http, pr_username = None, pr_password = None,
      pr_bypass = None, pr_tags = [''eu''], pr_enabled = True, pr_createdAt = 0, pr_updatedAt = now,
      pr_lastCheck = Some \<lparr>ph_lastCheckedAt = now, ph_ok = good, ph_report = ()\<rparr>, pr_failures = Some 0, pr_successes = Some 1,
      pr_quarantineUntil = None\<rparr>"

definition demo_proxies :: "unit proxy_pool" where
  "demo_proxies = \<lparr>pp_records = [(''a'', demo_proxy ''a'' 1 True), (''b'', demo_proxy ''b'' 2 False), (''c'', demo_proxy ''c'' 3 True)],
     pp_loaded = True, pp_cursor = 5, pp_file = NoFile, pp_writable = True\<rparr>"



text \<open>
  A check that was waiting while its proxy was deleted puts the proxy back, in the map and in the file.
\<close>

lemma deleted_proxy_returns:
  "let s = snd (deleteProxy None ''a'' demo_proxies);
       s' = snd (checkFinish None 9 True () (the (map_of (pp_records demo_proxies) ''a'')) s)
   in map_of (pp_records s) ''a'' = None \<and> map_option pr_proxyId (map_of (pp_records s') ''a'') = Some ''a''"
  by code_simp

text \<open>
  The pool counts as loaded before its file has been read: after a failed read the next operation sees
  an empty pool, and its save replaces the file.
\<close>

lemma failed_load_loses_pool:
  "let s = newProxyPool Unreadable;
       r = loadPool None (s :: unit proxy_pool);
       s' = snd (put_record None (demo_proxy ''z'' 9 True) (snd (loadPool None (snd r))))
   in fst r = Inl LoadFailed \<and> fst (loadPool None (snd r)) = Inr () \<and> pp_file s' = Records [demo_proxy ''z'' 9 True]"
  by code_simp

text \<open>
  A proxy that fails more can leave quarantine sooner: a success in quarantine clears the count of
  failures, so that three further failures replace the long cooldown by the shortest one.
\<close>

lemma quarantine_can_shrink:
  "let x = foldl run_check (demo_proxy ''a'' 0 True) (map (\<lambda>t. (t, False, ())) [1, 2, 3, 4, 5, 6, 7, 8])
   in pr_quarantineUntil x = Some (8 + 9600000)
      \<and> pr_quarantineUntil (foldl run_check x [(10, True, ()), (11, False, ()), (12, False, ()), (13, False, ())]) = Some (13 + 300000)"
  by code_simp

text \<open>An update with an empty user name keeps the old one, and yet drops the health record.\<close>

lemma empty_username_keeps_old:
  "let parse = (\<lambda>_. Some (''http:'', ''h'', ''8080'', [], []));
       old = (demo_proxy ''a'' 1 True)\<lparr>pr_username := Some ''bob''\<rparr>;
       s = demo_proxies\<lparr>pp_records := [(''a'', old)]\<rparr>;
       r = updateProxy parse (\<lambda>x. Some x) None 7 ''a'' \<lparr>pu_server = None, pu_username = Some [], pu_password = None, pu_bypass = None,
             pu_name = None, pu_tags = None, pu_enabled = None\<rparr> s
   in case fst r of Inr y \<Rightarrow> pr_username y = Some ''bob'' \<and> pr_lastCheck y = None | Inl _ \<Rightarrow> False"
  by code_simp

end
