(* ===== verification/Checkpoints.thy ===== *)
theory Checkpoints
  imports Utf8Text Vault "HOL-Library.Multiset"
begin

text \<open>
  \<open>src/profile/versioned-checkpoint-store.ts\<close>: the versioned checkpoints of a profile. A store is the
  directory of each profile; a directory holds files by name and the \<open>latest\<close> pointer. The schema and
  JSON (\<open>codec\<close>) and the cipher are parameters. A save is split where it links its file, so that
  other saves can come in between. Failures of the file system other than a missing, existing or
  unreadable file are not modelled.
\<close>

text \<open>What is found under a name: a file with this text, something else, or a file that cannot be read.\<close>

datatype stored = FileText string | NotAFile | Denied

record ckpt_dir =
  cd_files :: "(string, stored) jmap"
  cd_latest :: "string option"

type_synonym ckpt_store = "string \<Rightarrow> ckpt_dir option"

datatype ckpt_error = CkInvalidOptions | CkInvalidProfile | CkInvalidVersion | CkConflict | CkSchema | CkTooLarge | CkIo

text \<open>\<open>cc_stuck\<close>: the names whose removal fails, which \<open>prune\<close> ignores.\<close>

record ckpt_config =
  cc_max :: nat
  cc_maxBytes :: nat
  cc_vault :: "vault option"
  cc_stuck :: "string \<Rightarrow> bool"

record 'st codec =
  ck_valid :: "'st \<Rightarrow> bool"
  ck_print :: "'st \<Rightarrow> string"
  ck_parse :: "string \<Rightarrow> 'st option"

definition checkpointConfig :: "jsnum option \<Rightarrow> jsnum option \<Rightarrow> vault option \<Rightarrow> (string \<Rightarrow> bool) \<Rightarrow> ckpt_error + ckpt_config" where
  "checkpointConfig maxCheckpoints maxBytes va stuck =
     (case (case maxCheckpoints of Some n \<Rightarrow> n | None \<Rightarrow> IntN 10) of
        OtherN \<Rightarrow> Inl CkInvalidOptions
      | IntN m \<Rightarrow> if m < 1 \<or> m > 1000 then Inl CkInvalidOptions
          else (case (case maxBytes of Some n \<Rightarrow> n | None \<Rightarrow> IntN (32 * 1024 * 1024)) of
             OtherN \<Rightarrow> Inl CkInvalidOptions
           | IntN b \<Rightarrow> if b < 1024 * 1024 \<or> b > 128 * 1024 * 1024 then Inl CkInvalidOptions
               else Inr \<lparr>cc_max = nat m, cc_maxBytes = nat b, cc_vault = va, cc_stuck = stuck\<rparr>))"

definition maxStoredBytes :: "ckpt_config \<Rightarrow> nat" where
  "maxStoredBytes cfg = (3 * cc_maxBytes cfg + 1) div 2 + 4096"

definition bytes_of :: "string \<Rightarrow> nat" where
  "bytes_of t = byteLength (map code_point t)"

definition parseState :: "ckpt_config \<Rightarrow> 'st codec \<Rightarrow> string \<Rightarrow> 'st option" where
  "parseState cfg codec serialized =
     (if bytes_of serialized > maxStoredBytes cfg then None
      else (case (case cc_vault cfg of Some va \<Rightarrow> vaultDecrypt va serialized
                 | None \<Rightarrow> if isEncrypted serialized then None else Some serialized) of
         None \<Rightarrow> None
       | Some d \<Rightarrow> if bytes_of d > cc_maxBytes cfg then None else ck_parse codec d))"

definition ident_char :: "char \<Rightarrow> bool" where
  "ident_char c = (is_digit c \<or> (65 \<le> code_point c \<and> code_point c \<le> 90) \<or> (97 \<le> code_point c \<and> code_point c \<le> 122)
     \<or> c = CHR ''_'' \<or> c = CHR ''-'')"

definition validProfileId :: "string \<Rightarrow> bool" where
  "validProfileId i = (1 \<le> length i \<and> length i \<le> 128 \<and> list_all ident_char i)"

definition validVersion :: "jsnum option \<Rightarrow> bool" where
  "validVersion v = (case v of None \<Rightarrow> True | Some OtherN \<Rightarrow> False | Some (IntN i) \<Rightarrow> is_safe_integer (IntN i) \<and> 0 \<le> i)"

definition file_of :: "nat \<Rightarrow> string" where
  "file_of v = ''checkpoint_'' @ dec_of v @ ''.json''"

text \<open>\<open>/^checkpoint_(\d+)\.json$/\<close> and the test of the number.\<close>

definition version_of_file :: "string \<Rightarrow> nat option" where
  "version_of_file f =
     (let d = take (length f - 16) (drop 11 f)
      in if startsWith f ''checkpoint_'' \<and> endsWith f ''.json'' \<and> d \<noteq> [] \<and> list_all is_digit d \<and> int (dec_val d) \<le> MAX_SAFE
         then Some (dec_val d) else None)"

definition getAvailableVersions :: "ckpt_dir \<Rightarrow> nat list" where
  "getAvailableVersions d = rev (sort (List.map_filter version_of_file (jkeys (cd_files d))))"

definition tryReadCheckpoint :: "ckpt_config \<Rightarrow> 'st codec \<Rightarrow> ckpt_dir \<Rightarrow> nat \<Rightarrow> ckpt_error + 'st option" where
  "tryReadCheckpoint cfg codec d v =
     (case map_of (cd_files d) (file_of v) of
        Some (FileText t) \<Rightarrow> Inr (if bytes_of t > maxStoredBytes cfg then None else parseState cfg codec t)
      | Some Denied \<Rightarrow> Inl CkIo
      | _ \<Rightarrow> Inr None)"

fun first_readable :: "ckpt_config \<Rightarrow> 'st codec \<Rightarrow> ckpt_dir \<Rightarrow> nat list \<Rightarrow> ckpt_error + (nat \<times> 'st) option" where
  "first_readable cfg codec d [] = Inr None"
| "first_readable cfg codec d (v # vs) =
     (case tryReadCheckpoint cfg codec d v of
        Inl e \<Rightarrow> Inl e
      | Inr None \<Rightarrow> first_readable cfg codec d vs
      | Inr (Some st) \<Rightarrow> Inr (Some (v, st)))"

definition getLatestState :: "ckpt_config \<Rightarrow> 'st codec \<Rightarrow> string \<Rightarrow> ckpt_store \<Rightarrow> (ckpt_error + (nat \<times> 'st) option) \<times> ckpt_store" where
  "getLatestState cfg codec p s =
     (if \<not> validProfileId p then (Inl CkInvalidProfile, s)
      else (case s p of
         None \<Rightarrow> (Inr None, s)
       | Some d \<Rightarrow>
         (case first_readable cfg codec d (getAvailableVersions d) of
            Inr (Some (v, st)) \<Rightarrow> (Inr (Some (v, st)), s(p \<mapsto> d\<lparr>cd_latest := Some (dec_of v)\<rparr>))
          | r \<Rightarrow> (r, s))))"

definition getLatestVersion :: "ckpt_config \<Rightarrow> 'st codec \<Rightarrow> string \<Rightarrow> ckpt_store \<Rightarrow> (ckpt_error + nat) \<times> ckpt_store" where
  "getLatestVersion cfg codec p s =
     (case getLatestState cfg codec p s of
        (Inl e, s') \<Rightarrow> (Inl e, s')
      | (Inr (Some (v, _)), s') \<Rightarrow> (Inr v, s')
      | (Inr None, s') \<Rightarrow> (Inr 0, s'))"

definition empty_dir :: ckpt_dir where "empty_dir = \<lparr>cd_files = [], cd_latest = None\<rparr>"

definition mkdir :: "string \<Rightarrow> ckpt_store \<Rightarrow> ckpt_store" where
  "mkdir p s = (case s p of None \<Rightarrow> s(p \<mapsto> empty_dir) | Some _ \<Rightarrow> s)"

text \<open>\<open>saveState\<close> up to the link: the version and the text it will link.\<close>

definition saveBegin ::
  "ckpt_config \<Rightarrow> 'st codec \<Rightarrow> string \<Rightarrow> 'st \<Rightarrow> jsnum option \<Rightarrow> ckpt_store \<Rightarrow> (ckpt_error + (nat \<times> string)) \<times> ckpt_store" where
  "saveBegin cfg codec p st expected s =
     (if \<not> validProfileId p then (Inl CkInvalidProfile, s)
      else if \<not> validVersion expected then (Inl CkInvalidVersion, s)
      else (case getLatestVersion cfg codec p (mkdir p s) of
         (Inl e, s1) \<Rightarrow> (Inl e, s1)
       | (Inr current, s1) \<Rightarrow>
           if expected \<noteq> None \<and> expected \<noteq> Some (IntN (int current)) then (Inl CkConflict, s1)
           else (let occupied = (case s1 p of Some d \<Rightarrow> getAvailableVersions d | None \<Rightarrow> []);
                     newVersion = max current (case occupied of [] \<Rightarrow> 0 | v # _ \<Rightarrow> v) + 1;
                     t = ck_print codec st
                 in if \<not> validVersion (Some (IntN (int newVersion))) then (Inl CkInvalidVersion, s1)
                    else if \<not> ck_valid codec st then (Inl CkSchema, s1)
                    else if bytes_of t > cc_maxBytes cfg then (Inl CkTooLarge, s1)
                    else (Inr (newVersion, case cc_vault cfg of Some va \<Rightarrow> vaultEncrypt va t | None \<Rightarrow> t), s1))))"

definition prune :: "ckpt_config \<Rightarrow> ckpt_dir \<Rightarrow> ckpt_dir" where
  "prune cfg d =
     (let toDelete = drop (cc_max cfg) (getAvailableVersions d)
      in d\<lparr>cd_files := filter (\<lambda>f. fst f \<notin> file_of ` set toDelete \<or> cc_stuck cfg (fst f)) (cd_files d)\<rparr>)"

text \<open>The rest of \<open>saveState\<close>: the exclusive link, the pointer, the pruning.\<close>

definition saveCommit :: "ckpt_config \<Rightarrow> string \<Rightarrow> nat \<Rightarrow> string \<Rightarrow> ckpt_store \<Rightarrow> (ckpt_error + nat) \<times> ckpt_store" where
  "saveCommit cfg p v t s =
     (case s p of
        None \<Rightarrow> (Inl CkIo, s)
      | Some d \<Rightarrow>
          if map_of (cd_files d) (file_of v) \<noteq> None then (Inl CkConflict, s)
          else (Inr v, s(p \<mapsto> prune cfg \<lparr>cd_files = jset (cd_files d) (file_of v) (FileText t), cd_latest = Some (dec_of v)\<rparr>)))"

definition saveState ::
  "ckpt_config \<Rightarrow> 'st codec \<Rightarrow> string \<Rightarrow> 'st \<Rightarrow> jsnum option \<Rightarrow> ckpt_store \<Rightarrow> (ckpt_error + nat) \<times> ckpt_store" where
  "saveState cfg codec p st expected =
     andthen (saveBegin cfg codec p st expected) (\<lambda>(v, t). saveCommit cfg p v t)"

subsection \<open>Names and versions\<close>

lemma file_version: "int v \<le> MAX_SAFE \<Longrightarrow> version_of_file (file_of v) = Some v"
  using dec_of_digits[of v] by (simp add: version_of_file_def file_of_def Let_def startsWith_def endsWith_def suffix_def)

lemma file_of_inject: "file_of v = file_of w \<Longrightarrow> v = w"
  by (metis append_same_eq dec_val_dec_of file_of_def same_append_eq)

lemma versions_mem: "v \<in> set (getAvailableVersions d) \<longleftrightarrow> (\<exists>f \<in> set (jkeys (cd_files d)). version_of_file f = Some v)"
  by (force simp: getAvailableVersions_def List.map_filter_def)

lemma versions_top:
  assumes "n \<in> set (getAvailableVersions d)" "\<forall>v \<in> set (getAvailableVersions d). v \<le> n"
  shows "\<exists>vs. getAvailableVersions d = n # vs"
proof -
  define xs where "xs = List.map_filter version_of_file (jkeys (cd_files d))"
  have a: "getAvailableVersions d = rev (sort xs)" by (simp add: getAvailableVersions_def xs_def)
  have ne: "sort xs \<noteq> []" using assms(1) unfolding a by (metis empty_iff empty_set rev.simps(1))
  have "last (sort xs) \<le> n" using assms(2) last_in_set[OF ne] by (simp add: a)
  moreover have "n \<le> last (sort xs)"
  proof -
    have "n \<in> set (sort xs)" using assms(1) unfolding a by (simp only: set_rev)
    then obtain i where "i < length (sort xs)" "sort xs ! i = n" by (metis in_set_conv_nth)
    then show ?thesis using sorted_nth_mono[of "sort xs" i "length (sort xs) - 1"] ne by (simp add: last_conv_nth)
  qed
  ultimately have "last (sort xs) = n" by simp
  then show ?thesis using ne by (metis a append_butlast_last_id rev.simps(2) rev_append rev_rev_ident append_Cons append_Nil rev.simps(1))
qed

lemma versions_head: "getAvailableVersions d = v # vs \<Longrightarrow> w \<in> set (v # vs) \<Longrightarrow> w \<le> v"
proof -
  define xs where "xs = sort (List.map_filter version_of_file (jkeys (cd_files d)))"
  assume g: "getAvailableVersions d = v # vs" and w: "w \<in> set (v # vs)"
  then have r: "xs = rev vs @ [v]" by (metis getAvailableVersions_def rev.simps(2) rev_rev_ident xs_def)
  have "sorted xs" by (simp add: xs_def)
  then show "w \<le> v" using w unfolding r by (auto simp: sorted_append)
qed

lemma versions_files: "cd_files d = cd_files d' \<Longrightarrow> getAvailableVersions d = getAvailableVersions d'"
  by (simp add: getAvailableVersions_def)

lemma first_readable_files: "cd_files d = cd_files d' \<Longrightarrow> first_readable cfg codec d vs = first_readable cfg codec d' vs"
  by (induction vs) (auto simp: tryReadCheckpoint_def split: option.split sum.split)

lemma first_readable_mem: "first_readable cfg codec d vs = Inr (Some (v, st)) \<Longrightarrow> v \<in> set vs"
  by (induction vs) (auto split: sum.splits option.splits)

text \<open>The files of a profile decide what is read; the pointer and the directory itself do not.\<close>

definition files_in :: "ckpt_store \<Rightarrow> string \<Rightarrow> (string, stored) jmap" where
  "files_in s p = (case s p of None \<Rightarrow> [] | Some d \<Rightarrow> cd_files d)"

lemma latest_read:
  "fst (getLatestState cfg codec p s) = (if \<not> validProfileId p then Inl CkInvalidProfile
     else first_readable cfg codec (empty_dir\<lparr>cd_files := files_in s p\<rparr>) (getAvailableVersions (empty_dir\<lparr>cd_files := files_in s p\<rparr>)))"
proof (cases "s p")
  case None
  then show ?thesis by (simp add: getLatestState_def files_in_def getAvailableVersions_def List.map_filter_def)
next
  case (Some d)
  have "getAvailableVersions (empty_dir\<lparr>cd_files := cd_files d\<rparr>) = getAvailableVersions d"
    "first_readable cfg codec (empty_dir\<lparr>cd_files := cd_files d\<rparr>) vs = first_readable cfg codec d vs" for vs
    by (rule versions_files, simp, rule first_readable_files, simp)
  with Some show ?thesis by (auto simp: getLatestState_def files_in_def split: sum.split option.split)
qed

lemma latest_same: "files_in s p = files_in s' p \<Longrightarrow> fst (getLatestState cfg codec p s) = fst (getLatestState cfg codec p s')"
  by (simp add: latest_read)

lemma getLatestState_files [simp]: "files_in (snd (getLatestState cfg codec p s)) q = files_in s q"
  by (auto simp: getLatestState_def files_in_def split: option.split sum.split)

lemma getLatestVersion_fields:
  "fst (getLatestVersion cfg codec p s) = map_sum id (\<lambda>r. case r of Some (v, _) \<Rightarrow> v | None \<Rightarrow> 0) (fst (getLatestState cfg codec p s))"
  "snd (getLatestVersion cfg codec p s) = snd (getLatestState cfg codec p s)"
  by (auto simp: getLatestVersion_def split: prod.split sum.split option.split)

lemma mkdir_files [simp]: "files_in (mkdir p s) q = files_in s q"
  by (auto simp: mkdir_def files_in_def empty_dir_def split: option.split)

lemma mkdir_present: "snd (getLatestState cfg codec p (mkdir p s)) p \<noteq> None"
  by (auto simp: getLatestState_def mkdir_def split: option.split sum.split)

subsection \<open>What a save does\<close>

lemma saveBegin_files [simp]: "files_in (snd (saveBegin cfg codec p st expected s)) q = files_in s q"
proof -
  obtain r s1 where e: "getLatestVersion cfg codec p (mkdir p s) = (r, s1)" by fastforce
  have "s1 = snd (getLatestState cfg codec p (mkdir p s))" using getLatestVersion_fields(2)[of cfg codec p "mkdir p s"] e by simp
  then have "files_in s1 q = files_in s q" by simp
  then show ?thesis unfolding saveBegin_def e by (cases r) (simp_all add: Let_def)
qed

definition stored_text :: "ckpt_config \<Rightarrow> 'st codec \<Rightarrow> 'st \<Rightarrow> string" where
  "stored_text cfg codec st = (case cc_vault cfg of Some va \<Rightarrow> vaultEncrypt va (ck_print codec st) | None \<Rightarrow> ck_print codec st)"

definition occupied :: "ckpt_store \<Rightarrow> string \<Rightarrow> nat list" where
  "occupied s p = getAvailableVersions (empty_dir\<lparr>cd_files := files_in s p\<rparr>)"

lemma saveBegin_success:
  assumes "saveBegin cfg codec p st expected s = (Inr (n, t), s1)"
  shows "validProfileId p \<and> (\<exists>r. fst (getLatestState cfg codec p s) = Inr r
      \<and> (expected = None \<or> expected = Some (IntN (int (case r of Some (v, _) \<Rightarrow> v | None \<Rightarrow> 0)))))
    \<and> int n \<le> MAX_SAFE \<and> (\<forall>v \<in> set (occupied s p). v < n) \<and> 0 < n
    \<and> ck_valid codec st \<and> bytes_of (ck_print codec st) \<le> cc_maxBytes cfg \<and> t = stored_text cfg codec st \<and> s1 p \<noteq> None"
proof -
  obtain r0 s0 where e: "getLatestVersion cfg codec p (mkdir p s) = (r0, s0)" by fastforce
  have s0: "s0 = snd (getLatestState cfg codec p (mkdir p s))" using getLatestVersion_fields(2)[of cfg codec p "mkdir p s"] e by simp
  have r0: "r0 = map_sum id (\<lambda>r. case r of Some (v, _) \<Rightarrow> v | None \<Rightarrow> 0) (fst (getLatestState cfg codec p s))"
    using getLatestVersion_fields(1)[of cfg codec p "mkdir p s"] e latest_same[of "mkdir p s" p s cfg codec] by simp
  obtain d where d: "s0 p = Some d" using mkdir_present[of cfg codec p s] s0 by auto
  have occ: "getAvailableVersions d = occupied s p"
    unfolding occupied_def by (rule versions_files) (use getLatestState_files[of cfg codec p "mkdir p s" p] mkdir_files[of p s p] s0 d in \<open>simp add: files_in_def\<close>)
  obtain r where r: "fst (getLatestState cfg codec p s) = Inr r" "r0 = Inr (case r of Some (v, _) \<Rightarrow> v | None \<Rightarrow> 0)"
    using assms r0 by (cases "fst (getLatestState cfg codec p s)") (auto simp: saveBegin_def e split: if_splits)
  define cur where "cur = (case r of Some (v, _) \<Rightarrow> v | None \<Rightarrow> 0)"
  have p: "validProfileId p" using assms by (auto simp: saveBegin_def split: if_splits)
  have n: "n = max cur (case occupied s p of [] \<Rightarrow> 0 | v # _ \<Rightarrow> v) + 1"
    and rest: "expected = None \<or> expected = Some (IntN (int cur))" "validVersion (Some (IntN (int n)))" "ck_valid codec st"
      "bytes_of (ck_print codec st) \<le> cc_maxBytes cfg" "t = stored_text cfg codec st" "s1 = s0"
    using assms p unfolding saveBegin_def e r(2) cur_def[symmetric]
    by (auto simp: Let_def d occ stored_text_def split: if_splits)
  have "v < n" if "v \<in> set (occupied s p)" for v
  proof -
    from that obtain w ws where w: "occupied s p = w # ws" by (cases "occupied s p") auto
    moreover have "v \<le> w" using versions_head[OF w[unfolded occupied_def]] that unfolding w by blast
    ultimately show ?thesis by (simp add: n)
  qed
  moreover have "0 < n" by (simp add: n)
  ultimately show ?thesis using p r(1) rest d by (auto simp: cur_def validVersion_def)
qed

lemma saveCommit_files:
  "files_in (snd (saveCommit cfg p n t s)) q =
     (if q = p \<and> fst (saveCommit cfg p n t s) = Inr n then cd_files (prune cfg \<lparr>cd_files = jset (files_in s p) (file_of n) (FileText t), cd_latest = Some (dec_of n)\<rparr>)
      else files_in s q)"
  by (auto simp: saveCommit_def files_in_def split: option.split)

lemma saveState_failed:
  assumes "saveState cfg codec p st expected s = (Inl e, s')"
  shows "files_in s' q = files_in s q"
proof (cases "saveBegin cfg codec p st expected s")
  case (Pair r s1)
  have f: "files_in s1 q = files_in s q" using saveBegin_files[of cfg codec p st expected s q] Pair by simp
  show ?thesis
  proof (cases r)
    case (Inl a)
    with assms Pair f show ?thesis by (simp add: saveState_def andthen_def)
  next
    case (Inr vt)
    then have "saveCommit cfg p (fst vt) (snd vt) s1 = (Inl e, s')" using assms Pair by (simp add: saveState_def andthen_def split: prod.splits)
    with saveCommit_files[of cfg p "fst vt" "snd vt" s1 q] f show ?thesis by simp
  qed
qed

text \<open>What a codec and a cipher must do: read back what was printed and sealed, within the size the store allows.\<close>

definition sound_codec :: "ckpt_config \<Rightarrow> 'st codec \<Rightarrow> bool" where
  "sound_codec cfg codec \<longleftrightarrow> 0 < cc_max cfg
     \<and> (\<forall>st. ck_valid codec st \<and> bytes_of (ck_print codec st) \<le> cc_maxBytes cfg
          \<longrightarrow> ck_parse codec (ck_print codec st) = Some st \<and> \<not> isEncrypted (ck_print codec st))
     \<and> (case cc_vault cfg of None \<Rightarrow> True
        | Some va \<Rightarrow> sound_vault va \<and> (\<forall>t. bytes_of t \<le> cc_maxBytes cfg \<longrightarrow> bytes_of (vaultEncrypt va t) \<le> maxStoredBytes cfg))"

lemma stored_reads_back:
  assumes "sound_codec cfg codec" "ck_valid codec st" "bytes_of (ck_print codec st) \<le> cc_maxBytes cfg"
  shows "bytes_of (stored_text cfg codec st) \<le> maxStoredBytes cfg \<and> parseState cfg codec (stored_text cfg codec st) = Some st"
proof -
  have c: "ck_parse codec (ck_print codec st) = Some st" "\<not> isEncrypted (ck_print codec st)" using assms by (auto simp: sound_codec_def)
  have le: "cc_maxBytes cfg \<le> maxStoredBytes cfg" by (simp add: maxStoredBytes_def)
  show ?thesis
  proof (cases "cc_vault cfg")
    case None
    with c assms(3) le show ?thesis by (simp add: stored_text_def parseState_def)
  next
    case (Some va)
    then have "sound_vault va" "bytes_of (vaultEncrypt va (ck_print codec st)) \<le> maxStoredBytes cfg"
      using assms(1,3) by (auto simp: sound_codec_def)
    with Some c assms(3) vault_roundtrip(1)[of va "ck_print codec st"] show ?thesis by (simp add: stored_text_def parseState_def)
  qed
qed

lemma saveState_success:
  assumes "sound_codec cfg codec" "saveState cfg codec p st expected s = (Inr n, s')"
  shows "fst (getLatestState cfg codec p s') = Inr (Some (n, st))"
    "0 < n \<and> (\<forall>v \<in> set (occupied s p). v < n) \<and> (\<exists>r. fst (getLatestState cfg codec p s) = Inr r
      \<and> (expected = None \<or> expected = Some (IntN (int (case r of Some (v, _) \<Rightarrow> v | None \<Rightarrow> 0)))))"
    "q \<noteq> p \<Longrightarrow> files_in s' q = files_in s q"
proof -
  obtain t s1 where b: "saveBegin cfg codec p st expected s = (Inr (n, t), s1)" and c: "saveCommit cfg p n t s1 = (Inr n, s')"
    using assms(2) by (cases "saveBegin cfg codec p st expected s"; cases "fst (saveBegin cfg codec p st expected s)")
      (auto simp: saveState_def andthen_def saveCommit_def split: option.splits if_splits)
  note B = saveBegin_success[OF b]
  then show "0 < n \<and> (\<forall>v \<in> set (occupied s p). v < n) \<and> (\<exists>r. fst (getLatestState cfg codec p s) = Inr r
      \<and> (expected = None \<or> expected = Some (IntN (int (case r of Some (v, _) \<Rightarrow> v | None \<Rightarrow> 0)))))" by blast
  have f1: "files_in s1 q = files_in s q" for q using saveBegin_files[of cfg codec p st expected s q] b by simp
  show "q \<noteq> p \<Longrightarrow> files_in s' q = files_in s q" using saveCommit_files[of cfg p n t s1 q] c f1 by simp
  define d1 where "d1 = \<lparr>cd_files = jset (files_in s p) (file_of n) (FileText t), cd_latest = Some (dec_of n)\<rparr>"
  have f: "files_in s' p = cd_files (prune cfg d1)" using saveCommit_files[of cfg p n t s1 p] c f1 by (simp add: d1_def)
  have new: "map_of (files_in s p) (file_of n) = None"
  proof (rule ccontr)
    assume "map_of (files_in s p) (file_of n) \<noteq> None"
    then have "file_of n \<in> set (jkeys (files_in s p))" by (simp add: map_of_eq_None_iff)
    moreover have "version_of_file (file_of n) = Some n" using B by (simp add: file_version)
    ultimately have "n \<in> set (occupied s p)"
      unfolding occupied_def versions_mem by (intro bexI[of _ "file_of n"]) simp_all
    with B show False by auto
  qed
  have vs: "getAvailableVersions d1 = n # occupied s p"
  proof -
    define old where "old = List.map_filter version_of_file (jkeys (files_in s p))"
    have o: "occupied s p = rev (sort old)" by (simp add: occupied_def getAvailableVersions_def old_def)
    have "List.map_filter version_of_file (jkeys (cd_files d1)) = old @ [n]"
      using B by (simp add: d1_def jset_fresh[OF new] List.map_filter_def old_def file_version)
    moreover have "sort (old @ [n]) = sort old @ [n]"
      using B by (intro properties_for_sort) (auto simp: sorted_append o intro: less_imp_le)
    ultimately show ?thesis by (simp add: getAvailableVersions_def o)
  qed
  have "file_of n \<notin> file_of ` set (drop (cc_max cfg) (getAvailableVersions d1))"
  proof
    assume "file_of n \<in> file_of ` set (drop (cc_max cfg) (getAvailableVersions d1))"
    then have "n \<in> set (drop (cc_max cfg) (n # occupied s p))" by (auto simp: vs dest: file_of_inject)
    moreover obtain k where "cc_max cfg = Suc k" using assms(1) by (metis gr0_implies_Suc sound_codec_def)
    ultimately have "n \<in> set (occupied s p)" by (auto dest: in_set_dropD)
    with B show False by auto
  qed
  then obtain P where P: "cd_files (prune cfg d1) = filter P (files_in s p) @ [(file_of n, FileText t)]"
    by (simp add: prune_def Let_def d1_def jset_fresh[OF new])
  have "map_of (filter P (files_in s p)) (file_of n) = None" using new by (auto simp: map_of_eq_None_iff)
  then have kept: "map_of (cd_files (prune cfg d1)) (file_of n) = Some (FileText t)"
    unfolding P by (simp add: map_add_def)
  have in_kept: "(file_of n, FileText t) \<in> set (cd_files (prune cfg d1))" unfolding P by simp
  have sub: "v \<le> n" if "v \<in> set (getAvailableVersions (prune cfg d1))" for v
  proof -
    have "v \<in> set (getAvailableVersions d1)" using that by (force simp: versions_mem prune_def Let_def)
    then show ?thesis using B by (auto simp: vs)
  qed
  have "n \<in> set (getAvailableVersions (prune cfg d1))" using in_kept B file_version[of n] by (force simp: versions_mem)
  from versions_top[OF this] sub obtain ws where ws: "getAvailableVersions (prune cfg d1) = n # ws" by blast
  have same: "cd_files (empty_dir\<lparr>cd_files := files_in s' p\<rparr>) = cd_files (prune cfg d1)" by (simp add: f)
  have "tryReadCheckpoint cfg codec (prune cfg d1) n = Inr (Some st)"
    using B stored_reads_back[OF assms(1), of st] kept by (simp add: tryReadCheckpoint_def)
  then show "fst (getLatestState cfg codec p s') = Inr (Some (n, st))"
    using B unfolding latest_read versions_files[OF same] first_readable_files[OF same] ws by simp
qed

subsection \<open>Checkpoints are a versioned store\<close>

definition ckpt_lookup :: "ckpt_config \<Rightarrow> 'st codec \<Rightarrow> ckpt_store \<Rightarrow> string \<Rightarrow> ('st \<times> int) option" where
  "ckpt_lookup cfg codec s p =
     (case fst (getLatestState cfg codec p s) of Inr (Some (v, st)) \<Rightarrow> Some (st, int v) | _ \<Rightarrow> None)"

definition ckpt_cas :: "ckpt_config \<Rightarrow> 'st codec \<Rightarrow> string \<Rightarrow> int \<Rightarrow> 'st \<Rightarrow> ckpt_store \<Rightarrow> bool \<times> ckpt_store" where
  "ckpt_cas cfg codec p v st s =
     (case saveState cfg codec p st (Some (IntN v)) s of (r, s') \<Rightarrow> (\<not> isl r, s'))"

lemma lookup_files: "files_in s' p = files_in s p \<Longrightarrow> ckpt_lookup cfg codec s' p = ckpt_lookup cfg codec s p"
  by (simp add: ckpt_lookup_def latest_same[of s' p s])

lemma lookup_occupied: "ckpt_lookup cfg codec s p = Some (st, v) \<Longrightarrow> \<exists>n. v = int n \<and> n \<in> set (occupied s p)"
  by (auto simp: ckpt_lookup_def latest_read occupied_def dest!: first_readable_mem split: sum.splits option.splits if_splits)

lemma ckpt_save_lookup:
  assumes "sound_codec cfg codec" "saveState cfg codec p st expected s = (Inr n, s')"
  shows "ckpt_lookup cfg codec s' p = Some (st, int n)"
    "(case ckpt_lookup cfg codec s p of Some (_, m) \<Rightarrow> m | None \<Rightarrow> 0) < int n"
    "expected = Some (IntN v) \<Longrightarrow> (case ckpt_lookup cfg codec s p of Some (_, m) \<Rightarrow> m | None \<Rightarrow> 0) = v"
    "q \<noteq> p \<Longrightarrow> ckpt_lookup cfg codec s' q = ckpt_lookup cfg codec s q"
proof -
  note S = saveState_success[OF assms]
  show "ckpt_lookup cfg codec s' p = Some (st, int n)" by (simp add: ckpt_lookup_def S(1))
  show "(case ckpt_lookup cfg codec s p of Some (_, m) \<Rightarrow> m | None \<Rightarrow> 0) < int n"
  proof (cases "ckpt_lookup cfg codec s p")
    case None
    then show ?thesis using S(2) by simp
  next
    case (Some sv)
    obtain st0 v0 where "sv = (st0, v0)" by (cases sv)
    with Some lookup_occupied[of cfg codec s p st0 v0] S(2) show ?thesis by auto
  qed
  show "expected = Some (IntN v) \<Longrightarrow> (case ckpt_lookup cfg codec s p of Some (_, m) \<Rightarrow> m | None \<Rightarrow> 0) = v"
    using S(2) by (auto simp: ckpt_lookup_def split: option.splits)
  show "q \<noteq> p \<Longrightarrow> ckpt_lookup cfg codec s' q = ckpt_lookup cfg codec s q" using S(3) by (rule lookup_files)
qed

lemma checkpoint_store:
  assumes "sound_codec cfg codec"
  shows "versioned_store (ckpt_lookup cfg codec) (ckpt_cas cfg codec)"
proof
  fix k v d s s'
  show "(case ckpt_lookup cfg codec s k of Some (_, n) \<Rightarrow> n | None \<Rightarrow> 0) = v \<and> (\<exists>n. v < n \<and> ckpt_lookup cfg codec s' k = Some (d, n))"
    if "ckpt_cas cfg codec k v d s = (True, s')"
  proof -
    from that obtain n where "saveState cfg codec k d (Some (IntN v)) s = (Inr n, s')"
      by (cases "saveState cfg codec k d (Some (IntN v)) s"; cases "fst (saveState cfg codec k d (Some (IntN v)) s)")
        (simp_all add: ckpt_cas_def)
    from ckpt_save_lookup[OF assms this] show ?thesis by auto
  qed
  show "ckpt_lookup cfg codec s' = ckpt_lookup cfg codec s" if "ckpt_cas cfg codec k v d s = (False, s')"
  proof -
    from that obtain e where "saveState cfg codec k d (Some (IntN v)) s = (Inl e, s')"
      by (cases "saveState cfg codec k d (Some (IntN v)) s"; cases "fst (saveState cfg codec k d (Some (IntN v)) s)")
        (simp_all add: ckpt_cas_def)
    from saveState_failed[OF this] show ?thesis by (intro ext lookup_files) simp
  qed
next
  fix s k' k v d
  show "(case ckpt_lookup cfg codec s k' of Some (_, n) \<Rightarrow> n | None \<Rightarrow> 0)
      \<le> (case ckpt_lookup cfg codec (snd (ckpt_cas cfg codec k v d s)) k' of Some (_, n) \<Rightarrow> n | None \<Rightarrow> 0)"
  proof (cases "saveState cfg codec k d (Some (IntN v)) s")
    case (Pair r s')
    show ?thesis
    proof (cases r)
      case (Inl e)
      then show ?thesis using saveState_failed[of cfg codec k d "Some (IntN v)" s e s'] Pair
        by (simp add: ckpt_cas_def lookup_files[of s' k' s])
    next
      case (Inr n)
      with Pair ckpt_save_lookup[OF assms, of k d "Some (IntN v)" s n s'] show ?thesis
        by (cases "k' = k") (auto simp: ckpt_cas_def)
    qed
  qed
qed


text \<open>A store of texts, printed behind a brace, that keeps one checkpoint per profile.\<close>

definition demo_codec :: "string codec" where
  "demo_codec = \<lparr>ck_valid = (\<lambda>_. True), ck_print = (\<lambda>t. CHR ''{'' # t), ck_parse = (\<lambda>t. case t of [] \<Rightarrow> None | _ # u \<Rightarrow> Some u)\<rparr>"

definition demo_config :: ckpt_config where
  "demo_config = \<lparr>cc_max = 1, cc_maxBytes = 1048576, cc_vault = None, cc_stuck = (\<lambda>_. False)\<rparr>"

lemma demo_sound: "sound_codec demo_config demo_codec"
  by (simp add: sound_codec_def demo_config_def demo_codec_def isEncrypted_def startsWith_def VAULT_PREFIX_def)

definition demo_saved :: ckpt_store where
  "demo_saved = snd (saveState demo_config demo_codec ''alice'' ''one'' None (\<lambda>_. None))"

lemma demo_first: "saveState demo_config demo_codec ''alice'' ''one'' None (\<lambda>_. None) = (Inr 1, demo_saved)"
  unfolding demo_saved_def by (rule prod_eqI) (simp_all, code_simp)

lemma demo_second: "saveState demo_config demo_codec ''alice'' ''two'' (Some (IntN 1)) demo_saved
   = (Inr 2, snd (saveState demo_config demo_codec ''alice'' ''two'' (Some (IntN 1)) demo_saved))"
  by (rule prod_eqI) (simp_all, code_simp)


text \<open>
  Between the checks and the link of one save, others can save and prune the very number it will use:
  it then succeeds although newer checkpoints exist, and its own is removed at once.
\<close>

lemma stale_save_succeeds:
  "let a = saveBegin demo_config demo_codec ''alice'' ''stale'' (Some (IntN 1)) demo_saved;
       s2 = snd (saveState demo_config demo_codec ''alice'' ''two'' (Some (IntN 1)) (snd a));
       s3 = snd (saveState demo_config demo_codec ''alice'' ''three'' (Some (IntN 2)) s2);
       r = (case fst a of Inr (v, t) \<Rightarrow> saveCommit demo_config ''alice'' v t s3 | Inl e \<Rightarrow> (Inl e, s3))
   in fst r = Inr 2 \<and> fst (getLatestState demo_config demo_codec ''alice'' (snd r)) = Inr (Some (3, ''three''))"
  by code_simp

end
