(* ===== verification/JsonText.thy ===== *)
theory JsonText
  imports SemanticSnapshot "HOL-Library.Char_ord" "HOL-Library.List_Lexorder"
begin

text \<open>
  \<open>JSON.stringify\<close> of parsed JSON with whole numbers, the same with the fields of every object in the
  order of their names (\<open>stableJson\<close> of \<open>src/browser/workflow.ts\<close>), and the number of UTF-8 bytes of a
  Latin-1 text. The main lemma says that the text determines the value.
\<close>

definition int_text :: "int \<Rightarrow> string" where
  "int_text i = (if i < 0 then CHR ''-'' # dec_of (nat (- i)) else dec_of (nat i))"

definition num_text :: "jsnum \<Rightarrow> string" where
  "num_text n = (case n of IntN i \<Rightarrow> int_text i | OtherN \<Rightarrow> ''null'')"

lemma size_field: "p \<in> set fs \<Longrightarrow> size (snd p) < Suc (size_list (size_prod (\<lambda>_. 0) size) fs)"
  by (rule less_SucI, erule size_list_estimation, cases p) simp

function stringify :: "json \<Rightarrow> string" where
  "stringify JNull = ''null''"
| "stringify (JBool b) = (if b then ''true'' else ''false'')"
| "stringify (JNumber n) = num_text n"
| "stringify (JString s) = json_quote s"
| "stringify (JArray xs) = ''['' @ join_with '','' (map stringify xs) @ '']''"
| "stringify (JObject fs) =
     ''{'' @ join_with '','' (map (\<lambda>p. json_quote (fst p) @ '':'' @ stringify (snd p)) fs) @ ''}''"
  by pat_completeness auto
termination by (relation "measure size") (auto simp: size_list_estimation' less_Suc_eq_le intro: size_field[unfolded less_Suc_eq_le])

definition by_name :: "(string \<times> 'a) list \<Rightarrow> (string \<times> 'a) list" where "by_name fs = sort_key fst fs"

lemma by_name_Nil [simp]: "by_name [] = []"
  by (simp add: by_name_def)

function stableJson :: "json \<Rightarrow> string" where
  "stableJson JNull = ''null''"
| "stableJson (JBool b) = stringify (JBool b)"
| "stableJson (JNumber n) = stringify (JNumber n)"
| "stableJson (JString s) = stringify (JString s)"
| "stableJson (JArray xs) = ''['' @ join_with '','' (map stableJson xs) @ '']''"
| "stableJson (JObject fs) =
     ''{'' @ join_with '','' (map (\<lambda>p. json_quote (fst p) @ '':'' @ stableJson (snd p)) (by_name fs)) @ ''}''"
  by pat_completeness auto
termination by (relation "measure size") (auto simp: by_name_def less_Suc_eq_le intro: size_list_estimation' size_field[unfolded less_Suc_eq_le])

text \<open>\<open>Buffer.byteLength(s, 'utf8')\<close>.\<close>

definition utf8Length :: "string \<Rightarrow> nat" where "utf8Length s = byteLength (map code_point s)"

lemma utf8Length_simps [simp]: "utf8Length [] = 0" "utf8Length (s @ t) = utf8Length s + utf8Length t"
  by (simp_all add: utf8Length_def byteLength_def)

lemma utf8Length_Cons: "utf8Length (c # s) = utf8Length [c] + utf8Length s"
  using utf8Length_simps(2)[of "[c]" s] by simp

text \<open>\<open>Buffer.from(s, 'utf8').subarray(0, n).toString('utf8').replace(/\uFFFD+$/u, '')\<close> of a Latin-1 text.\<close>

definition cutUtf8 :: "nat \<Rightarrow> string \<Rightarrow> string" where
  "cutUtf8 n s = map char_of (strip_end (decode (take n (encode (map code_point s)))))"

lemma latin1_small: "code_point c < 256"
  by (simp add: code_point_def)

lemma latin1_points: "code_points (map code_point s)"
  by (auto simp: list_all_iff intro: less_trans[OF latin1_small])

lemma scrub_small: "n < 256 \<Longrightarrow> scrub n = n"
  by (simp add: scrub_def surrogate_def)

lemma scrub_latin1 [simp]: "map scrub (map code_point s) = map code_point s"
  by (simp add: scrub_small latin1_small)

lemma strip_latin1 [simp]: "strip_end (map code_point s) = map code_point s"
proof (cases s rule: rev_cases)
  case (snoc t c)
  have "code_point c \<noteq> FFFD" using latin1_small[of c] by (simp add: FFFD_def)
  with snoc show ?thesis by (simp add: strip_end_def)
qed (simp add: strip_end_def)

lemma char_of_points [simp]: "map char_of (map code_point s) = s"
  by (simp add: code_point_def comp_def)

lemma cutUtf8_fits: "\<exists>k. cutUtf8 n s = take k s \<and> map code_point (cutUtf8 n s) = fitting n (map code_point s)"
proof -
  obtain k where k: "fitting n (map code_point s) = map code_point (take k s)"
    using fitting_prefix[of n "map code_point s"] by (metis append_eq_conv_conj prefix_def take_map)
  obtain r where "decode (take n (encode (map code_point s))) = map scrub (fitting n (map code_point s)) @ r" "r = [] \<or> r = [FFFD]"
    using decode_take[OF latin1_points] by blast
  then have "strip_end (decode (take n (encode (map code_point s)))) = map code_point (take k s)"
    by (simp only: k strip_end_app scrub_latin1 strip_latin1)
  then have "cutUtf8 n s = take k s" by (simp only: cutUtf8_def char_of_points)
  with k show ?thesis by metis
qed

lemma cutUtf8_bytes: "utf8Length (cutUtf8 n s) \<le> n"
  using cutUtf8_fits[of n s] fitting_bytes[of n "map code_point s"] by (metis utf8Length_def)

subsection \<open>The text determines the value\<close>

text \<open>Reading back one escaped character.\<close>

definition unescape :: "string \<Rightarrow> (char \<times> string) option" where
  "unescape s =
     (case s of
        [] \<Rightarrow> None
      | a # s1 \<Rightarrow>
        if code_point a \<noteq> 92 then Some (a, s1)
        else (case s1 of
            [] \<Rightarrow> None
          | b # s2 \<Rightarrow>
            if b = CHR ''b'' then Some (char_of (8::nat), s2) else if b = CHR ''t'' then Some (char_of (9::nat), s2)
            else if b = CHR ''n'' then Some (char_of (10::nat), s2) else if b = CHR ''f'' then Some (char_of (12::nat), s2)
            else if b = CHR ''r'' then Some (char_of (13::nat), s2)
            else if b = CHR ''u'' then Some (char_of (hex_val (take 4 s2)), drop 4 s2)
            else Some (b, s2)))"

lemma special_chars: "char_of (34::nat) = CHR 0x22" "char_of (92::nat) = CHR 0x5C"
  by code_simp+

lemma hex_digit_char: "n < 16 \<Longrightarrow> hex_digit (hex_char n) = n"
  by (auto simp: hex_digit_def hex_char_def is_digit_def code_point_def)

lemma escapes:
  "json_escape CHR 0x22 = [CHR 0x5C, CHR 0x22]" "json_escape CHR 0x5C = [CHR 0x5C, CHR 0x5C]"
  "json_escape CHR 0x08 = [CHR 0x5C, CHR ''b'']" "json_escape CHR 0x09 = [CHR 0x5C, CHR ''t'']"
  "json_escape CHR 0x0A = [CHR 0x5C, CHR ''n'']" "json_escape CHR 0x0C = [CHR 0x5C, CHR ''f'']"
  "json_escape CHR 0x0D = [CHR 0x5C, CHR ''r'']"
  by code_simp+

lemma control_chars:
  "char_of (8::nat) = CHR 0x08" "char_of (9::nat) = CHR 0x09" "char_of (10::nat) = CHR 0x0A"
  "char_of (12::nat) = CHR 0x0C" "char_of (13::nat) = CHR 0x0D"
  by code_simp+

lemma backslash: "code_point CHR 0x5C = 92"
  by code_simp

lemma zero_digit: "hex_digit CHR ''0'' = 0"
  by code_simp

lemma unescape_escape: "unescape (json_escape c @ x) = Some (c, x)"
proof -
  let ?n = "code_point c"
  have c: "c = char_of ?n" by (simp add: code_point_def)
  consider (known) "?n \<in> {34, 92, 8, 9, 10, 12, 13}" | (other) "?n < 32" "?n \<notin> {8, 9, 10, 12, 13}"
    | (plain) "32 \<le> ?n" "?n \<noteq> 34" "?n \<noteq> 92" by fastforce
  then show ?thesis
  proof cases
    case known
    then have "c \<in> {CHR 0x22, CHR 0x5C, CHR 0x08, CHR 0x09, CHR 0x0A, CHR 0x0C, CHR 0x0D}"
      using c special_chars control_chars by (metis insert_iff empty_iff)
    then show ?thesis by (elim insertE emptyE) (simp_all add: escapes unescape_def backslash control_chars)
  next
    case other
    let ?h = "[CHR ''0'', CHR ''0'', hex_char (?n div 16), hex_char (?n mod 16)]"
    have "hex_val ?h = ?n div 16 * 16 + ?n mod 16"
      using other(1) hex_digit_char[of 0] by (simp add: hex_val_def hex_digit_char zero_digit)
    then have "char_of (hex_val ?h) = c" by (simp add: code_point_def)
    moreover have "json_escape c = CHR 0x5C # CHR ''u'' # ?h" using other by (simp add: json_escape_def Let_def special_chars)
    ultimately show ?thesis by (simp add: unescape_def backslash)
  next
    case plain
    then have "json_escape c = [c]" by (auto simp: json_escape_def Let_def)
    with plain show ?thesis by (simp add: unescape_def)
  qed
qed

lemma escape_inj: "json_escape c @ x = json_escape d @ y \<Longrightarrow> c = d \<and> x = y"
  by (metis unescape_escape option.inject prod.inject)

lemma escape_not_quote: "json_escape c \<noteq> [] \<and> hd (json_escape c) \<noteq> CHR 0x22"
proof -
  have "json_escape c \<noteq> []"
  proof
    assume "json_escape c = []"
    with unescape_escape[of c "[]"] show False by (simp add: unescape_def)
  qed
  moreover have False if h: "json_escape c = CHR 0x22 # cs" for cs
  proof -
    have "code_point CHR 0x22 = 34" by code_simp
    with unescape_escape[of c "[]"] h have "c = CHR 0x22" by (simp add: unescape_def)
    with h escapes(1) show False by simp
  qed
  ultimately show ?thesis by (cases "json_escape c") auto
qed

lemma quote_inj: "json_quote s @ r = json_quote t @ u \<Longrightarrow> s = t \<and> r = u"
proof -
  assume "json_quote s @ r = json_quote t @ u"
  then have "concat (map json_escape s) @ CHR 0x22 # r = concat (map json_escape t) @ CHR 0x22 # u"
    by (simp add: json_quote_def special_chars)
  then show ?thesis
  proof (induction s arbitrary: t)
    case Nil
    show ?case
    proof (cases t)
      case (Cons d t')
      with Nil escape_not_quote[of d] show ?thesis by (cases "json_escape d") auto
    qed (use Nil in simp)
  next
    case (Cons c s)
    show ?case
    proof (cases t)
      case Nil
      with Cons.prems escape_not_quote[of c] show ?thesis by (cases "json_escape c") auto
    next
      case (Cons d t')
      with Cons.prems have "json_escape c @ concat (map json_escape s) @ CHR 0x22 # r
        = json_escape d @ concat (map json_escape t') @ CHR 0x22 # u" by simp
      from escape_inj[OF this] Cons.IH[of t'] show ?thesis by (simp add: Cons)
    qed
  qed
qed

text \<open>What may follow a number.\<close>

definition ends :: "string \<Rightarrow> bool" where "ends r \<longleftrightarrow> r = [] \<or> \<not> is_digit (hd r)"

lemma takeWhile_digits: "ends r \<Longrightarrow> takeWhile is_digit (dec_of n @ r) = dec_of n"
  using dec_of_digits[of n] by (cases r) (simp_all add: ends_def list_all_iff takeWhile_append)

lemma dec_inj: "dec_of n @ r = dec_of m @ u \<Longrightarrow> ends r \<Longrightarrow> ends u \<Longrightarrow> n = m \<and> r = u"
  by (metis takeWhile_digits dec_val_dec_of same_append_eq)

lemma dec_head: "\<exists>c cs. dec_of n = c # cs \<and> is_digit c"
  using dec_of_digits[of n] by (cases "dec_of n") auto

lemma int_text_head: "\<exists>c cs. int_text i = c # cs \<and> (c = CHR ''-'' \<or> is_digit c)"
  using dec_head[of "nat i"] by (auto simp: int_text_def)

lemma int_inj: "int_text i @ r = int_text j @ u \<Longrightarrow> ends r \<Longrightarrow> ends u \<Longrightarrow> i = j \<and> r = u"
proof -
  assume eq: "int_text i @ r = int_text j @ u" and e: "ends r" "ends u"
  have minus: "\<not> is_digit CHR ''-''" by (simp add: is_digit_def code_point_def)
  obtain c cs d ds where h: "dec_of (nat i) = c # cs" "is_digit c" "dec_of (nat j) = d # ds" "is_digit d"
    using dec_head by metis
  have "(i < 0) = (j < 0)" using eq h minus by (auto simp: int_text_def split: if_splits)
  then show ?thesis
    using eq dec_inj[OF _ e, of "nat i" "nat j"] dec_inj[OF _ e, of "nat (- i)" "nat (- j)"]
    by (cases "i < 0") (auto simp: int_text_def)
qed

text \<open>Lists of elements between commas, up to the closing bracket \<open>e\<close>.\<close>

definition rest_text :: "('a \<Rightarrow> string) \<Rightarrow> 'a list \<Rightarrow> char \<Rightarrow> string \<Rightarrow> string" where
  "rest_text f xs e r = (if xs = [] then e # r else CHR '','' # join_with '','' (map f xs) @ e # r)"

lemma join_rest: "join_with '','' (map f (x # xs)) @ e # r = f x @ rest_text f xs e r"
  by (cases xs) (simp_all add: rest_text_def)

lemma ends_rest: "\<not> is_digit e \<Longrightarrow> ends (rest_text f xs e r)"
  by (simp add: ends_def rest_text_def is_digit_def code_point_def)

lemma join_inj:
  assumes "join_with '','' (map f xs) @ e # r = join_with '','' (map f ys) @ e # u"
    and "\<And>x y r u. x \<in> set xs \<Longrightarrow> y \<in> set ys \<Longrightarrow> f x @ r = f y @ u \<Longrightarrow> ends r \<Longrightarrow> ends u \<Longrightarrow> x = y \<and> r = u"
    and "\<And>x. x \<in> set xs \<union> set ys \<Longrightarrow> f x \<noteq> [] \<and> hd (f x) \<noteq> e"
    and e: "\<not> is_digit e" "e \<noteq> CHR '',''"
  shows "xs = ys \<and> r = u"
  using assms(1-3)
proof (induction xs arbitrary: ys)
  case Nil
  show ?case
  proof (cases ys)
    case (Cons y ys')
    have "e # r = join_with '','' (map f []) @ e # r" by simp
    also have "\<dots> = f y @ rest_text f ys' e u" using Nil.prems(1) unfolding Cons join_rest .
    finally have "e # r = f y @ rest_text f ys' e u" .
    moreover have "f y \<noteq> [] \<and> hd (f y) \<noteq> e" using Nil.prems(3) Cons by simp
    ultimately show ?thesis by (cases "f y") auto
  qed (use Nil in simp)
next
  case (Cons x xs)
  show ?case
  proof (cases ys)
    case Nil
    have "f x @ rest_text f xs e r = join_with '','' (map f []) @ e # u" using Cons.prems(1) unfolding Nil join_rest .
    then have "f x @ rest_text f xs e r = e # u" by simp
    moreover have "f x \<noteq> [] \<and> hd (f x) \<noteq> e" using Cons.prems(3) by simp
    ultimately show ?thesis by (cases "f x") auto
  next
    case ys: (Cons y ys')
    from Cons.prems(1) have "f x @ rest_text f xs e r = f y @ rest_text f ys' e u"
      unfolding ys join_rest .
    from Cons.prems(2)[OF _ _ this ends_rest[OF e(1)] ends_rest[OF e(1)]] ys
    have xy: "x = y" and rest: "rest_text f xs e r = rest_text f ys' e u" by auto
    show ?thesis
    proof (cases "xs = [] \<or> ys' = []")
      case True
      with rest e(2) xy ys show ?thesis by (auto simp: rest_text_def split: if_splits)
    next
      case False
      with rest have "join_with '','' (map f xs) @ e # r = join_with '','' (map f ys') @ e # u" by (simp add: rest_text_def)
      from Cons.IH[OF this] Cons.prems(2,3) xy ys show ?thesis by auto
    qed
  qed
qed

fun ints_only :: "json \<Rightarrow> bool" where
  "ints_only (JNumber n) = (n \<noteq> OtherN)"
| "ints_only (JArray xs) = list_all ints_only xs"
| "ints_only (JObject fs) = list_all (\<lambda>p. ints_only (snd p)) fs"
| "ints_only _ = True"

fun shape_of :: "json \<Rightarrow> nat" where
  "shape_of JNull = 0"
| "shape_of (JBool b) = (if b then 1 else 2)"
| "shape_of (JNumber n) = 3"
| "shape_of (JString s) = 4"
| "shape_of (JArray xs) = 5"
| "shape_of (JObject fs) = 6"

definition shape_of_char :: "char \<Rightarrow> nat" where
  "shape_of_char c = (if c = CHR ''n'' then 0 else if c = CHR ''t'' then 1 else if c = CHR ''f'' then 2
     else if c = CHR ''-'' \<or> is_digit c then 3 else if c = CHR 0x22 then 4 else if c = CHR ''['' then 5
     else if c = CHR ''{'' then 6 else 7)"

lemma not_digits: "\<not> is_digit CHR 0x22" "\<not> is_digit CHR ''[''" "\<not> is_digit CHR ''{''" "\<not> is_digit CHR ''n''"
  "\<not> is_digit CHR ''t''" "\<not> is_digit CHR ''f''" "\<not> is_digit CHR '']''" "\<not> is_digit CHR ''}''" "\<not> is_digit CHR '',''"
  by (simp_all add: is_digit_def code_point_def)

lemma stringify_head: "ints_only v \<Longrightarrow> \<exists>c cs. stringify v = c # cs \<and> shape_of_char c = shape_of v"
proof (cases v)
  case (JNumber n)
  assume "ints_only v"
  then obtain i where n: "n = IntN i" using JNumber by (cases n) auto
  obtain c cs where c: "int_text i = c # cs" "c = CHR ''-'' \<or> is_digit c" using int_text_head by blast
  then have "shape_of_char c = 3" using not_digits by (auto simp: shape_of_char_def)
  with c n show ?thesis by (simp add: JNumber num_text_def)
qed (use not_digits special_chars in \<open>simp_all add: shape_of_char_def json_quote_def\<close>)

lemma shape_of_brackets: "shape_of_char CHR '']'' = 7" "shape_of_char CHR ''}'' = 7" "shape_of v < 7"
  by (simp_all add: shape_of_char_def not_digits) (cases v; simp)

lemma stringify_nonempty: "ints_only v \<Longrightarrow> stringify v \<noteq> [] \<and> hd (stringify v) \<notin> {CHR '']'', CHR ''}''}"
proof -
  assume "ints_only v"
  then obtain c cs where c: "stringify v = c # cs" "shape_of_char c = shape_of v" using stringify_head by blast
  then have "shape_of_char c \<noteq> 7" using shape_of_brackets(3)[of v] by simp
  then have "c \<noteq> CHR '']'' \<and> c \<noteq> CHR ''}''" using shape_of_brackets by metis
  with c show ?thesis by simp
qed

lemma stringify_inj:
  "stringify v @ r = stringify w @ u \<Longrightarrow> ints_only v \<Longrightarrow> ints_only w \<Longrightarrow> ends r \<Longrightarrow> ends u \<Longrightarrow> v = w \<and> r = u"
proof (induction v arbitrary: w r u rule: stringify.induct)
  case 1
  from stringify_head[OF 1(2)] stringify_head[OF 1(3)] 1(1) have "shape_of w = 0" by auto
  with 1 show ?case by (cases w) (auto split: if_splits)
next
  case (2 b)
  from stringify_head[OF 2(2)] stringify_head[OF 2(3)] 2(1) have "shape_of w = shape_of (JBool b)" by auto
  with 2 show ?case by (cases w; cases b) (auto split: if_splits)
next
  case (3 n)
  from stringify_head[OF 3(2)] stringify_head[OF 3(3)] 3(1) have "shape_of w = 3" by auto
  then obtain m where w: "w = JNumber m" by (cases w) (auto split: if_splits)
  obtain i j where "n = IntN i" "m = IntN j" using 3 w by (cases n; cases m) auto
  with 3 w int_inj[of i r j u] show ?case by (simp add: num_text_def)
next
  case (4 s)
  from stringify_head[OF 4(2)] stringify_head[OF 4(3)] 4(1) have "shape_of w = 4" by auto
  then obtain t where w: "w = JString t" by (cases w) (auto split: if_splits)
  with 4 quote_inj[of s r t u] show ?case by simp
next
  case (5 xs)
  from stringify_head[OF 5(3)] stringify_head[OF 5(4)] 5(2) have "shape_of w = 5" by auto
  then obtain ys where w: "w = JArray ys" by (cases w) (auto split: if_splits)
  have eq: "join_with '','' (map stringify xs) @ CHR '']'' # r = join_with '','' (map stringify ys) @ CHR '']'' # u"
    using 5(2) w by simp
  have "xs = ys \<and> r = u"
  proof (rule join_inj[OF eq])
    fix x y r' u'
    assume "x \<in> set xs" "y \<in> set ys" "stringify x @ r' = stringify y @ u'" "ends r'" "ends u'"
    with 5(1) 5(3,4) w show "x = y \<and> r' = u'" by (simp add: list_all_iff)
  next
    fix x
    assume "x \<in> set xs \<union> set ys"
    then have "ints_only x" using 5(3,4) w by (auto simp: list_all_iff)
    from stringify_nonempty[OF this] show "stringify x \<noteq> [] \<and> hd (stringify x) \<noteq> CHR '']''" by simp
  qed (simp_all add: not_digits)
  with w show ?case by simp
next
  case (6 fs)
  from stringify_head[OF 6(3)] stringify_head[OF 6(4)] 6(2) have "shape_of w = 6" by auto
  then obtain gs where w: "w = JObject gs" by (cases w) (auto split: if_splits)
  let ?f = "\<lambda>p. json_quote (fst p) @ '':'' @ stringify (snd p)"
  have eq: "join_with '','' (map ?f fs) @ CHR ''}'' # r = join_with '','' (map ?f gs) @ CHR ''}'' # u"
    using 6(2) w by simp
  have "fs = gs \<and> r = u"
  proof (rule join_inj[OF eq])
    fix x y r' u'
    assume m: "x \<in> set fs" "y \<in> set gs" and xy: "?f x @ r' = ?f y @ u'" and e: "ends r'" "ends u'"
    then have "fst x = fst y" "stringify (snd x) @ r' = stringify (snd y) @ u'"
      using quote_inj[of "fst x" "'':'' @ stringify (snd x) @ r'" "fst y" "'':'' @ stringify (snd y) @ u'"] by auto
    with 6(1)[OF m(1) this(2)] 6(3,4) m w e show "x = y \<and> r' = u'" by (auto simp: list_all_iff prod_eq_iff)
  next
    fix x
    show "?f x \<noteq> [] \<and> hd (?f x) \<noteq> CHR ''}''" by (simp add: json_quote_def special_chars)
  qed (simp_all add: not_digits)
  with w show ?case by simp
qed

text \<open>Sorting the fields of every object is all that \<open>stableJson\<close> does.\<close>

function canon :: "json \<Rightarrow> json" where
  "canon (JArray xs) = JArray (map canon xs)"
| "canon (JObject fs) = JObject (map (\<lambda>p. (fst p, canon (snd p))) (by_name fs))"
| "canon JNull = JNull"
| "canon (JBool b) = JBool b"
| "canon (JNumber n) = JNumber n"
| "canon (JString s) = JString s"
  by pat_completeness auto
termination by (relation "measure size") (auto simp: by_name_def less_Suc_eq_le intro: size_list_estimation' size_field[unfolded less_Suc_eq_le])

lemma set_by_name [simp]: "set (by_name fs) = set fs"
  by (simp add: by_name_def)

lemma stable_canon: "stableJson v = stringify (canon v)"
proof (induction v rule: stableJson.induct)
  case (5 xs)
  then have "map stableJson xs = map (stringify \<circ> canon) xs" by simp
  then show ?case by (simp only: stableJson.simps canon.simps stringify.simps list.map_comp)
next
  case (6 fs)
  then have "map (\<lambda>p. json_quote (fst p) @ '':'' @ stableJson (snd p)) (by_name fs)
    = map (\<lambda>p. json_quote (fst p) @ '':'' @ stringify (canon (snd p))) (by_name fs)" by auto
  then show ?case by (simp only: stableJson.simps canon.simps stringify.simps list.map_comp comp_def fst_conv snd_conv)
qed simp_all

lemma ints_only_canon: "ints_only v \<Longrightarrow> ints_only (canon v)"
  by (induction v rule: canon.induct) (auto simp: list_all_iff)

lemma stable_json_inj: "stableJson v = stableJson w \<Longrightarrow> ints_only v \<Longrightarrow> ints_only w \<Longrightarrow> canon v = canon w"
  using stringify_inj[of "canon v" "[]" "canon w" "[]"] by (simp add: stable_canon ints_only_canon ends_def)

end
