(* ===== verification/AutomationPolicy.thy ===== *)
theory AutomationPolicy
  imports JsText
begin

text \<open>
  \<open>src/browser/automation-policy.ts\<close>: the ceilings an administrator chooses by name, and the limits of
  a workflow that \<open>workflow.ts\<close> derives from them.
\<close>

datatype automation_policy_name = Strict | Standard | TrustedLocal

record automation_limits =
  al_maxTabs :: int
  al_maxWorkflowSteps :: int
  al_maxWorkflowDurationMs :: int
  al_maxWorkflowResultBytes :: int
  al_maxScrollAmount :: int
  al_snapshotMaxSnapshots :: int
  al_snapshotTtlMs :: int
  al_snapshotMaxBytes :: int
  al_snapshotMaxSnapshotBytes :: int
  al_sessionTtlMs :: int
  al_workspaceTtlMs :: int

definition HARD_AUTOMATION_LIMITS :: automation_limits where
  "HARD_AUTOMATION_LIMITS =
     \<lparr>al_maxTabs = 32, al_maxWorkflowSteps = 100, al_maxWorkflowDurationMs = 5 * 60000,
      al_maxWorkflowResultBytes = 1024 * 1024, al_maxScrollAmount = 20, al_snapshotMaxSnapshots = 256,
      al_snapshotTtlMs = 24 * 60 * 60000, al_snapshotMaxBytes = 16 * 1024 * 1024,
      al_snapshotMaxSnapshotBytes = 4 * 1024 * 1024, al_sessionTtlMs = 24 * 60 * 60000,
      al_workspaceTtlMs = 7 * 24 * 60 * 60000\<rparr>"

fun POLICY_PROFILES :: "automation_policy_name \<Rightarrow> automation_limits" where
  "POLICY_PROFILES Strict =
     \<lparr>al_maxTabs = 5, al_maxWorkflowSteps = 10, al_maxWorkflowDurationMs = 30000,
      al_maxWorkflowResultBytes = 64000, al_maxScrollAmount = 3, al_snapshotMaxSnapshots = 32,
      al_snapshotTtlMs = 10 * 60000, al_snapshotMaxBytes = 2 * 1024 * 1024,
      al_snapshotMaxSnapshotBytes = 256 * 1024, al_sessionTtlMs = 30 * 60000,
      al_workspaceTtlMs = 24 * 60 * 60000\<rparr>"
| "POLICY_PROFILES Standard =
     \<lparr>al_maxTabs = 12, al_maxWorkflowSteps = 50, al_maxWorkflowDurationMs = 2 * 60000,
      al_maxWorkflowResultBytes = 256 * 1024, al_maxScrollAmount = 10, al_snapshotMaxSnapshots = 64,
      al_snapshotTtlMs = 30 * 60000, al_snapshotMaxBytes = 4 * 1024 * 1024,
      al_snapshotMaxSnapshotBytes = 512 * 1024, al_sessionTtlMs = 2 * 60 * 60000,
      al_workspaceTtlMs = 7 * 24 * 60 * 60000\<rparr>"
| "POLICY_PROFILES TrustedLocal =
     \<lparr>al_maxTabs = 20, al_maxWorkflowSteps = 100, al_maxWorkflowDurationMs = 5 * 60000,
      al_maxWorkflowResultBytes = 1024 * 1024, al_maxScrollAmount = 20, al_snapshotMaxSnapshots = 256,
      al_snapshotTtlMs = 24 * 60 * 60000, al_snapshotMaxBytes = 16 * 1024 * 1024,
      al_snapshotMaxSnapshotBytes = 1 * 1024 * 1024, al_sessionTtlMs = 24 * 60 * 60000,
      al_workspaceTtlMs = 7 * 24 * 60 * 60000\<rparr>"

definition getAutomationPolicy :: "automation_policy_name \<Rightarrow> automation_limits" where
  "getAutomationPolicy name = POLICY_PROFILES name"

definition DEFAULT_AUTOMATION_POLICY :: automation_policy_name where "DEFAULT_AUTOMATION_POLICY = Standard"

definition AUTOMATION_POLICY_NAMES :: "(string \<times> automation_policy_name) list" where
  "AUTOMATION_POLICY_NAMES = [(''strict'', Strict), (''standard'', Standard), (''trusted-local'', TrustedLocal)]"

text \<open>\<open>None\<close>: the name is unknown and the function throws. An absent or blank name is the default.\<close>

definition parseAutomationPolicy :: "string option \<Rightarrow> automation_policy_name option" where
  "parseAutomationPolicy v =
     (case v of None \<Rightarrow> Some DEFAULT_AUTOMATION_POLICY
      | Some s \<Rightarrow> if js_trim s = [] then Some DEFAULT_AUTOMATION_POLICY else map_of AUTOMATION_POLICY_NAMES (js_trim s))"

subsection \<open>Limits of a workflow\<close>

text \<open>The limits a caller asks for, and the ones that apply.\<close>

record limit_request =
  lq_maxSteps :: jsnum
  lq_maxDurationMs :: jsnum
  lq_maxResultBytes :: jsnum
  lq_maxSnapshotBytes :: jsnum
  lq_maxScrollAmount :: jsnum

record workflow_limits =
  wl_maxSteps :: int
  wl_maxDurationMs :: int
  wl_maxResultBytes :: int
  wl_maxSnapshotBytes :: int
  wl_maxScrollAmount :: int

definition MIN_WORKFLOW_RESULT_BYTES :: int where "MIN_WORKFLOW_RESULT_BYTES = 100"

definition DEFAULT_WORKFLOW_LIMITS :: workflow_limits where
  "DEFAULT_WORKFLOW_LIMITS =
     (let l = getAutomationPolicy DEFAULT_AUTOMATION_POLICY
      in \<lparr>wl_maxSteps = al_maxWorkflowSteps l, wl_maxDurationMs = al_maxWorkflowDurationMs l,
          wl_maxResultBytes = al_maxWorkflowResultBytes l, wl_maxSnapshotBytes = al_snapshotMaxSnapshotBytes l,
          wl_maxScrollAmount = al_maxScrollAmount l\<rparr>)"

definition clampLimit :: "jsnum \<Rightarrow> int \<Rightarrow> int \<Rightarrow> int \<Rightarrow> int" where
  "clampLimit v lo hi dflt =
     (case v of IntN i \<Rightarrow> if is_safe_integer v then max lo (min hi i) else dflt | OtherN \<Rightarrow> dflt)"

definition request_of :: "workflow_limits \<Rightarrow> limit_request" where
  "request_of l =
     \<lparr>lq_maxSteps = IntN (wl_maxSteps l), lq_maxDurationMs = IntN (wl_maxDurationMs l),
      lq_maxResultBytes = IntN (wl_maxResultBytes l), lq_maxSnapshotBytes = IntN (wl_maxSnapshotBytes l),
      lq_maxScrollAmount = IntN (wl_maxScrollAmount l)\<rparr>"

definition resolveWorkflowLimits :: "limit_request option \<Rightarrow> workflow_limits" where
  "resolveWorkflowLimits limits =
     (let r = (case limits of Some r \<Rightarrow> r | None \<Rightarrow> request_of DEFAULT_WORKFLOW_LIMITS);
          d = DEFAULT_WORKFLOW_LIMITS; h = HARD_AUTOMATION_LIMITS
      in \<lparr>wl_maxSteps = clampLimit (lq_maxSteps r) 1 (al_maxWorkflowSteps h) (wl_maxSteps d),
          wl_maxDurationMs = clampLimit (lq_maxDurationMs r) 1 (al_maxWorkflowDurationMs h) (wl_maxDurationMs d),
          wl_maxResultBytes = clampLimit (lq_maxResultBytes r) MIN_WORKFLOW_RESULT_BYTES (al_maxWorkflowResultBytes h) (wl_maxResultBytes d),
          wl_maxSnapshotBytes = clampLimit (lq_maxSnapshotBytes r) 100 (al_snapshotMaxSnapshotBytes h) (wl_maxSnapshotBytes d),
          wl_maxScrollAmount = clampLimit (lq_maxScrollAmount r) 1 (al_maxScrollAmount h) (wl_maxScrollAmount d)\<rparr>)"

definition workflowLimitsForPolicy :: "automation_limits \<Rightarrow> workflow_limits" where
  "workflowLimitsForPolicy l =
     resolveWorkflowLimits (Some
       \<lparr>lq_maxSteps = IntN (al_maxWorkflowSteps l), lq_maxDurationMs = IntN (al_maxWorkflowDurationMs l),
        lq_maxResultBytes = IntN (al_maxWorkflowResultBytes l), lq_maxSnapshotBytes = IntN (al_snapshotMaxSnapshotBytes l),
        lq_maxScrollAmount = IntN (al_maxScrollAmount l)\<rparr>)"

text \<open>Limits within the absolute ceilings, which \<open>resolveWorkflowLimits\<close> returns and keeps.\<close>

definition limits_ok :: "workflow_limits \<Rightarrow> bool" where
  "limits_ok l \<longleftrightarrow> 1 \<le> wl_maxSteps l \<and> wl_maxSteps l \<le> 100 \<and> 1 \<le> wl_maxDurationMs l \<and> wl_maxDurationMs l \<le> 300000
     \<and> 100 \<le> wl_maxResultBytes l \<and> wl_maxResultBytes l \<le> 1048576
     \<and> 100 \<le> wl_maxSnapshotBytes l \<and> wl_maxSnapshotBytes l \<le> 4194304
     \<and> 1 \<le> wl_maxScrollAmount l \<and> wl_maxScrollAmount l \<le> 20"

lemmas limit_defs = DEFAULT_WORKFLOW_LIMITS_def getAutomationPolicy_def DEFAULT_AUTOMATION_POLICY_def
  HARD_AUTOMATION_LIMITS_def MIN_WORKFLOW_RESULT_BYTES_def

lemma clampLimit_bounds: "lo \<le> hi \<Longrightarrow> lo \<le> d \<Longrightarrow> d \<le> hi \<Longrightarrow> lo \<le> clampLimit v lo hi d \<and> clampLimit v lo hi d \<le> hi"
  by (auto simp: clampLimit_def split: jsnum.split)

lemma clampLimit_fixed: "lo \<le> i \<Longrightarrow> i \<le> hi \<Longrightarrow> \<bar>i\<bar> \<le> MAX_SAFE \<Longrightarrow> clampLimit (IntN i) lo hi d = i"
  by (simp add: clampLimit_def)

lemma resolved_limits_ok [simp]: "limits_ok (resolveWorkflowLimits r)"
  by (simp add: limits_ok_def resolveWorkflowLimits_def Let_def limit_defs clampLimit_bounds)

lemma resolve_fixed [simp]: "limits_ok l \<Longrightarrow> resolveWorkflowLimits (Some (request_of l)) = l"
  by (simp add: limits_ok_def resolveWorkflowLimits_def request_of_def Let_def limit_defs clampLimit_fixed MAX_SAFE_def)

lemma policies_within_hard_limits:
  "al_maxTabs (getAutomationPolicy p) \<le> al_maxTabs HARD_AUTOMATION_LIMITS
   \<and> al_maxWorkflowSteps (getAutomationPolicy p) \<le> al_maxWorkflowSteps HARD_AUTOMATION_LIMITS
   \<and> al_snapshotMaxSnapshotBytes (getAutomationPolicy p) \<le> al_snapshotMaxSnapshotBytes HARD_AUTOMATION_LIMITS
   \<and> wl_maxSteps (workflowLimitsForPolicy (getAutomationPolicy p)) = al_maxWorkflowSteps (getAutomationPolicy p)
   \<and> wl_maxResultBytes (workflowLimitsForPolicy (getAutomationPolicy p)) = al_maxWorkflowResultBytes (getAutomationPolicy p)"
  by (cases p) (simp_all add: workflowLimitsForPolicy_def resolveWorkflowLimits_def Let_def limit_defs clampLimit_fixed MAX_SAFE_def)

lemma parse_policy_name:
  "parseAutomationPolicy (Some s) = Some p \<longleftrightarrow>
     (js_trim s = [] \<and> p = Standard) \<or> (js_trim s = ''strict'' \<and> p = Strict)
     \<or> (js_trim s = ''standard'' \<and> p = Standard) \<or> (js_trim s = ''trusted-local'' \<and> p = TrustedLocal)"
  by (auto simp: parseAutomationPolicy_def AUTOMATION_POLICY_NAMES_def DEFAULT_AUTOMATION_POLICY_def)

end
