(* ===== verification/WorkflowLang.thy ===== *)
theory WorkflowLang
  imports AutomationPolicy
begin

text \<open>
  The workflow language of \<open>src/browser/workflow.ts\<close>: its limits, its steps and the validation that turns
  untrusted parsed JSON into typed steps before any call of the browser. Texts are Latin-1, so that
  a character is one code unit; the URL parser is an argument. An error carries the path of the
  offending field and its code; its message is not modelled.
\<close>

subsection \<open>Steps\<close>

datatype stop_trigger =
    OnNavigation | OnChallenge | OnDialog | OnDownload | OnInterrupt | OnRevisionMismatch | OnError | OnAmbiguity | OnTimeout

datatype workflow_target =
    RefText string
  | RoleTarget string string "bool option"
  | LabelTarget string "bool option"
  | TestIdTarget string
  | RefTarget string

datatype select_choice = ChoiceText string | ChoiceValue string | ChoiceLabel string
datatype wait_until = DomContentLoaded | LoadEvent
datatype direction = DirUp | DirDown | DirLeft | DirRight
datatype wait_state = WaitVisible | WaitHidden | WaitEnabled
datatype content_format = FormatStructured | FormatCompact

record wait_condition =
  wc_ref :: string
  wc_state :: wait_state

datatype workflow_step =
    OpenStep string "wait_until option" "int option"
  | ClickStep workflow_target "int option"
  | TypeStep workflow_target string "bool option" "bool option" "bool option" "bool option" "int option"
  | SelectStep workflow_target "select_choice option" "string list option" "int option"
  | ScrollStep direction int "workflow_target option"
  | WaitStep "int option" "wait_condition option" "workflow_target option" "int option"
  | SnapshotStep "int option" "int option" "int option" "bool option" "bool option" "content_format option"

record workflow =
  wf_steps :: "workflow_step list"
  wf_actionId :: "string option"
  wf_expectedPageRevision :: "int option"
  wf_expectedTabId :: "string option"
  wf_maxDurationMs :: int
  wf_maxResultBytes :: int
  wf_stopOn :: "stop_trigger list"

datatype workflow_error_code = INVALID_WORKFLOW | WORKFLOW_STEP_LIMIT_EXCEEDED

datatype validation_error = ValidationError string workflow_error_code

record web_url =
  wu_protocol :: string
  wu_username :: string
  wu_password :: string
  wu_origin :: string
  wu_pathname :: string

subsection \<open>Constants\<close>

definition MAX_ACTION_TIMEOUT_MS :: int where "MAX_ACTION_TIMEOUT_MS = al_maxWorkflowDurationMs HARD_AUTOMATION_LIMITS"
definition MAX_WAIT_DURATION_MS :: int where "MAX_WAIT_DURATION_MS = 10000"
definition MAX_SNAPSHOT_CHARS :: int where "MAX_SNAPSHOT_CHARS = 50000"
definition MAX_SNAPSHOT_NODES :: int where "MAX_SNAPSHOT_NODES = 2000"
definition MAX_SNAPSHOT_BYTES :: int where "MAX_SNAPSHOT_BYTES = al_snapshotMaxSnapshotBytes HARD_AUTOMATION_LIMITS"
definition MAX_TEXT_CHARS :: nat where "MAX_TEXT_CHARS = 10000"
definition MAX_TARGET_CHARS :: nat where "MAX_TARGET_CHARS = 500"
definition MAX_TEST_ID_CHARS :: nat where "MAX_TEST_ID_CHARS = 128"
definition MAX_REF_CHARS :: nat where "MAX_REF_CHARS = 100"

text \<open>\<open>/^[0-9a-f]{8}-[0-9a-f]{4}-[1-8][0-9a-f]{3}-[89ab][0-9a-f]{3}-[0-9a-f]{12}$/iu\<close>.\<close>

definition ACTION_ID_PATTERN :: "string \<Rightarrow> bool" where
  "ACTION_ID_PATTERN s =
     (case split_on CHR ''-'' s of
        [a, b, c, d, e] \<Rightarrow> list_all (list_all is_hex) [a, b, c, d, e]
          \<and> map length [a, b, c, d, e] = [8, 4, 4, 4, 12]
          \<and> hd c \<in> set ''12345678'' \<and> hd d \<in> set ''89abAB''
      | _ \<Rightarrow> False)"

text \<open>\<open>/^ref_[A-Za-z0-9_-]{1,96}$/u\<close>.\<close>

definition ref_char :: "char \<Rightarrow> bool" where
  "ref_char c = (is_digit c \<or> 65 \<le> code_point c \<and> code_point c \<le> 90 \<or> 97 \<le> code_point c \<and> code_point c \<le> 122
     \<or> c = CHR ''_'' \<or> c = CHR ''-'')"

definition OPAQUE_REF_PATTERN :: "string \<Rightarrow> bool" where
  "OPAQUE_REF_PATTERN s =
     (take 4 s = ''ref_'' \<and> 1 \<le> length (drop 4 s) \<and> length (drop 4 s) \<le> 96 \<and> list_all ref_char (drop 4 s))"

definition WORKFLOW_STOP_TRIGGERS :: "(string \<times> stop_trigger) list" where
  "WORKFLOW_STOP_TRIGGERS =
     [(''navigation'', OnNavigation), (''challenge'', OnChallenge), (''dialog'', OnDialog), (''download'', OnDownload),
      (''interrupt'', OnInterrupt), (''revision_mismatch'', OnRevisionMismatch), (''error'', OnError),
      (''ambiguity'', OnAmbiguity), (''timeout'', OnTimeout)]"

definition WAIT_UNTIL :: "(string \<times> wait_until) list" where
  "WAIT_UNTIL = [(''domcontentloaded'', DomContentLoaded), (''load'', LoadEvent)]"

definition DIRECTIONS :: "(string \<times> direction) list" where
  "DIRECTIONS = [(''up'', DirUp), (''down'', DirDown), (''left'', DirLeft), (''right'', DirRight)]"

definition WAIT_STATES :: "(string \<times> wait_state) list" where
  "WAIT_STATES = [(''visible'', WaitVisible), (''hidden'', WaitHidden), (''enabled'', WaitEnabled)]"

definition FORMATS :: "(string \<times> content_format) list" where
  "FORMATS = [(''structured'', FormatStructured), (''compact'', FormatCompact)]"

subsection \<open>Guards on parsed JSON\<close>

definition fail_at :: "string \<Rightarrow> validation_error + 'a" where
  "fail_at path = Inl (ValidationError path INVALID_WORKFLOW)"

definition demand :: "bool \<Rightarrow> string \<Rightarrow> validation_error + unit" where
  "demand ok path = (if ok then Inr () else fail_at path)"

definition asRecord :: "json option \<Rightarrow> string \<Rightarrow> validation_error + (string \<times> json) list" where
  "asRecord v path = (case v of Some (JObject fs) \<Rightarrow> Inr fs | _ \<Rightarrow> fail_at path)"

definition assertKeys :: "(string \<times> json) list \<Rightarrow> string list \<Rightarrow> string \<Rightarrow> validation_error + unit" where
  "assertKeys fs allowed path =
     (case List.find (\<lambda>k. k \<notin> set allowed) (map fst fs) of
        Some k \<Rightarrow> fail_at (path @ ''.'' @ k)
      | None \<Rightarrow> Inr ())"

definition boundedInteger :: "json option \<Rightarrow> int \<Rightarrow> int \<Rightarrow> int \<Rightarrow> int" where
  "boundedInteger v lo hi dflt =
     (case v of
        Some (JNumber (IntN i)) \<Rightarrow> if \<not> is_safe_integer (IntN i) then dflt else if i < lo \<or> hi < i then dflt else i
      | _ \<Rightarrow> dflt)"

definition optionalBoundedInteger :: "json option \<Rightarrow> int \<Rightarrow> int \<Rightarrow> string \<Rightarrow> validation_error + int option" where
  "optionalBoundedInteger v lo hi path =
     (if v = None then Inr None
      else let result = boundedInteger v lo hi (-1) in if result < lo then fail_at path else Inr (Some result))"

definition optionalTimeout :: "json option \<Rightarrow> string \<Rightarrow> validation_error + int option" where
  "optionalTimeout v path =
     (if v = None then Inr None
      else let result = boundedInteger v 1 MAX_ACTION_TIMEOUT_MS (-1)
           in if result < 1 then fail_at path else Inr (Some result))"

definition validateWaitDuration :: "json option \<Rightarrow> string \<Rightarrow> validation_error + int" where
  "validateWaitDuration v path =
     (let result = boundedInteger v 1 MAX_WAIT_DURATION_MS (-1) in if result < 1 then fail_at path else Inr result)"

definition optionalRevision :: "json option \<Rightarrow> string \<Rightarrow> validation_error + int option" where
  "optionalRevision v path =
     (case v of
        None \<Rightarrow> Inr None
      | Some (JNumber (IntN i)) \<Rightarrow> if is_safe_integer (IntN i) \<and> 0 \<le> i then Inr (Some i) else fail_at path
      | Some _ \<Rightarrow> fail_at path)"

definition optionalString :: "json option \<Rightarrow> string \<Rightarrow> validation_error + string option" where
  "optionalString v path =
     (case v of
        None \<Rightarrow> Inr None
      | Some (JString s) \<Rightarrow> if s = [] then fail_at path else Inr (Some s)
      | Some _ \<Rightarrow> fail_at path)"

definition optionalTabId :: "json option \<Rightarrow> string \<Rightarrow> validation_error + string option" where
  "optionalTabId v path =
     bindR (optionalString v path) (\<lambda>tabId. case tabId of
        None \<Rightarrow> Inr None
      | Some s \<Rightarrow> if 100 < length s \<or> list_ex control_char s then fail_at path else Inr (Some s))"

definition optionalEnum :: "(string \<times> 'a) list \<Rightarrow> json option \<Rightarrow> string \<Rightarrow> validation_error + 'a option" where
  "optionalEnum allowed v path =
     (case v of
        None \<Rightarrow> Inr None
      | Some (JString s) \<Rightarrow> (case map_of allowed s of Some x \<Rightarrow> Inr (Some x) | None \<Rightarrow> fail_at path)
      | Some _ \<Rightarrow> fail_at path)"

text \<open>The guards \<open>x !== undefined && typeof x !== 'boolean'\<close> and \<open>typeof x !== 'string' || x.length === 0 || x.length > n\<close>.\<close>

definition optionalBool :: "json option \<Rightarrow> string \<Rightarrow> validation_error + bool option" where
  "optionalBool v path =
     (case v of None \<Rightarrow> Inr None | Some (JBool b) \<Rightarrow> Inr (Some b) | Some _ \<Rightarrow> fail_at path)"

definition boundedText :: "nat \<Rightarrow> json option \<Rightarrow> string \<Rightarrow> validation_error + string" where
  "boundedText n v path =
     (case v of Some (JString s) \<Rightarrow> if s = [] \<or> n < length s then fail_at path else Inr s | _ \<Rightarrow> fail_at path)"

definition opaqueRefText :: "json option \<Rightarrow> string \<Rightarrow> validation_error + string" where
  "opaqueRefText v path =
     (case v of
        Some (JString s) \<Rightarrow> if \<not> OPAQUE_REF_PATTERN s \<or> MAX_REF_CHARS < length s then fail_at path else Inr s
      | _ \<Rightarrow> fail_at path)"

subsection \<open>Targets, choices, conditions and addresses\<close>

definition strategy_count :: "bool list \<Rightarrow> nat" where "strategy_count bs = length (filter id bs)"

definition validateTarget :: "json option \<Rightarrow> string \<Rightarrow> validation_error + workflow_target" where
  "validateTarget v path =
     (case v of
        Some (JString s) \<Rightarrow> bindR (opaqueRefText v path) (\<lambda>r. Inr (RefText r))
      | _ \<Rightarrow>
        bindR (asRecord v path) (\<lambda>fs.
        bindR (assertKeys fs [''role'', ''name'', ''exact'', ''label'', ''testId'', ''ref''] path) (\<lambda>_.
          let hasRole = map_of fs ''role'' \<noteq> None \<or> map_of fs ''name'' \<noteq> None;
              hasLabel = map_of fs ''label'' \<noteq> None;
              hasTestId = map_of fs ''testId'' \<noteq> None;
              hasRef = map_of fs ''ref'' \<noteq> None
          in bindR (demand (strategy_count [hasRole, hasLabel, hasTestId, hasRef] = 1) path) (\<lambda>_.
             if hasRole then
               bindR (boundedText 64 (map_of fs ''role'') (path @ ''.role'')) (\<lambda>role.
               bindR (boundedText MAX_TARGET_CHARS (map_of fs ''name'') (path @ ''.name'')) (\<lambda>name.
               bindR (optionalBool (map_of fs ''exact'') (path @ ''.exact'')) (\<lambda>exact.
                 Inr (RoleTarget role name exact))))
             else if hasLabel then
               bindR (boundedText MAX_TARGET_CHARS (map_of fs ''label'') (path @ ''.label'')) (\<lambda>label.
               bindR (optionalBool (map_of fs ''exact'') (path @ ''.exact'')) (\<lambda>exact.
                 Inr (LabelTarget label exact)))
             else if hasTestId then
               bindR (boundedText MAX_TEST_ID_CHARS (map_of fs ''testId'') (path @ ''.testId'')) (\<lambda>testId.
               bindR (demand (map_of fs ''exact'' = None) (path @ ''.exact'')) (\<lambda>_.
                 Inr (TestIdTarget testId)))
             else
               bindR (demand (map_of fs ''exact'' = None) (path @ ''.exact'')) (\<lambda>_.
               bindR (opaqueRefText (map_of fs ''ref'') (path @ ''.ref'')) (\<lambda>r.
                 Inr (RefTarget r)))))))"

definition validateChoice :: "json option \<Rightarrow> string \<Rightarrow> validation_error + select_choice" where
  "validateChoice v path =
     (case v of
        Some (JString s) \<Rightarrow> bindR (boundedText 1000 v path) (\<lambda>t. Inr (ChoiceText t))
      | _ \<Rightarrow>
        bindR (asRecord v path) (\<lambda>fs.
        bindR (assertKeys fs [''value'', ''label''] path) (\<lambda>_.
          let hasValue = map_of fs ''value'' \<noteq> None; hasLabel = map_of fs ''label'' \<noteq> None
          in bindR (demand (hasValue \<noteq> hasLabel) path) (\<lambda>_.
             bindR (boundedText 1000 (if hasValue then map_of fs ''value'' else map_of fs ''label'') path) (\<lambda>selected.
               Inr (if hasValue then ChoiceValue selected else ChoiceLabel selected))))))"

definition validateCondition :: "json option \<Rightarrow> string \<Rightarrow> validation_error + wait_condition" where
  "validateCondition v path =
     bindR (asRecord v path) (\<lambda>fs.
     bindR (assertKeys fs [''ref'', ''state''] path) (\<lambda>_.
     bindR (opaqueRefText (map_of fs ''ref'') (path @ ''.ref'')) (\<lambda>r.
     bindR (optionalEnum WAIT_STATES (map_of fs ''state'') (path @ ''.state'')) (\<lambda>state.
       case state of
         None \<Rightarrow> fail_at (path @ ''.state'')
       | Some st \<Rightarrow> Inr \<lparr>wc_ref = r, wc_state = st\<rparr>))))"

text \<open>\<open>parse\<close> is \<open>new URL\<close>; \<open>None\<close>: it throws.\<close>

definition http_url :: "(string \<Rightarrow> web_url option) \<Rightarrow> string \<Rightarrow> bool" where
  "http_url parse s =
     (case parse s of
        Some u \<Rightarrow> wu_protocol u \<in> {''http:'', ''https:''} \<and> wu_username u = [] \<and> wu_password u = []
      | None \<Rightarrow> False)"

definition validateUrl :: "(string \<Rightarrow> web_url option) \<Rightarrow> json option \<Rightarrow> string \<Rightarrow> validation_error + string" where
  "validateUrl parse v path =
     bindR (boundedText 2048 v path) (\<lambda>s. if http_url parse s then Inr s else fail_at path)"

subsection \<open>One step\<close>

definition normalizeOpen :: "(string \<Rightarrow> web_url option) \<Rightarrow> (string \<times> json) list \<Rightarrow> string \<Rightarrow> validation_error + workflow_step" where
  "normalizeOpen parse fs path =
     bindR (assertKeys fs [''op'', ''url'', ''waitUntil'', ''timeoutMs''] path) (\<lambda>_.
     bindR (optionalEnum WAIT_UNTIL (map_of fs ''waitUntil'') (path @ ''.waitUntil'')) (\<lambda>waitUntil.
     bindR (optionalTimeout (map_of fs ''timeoutMs'') (path @ ''.timeoutMs'')) (\<lambda>timeoutMs.
     bindR (validateUrl parse (map_of fs ''url'') (path @ ''.url'')) (\<lambda>url.
       Inr (OpenStep url waitUntil timeoutMs)))))"

definition normalizeClick :: "(string \<times> json) list \<Rightarrow> string \<Rightarrow> validation_error + workflow_step" where
  "normalizeClick fs path =
     bindR (assertKeys fs [''op'', ''target'', ''timeoutMs''] path) (\<lambda>_.
     bindR (optionalTimeout (map_of fs ''timeoutMs'') (path @ ''.timeoutMs'')) (\<lambda>timeoutMs.
     bindR (validateTarget (map_of fs ''target'') (path @ ''.target'')) (\<lambda>target.
       Inr (ClickStep target timeoutMs))))"

definition typedText :: "json option \<Rightarrow> string \<Rightarrow> validation_error + string" where
  "typedText v path =
     (case v of Some (JString s) \<Rightarrow> if MAX_TEXT_CHARS < length s then fail_at path else Inr s | _ \<Rightarrow> fail_at path)"

definition agree :: "'a option \<Rightarrow> 'a option \<Rightarrow> bool" where
  "agree a b = (a = None \<or> b = None \<or> a = b)"

definition normalizeType :: "(string \<times> json) list \<Rightarrow> string \<Rightarrow> validation_error + workflow_step" where
  "normalizeType fs path =
     bindR (assertKeys fs [''op'', ''target'', ''text'', ''clear'', ''clearFirst'', ''submit'', ''sensitive'', ''timeoutMs''] path) (\<lambda>_.
     bindR (typedText (map_of fs ''text'') (path @ ''.text'')) (\<lambda>text.
     bindR (optionalBool (map_of fs ''clear'') (path @ ''.clear'')) (\<lambda>clear.
     bindR (optionalBool (map_of fs ''clearFirst'') (path @ ''.clearFirst'')) (\<lambda>clearFirst.
     bindR (demand (agree clear clearFirst) path) (\<lambda>_.
     bindR (optionalBool (map_of fs ''submit'') (path @ ''.submit'')) (\<lambda>submit.
     bindR (optionalBool (map_of fs ''sensitive'') (path @ ''.sensitive'')) (\<lambda>sensitive.
     bindR (optionalTimeout (map_of fs ''timeoutMs'') (path @ ''.timeoutMs'')) (\<lambda>timeoutMs.
     bindR (validateTarget (map_of fs ''target'') (path @ ''.target'')) (\<lambda>target.
       Inr (TypeStep target text clear clearFirst submit sensitive timeoutMs))))))))))"

text \<open>The texts of a multiple selection, checked in order; the path names the first bad one.\<close>

fun selectValues :: "json list \<Rightarrow> nat \<Rightarrow> string \<Rightarrow> validation_error + string list" where
  "selectValues [] i path = Inr []"
| "selectValues (x # xs) i path =
     bindR (boundedText 200 (Some x) (path @ ''.values.'' @ dec_of i)) (\<lambda>s.
     bindR (selectValues xs (Suc i) path) (\<lambda>ss. Inr (s # ss)))"

definition selectionOf :: "(string \<times> json) list \<Rightarrow> string \<Rightarrow> validation_error + (select_choice option \<times> string list option)" where
  "selectionOf fs path =
     (case map_of fs ''values'' of
        Some vs \<Rightarrow>
          bindR (demand (map_of fs ''value'' = None \<and> map_of fs ''label'' = None \<and> map_of fs ''choice'' = None) path) (\<lambda>_.
          (case vs of
             JArray xs \<Rightarrow>
               if length xs < 1 \<or> 32 < length xs then fail_at (path @ ''.values'')
               else bindR (selectValues xs 0 path) (\<lambda>ss. Inr (None, Some ss))
           | _ \<Rightarrow> fail_at (path @ ''.values'')))
      | None \<Rightarrow>
          if map_of fs ''choice'' \<noteq> None then
            bindR (demand (map_of fs ''value'' = None \<and> map_of fs ''label'' = None) path) (\<lambda>_.
            bindR (validateChoice (map_of fs ''choice'') (path @ ''.choice'')) (\<lambda>c. Inr (Some c, None)))
          else
            bindR (demand ((map_of fs ''value'' \<noteq> None) \<noteq> (map_of fs ''label'' \<noteq> None)) path) (\<lambda>_.
            if map_of fs ''value'' \<noteq> None
            then bindR (boundedText 1000 (map_of fs ''value'') (path @ ''.value'')) (\<lambda>s. Inr (Some (ChoiceValue s), None))
            else bindR (boundedText 1000 (map_of fs ''label'') (path @ ''.label'')) (\<lambda>s. Inr (Some (ChoiceLabel s), None))))"

definition normalizeSelect :: "(string \<times> json) list \<Rightarrow> string \<Rightarrow> validation_error + workflow_step" where
  "normalizeSelect fs path =
     bindR (assertKeys fs [''op'', ''target'', ''value'', ''label'', ''choice'', ''values'', ''timeoutMs''] path) (\<lambda>_.
     bindR (selectionOf fs path) (\<lambda>(choice, vals).
     bindR (optionalTimeout (map_of fs ''timeoutMs'') (path @ ''.timeoutMs'')) (\<lambda>timeoutMs.
     bindR (validateTarget (map_of fs ''target'') (path @ ''.target'')) (\<lambda>target.
       Inr (SelectStep target choice vals timeoutMs)))))"

text \<open>A guard that runs only when the field is present.\<close>

definition ifGiven :: "json option \<Rightarrow> (json option \<Rightarrow> validation_error + 'a) \<Rightarrow> validation_error + 'a option" where
  "ifGiven v f = (if v = None then Inr None else bindR (f v) (\<lambda>x. Inr (Some x)))"

definition normalizeScroll :: "workflow_limits \<Rightarrow> (string \<times> json) list \<Rightarrow> string \<Rightarrow> validation_error + workflow_step" where
  "normalizeScroll limits fs path =
     bindR (assertKeys fs [''op'', ''direction'', ''amount'', ''target''] path) (\<lambda>_.
     bindR (optionalEnum DIRECTIONS (map_of fs ''direction'') (path @ ''.direction'')) (\<lambda>direction.
       case direction of
         None \<Rightarrow> fail_at (path @ ''.direction'')
       | Some dir \<Rightarrow>
         bindR (if map_of fs ''amount'' = None then Inr (Some 1)
                else optionalBoundedInteger (map_of fs ''amount'') 1 (wl_maxScrollAmount limits) (path @ ''.amount'')) (\<lambda>amount.
           case amount of
             None \<Rightarrow> fail_at (path @ ''.amount'')
           | Some n \<Rightarrow>
             bindR (ifGiven (map_of fs ''target'') (\<lambda>v. validateTarget v (path @ ''.target''))) (\<lambda>target.
               Inr (ScrollStep dir n target)))))"

definition normalizeWait :: "(string \<times> json) list \<Rightarrow> string \<Rightarrow> validation_error + workflow_step" where
  "normalizeWait fs path =
     bindR (assertKeys fs [''op'', ''milliseconds'', ''durationMs'', ''condition'', ''target'', ''timeoutMs''] path) (\<lambda>_.
     bindR (demand (map_of fs ''milliseconds'' = None \<or> map_of fs ''durationMs'' = None) path) (\<lambda>_.
     bindR (if map_of fs ''milliseconds'' \<noteq> None
            then ifGiven (map_of fs ''milliseconds'') (\<lambda>v. validateWaitDuration v (path @ ''.milliseconds''))
            else ifGiven (map_of fs ''durationMs'') (\<lambda>v. validateWaitDuration v (path @ ''.durationMs''))) (\<lambda>durationMs.
     bindR (ifGiven (map_of fs ''condition'') (\<lambda>v. validateCondition v (path @ ''.condition''))) (\<lambda>condition.
     bindR (ifGiven (map_of fs ''target'') (\<lambda>v. validateTarget v (path @ ''.target''))) (\<lambda>target.
     bindR (demand (\<not> (durationMs = None \<and> condition = None \<and> target = None)) path) (\<lambda>_.
     bindR (demand (\<not> (durationMs \<noteq> None \<and> (condition \<noteq> None \<or> target \<noteq> None))) path) (\<lambda>_.
     bindR (demand (\<not> (condition \<noteq> None \<and> target \<noteq> None)) path) (\<lambda>_.
     bindR (ifGiven (map_of fs ''timeoutMs'') (\<lambda>v. validateWaitDuration v (path @ ''.timeoutMs''))) (\<lambda>timeoutMs.
       Inr (WaitStep durationMs condition target timeoutMs))))))))))"

definition normalizeSnapshot :: "workflow_limits \<Rightarrow> (string \<times> json) list \<Rightarrow> string \<Rightarrow> validation_error + workflow_step" where
  "normalizeSnapshot limits fs path =
     bindR (assertKeys fs [''op'', ''maxNodes'', ''maxChars'', ''maxBytes'', ''includeText'', ''compact'', ''format''] path) (\<lambda>_.
     bindR (optionalBoundedInteger (map_of fs ''maxNodes'') 1 MAX_SNAPSHOT_NODES (path @ ''.maxNodes'')) (\<lambda>maxNodes.
     bindR (optionalBoundedInteger (map_of fs ''maxChars'') 100 MAX_SNAPSHOT_CHARS (path @ ''.maxChars'')) (\<lambda>maxChars.
     bindR (optionalBoundedInteger (map_of fs ''maxBytes'') 100 (min MAX_SNAPSHOT_BYTES (wl_maxSnapshotBytes limits)) (path @ ''.maxBytes'')) (\<lambda>maxBytes.
     bindR (optionalBool (map_of fs ''includeText'') (path @ ''.includeText'')) (\<lambda>includeText.
     bindR (optionalBool (map_of fs ''compact'') (path @ ''.compact'')) (\<lambda>compact.
     bindR (optionalEnum FORMATS (map_of fs ''format'') (path @ ''.format'')) (\<lambda>format.
     bindR (demand (agree compact (map_option (\<lambda>f. f = FormatCompact) format)) path) (\<lambda>_.
       Inr (SnapshotStep maxNodes maxChars maxBytes includeText compact format)))))))))"

definition normalizeStep ::
  "(string \<Rightarrow> web_url option) \<Rightarrow> workflow_limits \<Rightarrow> json \<Rightarrow> string \<Rightarrow> validation_error + workflow_step" where
  "normalizeStep parse limits v path =
     bindR (asRecord (Some v) path) (\<lambda>fs.
       case map_of fs ''op'' of
         Some (JString op) \<Rightarrow>
           (if op = ''open'' then normalizeOpen parse fs path
            else if op = ''click'' then normalizeClick fs path
            else if op = ''type'' then normalizeType fs path
            else if op = ''select'' then normalizeSelect fs path
            else if op = ''scroll'' then normalizeScroll limits fs path
            else if op = ''wait'' then normalizeWait fs path
            else if op = ''snapshot'' then normalizeSnapshot limits fs path
            else fail_at (path @ ''.op''))
       | _ \<Rightarrow> fail_at (path @ ''.op''))"

subsection \<open>A workflow\<close>

text \<open>\<open>`${path}[${i}]`\<close>, and the steps in order up to the first bad one.\<close>

definition indexed :: "string \<Rightarrow> nat \<Rightarrow> string" where
  "indexed path i = path @ ''['' @ dec_of i @ '']''"

fun normalizeSteps ::
  "(string \<Rightarrow> web_url option) \<Rightarrow> workflow_limits \<Rightarrow> json list \<Rightarrow> nat \<Rightarrow> validation_error + workflow_step list" where
  "normalizeSteps parse limits [] i = Inr []"
| "normalizeSteps parse limits (v # vs) i =
     bindR (normalizeStep parse limits v (indexed ''workflow.steps'' i)) (\<lambda>st.
     bindR (normalizeSteps parse limits vs (Suc i)) (\<lambda>sts. Inr (st # sts)))"

text \<open>\<open>new Set\<close> of the triggers: each once, in the order of its first occurrence.\<close>

fun stopTriggers :: "json list \<Rightarrow> nat \<Rightarrow> stop_trigger list \<Rightarrow> validation_error + stop_trigger list" where
  "stopTriggers [] i acc = Inr acc"
| "stopTriggers (v # vs) i acc =
     (case v of
        JString s \<Rightarrow>
          (case map_of WORKFLOW_STOP_TRIGGERS s of
             Some t \<Rightarrow> stopTriggers vs (Suc i) (if t \<in> set acc then acc else acc @ [t])
           | None \<Rightarrow> fail_at (indexed ''workflow.stopOn'' i))
      | _ \<Rightarrow> fail_at (indexed ''workflow.stopOn'' i))"

definition stopOnOf :: "json option \<Rightarrow> validation_error + stop_trigger list" where
  "stopOnOf v =
     (case v of None \<Rightarrow> Inr [] | Some (JArray xs) \<Rightarrow> stopTriggers xs 0 [] | Some _ \<Rightarrow> fail_at ''workflow.stopOn'')"

text \<open>\<open>workflow.x ?? options.x ?? limits.x\<close>, within its bounds.\<close>

definition limitCandidate :: "json option \<Rightarrow> jsnum option \<Rightarrow> int \<Rightarrow> json" where
  "limitCandidate v opt dflt =
     nullish v (case opt of Some n \<Rightarrow> JNumber n | None \<Rightarrow> JNumber (IntN dflt)) (\<lambda>x. x)"

definition boundedLimit :: "json option \<Rightarrow> jsnum option \<Rightarrow> int \<Rightarrow> int \<Rightarrow> string \<Rightarrow> validation_error + int" where
  "boundedLimit v opt lo hi path =
     (let n = boundedInteger (Some (limitCandidate v opt hi)) lo hi (-1) in if n < lo then fail_at path else Inr n)"

definition stepsOf :: "workflow_limits \<Rightarrow> json option \<Rightarrow> validation_error + json list" where
  "stepsOf limits v =
     (case v of
        Some (JArray xs) \<Rightarrow>
          if wl_maxSteps limits < int (length xs) then Inl (ValidationError ''workflow.steps'' WORKFLOW_STEP_LIMIT_EXCEEDED)
          else if xs = [] then fail_at ''workflow.steps'' else Inr xs
      | _ \<Rightarrow> fail_at ''workflow.steps'')"

record validation_options =
  vo_maxDurationMs :: "jsnum option"
  vo_maxResultBytes :: "jsnum option"
  vo_limits :: "limit_request option"

definition actionIdOf :: "json option \<Rightarrow> validation_error + string option" where
  "actionIdOf v =
     bindR (optionalString v ''workflow.actionId'') (\<lambda>actionId.
     bindR (demand (case actionId of Some a \<Rightarrow> ACTION_ID_PATTERN a | None \<Rightarrow> True) ''workflow.actionId'') (\<lambda>_.
       Inr actionId))"

definition normalizeWorkflow ::
  "(string \<Rightarrow> web_url option) \<Rightarrow> json \<Rightarrow> validation_options \<Rightarrow> validation_error + workflow" where
  "normalizeWorkflow parse v opts =
     bindR (asRecord (Some v) ''workflow'') (\<lambda>fs.
     let limits = resolveWorkflowLimits (vo_limits opts) in
     bindR (assertKeys fs [''steps'', ''actionId'', ''expectedPageRevision'', ''expectedTabId'', ''maxDurationMs'',
       ''maxResultBytes'', ''stopOn''] ''workflow'') (\<lambda>_.
     bindR (stepsOf limits (map_of fs ''steps'')) (\<lambda>rawSteps.
     bindR (actionIdOf (map_of fs ''actionId'')) (\<lambda>actionId.
     bindR (optionalRevision (map_of fs ''expectedPageRevision'') ''workflow.expectedPageRevision'') (\<lambda>revision.
     bindR (optionalTabId (map_of fs ''expectedTabId'') ''workflow.expectedTabId'') (\<lambda>tabId.
     bindR (boundedLimit (map_of fs ''maxDurationMs'') (vo_maxDurationMs opts) 1 (wl_maxDurationMs limits)
       ''workflow.maxDurationMs'') (\<lambda>maxDurationMs.
     bindR (boundedLimit (map_of fs ''maxResultBytes'') (vo_maxResultBytes opts) MIN_WORKFLOW_RESULT_BYTES
       (wl_maxResultBytes limits) ''workflow.maxResultBytes'') (\<lambda>maxResultBytes.
     bindR (stopOnOf (map_of fs ''stopOn'')) (\<lambda>stopOn.
     bindR (normalizeSteps parse limits rawSteps 0) (\<lambda>steps.
       Inr \<lparr>wf_steps = steps, wf_actionId = actionId, wf_expectedPageRevision = revision, wf_expectedTabId = tabId,
            wf_maxDurationMs = maxDurationMs, wf_maxResultBytes = maxResultBytes, wf_stopOn = stopOn\<rparr>))))))))))"

subsection \<open>The objects that validation returns\<close>

text \<open>
  \<open>...(x !== undefined ? { x } : {})\<close>, and the objects \<open>normalizeStep\<close> and \<open>validateWorkflow\<close> build, which
  are validated again by the executor and printed for its fingerprint.
\<close>

definition opt_field :: "string \<Rightarrow> ('a \<Rightarrow> json) \<Rightarrow> 'a option \<Rightarrow> (string \<times> json) list" where
  "opt_field k f v = (case v of Some x \<Rightarrow> [(k, f x)] | None \<Rightarrow> [])"

definition int_json :: "int \<Rightarrow> json" where "int_json i = JNumber (IntN i)"

fun name_of :: "(string \<times> 'a) list \<Rightarrow> 'a \<Rightarrow> string" where
  "name_of [] x = []"
| "name_of ((k, v) # ps) x = (if v = x then k else name_of ps x)"

fun target_json :: "workflow_target \<Rightarrow> json" where
  "target_json (RefText r) = JString r"
| "target_json (RoleTarget r n e) = JObject ([(''role'', JString r), (''name'', JString n)] @ opt_field ''exact'' JBool e)"
| "target_json (LabelTarget l e) = JObject ([(''label'', JString l)] @ opt_field ''exact'' JBool e)"
| "target_json (TestIdTarget t) = JObject [(''testId'', JString t)]"
| "target_json (RefTarget r) = JObject [(''ref'', JString r)]"

fun choice_json :: "select_choice \<Rightarrow> json" where
  "choice_json (ChoiceText t) = JString t"
| "choice_json (ChoiceValue t) = JObject [(''value'', JString t)]"
| "choice_json (ChoiceLabel t) = JObject [(''label'', JString t)]"

definition condition_json :: "wait_condition \<Rightarrow> json" where
  "condition_json c = JObject [(''ref'', JString (wc_ref c)), (''state'', JString (name_of WAIT_STATES (wc_state c)))]"

fun step_json :: "workflow_step \<Rightarrow> json" where
  "step_json (OpenStep url waitUntil timeoutMs) = JObject ([(''op'', JString ''open''), (''url'', JString url)]
     @ opt_field ''waitUntil'' (\<lambda>w. JString (name_of WAIT_UNTIL w)) waitUntil @ opt_field ''timeoutMs'' int_json timeoutMs)"
| "step_json (ClickStep target timeoutMs) = JObject ([(''op'', JString ''click''), (''target'', target_json target)]
     @ opt_field ''timeoutMs'' int_json timeoutMs)"
| "step_json (TypeStep target text clear clearFirst submit sensitive timeoutMs) =
     JObject ([(''op'', JString ''type''), (''target'', target_json target), (''text'', JString text)]
     @ opt_field ''clear'' JBool clear @ opt_field ''clearFirst'' JBool clearFirst @ opt_field ''submit'' JBool submit
     @ opt_field ''sensitive'' JBool sensitive @ opt_field ''timeoutMs'' int_json timeoutMs)"
| "step_json (SelectStep target choice vals timeoutMs) =
     JObject ([(''op'', JString ''select''), (''target'', target_json target)]
     @ opt_field ''choice'' choice_json choice @ opt_field ''values'' (\<lambda>vs. JArray (map JString vs)) vals
     @ opt_field ''timeoutMs'' int_json timeoutMs)"
| "step_json (ScrollStep dir amount target) =
     JObject ([(''op'', JString ''scroll''), (''direction'', JString (name_of DIRECTIONS dir)), (''amount'', int_json amount)]
     @ opt_field ''target'' target_json target)"
| "step_json (WaitStep durationMs condition target timeoutMs) =
     JObject ([(''op'', JString ''wait'')] @ opt_field ''durationMs'' int_json durationMs
     @ opt_field ''condition'' condition_json condition @ opt_field ''target'' target_json target
     @ opt_field ''timeoutMs'' int_json timeoutMs)"
| "step_json (SnapshotStep maxNodes maxChars maxBytes includeText cmpct format) =
     JObject ([(''op'', JString ''snapshot'')] @ opt_field ''maxNodes'' int_json maxNodes @ opt_field ''maxChars'' int_json maxChars
     @ opt_field ''maxBytes'' int_json maxBytes @ opt_field ''includeText'' JBool includeText
     @ opt_field ''compact'' JBool cmpct @ opt_field ''format'' (\<lambda>f. JString (name_of FORMATS f)) format)"

definition workflow_json :: "workflow \<Rightarrow> json" where
  "workflow_json w =
     JObject ([(''steps'', JArray (map step_json (wf_steps w)))]
       @ opt_field ''actionId'' JString (wf_actionId w)
       @ opt_field ''expectedPageRevision'' int_json (wf_expectedPageRevision w)
       @ opt_field ''expectedTabId'' JString (wf_expectedTabId w)
       @ [(''maxDurationMs'', int_json (wf_maxDurationMs w)), (''maxResultBytes'', int_json (wf_maxResultBytes w)),
          (''stopOn'', JArray (map (\<lambda>t. JString (name_of WORKFLOW_STOP_TRIGGERS t)) (wf_stopOn w)))])"

definition validateWorkflow ::
  "(string \<Rightarrow> web_url option) \<Rightarrow> json \<Rightarrow> validation_options \<Rightarrow> validation_error + json" where
  "validateWorkflow parse v opts = bindR (normalizeWorkflow parse v opts) (\<lambda>w. Inr (workflow_json w))"

subsection \<open>Well-typed steps\<close>

definition text_in :: "nat \<Rightarrow> string \<Rightarrow> bool" where "text_in n s \<longleftrightarrow> s \<noteq> [] \<and> length s \<le> n"

definition opt_in :: "int \<Rightarrow> int \<Rightarrow> int option \<Rightarrow> bool" where
  "opt_in lo hi v \<longleftrightarrow> (case v of None \<Rightarrow> True | Some i \<Rightarrow> lo \<le> i \<and> i \<le> hi)"

fun target_ok :: "workflow_target \<Rightarrow> bool" where
  "target_ok (RefText r) = OPAQUE_REF_PATTERN r"
| "target_ok (RoleTarget r n e) = (text_in 64 r \<and> text_in 500 n)"
| "target_ok (LabelTarget l e) = text_in 500 l"
| "target_ok (TestIdTarget t) = text_in 128 t"
| "target_ok (RefTarget r) = OPAQUE_REF_PATTERN r"

fun choice_ok :: "select_choice \<Rightarrow> bool" where
  "choice_ok (ChoiceText t) = text_in 1000 t"
| "choice_ok (ChoiceValue t) = text_in 1000 t"
| "choice_ok (ChoiceLabel t) = text_in 1000 t"

definition opt_ok :: "('a \<Rightarrow> bool) \<Rightarrow> 'a option \<Rightarrow> bool" where
  "opt_ok P v = (case v of None \<Rightarrow> True | Some x \<Rightarrow> P x)"

text \<open>
  A step with every field in its range: a bounded web address without credentials, one strategy per
  target, a choice or a list of values but not both, one reason to wait, and forms that agree.
\<close>

fun step_ok :: "(string \<Rightarrow> web_url option) \<Rightarrow> workflow_limits \<Rightarrow> workflow_step \<Rightarrow> bool" where
  "step_ok parse l (OpenStep url waitUntil timeoutMs) = (text_in 2048 url \<and> http_url parse url \<and> opt_in 1 300000 timeoutMs)"
| "step_ok parse l (ClickStep target timeoutMs) = (target_ok target \<and> opt_in 1 300000 timeoutMs)"
| "step_ok parse l (TypeStep target text clear clearFirst submit sensitive timeoutMs) =
     (target_ok target \<and> length text \<le> 10000 \<and> agree clear clearFirst \<and> opt_in 1 300000 timeoutMs)"
| "step_ok parse l (SelectStep target choice vals timeoutMs) =
     (target_ok target \<and> (choice = None) \<noteq> (vals = None) \<and> opt_ok choice_ok choice
      \<and> opt_ok (\<lambda>vs. 1 \<le> length vs \<and> length vs \<le> 32 \<and> list_all (text_in 200) vs) vals \<and> opt_in 1 300000 timeoutMs)"
| "step_ok parse l (ScrollStep dir amount target) =
     (1 \<le> amount \<and> amount \<le> wl_maxScrollAmount l \<and> opt_ok target_ok target)"
| "step_ok parse l (WaitStep durationMs condition target timeoutMs) =
     (strategy_count [durationMs \<noteq> None, condition \<noteq> None, target \<noteq> None] = 1 \<and> opt_in 1 10000 durationMs
      \<and> opt_ok (\<lambda>c. OPAQUE_REF_PATTERN (wc_ref c)) condition \<and> opt_ok target_ok target \<and> opt_in 1 10000 timeoutMs)"
| "step_ok parse l (SnapshotStep maxNodes maxChars maxBytes includeText cmpct format) =
     (opt_in 1 2000 maxNodes \<and> opt_in 100 50000 maxChars \<and> opt_in 100 (wl_maxSnapshotBytes l) maxBytes
      \<and> agree cmpct (map_option (\<lambda>f. f = FormatCompact) format))"

definition workflow_ok :: "(string \<Rightarrow> web_url option) \<Rightarrow> workflow_limits \<Rightarrow> workflow \<Rightarrow> bool" where
  "workflow_ok parse l w \<longleftrightarrow>
     1 \<le> length (wf_steps w) \<and> int (length (wf_steps w)) \<le> wl_maxSteps l \<and> list_all (step_ok parse l) (wf_steps w)
     \<and> opt_ok ACTION_ID_PATTERN (wf_actionId w)
     \<and> opt_in 0 MAX_SAFE (wf_expectedPageRevision w)
     \<and> opt_ok (\<lambda>t. text_in 100 t \<and> \<not> list_ex control_char t) (wf_expectedTabId w)
     \<and> 1 \<le> wf_maxDurationMs w \<and> wf_maxDurationMs w \<le> wl_maxDurationMs l
     \<and> 100 \<le> wf_maxResultBytes w \<and> wf_maxResultBytes w \<le> wl_maxResultBytes l
     \<and> distinct (wf_stopOn w)"

subsection \<open>What the guards let through\<close>

lemmas wf_consts = MAX_ACTION_TIMEOUT_MS_def MAX_WAIT_DURATION_MS_def MAX_SNAPSHOT_CHARS_def MAX_SNAPSHOT_NODES_def
  MAX_SNAPSHOT_BYTES_def MAX_TEXT_CHARS_def MAX_TARGET_CHARS_def MAX_TEST_ID_CHARS_def MAX_REF_CHARS_def
  HARD_AUTOMATION_LIMITS_def

named_theorems guards "what a guard of the workflow language lets through"

lemma fail_at_Inr [simp]: "fail_at p \<noteq> Inr x"
  by (simp add: fail_at_def)

lemma bindR_fail [simp]: "bindR (fail_at p) f = fail_at p"
  by (simp add: fail_at_def)

lemma demand_Inr [guards]: "demand b p = Inr u \<longleftrightarrow> b"
  by (auto simp: demand_def)

lemma demand_True [simp]: "demand True p = Inr ()"
  by (simp add: demand_def)

lemma asRecord_Inr [guards]: "asRecord v p = Inr fs \<longleftrightarrow> v = Some (JObject fs)"
  by (auto simp: asRecord_def split: option.splits json.splits)

lemma assertKeys_Inr: "assertKeys fs ks p = Inr u \<longleftrightarrow> fst ` set fs \<subseteq> set ks"
  by (auto simp: assertKeys_def find_None_iff image_iff split: option.splits) (force simp: find_Some_iff)+

lemma boundedInteger_in: "lo \<le> i \<Longrightarrow> i \<le> hi \<Longrightarrow> \<bar>i\<bar> \<le> MAX_SAFE \<Longrightarrow> boundedInteger (Some (JNumber (IntN i))) lo hi d = i"
  by (simp add: boundedInteger_def)

lemma boundedInteger_range: "boundedInteger v lo hi d = d \<or> lo \<le> boundedInteger v lo hi d \<and> boundedInteger v lo hi d \<le> hi"
  by (auto simp: boundedInteger_def split: option.splits json.splits jsnum.splits)

lemma optionalBoundedInteger_Inr: "0 \<le> lo \<Longrightarrow> optionalBoundedInteger v lo hi p = Inr r \<Longrightarrow> opt_in lo hi r"
  using boundedInteger_range[of v lo hi "-1"] by (auto simp: optionalBoundedInteger_def Let_def opt_in_def split: if_splits)

lemma optionalTimeout_Inr: "optionalTimeout v p = Inr r \<Longrightarrow> opt_in 1 300000 r"
  using boundedInteger_range[of v 1 300000 "-1"] by (auto simp: optionalTimeout_def Let_def opt_in_def wf_consts split: if_splits)

lemma validateWaitDuration_Inr: "validateWaitDuration v p = Inr r \<Longrightarrow> 1 \<le> r \<and> r \<le> 10000"
  using boundedInteger_range[of v 1 10000 "-1"] by (auto simp: validateWaitDuration_def Let_def wf_consts split: if_splits)

lemma boundedText_Inr [guards]: "boundedText n v p = Inr s \<longleftrightarrow> v = Some (JString s) \<and> text_in n s"
  by (auto simp: boundedText_def text_in_def split: option.splits json.splits if_splits)

lemma ref_length: "OPAQUE_REF_PATTERN s \<Longrightarrow> length s \<le> 100"
  by (auto simp: OPAQUE_REF_PATTERN_def)

lemma opaqueRefText_Inr [guards]: "opaqueRefText v p = Inr s \<longleftrightarrow> v = Some (JString s) \<and> OPAQUE_REF_PATTERN s"
  by (auto simp: opaqueRefText_def wf_consts dest: ref_length split: option.splits json.splits if_splits)

lemma typedText_Inr [guards]: "typedText v p = Inr s \<longleftrightarrow> v = Some (JString s) \<and> length s \<le> 10000"
  by (auto simp: typedText_def wf_consts split: option.splits json.splits if_splits)

lemma ifGiven_Inr [guards]: "ifGiven v f = Inr r \<longleftrightarrow> (if v = None then r = None else \<exists>x. f v = Inr x \<and> r = Some x)"
  by (auto simp: ifGiven_def bindR_Inr_iff)

lemma validateTarget_ok: "validateTarget v p = Inr t \<Longrightarrow> target_ok t"
  unfolding validateTarget_def Let_def wf_consts
  by (auto simp: bindR_Inr_iff guards split: option.splits json.splits if_splits)

lemma validateChoice_ok: "validateChoice v p = Inr c \<Longrightarrow> choice_ok c"
  unfolding validateChoice_def Let_def
  by (auto simp: bindR_Inr_iff guards split: option.splits json.splits if_splits)

lemma validateCondition_ok: "validateCondition v p = Inr c \<Longrightarrow> OPAQUE_REF_PATTERN (wc_ref c)"
  unfolding validateCondition_def
  by (auto simp: bindR_Inr_iff guards split: option.splits)

lemma validateUrl_Inr [guards]:
  "validateUrl parse v p = Inr s \<longleftrightarrow> v = Some (JString s) \<and> text_in 2048 s \<and> http_url parse s"
  by (auto simp: validateUrl_def bindR_Inr_iff guards split: if_splits)

lemma selectValues_ok:
  "selectValues xs i p = Inr ss \<Longrightarrow> length ss = length xs \<and> list_all (text_in 200) ss"
  by (induction xs i p arbitrary: ss rule: selectValues.induct) (auto simp: bindR_Inr_iff guards)

lemma selectionOf_ok:
  assumes "selectionOf fs p = Inr (c, vs)"
  shows "(c = None) \<noteq> (vs = None) \<and> opt_ok choice_ok c
    \<and> opt_ok (\<lambda>vs. 1 \<le> length vs \<and> length vs \<le> 32 \<and> list_all (text_in 200) vs) vs"
proof (cases "map_of fs ''values''")
  case None
  with assms show ?thesis unfolding selectionOf_def
    by (auto simp: bindR_Inr_iff guards opt_ok_def dest: validateChoice_ok split: if_splits)
next
  case (Some v)
  with assms show ?thesis unfolding selectionOf_def
    by (auto simp: bindR_Inr_iff guards opt_ok_def Suc_le_eq dest!: selectValues_ok split: if_splits json.splits)
qed

lemma normalizeOpen_ok: "normalizeOpen parse fs path = Inr st \<Longrightarrow> step_ok parse l st"
  by (auto simp: normalizeOpen_def bindR_Inr_iff guards dest: optionalTimeout_Inr)

lemma normalizeClick_ok: "normalizeClick fs path = Inr st \<Longrightarrow> step_ok parse l st"
  by (auto simp: normalizeClick_def bindR_Inr_iff guards dest: optionalTimeout_Inr validateTarget_ok)

lemma normalizeType_ok: "normalizeType fs path = Inr st \<Longrightarrow> step_ok parse l st"
  by (auto simp: normalizeType_def bindR_Inr_iff guards dest: optionalTimeout_Inr validateTarget_ok)

lemma normalizeSelect_ok: "normalizeSelect fs path = Inr st \<Longrightarrow> step_ok parse l st"
  by (auto simp: normalizeSelect_def bindR_Inr_iff dest!: optionalTimeout_Inr validateTarget_ok selectionOf_ok)

lemma case_fail_Inr:
  "(case x of None \<Rightarrow> fail_at p | Some d \<Rightarrow> f d) = Inr st \<longleftrightarrow> (\<exists>d. x = Some d \<and> f d = Inr st)"
  by (cases x) auto

lemma validateTarget_given: "ifGiven v (\<lambda>v. validateTarget v p) = Inr t \<Longrightarrow> opt_ok target_ok t"
  by (auto simp: ifGiven_Inr opt_ok_def dest: validateTarget_ok split: if_splits)

lemma validateCondition_given: "ifGiven v (\<lambda>v. validateCondition v p) = Inr t \<Longrightarrow> opt_ok (\<lambda>c. OPAQUE_REF_PATTERN (wc_ref c)) t"
  by (auto simp: ifGiven_Inr opt_ok_def dest: validateCondition_ok split: if_splits)

lemma validateWaitDuration_given: "ifGiven v (\<lambda>v. validateWaitDuration v p) = Inr t \<Longrightarrow> opt_in 1 10000 t"
  by (auto simp: ifGiven_Inr opt_in_def dest: validateWaitDuration_Inr split: if_splits)

lemma normalizeScroll_ok:
  assumes "limits_ok l" and "normalizeScroll l fs path = Inr st"
  shows "step_ok parse l st"
proof -
  obtain dir amount target where st: "st = ScrollStep dir amount target"
    and n: "(if map_of fs ''amount'' = None then Inr (Some 1)
        else optionalBoundedInteger (map_of fs ''amount'') 1 (wl_maxScrollAmount l) (path @ ''.amount'')) = Inr (Some amount)"
    and t: "ifGiven (map_of fs ''target'') (\<lambda>v. validateTarget v (path @ ''.target'')) = Inr target"
    using assms(2) unfolding normalizeScroll_def bindR_Inr_iff case_fail_Inr by blast
  have "opt_in 1 (wl_maxScrollAmount l) (Some amount)"
  proof (cases "map_of fs ''amount'' = None")
    case True
    then have "amount = 1" using n by simp
    then show ?thesis using assms(1) by (simp add: opt_in_def limits_ok_def)
  next
    case False
    then show ?thesis using n optionalBoundedInteger_Inr[of 1] by fastforce
  qed
  then show ?thesis using validateTarget_given[OF t] by (simp add: st opt_in_def)
qed

lemma normalizeWait_ok:
  assumes "normalizeWait fs path = Inr st"
  shows "step_ok parse l st"
proof -
  obtain d c t m where st: "st = WaitStep d c t m"
    and d: "(if map_of fs ''milliseconds'' \<noteq> None
            then ifGiven (map_of fs ''milliseconds'') (\<lambda>v. validateWaitDuration v (path @ ''.milliseconds''))
            else ifGiven (map_of fs ''durationMs'') (\<lambda>v. validateWaitDuration v (path @ ''.durationMs''))) = Inr d"
    and c: "ifGiven (map_of fs ''condition'') (\<lambda>v. validateCondition v (path @ ''.condition'')) = Inr c"
    and t: "ifGiven (map_of fs ''target'') (\<lambda>v. validateTarget v (path @ ''.target'')) = Inr t"
    and m: "ifGiven (map_of fs ''timeoutMs'') (\<lambda>v. validateWaitDuration v (path @ ''.timeoutMs'')) = Inr m"
    and one: "\<not> (d = None \<and> c = None \<and> t = None)" "\<not> (d \<noteq> None \<and> (c \<noteq> None \<or> t \<noteq> None))" "\<not> (c \<noteq> None \<and> t \<noteq> None)"
    using assms unfolding normalizeWait_def bindR_Inr_iff demand_Inr by blast
  have "opt_in 1 10000 d" using d validateWaitDuration_given by (cases "map_of fs ''milliseconds'' \<noteq> None") simp_all
  moreover have "strategy_count [d \<noteq> None, c \<noteq> None, t \<noteq> None] = 1"
    using one by (cases d; cases c; cases t) (simp_all add: strategy_count_def)
  ultimately show ?thesis
    using validateTarget_given[OF t] validateCondition_given[OF c] validateWaitDuration_given[OF m] by (simp add: st)
qed

lemma normalizeSnapshot_ok:
  assumes "limits_ok l" and "normalizeSnapshot l fs path = Inr st"
  shows "step_ok parse l st"
proof -
  obtain n c b t k f where st: "st = SnapshotStep n c b t k f"
    and n: "optionalBoundedInteger (map_of fs ''maxNodes'') 1 MAX_SNAPSHOT_NODES (path @ ''.maxNodes'') = Inr n"
    and c: "optionalBoundedInteger (map_of fs ''maxChars'') 100 MAX_SNAPSHOT_CHARS (path @ ''.maxChars'') = Inr c"
    and b: "optionalBoundedInteger (map_of fs ''maxBytes'') 100 (min MAX_SNAPSHOT_BYTES (wl_maxSnapshotBytes l)) (path @ ''.maxBytes'') = Inr b"
    and a: "agree k (map_option (\<lambda>f. f = FormatCompact) f)"
    using assms(2) unfolding normalizeSnapshot_def bindR_Inr_iff demand_Inr by blast
  have "min MAX_SNAPSHOT_BYTES (wl_maxSnapshotBytes l) = wl_maxSnapshotBytes l"
    using assms(1) by (simp add: limits_ok_def wf_consts)
  then show ?thesis
    using optionalBoundedInteger_Inr[OF _ n] optionalBoundedInteger_Inr[OF _ c] optionalBoundedInteger_Inr[OF _ b] a
    by (simp add: st MAX_SNAPSHOT_NODES_def MAX_SNAPSHOT_CHARS_def)
qed

lemma normalizeStep_typed:
  assumes "limits_ok l" and "normalizeStep parse l v path = Inr st"
  shows "step_ok parse l st"
proof -
  obtain fs where v: "v = JObject fs"
    using assms(2) by (cases v) (simp_all add: normalizeStep_def asRecord_def fail_at_def)
  obtain x where x: "map_of fs ''op'' = Some x"
    using assms(2) v by (cases "map_of fs ''op''") (simp_all add: normalizeStep_def asRecord_def)
  obtain op where "x = JString op"
    using assms(2) v x by (cases x) (simp_all add: normalizeStep_def asRecord_def)
  with assms(2) v x consider "normalizeOpen parse fs path = Inr st" | "normalizeClick fs path = Inr st"
    | "normalizeType fs path = Inr st" | "normalizeSelect fs path = Inr st" | "normalizeScroll l fs path = Inr st"
    | "normalizeWait fs path = Inr st" | "normalizeSnapshot l fs path = Inr st"
    by (simp add: normalizeStep_def asRecord_def split: if_splits)
  then show ?thesis
    using assms(1) normalizeOpen_ok normalizeClick_ok normalizeType_ok normalizeSelect_ok normalizeScroll_ok
      normalizeWait_ok normalizeSnapshot_ok by cases metis+
qed

subsection \<open>Validated objects validate again\<close>

named_theorems reread "a guard reads back what validation wrote"

declare map_of_append [simp del]

lemma map_of_opt_field [reread]: "map_of (opt_field k f v) k' = (if k' = k then map_option f v else None)"
  by (cases v) (auto simp: opt_field_def)

lemma map_of_opt_field_app [reread]:
  "map_of (opt_field k f v @ ys) k' =
     (if k' \<noteq> k then map_of ys k' else if v = None then map_of ys k' else map_option f v)"
  by (cases v) (auto simp: opt_field_def)

lemma demand_reread [reread]: "b \<Longrightarrow> demand b p = Inr ()"
  by (simp add: demand_def)

lemma agree_None [reread]: "agree None y" "agree x None"
  by (simp_all add: agree_def)

lemma known_keys [reread]: "list_all (\<lambda>k. k \<in> set ks) (map fst fs) \<Longrightarrow> assertKeys fs ks p = Inr ()"
  using assertKeys_Inr[of fs ks p "()"] by (auto simp: list_all_iff image_iff)

lemma list_all_opt_field [reread]: "P k \<Longrightarrow> list_all P (map fst (opt_field k f v))"
  by (cases v) (auto simp: opt_field_def)

lemma optionalBool_reread [reread]: "optionalBool (map_option JBool b) p = Inr b"
  by (cases b) (simp_all add: optionalBool_def)

lemma optionalEnum_reread:
  assumes "\<And>x. map_of tbl (name_of tbl x) = Some x"
  shows "optionalEnum tbl (map_option (\<lambda>x. JString (name_of tbl x)) v) p = Inr v"
  by (cases v) (simp_all add: optionalEnum_def assms)

lemma tables_complete [reread]:
  "map_of WAIT_UNTIL (name_of WAIT_UNTIL w) = Some w"
  "map_of DIRECTIONS (name_of DIRECTIONS d) = Some d"
  "map_of WAIT_STATES (name_of WAIT_STATES st) = Some st"
  "map_of FORMATS (name_of FORMATS f) = Some f"
  "map_of WORKFLOW_STOP_TRIGGERS (name_of WORKFLOW_STOP_TRIGGERS t) = Some t"
      apply (cases w; simp add: WAIT_UNTIL_def)
     apply (cases d; simp add: DIRECTIONS_def)
    apply (cases st; simp add: WAIT_STATES_def)
   apply (cases f; simp add: FORMATS_def)
  apply (cases t; simp add: WORKFLOW_STOP_TRIGGERS_def)
  done

lemmas enum_reread [reread] = tables_complete(1-4)[THEN optionalEnum_reread]

lemma optionalTimeout_reread [reread]: "opt_in 1 300000 t \<Longrightarrow> optionalTimeout (map_option int_json t) p = Inr t"
  by (cases t) (simp_all add: opt_in_def optionalTimeout_def int_json_def boundedInteger_in wf_consts MAX_SAFE_def Let_def)

lemma optionalBoundedInteger_reread [reread]:
  "opt_in lo hi t \<Longrightarrow> 0 \<le> lo \<Longrightarrow> hi \<le> MAX_SAFE \<Longrightarrow> optionalBoundedInteger (map_option int_json t) lo hi p = Inr t"
  by (cases t) (simp_all add: opt_in_def optionalBoundedInteger_def int_json_def boundedInteger_in Let_def)

lemma validateWaitDuration_reread [reread]:
  "opt_in 1 10000 t \<Longrightarrow> ifGiven (map_option int_json t) (\<lambda>v. validateWaitDuration v p) = Inr t"
  by (cases t) (simp_all add: opt_in_def ifGiven_def validateWaitDuration_def int_json_def boundedInteger_in wf_consts MAX_SAFE_def Let_def)

lemma boundedText_reread [reread]: "text_in n s \<Longrightarrow> boundedText n (Some (JString s)) p = Inr s"
  by (simp add: boundedText_Inr)

lemma opaqueRefText_reread [reread]: "OPAQUE_REF_PATTERN s \<Longrightarrow> opaqueRefText (Some (JString s)) p = Inr s"
  by (simp add: opaqueRefText_Inr)

lemma absent_fields [reread]:
  "optionalEnum tbl None p = Inr None" "optionalBool None p = Inr None" "optionalTimeout None p = Inr None"
  "optionalBoundedInteger None lo hi p = Inr None" "ifGiven None f = Inr None"
  by (simp_all add: optionalEnum_def optionalBool_def optionalTimeout_def optionalBoundedInteger_def ifGiven_def)

lemma validateTarget_reread [reread]: "target_ok t \<Longrightarrow> validateTarget (Some (target_json t)) p = Inr t"
  by (cases t) (simp_all add: validateTarget_def asRecord_def Let_def reread strategy_count_def wf_consts)

lemma validateTarget_given_reread [reread]:
  "opt_ok target_ok t \<Longrightarrow> ifGiven (map_option target_json t) (\<lambda>v. validateTarget v p) = Inr t"
  by (cases t) (simp_all add: opt_ok_def ifGiven_def reread)

lemma validateChoice_reread [reread]: "choice_ok c \<Longrightarrow> validateChoice (Some (choice_json c)) p = Inr c"
  by (cases c) (simp_all add: validateChoice_def asRecord_def Let_def reread)

lemma validateCondition_reread [reread]:
  "opt_ok (\<lambda>c. OPAQUE_REF_PATTERN (wc_ref c)) c \<Longrightarrow> ifGiven (map_option condition_json c) (\<lambda>v. validateCondition v p) = Inr c"
  using enum_reread(3)[of "Some (wc_state (the c))"]
  by (cases c) (simp_all add: opt_ok_def ifGiven_def validateCondition_def condition_json_def asRecord_def reread)

lemma validateUrl_reread [reread]:
  "text_in 2048 s \<Longrightarrow> http_url parse s \<Longrightarrow> validateUrl parse (Some (JString s)) p = Inr s"
  by (simp add: validateUrl_Inr)

lemma selectValues_reread [reread]:
  "list_all (text_in 200) ss \<Longrightarrow> selectValues (map JString ss) i p = Inr ss"
  by (induction ss arbitrary: i) (simp_all add: reread)

lemma selectionOf_reread:
  assumes "(c = None) \<noteq> (vs = None)" and "opt_ok choice_ok c"
    and "opt_ok (\<lambda>vs. 1 \<le> length vs \<and> length vs \<le> 32 \<and> list_all (text_in 200) vs) vs"
    and "map_of fs ''value'' = None" "map_of fs ''label'' = None"
    and "map_of fs ''choice'' = map_option choice_json c" "map_of fs ''values'' = map_option (\<lambda>vs. JArray (map JString vs)) vs"
  shows "selectionOf fs p = Inr (c, vs)"
  using assms by (cases c; cases vs) (auto simp: selectionOf_def opt_ok_def reread)

lemma normalizeStep_reread:
  assumes "limits_ok l" and "step_ok parse l st"
  shows "normalizeStep parse l (step_json st) path = Inr st"
proof (cases st)
  case (OpenStep url w t)
  with assms(2) show ?thesis by (simp add: normalizeStep_def normalizeOpen_def asRecord_def reread)
next
  case (ClickStep tg t)
  with assms(2) show ?thesis by (simp add: normalizeStep_def normalizeClick_def asRecord_def reread)
next
  case (TypeStep tg tx clear clearFirst submit sensitive t)
  with assms(2) show ?thesis
    by (simp add: normalizeStep_def normalizeType_def asRecord_def reread typedText_def wf_consts)
next
  case (SelectStep tg c vs t)
  let ?fs = "[(''op'', JString ''select''), (''target'', target_json tg)] @ opt_field ''choice'' choice_json c
    @ opt_field ''values'' (\<lambda>vs. JArray (map JString vs)) vs @ opt_field ''timeoutMs'' int_json t"
  have "selectionOf ?fs path = Inr (c, vs)"
    using SelectStep assms(2) by (intro selectionOf_reread) (auto simp: reread)
  with SelectStep assms(2) show ?thesis
    by (simp add: normalizeStep_def normalizeSelect_def asRecord_def reread)
next
  case (ScrollStep d n tg)
  with assms have "optionalBoundedInteger (Some (int_json n)) 1 (wl_maxScrollAmount l) (path @ ''.amount'') = Inr (Some n)"
    using optionalBoundedInteger_reread[of 1 "wl_maxScrollAmount l" "Some n"] by (simp add: opt_in_def limits_ok_def MAX_SAFE_def)
  with ScrollStep assms(2) show ?thesis
    using enum_reread(2)[of "Some d"] by (simp add: normalizeStep_def normalizeScroll_def asRecord_def reread)
next
  case (WaitStep d c tg t)
  with assms(2) show ?thesis
    by (simp add: normalizeStep_def normalizeWait_def asRecord_def reread)
      (cases d; cases c; cases tg; simp add: reread strategy_count_def ifGiven_def)
next
  case (SnapshotStep n c b i k f)
  have "min MAX_SNAPSHOT_BYTES (wl_maxSnapshotBytes l) = wl_maxSnapshotBytes l"
    using assms(1) by (simp add: limits_ok_def wf_consts)
  with SnapshotStep assms show ?thesis
    by (simp add: normalizeStep_def normalizeSnapshot_def asRecord_def reread MAX_SNAPSHOT_NODES_def MAX_SNAPSHOT_CHARS_def
        limits_ok_def MAX_SAFE_def)
qed

subsection \<open>Whole workflows\<close>

lemma normalizeSteps_typed:
  assumes "limits_ok l"
  shows "normalizeSteps parse l vs i = Inr sts \<Longrightarrow> length sts = length vs \<and> list_all (step_ok parse l) sts"
  by (induction vs arbitrary: i sts) (auto simp: bindR_Inr_iff dest: normalizeStep_typed[OF assms])

lemma normalizeSteps_reread:
  assumes "limits_ok l"
  shows "list_all (step_ok parse l) sts \<Longrightarrow> normalizeSteps parse l (map step_json sts) i = Inr sts"
  by (induction sts arbitrary: i) (simp_all add: normalizeStep_reread[OF assms])

lemma stopTriggers_distinct: "stopTriggers vs i acc = Inr ts \<Longrightarrow> distinct acc \<Longrightarrow> distinct ts"
proof (induction vs arbitrary: i acc)
  case (Cons v vs)
  obtain s t where "v = JString s" "map_of WORKFLOW_STOP_TRIGGERS s = Some t"
    using Cons.prems(1) by (cases v) (auto simp: case_fail_Inr split: option.splits)
  with Cons show ?case by (auto split: if_splits)
qed simp

lemma stopTriggers_reread:
  "distinct (acc @ ts) \<Longrightarrow>
   stopTriggers (map (\<lambda>t. JString (name_of WORKFLOW_STOP_TRIGGERS t)) ts) i acc = Inr (acc @ ts)"
  by (induction ts arbitrary: i acc) (simp_all add: reread)

lemma stopOnOf_distinct: "stopOnOf v = Inr ts \<Longrightarrow> distinct ts"
  by (auto simp: stopOnOf_def dest: stopTriggers_distinct split: option.splits json.splits)

lemma stopOnOf_reread: "distinct ts \<Longrightarrow> stopOnOf (Some (JArray (map (\<lambda>t. JString (name_of WORKFLOW_STOP_TRIGGERS t)) ts))) = Inr ts"
  using stopTriggers_reread[of "[]" ts 0] by (simp add: stopOnOf_def)

lemma boundedLimit_Inr: "0 \<le> lo \<Longrightarrow> boundedLimit v opt lo hi p = Inr n \<Longrightarrow> lo \<le> n \<and> n \<le> hi"
  using boundedInteger_range[of "Some (limitCandidate v opt hi)" lo hi "-1"]
  by (auto simp: boundedLimit_def Let_def split: if_splits)

lemma boundedLimit_reread: "lo \<le> n \<Longrightarrow> n \<le> hi \<Longrightarrow> \<bar>n\<bar> \<le> MAX_SAFE \<Longrightarrow> boundedLimit (Some (int_json n)) opt lo hi p = Inr n"
  by (simp add: boundedLimit_def limitCandidate_def nullish_def int_json_def boundedInteger_in Let_def)

lemma actionIdOf_Inr: "actionIdOf v = Inr a \<Longrightarrow> opt_ok ACTION_ID_PATTERN a"
  by (auto simp: actionIdOf_def bindR_Inr_iff demand_Inr opt_ok_def split: option.splits)

lemma action_id_nonempty: "ACTION_ID_PATTERN a \<Longrightarrow> a \<noteq> []"
  by (auto simp: ACTION_ID_PATTERN_def)

lemma actionIdOf_reread: "opt_ok ACTION_ID_PATTERN a \<Longrightarrow> actionIdOf (map_option JString a) = Inr a"
  by (cases a) (auto simp: actionIdOf_def optionalString_def opt_ok_def dest: action_id_nonempty)

lemma optionalRevision_Inr: "optionalRevision v p = Inr r \<Longrightarrow> opt_in 0 MAX_SAFE r"
  by (auto simp: optionalRevision_def opt_in_def split: option.splits json.splits jsnum.splits if_splits)

lemma optionalRevision_reread: "opt_in 0 MAX_SAFE r \<Longrightarrow> optionalRevision (map_option int_json r) p = Inr r"
  by (cases r) (simp_all add: optionalRevision_def opt_in_def int_json_def)

lemma optionalTabId_Inr: "optionalTabId v p = Inr t \<Longrightarrow> opt_ok (\<lambda>t. text_in 100 t \<and> \<not> list_ex control_char t) t"
  by (auto simp: optionalTabId_def optionalString_def opt_ok_def text_in_def split: option.splits json.splits if_splits)

lemma optionalTabId_reread:
  "opt_ok (\<lambda>t. text_in 100 t \<and> \<not> list_ex control_char t) t \<Longrightarrow> optionalTabId (map_option JString t) p = Inr t"
  by (cases t) (auto simp: optionalTabId_def optionalString_def opt_ok_def text_in_def)

lemma stepsOf_Inr: "stepsOf l v = Inr xs \<longleftrightarrow> v = Some (JArray xs) \<and> xs \<noteq> [] \<and> int (length xs) \<le> wl_maxSteps l"
  by (auto simp: stepsOf_def split: option.splits json.splits if_splits)

lemma normalizeWorkflow_ok:
  assumes "normalizeWorkflow parse v opts = Inr w"
  shows "workflow_ok parse (resolveWorkflowLimits (vo_limits opts)) w"
proof -
  let ?l = "resolveWorkflowLimits (vo_limits opts)"
  obtain fs raw where raw: "stepsOf ?l (map_of fs ''steps'') = Inr raw"
    and a: "actionIdOf (map_of fs ''actionId'') = Inr (wf_actionId w)"
    and r: "optionalRevision (map_of fs ''expectedPageRevision'') ''workflow.expectedPageRevision'' = Inr (wf_expectedPageRevision w)"
    and t: "optionalTabId (map_of fs ''expectedTabId'') ''workflow.expectedTabId'' = Inr (wf_expectedTabId w)"
    and d: "boundedLimit (map_of fs ''maxDurationMs'') (vo_maxDurationMs opts) 1 (wl_maxDurationMs ?l)
       ''workflow.maxDurationMs'' = Inr (wf_maxDurationMs w)"
    and b: "boundedLimit (map_of fs ''maxResultBytes'') (vo_maxResultBytes opts) MIN_WORKFLOW_RESULT_BYTES
       (wl_maxResultBytes ?l) ''workflow.maxResultBytes'' = Inr (wf_maxResultBytes w)"
    and so: "stopOnOf (map_of fs ''stopOn'') = Inr (wf_stopOn w)"
    and st: "normalizeSteps parse ?l raw 0 = Inr (wf_steps w)"
    using assms unfolding normalizeWorkflow_def Let_def bindR_Inr_iff by auto
  have "raw \<noteq> []" "int (length raw) \<le> wl_maxSteps ?l" using raw by (simp_all add: stepsOf_Inr)
  then show ?thesis
    using normalizeSteps_typed[OF resolved_limits_ok st] actionIdOf_Inr[OF a] optionalRevision_Inr[OF r] optionalTabId_Inr[OF t]
      boundedLimit_Inr[OF _ d] boundedLimit_Inr[OF _ b] stopOnOf_distinct[OF so]
    by (simp add: workflow_ok_def MIN_WORKFLOW_RESULT_BYTES_def Suc_le_eq)
qed

lemma normalizeWorkflow_reread:
  assumes "workflow_ok parse (resolveWorkflowLimits (vo_limits opts)) w"
  shows "normalizeWorkflow parse (workflow_json w) opts = Inr w"
proof -
  let ?l = "resolveWorkflowLimits (vo_limits opts)"
  have l: "limits_ok ?l" by simp
  have "stepsOf ?l (Some (JArray (map step_json (wf_steps w)))) = Inr (map step_json (wf_steps w))"
    using assms by (auto simp: stepsOf_Inr workflow_ok_def)
  moreover have "normalizeSteps parse ?l (map step_json (wf_steps w)) 0 = Inr (wf_steps w)"
    using assms by (intro normalizeSteps_reread) (simp_all add: workflow_ok_def)
  moreover have "boundedLimit (Some (int_json (wf_maxDurationMs w))) (vo_maxDurationMs opts) 1 (wl_maxDurationMs ?l) p = Inr (wf_maxDurationMs w)"
    for p using assms l by (intro boundedLimit_reread) (auto simp: workflow_ok_def limits_ok_def MAX_SAFE_def)
  moreover have "boundedLimit (Some (int_json (wf_maxResultBytes w))) (vo_maxResultBytes opts) MIN_WORKFLOW_RESULT_BYTES (wl_maxResultBytes ?l) p
    = Inr (wf_maxResultBytes w)" for p
    using assms l by (intro boundedLimit_reread) (auto simp: workflow_ok_def limits_ok_def MAX_SAFE_def MIN_WORKFLOW_RESULT_BYTES_def)
  ultimately show ?thesis
    using assms actionIdOf_reread[of "wf_actionId w"] optionalRevision_reread[of "wf_expectedPageRevision w"]
      optionalTabId_reread[of "wf_expectedTabId w"] stopOnOf_reread[of "wf_stopOn w"]
    by (auto simp: normalizeWorkflow_def workflow_json_def asRecord_def Let_def reread workflow_ok_def
        simp del: stopTriggers.simps)
qed

text \<open>
  C35: Validation types a workflow. Whatever JSON is sent, a workflow that validation returns is within the
  limits: at most the allowed number of steps, every step of its operation's shape with bounded texts,
  numbers and times, web addresses without credentials, opaque references of the fixed form, exactly one
  strategy per target and one choice per selection, a UUID as its id and no trigger twice. And validation is
  stable: the object it builds validates again, under the same limits and whatever the defaults, to the
  same workflow, as the executor requires when it validates a second time.
\<close>

theorem workflow_validation_typed:
  assumes "normalizeWorkflow parse v opts = Inr w"
  shows "workflow_ok parse (resolveWorkflowLimits (vo_limits opts)) w
    \<and> (vo_limits opts' = vo_limits opts \<longrightarrow> normalizeWorkflow parse (workflow_json w) opts' = Inr w)"
  using normalizeWorkflow_ok[OF assms] normalizeWorkflow_reread[of parse opts' w] by simp

definition demo_parse :: "string \<Rightarrow> web_url option" where
  "demo_parse s = (if take 8 s = ''https://''
     then Some \<lparr>wu_protocol = ''https:'', wu_username = [], wu_password = [], wu_origin = s, wu_pathname = []\<rparr> else None)"

definition demo_workflow :: workflow where
  "demo_workflow =
     \<lparr>wf_steps = [OpenStep ''https://example.test'' (Some LoadEvent) None, ClickStep (RefText ''ref_a1'') (Some 500),
        SelectStep (LabelTarget ''Size'' None) (Some (ChoiceValue ''m'')) None None, ScrollStep DirDown 1 None],
      wf_actionId = None, wf_expectedPageRevision = Some 4, wf_expectedTabId = Some ''tab-1'',
      wf_maxDurationMs = 5000, wf_maxResultBytes = 262144, wf_stopOn = [OnDialog]\<rparr>"

definition demo_options :: validation_options where
  "demo_options = \<lparr>vo_maxDurationMs = None, vo_maxResultBytes = None, vo_limits = None\<rparr>"

lemma demo_validates:
  "normalizeWorkflow demo_parse (JObject
     [(''steps'', JArray
        [JObject [(''op'', JString ''open''), (''url'', JString ''https://example.test''), (''waitUntil'', JString ''load'')],
         JObject [(''op'', JString ''click''), (''target'', JString ''ref_a1''), (''timeoutMs'', JNumber (IntN 500))],
         JObject [(''op'', JString ''select''), (''target'', JObject [(''label'', JString ''Size'')]), (''value'', JString ''m'')],
         JObject [(''op'', JString ''scroll''), (''direction'', JString ''down'')]]),
      (''expectedPageRevision'', JNumber (IntN 4)), (''expectedTabId'', JString ''tab-1''),
      (''maxDurationMs'', JNumber (IntN 5000)), (''stopOn'', JArray [JString ''dialog'', JString ''dialog''])]) demo_options
   = Inr demo_workflow"
  by code_simp

theorem workflow_validation_typed_witness:
  "workflow_ok demo_parse (resolveWorkflowLimits None) demo_workflow
   \<and> normalizeWorkflow demo_parse (workflow_json demo_workflow) (demo_options\<lparr>vo_maxDurationMs := Some (IntN 7)\<rparr>) = Inr demo_workflow"
  using workflow_validation_typed[OF demo_validates, of "demo_options\<lparr>vo_maxDurationMs := Some (IntN 7)\<rparr>"]
  by (simp add: demo_options_def)

text \<open>What is refused, and where the error points.\<close>

lemma refused_workflows:
  "normalizeWorkflow parse (JArray xs) opts = fail_at ''workflow''"
  "normalizeWorkflow parse (JObject [(''steps'', JArray [])]) opts = fail_at ''workflow.steps''"
  "normalizeWorkflow parse (JObject [(''script'', v)]) opts = fail_at ''workflow.script''"
  "wl_maxSteps (resolveWorkflowLimits (vo_limits opts)) < int (length xs)
   \<Longrightarrow> normalizeWorkflow parse (JObject [(''steps'', JArray xs)]) opts
     = Inl (ValidationError ''workflow.steps'' WORKFLOW_STEP_LIMIT_EXCEEDED)"
  using resolved_limits_ok[of "vo_limits opts"]
  by (simp_all add: normalizeWorkflow_def asRecord_def Let_def assertKeys_def stepsOf_def limits_ok_def)

lemma unknown_operation_refused:
  "op \<notin> {''open'', ''click'', ''type'', ''select'', ''scroll'', ''wait'', ''snapshot''}
   \<Longrightarrow> normalizeStep parse l (JObject [(''op'', JString op)]) p = fail_at (p @ ''.op'')"
  by (simp add: normalizeStep_def asRecord_def)

end
