(* ===== verification/WorkflowResult.thy ===== *)
theory WorkflowResult
  imports JsonText WorkflowLang
begin

text \<open>
  The result of a workflow (\<open>src/browser/workflow.ts\<close>): the reports of its steps and \<open>boundResult\<close>, which
  shortens and drops parts until the printed result fits its byte budget. Page content is Latin-1.
\<close>

subsection \<open>Results\<close>

datatype operation = OpOpen | OpClick | OpType | OpSelect | OpScroll | OpWait | OpSnapshot
datatype step_status = StepSuccess | StepFailed | StepInterrupted
datatype run_status = RunCompleted | RunStopped

datatype stop_reason =
    Completed | StopNavigation | StopChallenge | StopInterrupt | StopRevisionMismatch | StopError | StopTimeout

record error_summary =
  es_code :: string
  es_retryable :: bool
  es_message :: "string option"
  es_details :: "(int option \<times> int option) option"

record snapshot_summary =
  ss_tabId :: "string option"
  ss_snapshotId :: "string option"
  ss_pageRevision :: "int option"
  ss_format :: "content_format option"
  ss_content :: "string option"
  ss_contentBytes :: "int option"
  ss_truncated :: "bool option"

datatype step_summary =
    OpenSummary "string option" "string option" "int option"
  | ClickSummary "string option" "int option"
  | TypeSummary "string option" int "int option"
  | SelectSummary "string option" "int option"
  | ScrollSummary direction int "int option"
  | WaitSummary "int option" "bool option" "int option"
  | SnapshotSummary snapshot_summary

record step_report =
  sr_index :: nat
  sr_op :: operation
  sr_status :: step_status
  sr_ok :: bool
  sr_elapsedMs :: int
  sr_pageRevision :: "int option"
  sr_summary :: "step_summary option"
  sr_error :: "error_summary option"

text \<open>The three optional fields are absent only from the compact fallback of \<open>boundResult\<close>.\<close>

record workflow_result =
  wr_ok :: bool
  wr_status :: run_status
  wr_stopReason :: stop_reason
  wr_steps :: "step_report list"
  wr_completedSteps :: "nat option"
  wr_elapsedMs :: "int option"
  wr_resultBytes :: nat
  wr_truncated :: "bool option"

subsection \<open>The printed result\<close>

definition OPERATIONS :: "(string \<times> operation) list" where
  "OPERATIONS = [(''open'', OpOpen), (''click'', OpClick), (''type'', OpType), (''select'', OpSelect), (''scroll'', OpScroll),
     (''wait'', OpWait), (''snapshot'', OpSnapshot)]"

definition STEP_STATUSES :: "(string \<times> step_status) list" where
  "STEP_STATUSES = [(''success'', StepSuccess), (''error'', StepFailed), (''interrupted'', StepInterrupted)]"

definition STOP_REASONS :: "(string \<times> stop_reason) list" where
  "STOP_REASONS = [(''completed'', Completed), (''navigation'', StopNavigation), (''challenge'', StopChallenge),
     (''interrupt'', StopInterrupt), (''revision_mismatch'', StopRevisionMismatch), (''error'', StopError),
     (''timeout'', StopTimeout)]"

definition RUN_STATUSES :: "(string \<times> run_status) list" where
  "RUN_STATUSES = [(''completed'', RunCompleted), (''stopped'', RunStopped)]"

definition error_json :: "error_summary \<Rightarrow> json" where
  "error_json e =
     JObject ([(''code'', JString (es_code e)), (''retryable'', JBool (es_retryable e))]
       @ opt_field ''message'' JString (es_message e)
       @ opt_field ''details'' (\<lambda>(x, a). JObject (opt_field ''expectedPageRevision'' int_json x
           @ opt_field ''actualPageRevision'' int_json a)) (es_details e))"

definition revision_field :: "int option \<Rightarrow> (string \<times> json) list" where
  "revision_field = opt_field ''pageRevision'' int_json"

fun summary_json :: "step_summary \<Rightarrow> json" where
  "summary_json (OpenSummary url title prev) =
     JObject ([(''kind'', JString ''open'')] @ opt_field ''url'' JString url @ opt_field ''title'' JString title @ revision_field prev)"
| "summary_json (ClickSummary ref prev) = JObject ([(''kind'', JString ''click'')] @ opt_field ''ref'' JString ref @ revision_field prev)"
| "summary_json (TypeSummary ref n prev) =
     JObject ([(''kind'', JString ''type'')] @ opt_field ''ref'' JString ref @ [(''length'', int_json n)] @ revision_field prev)"
| "summary_json (SelectSummary ref prev) = JObject ([(''kind'', JString ''select'')] @ opt_field ''ref'' JString ref @ revision_field prev)"
| "summary_json (ScrollSummary d n prev) =
     JObject ([(''kind'', JString ''scroll''), (''direction'', JString (name_of DIRECTIONS d)), (''amount'', int_json n)] @ revision_field prev)"
| "summary_json (WaitSummary ms met prev) =
     JObject ([(''kind'', JString ''wait'')] @ opt_field ''waitedMs'' int_json ms @ opt_field ''conditionMet'' JBool met @ revision_field prev)"
| "summary_json (SnapshotSummary s) =
     JObject (opt_field ''tabId'' JString (ss_tabId s) @ [(''kind'', JString ''snapshot'')]
       @ opt_field ''snapshotId'' JString (ss_snapshotId s) @ revision_field (ss_pageRevision s)
       @ opt_field ''format'' (\<lambda>f. JString (name_of FORMATS f)) (ss_format s)
       @ opt_field ''content'' JString (ss_content s) @ opt_field ''contentBytes'' int_json (ss_contentBytes s)
       @ opt_field ''truncated'' JBool (ss_truncated s))"

definition report_json :: "step_report \<Rightarrow> json" where
  "report_json r =
     JObject ([(''index'', int_json (int (sr_index r))), (''op'', JString (name_of OPERATIONS (sr_op r))),
       (''status'', JString (name_of STEP_STATUSES (sr_status r))), (''ok'', JBool (sr_ok r)),
       (''elapsedMs'', int_json (sr_elapsedMs r))]
       @ revision_field (sr_pageRevision r) @ opt_field ''summary'' summary_json (sr_summary r)
       @ opt_field ''error'' error_json (sr_error r))"

definition result_json :: "workflow_result \<Rightarrow> json" where
  "result_json r =
     JObject ([(''ok'', JBool (wr_ok r)), (''status'', JString (name_of RUN_STATUSES (wr_status r))),
       (''stopReason'', JString (name_of STOP_REASONS (wr_stopReason r))), (''steps'', JArray (map report_json (wr_steps r)))]
       @ opt_field ''completedSteps'' (\<lambda>n. int_json (int n)) (wr_completedSteps r)
       @ opt_field ''elapsedMs'' int_json (wr_elapsedMs r)
       @ [(''resultBytes'', int_json (int (wr_resultBytes r)))]
       @ opt_field ''truncated'' JBool (wr_truncated r))"

text \<open>\<open>utf8(result)\<close>. The order of the fields, which deleting and adding them can change, does not matter to it.\<close>

definition resultUtf8 :: "workflow_result \<Rightarrow> nat" where
  "resultUtf8 r = utf8Length (stringify (result_json r))"

subsection \<open>Measuring and shrinking\<close>

fun measureLoop :: "nat \<Rightarrow> workflow_result \<Rightarrow> nat \<Rightarrow> workflow_result \<times> nat" where
  "measureLoop 0 r count = (let r' = r\<lparr>wr_resultBytes := count\<rparr> in (r', resultUtf8 r'))"
| "measureLoop (Suc attempts) r count =
     (let r' = r\<lparr>wr_resultBytes := count\<rparr>; measured = resultUtf8 r'
      in if measured = count then (r', measured) else measureLoop attempts r' measured)"

definition measuredResultBytes :: "workflow_result \<Rightarrow> workflow_result \<times> nat" where
  "measuredResultBytes r = measureLoop 8 r 0"

definition shortenSummary :: "nat \<Rightarrow> step_summary \<Rightarrow> step_summary option" where
  "shortenSummary target sm =
     (case sm of
        SnapshotSummary s \<Rightarrow>
          (case ss_content s of
             Some c \<Rightarrow>
               if c = [] \<or> utf8Length c \<le> target then None
               else (let bounded = cutUtf8 target c
                     in Some (SnapshotSummary (s\<lparr>ss_content := Some bounded, ss_contentBytes := Some (int (utf8Length bounded)),
                          ss_truncated := Some True\<rparr>)))
           | None \<Rightarrow> None)
      | _ \<Rightarrow> None)"

definition dropSummaryField :: "step_summary \<Rightarrow> step_summary option" where
  "dropSummaryField sm =
     (case sm of
        SnapshotSummary s \<Rightarrow>
          if ss_content s \<noteq> None
          then Some (SnapshotSummary (s\<lparr>ss_content := None, ss_contentBytes := None, ss_truncated := Some True\<rparr>))
          else if ss_snapshotId s \<noteq> None then Some (SnapshotSummary (s\<lparr>ss_snapshotId := None\<rparr>)) else None
      | OpenSummary url title prev \<Rightarrow>
          if title \<noteq> None then Some (OpenSummary url None prev)
          else if url \<noteq> None then Some (OpenSummary None title prev) else None
      | _ \<Rightarrow> None)"

definition shortenReport :: "nat \<Rightarrow> step_report \<Rightarrow> step_report option" where
  "shortenReport target r =
     (case sr_summary r of
        None \<Rightarrow> None
      | Some sm \<Rightarrow> map_option (\<lambda>sm'. r\<lparr>sr_summary := Some sm'\<rparr>) (shortenSummary target sm))"

definition dropReportField :: "step_report \<Rightarrow> step_report option" where
  "dropReportField r =
     (case (case sr_summary r of None \<Rightarrow> None | Some sm \<Rightarrow> dropSummaryField sm) of
        Some sm' \<Rightarrow> Some (r\<lparr>sr_summary := Some sm'\<rparr>)
      | None \<Rightarrow>
        (case sr_error r of
           Some e \<Rightarrow> if es_message e \<noteq> None then Some (r\<lparr>sr_error := Some (e\<lparr>es_message := None\<rparr>)\<rparr>) else None
         | None \<Rightarrow> None))"

text \<open>The loops over the steps change the first that can be changed.\<close>

fun change_first :: "('a \<Rightarrow> 'a option) \<Rightarrow> 'a list \<Rightarrow> 'a list option" where
  "change_first f [] = None"
| "change_first f (x # xs) = (case f x of Some y \<Rightarrow> Some (y # xs) | None \<Rightarrow> map_option (\<lambda>ys. x # ys) (change_first f xs))"

definition shortenContent :: "nat \<Rightarrow> step_report list \<Rightarrow> step_report list option" where
  "shortenContent target = change_first (shortenReport target)"

definition removeOptionalFields :: "step_report list \<Rightarrow> step_report list option" where
  "removeOptionalFields = change_first dropReportField"

definition count_success :: "step_report list \<Rightarrow> nat" where
  "count_success rs = length (filter (\<lambda>r. sr_status r = StepSuccess) rs)"

text \<open>One turn of the loop of \<open>boundResult\<close>; \<open>None\<close>: nothing is left to remove.\<close>

definition shrink :: "nat \<Rightarrow> workflow_result \<Rightarrow> workflow_result option" where
  "shrink maxBytes r =
     (case (case shortenContent (maxBytes div 4) (wr_steps r) of Some ss \<Rightarrow> Some ss | None \<Rightarrow> removeOptionalFields (wr_steps r)) of
        Some ss \<Rightarrow> Some (r\<lparr>wr_steps := ss, wr_truncated := Some True\<rparr>)
      | None \<Rightarrow>
        if 1 < length (wr_steps r)
        then Some (r\<lparr>wr_steps := butlast (wr_steps r), wr_completedSteps := Some (count_success (butlast (wr_steps r))),
               wr_truncated := Some True\<rparr>)
        else None)"

fun field_count :: "step_summary \<Rightarrow> nat" where
  "field_count (OpenSummary url title prev) = (if url = None then 0 else 1) + (if title = None then 0 else 1)"
| "field_count (SnapshotSummary s) =
     (case ss_content s of None \<Rightarrow> 0 | Some c \<Rightarrow> Suc (utf8Length c)) + (if ss_snapshotId s = None then 0 else 1)"
| "field_count _ = 0"

text \<open>What is left to remove from a report and from a result: the measure of the loop.\<close>

definition report_weight :: "step_report \<Rightarrow> nat" where
  "report_weight r = Suc ((case sr_summary r of None \<Rightarrow> 0 | Some sm \<Rightarrow> field_count sm)
     + (case sr_error r of None \<Rightarrow> 0 | Some e \<Rightarrow> if es_message e = None then 0 else 1))"

definition weight :: "step_report list \<Rightarrow> nat" where "weight rs = sum_list (map report_weight rs)"

lemma cutUtf8_less: "\<not> utf8Length c \<le> t \<Longrightarrow> utf8Length (cutUtf8 t c) < utf8Length c"
  using cutUtf8_bytes[of t c] by simp

lemma shortenSummary_less: "shortenSummary t sm = Some sm' \<Longrightarrow> field_count sm' < field_count sm"
  by (auto simp: shortenSummary_def Let_def cutUtf8_less split: step_summary.splits option.splits if_splits)

lemma dropSummaryField_less: "dropSummaryField sm = Some sm' \<Longrightarrow> field_count sm' < field_count sm"
  by (auto simp: dropSummaryField_def split: step_summary.splits option.splits if_splits)

lemma change_first_weight:
  assumes "\<And>x y. f x = Some y \<Longrightarrow> report_weight y < report_weight x"
  shows "change_first f xs = Some ys \<Longrightarrow> weight ys < weight xs \<and> length ys = length xs"
  by (induction xs arbitrary: ys) (auto simp: weight_def dest: assms split: option.splits)

lemma shortenReport_less: "shortenReport t r = Some r' \<Longrightarrow> report_weight r' < report_weight r"
  by (auto simp: shortenReport_def report_weight_def dest: shortenSummary_less split: option.splits)

lemma dropReportField_less: "dropReportField r = Some r' \<Longrightarrow> report_weight r' < report_weight r"
  by (auto simp: dropReportField_def report_weight_def dest: dropSummaryField_less split: option.splits if_splits)

lemma shortenContent_less: "shortenContent t rs = Some ss \<Longrightarrow> weight ss < weight rs"
  unfolding shortenContent_def by (drule change_first_weight[rotated], erule shortenReport_less) simp

lemma removeOptionalFields_less: "removeOptionalFields rs = Some ss \<Longrightarrow> weight ss < weight rs"
  unfolding removeOptionalFields_def by (drule change_first_weight[rotated], erule dropReportField_less) simp

lemma butlast_less: "rs \<noteq> [] \<Longrightarrow> weight (butlast rs) < weight rs"
  by (cases rs rule: rev_cases) (simp_all add: weight_def report_weight_def)

lemma shrink_cases:
  assumes "shrink n r = Some r'"
  obtains (shortened) ss where "shortenContent (n div 4) (wr_steps r) = Some ss" "r' = r\<lparr>wr_steps := ss, wr_truncated := Some True\<rparr>"
  | (removed) ss where "removeOptionalFields (wr_steps r) = Some ss" "r' = r\<lparr>wr_steps := ss, wr_truncated := Some True\<rparr>"
  | (popped) "1 < length (wr_steps r)" "r' = r\<lparr>wr_steps := butlast (wr_steps r),
      wr_completedSteps := Some (count_success (butlast (wr_steps r))), wr_truncated := Some True\<rparr>"
  using assms unfolding shrink_def
  by (cases "shortenContent (n div 4) (wr_steps r)"; cases "removeOptionalFields (wr_steps r)";
      cases "1 < length (wr_steps r)") simp_all

lemma shrink_less: "shrink n r = Some r' \<Longrightarrow> weight (wr_steps r') < weight (wr_steps r)"
  by (erule shrink_cases) (auto dest: shortenContent_less removeOptionalFields_less intro!: butlast_less)

subsection \<open>The loop\<close>

lemma measureLoop_steps [simp]: "wr_steps (fst (measureLoop n r c)) = wr_steps r"
  by (induction n arbitrary: r c) (auto simp: Let_def)

text \<open>The loop of \<open>boundResult\<close>: the result is measured at the start of every turn.\<close>

function boundLoop :: "nat \<Rightarrow> workflow_result \<Rightarrow> workflow_result \<times> nat" where
  "boundLoop maxBytes r =
     (let m = measuredResultBytes r
      in if snd m \<le> maxBytes then m
         else (case shrink maxBytes (fst m) of None \<Rightarrow> m | Some r' \<Rightarrow> boundLoop maxBytes r'))"
  by pat_completeness auto
termination
proof (relation "measure (\<lambda>(n, r). weight (wr_steps r))")
  fix n :: nat and r m r'
  assume "m = measuredResultBytes r" "shrink n (fst m) = Some r'"
  then show "((n, r'), n, r) \<in> measure (\<lambda>(n, r). weight (wr_steps r))"
    using shrink_less[of n "fst m" r'] by (simp add: measuredResultBytes_def)
qed simp

declare boundLoop.simps [simp del]

definition fallback :: "workflow_result \<Rightarrow> workflow_result" where
  "fallback r =
     \<lparr>wr_ok = wr_ok r, wr_status = wr_status r, wr_stopReason = wr_stopReason r, wr_steps = [], wr_completedSteps = None,
      wr_elapsedMs = None, wr_resultBytes = 0, wr_truncated = None\<rparr>"

definition boundResult :: "workflow_result \<Rightarrow> nat \<Rightarrow> workflow_result" where
  "boundResult r maxBytes =
     (case boundLoop maxBytes r of (r', bytes) \<Rightarrow>
        if maxBytes < bytes then fst (measuredResultBytes (fallback r'))
        else fst (measuredResultBytes (r'\<lparr>wr_resultBytes := bytes\<rparr>)))"

subsection \<open>The reported size is the size\<close>

lemma utf8Length_digits: "list_all is_digit s \<Longrightarrow> utf8Length s = length s"
proof (induction s)
  case (Cons c s)
  then have "code_point c < 128" by (simp add: is_digit_def)
  then have "utf8Length [c] = 1" by (simp add: utf8Length_def byteLength_def utf8_def scrub_small)
  with Cons utf8Length_Cons[of c s] show ?case by simp
qed simp

lemma join_swap:
  "utf8Length (join_with '','' (as @ a # bs)) + utf8Length b = utf8Length (join_with '','' (as @ b # bs)) + utf8Length a"
proof (induction as)
  case Nil
  then show ?case by (cases bs) simp_all
next
  case (Cons x as)
  have "join_with '','' ((x # as) @ y # bs) = x @ '','' @ join_with '','' (as @ y # bs)" for y
    by (cases "as @ y # bs") auto
  then have "utf8Length (join_with '','' ((x # as) @ y # bs))
      = utf8Length x + (utf8Length '','' + utf8Length (join_with '','' (as @ y # bs)))" for y
    by (simp only: utf8Length_simps)
  with Cons show ?case by (simp del: append_Cons)
qed

lemma utf8Length_pos: "1 \<le> utf8Length (c # s)"
  using utf8_length(1)[of "scrub (code_point c)"] by (simp add: utf8Length_def byteLength_def)

lemma object_text:
  "stringify (JObject (as @ (k, v) # bs)) =
     ''{'' @ join_with '','' (map (\<lambda>p. json_quote (fst p) @ '':'' @ stringify (snd p)) as
       @ (json_quote k @ '':'' @ stringify v) # map (\<lambda>p. json_quote (fst p) @ '':'' @ stringify (snd p)) bs) @ ''}''"
  by (simp only: stringify.simps map_append list.map fst_conv snd_conv)

lemma result_size: "resultUtf8 (r\<lparr>wr_resultBytes := c\<rparr>) + 1 = resultUtf8 (r\<lparr>wr_resultBytes := 0\<rparr>) + length (dec_of c)"
proof -
  define A where "A = [(''ok'', JBool (wr_ok r)), (''status'', JString (name_of RUN_STATUSES (wr_status r))),
       (''stopReason'', JString (name_of STOP_REASONS (wr_stopReason r))), (''steps'', JArray (map report_json (wr_steps r)))]
       @ opt_field ''completedSteps'' (\<lambda>n. int_json (int n)) (wr_completedSteps r)
       @ opt_field ''elapsedMs'' int_json (wr_elapsedMs r)"
  define T where "T = opt_field ''truncated'' JBool (wr_truncated r)"
  define q where "q = json_quote ''resultBytes''"
  have "result_json (r\<lparr>wr_resultBytes := n\<rparr>) = JObject (A @ (''resultBytes'', int_json (int n)) # T)" for n
    by (simp add: result_json_def A_def T_def)
  moreover have "stringify (int_json (int n)) = dec_of n" for n by (simp add: int_json_def num_text_def int_text_def)
  ultimately obtain as bs where size: "\<And>n. resultUtf8 (r\<lparr>wr_resultBytes := n\<rparr>)
      = utf8Length ''{'' + (utf8Length (join_with '','' (as @ (q @ '':'' @ dec_of n) # bs)) + utf8Length ''}'')"
    unfolding resultUtf8_def q_def by (simp only: object_text utf8Length_simps)
  have w: "utf8Length (q @ '':'' @ dec_of n) = utf8Length (q @ '':'') + length (dec_of n)" for n
    using dec_of_digits[of n] by (simp add: utf8Length_digits utf8Length_Cons[of "CHR '':''" "dec_of n"])
  have "length (dec_of 0) = 1" by (simp add: dec_of.simps)
  then show ?thesis using join_swap[of as "q @ '':'' @ dec_of c" bs "q @ '':'' @ dec_of 0"] w[of c] w[of 0] unfolding size by linarith
qed

definition digit_count :: "nat \<Rightarrow> nat" where "digit_count n = length (dec_of n)"

lemma digit_count_bound: "1 \<le> k \<Longrightarrow> digit_count n \<le> k \<longleftrightarrow> n < 10 ^ k"
proof (induction n arbitrary: k rule: dec_of.induct)
  case (1 n)
  show ?case
  proof (cases "n < 10")
    case True
    then have "digit_count n = 1" by (simp add: digit_count_def dec_of.simps)
    moreover have "n < 10 ^ k" using True 1(2) self_le_power[of "10::nat" k] by simp
    ultimately show ?thesis using 1(2) by simp
  next
    case False
    have d: "digit_count n = Suc (digit_count (n div 10))" using False by (simp add: digit_count_def dec_of.simps[of n])
    show ?thesis
    proof (cases k)
      case (Suc j)
      have "1 \<le> digit_count (n div 10)"
        using dec_of_digits[of "n div 10"] by (cases "dec_of (n div 10)") (auto simp: digit_count_def)
      with 1(1)[OF False, of j] Suc d False show ?thesis
        by (cases "j = 0") (auto simp: div_less_iff_less_mult mult.commute)
    qed (use 1(2) in simp)
  qed
qed

lemma digit_count_pos: "1 \<le> digit_count n"
  using dec_of_digits[of n] by (cases "dec_of n") (auto simp: digit_count_def)

lemma digit_count_mono: "m \<le> n \<Longrightarrow> digit_count m \<le> digit_count n"
  using digit_count_bound[OF digit_count_pos, of n n] digit_count_bound[OF digit_count_pos, of m n] by simp

text \<open>Three rounds reach the fixed point of \<open>c = B + digits c\<close>.\<close>

lemma size_converges:
  fixes B :: nat
  defines "f \<equiv> \<lambda>c. B + digit_count c"
  shows "f (f (f (f 0))) = f (f (f 0))" and "f (f (f 0)) \<le> B + 2 + digit_count (B + 1)"
proof -
  define k where "k = digit_count (B + 1)"
  have k: "1 \<le> k" "B + 1 < 10 ^ k" using digit_count_pos digit_count_bound[of k "B + 1"] by (auto simp: k_def)
  have "k < 10 ^ k" by (induction k) auto
  then have big: "10 ^ k + k < (10::nat) ^ Suc k" by simp
  have f0: "f 0 = B + 1" by (simp add: f_def digit_count_def dec_of.simps)
  have x2: "f (f 0) = B + k" unfolding f0 by (simp add: f_def k_def)
  have lo: "k \<le> digit_count (B + k)" unfolding k_def using k(1) by (intro digit_count_mono) (simp add: k_def)
  have hi: "digit_count (B + k) \<le> Suc k" using digit_count_bound[of "Suc k" "B + k"] k big by simp
  have top: "digit_count (B + Suc k) \<le> Suc k" using digit_count_bound[of "Suc k" "B + Suc k"] k big by simp
  consider "digit_count (B + k) = k" | "digit_count (B + k) = Suc k" using lo hi by linarith
  then have "f (f (f (f 0))) = f (f (f 0)) \<and> f (f (f 0)) \<le> B + Suc k"
  proof cases
    case 1
    then have "f (B + k) = B + k" by (simp add: f_def)
    then show ?thesis by (simp add: x2)
  next
    case 2
    then have x3: "f (f (f 0)) = B + Suc k" unfolding x2 by (simp add: f_def)
    have "digit_count (B + Suc k) = Suc k" using digit_count_mono[of "B + k" "B + Suc k"] 2 top by simp
    then show ?thesis unfolding x3 by (simp add: f_def)
  qed
  then show "f (f (f (f 0))) = f (f (f 0))" "f (f (f 0)) \<le> B + 2 + digit_count (B + 1)" by (simp_all add: k_def)
qed

lemma measured_exact:
  fixes r :: workflow_result
  shows "\<exists>n. measuredResultBytes r = (r\<lparr>wr_resultBytes := n\<rparr>, n) \<and> resultUtf8 (r\<lparr>wr_resultBytes := n\<rparr>) = n
     \<and> n \<le> resultUtf8 (r\<lparr>wr_resultBytes := 0\<rparr>) + 1 + digit_count (resultUtf8 (r\<lparr>wr_resultBytes := 0\<rparr>))"
proof -
  define B where "B = resultUtf8 (r\<lparr>wr_resultBytes := 0\<rparr>) - 1"
  define f where "f c = B + digit_count c" for c
  have pos: "1 \<le> resultUtf8 (r\<lparr>wr_resultBytes := 0\<rparr>)"
    unfolding resultUtf8_def result_json_def stringify.simps append_Cons by (rule utf8Length_pos)
  have g: "resultUtf8 (r\<lparr>wr_resultBytes := c\<rparr>) = f c" for c
    using result_size[of c r] pos by (simp add: f_def B_def digit_count_def)
  have f0: "0 < f 0" using digit_count_pos[of 0] by (simp add: f_def)
  have eq: "f (f (f (f 0))) = f (f (f 0))" and le: "f (f (f 0)) \<le> B + 2 + digit_count (B + 1)"
    using size_converges[of B] unfolding f_def by blast+
  have "measureLoop 8 r 0 = (r\<lparr>wr_resultBytes := f (f (f 0))\<rparr>, f (f (f 0)))"
    using f0 eq by (simp add: numeral_eq_Suc Let_def g)
  moreover have "f (f (f 0)) = resultUtf8 (r\<lparr>wr_resultBytes := f (f (f 0))\<rparr>)" using eq by (simp add: g)
  ultimately show ?thesis using le pos by (intro exI[of _ "f (f (f 0))"]) (simp add: measuredResultBytes_def B_def)
qed

subsection \<open>What a bounded result keeps\<close>

text \<open>Two reports of the same step that differ only in what may be shortened.\<close>

definition same_step :: "step_report \<Rightarrow> step_report \<Rightarrow> bool" where
  "same_step a b \<longleftrightarrow> sr_index a = sr_index b \<and> sr_op a = sr_op b \<and> sr_status a = sr_status b \<and> sr_ok a = sr_ok b
     \<and> sr_elapsedMs a = sr_elapsedMs b \<and> sr_pageRevision a = sr_pageRevision b
     \<and> map_option (\<lambda>e. (es_code e, es_retryable e, es_details e)) (sr_error a)
       = map_option (\<lambda>e. (es_code e, es_retryable e, es_details e)) (sr_error b)"

definition kept_prefix :: "step_report list \<Rightarrow> step_report list \<Rightarrow> bool" where
  "kept_prefix as bs \<longleftrightarrow> length as \<le> length bs \<and> (\<forall>i < length as. same_step (as ! i) (bs ! i))"

definition same_outcome :: "workflow_result \<Rightarrow> workflow_result \<Rightarrow> bool" where
  "same_outcome a b \<longleftrightarrow> wr_ok a = wr_ok b \<and> wr_status a = wr_status b \<and> wr_stopReason a = wr_stopReason b
     \<and> kept_prefix (wr_steps a) (wr_steps b)"

lemma same_step_trans: "same_step a b \<Longrightarrow> same_step b c \<Longrightarrow> same_step a c"
  by (simp add: same_step_def)

lemma kept_prefix_refl [simp]: "kept_prefix rs rs"
  by (simp add: kept_prefix_def same_step_def)

lemma kept_prefix_trans: "kept_prefix as bs \<Longrightarrow> kept_prefix bs cs \<Longrightarrow> kept_prefix as cs"
  unfolding kept_prefix_def by (meson less_le_trans order_trans same_step_trans)

lemma same_outcome_refl [simp]: "same_outcome r r"
  by (simp add: same_outcome_def)

lemma same_outcome_trans: "same_outcome a b \<Longrightarrow> same_outcome b c \<Longrightarrow> same_outcome a c"
  using kept_prefix_trans by (auto simp: same_outcome_def)

lemma change_first_kept:
  assumes "\<And>x y. f x = Some y \<Longrightarrow> same_step y x"
  shows "change_first f xs = Some ys \<Longrightarrow> kept_prefix ys xs"
proof (induction xs arbitrary: ys)
  case (Cons x xs)
  show ?case
  proof (cases "f x")
    case None
    with Cons.prems obtain zs where z: "change_first f xs = Some zs" "ys = x # zs" by auto
    from Cons.IH[OF z(1)] z(2) show ?thesis by (auto simp: kept_prefix_def same_step_def nth_Cons split: nat.split)
  next
    case (Some y)
    with Cons.prems assms[OF Some] show ?thesis
      by (auto simp: kept_prefix_def nth_Cons same_step_def split: nat.split)
  qed
qed simp

lemma shortenReport_same: "shortenReport t r = Some r' \<Longrightarrow> same_step r' r"
  by (auto simp: shortenReport_def same_step_def split: option.splits)

lemma dropReportField_same: "dropReportField r = Some r' \<Longrightarrow> same_step r' r"
  by (auto simp: dropReportField_def same_step_def split: option.splits if_splits)

lemma shrink_outcome: "shrink n r = Some r' \<Longrightarrow> same_outcome r' r"
proof (erule shrink_cases)
  fix ss
  assume "shortenContent (n div 4) (wr_steps r) = Some ss" "r' = r\<lparr>wr_steps := ss, wr_truncated := Some True\<rparr>"
  then show ?thesis
    using change_first_kept[of "shortenReport (n div 4)", OF shortenReport_same] by (simp add: same_outcome_def shortenContent_def)
next
  fix ss
  assume "removeOptionalFields (wr_steps r) = Some ss" "r' = r\<lparr>wr_steps := ss, wr_truncated := Some True\<rparr>"
  then show ?thesis
    using change_first_kept[of dropReportField, OF dropReportField_same] by (simp add: same_outcome_def removeOptionalFields_def)
qed (simp add: same_outcome_def kept_prefix_def nth_butlast same_step_def)

lemma measured_outcome: "same_outcome (fst (measuredResultBytes r)) r"
  using measured_exact[of r] by (auto simp: same_outcome_def)

lemma boundLoop_outcome:
  "same_outcome (fst (boundLoop n r)) r
   \<and> (\<exists>r1. boundLoop n r = measuredResultBytes r1)
   \<and> (snd (boundLoop n r) \<le> n \<or> shrink n (fst (boundLoop n r)) = None)"
proof (induction n r rule: boundLoop.induct)
  case (1 n r)
  let ?m = "measuredResultBytes r"
  consider (fits) "snd ?m \<le> n" | (stuck) "\<not> snd ?m \<le> n" "shrink n (fst ?m) = None"
    | (loop) r' where "\<not> snd ?m \<le> n" "shrink n (fst ?m) = Some r'" by fastforce
  then show ?case
  proof cases
    case loop
    then have "boundLoop n r = boundLoop n r'" by (subst boundLoop.simps) simp
    moreover have "same_outcome r' r" using shrink_outcome[OF loop(2)] measured_outcome by (rule same_outcome_trans)
    ultimately show ?thesis using 1[OF refl loop] same_outcome_trans by auto
  qed (auto simp: boundLoop.simps[of n r] measured_outcome)
qed

lemma measured_again:
  fixes r :: workflow_result
  shows "measuredResultBytes (r\<lparr>wr_resultBytes := n\<rparr>) = measuredResultBytes r"
proof -
  have "measureLoop k (r\<lparr>wr_resultBytes := n\<rparr>) c = measureLoop k r c" for k c by (cases k) simp_all
  then show ?thesis by (simp add: measuredResultBytes_def)
qed

lemma fallback_small: "resultUtf8 (fallback r\<lparr>wr_resultBytes := 0\<rparr>) \<le> 93"
proof -
  have "resultUtf8 \<lparr>wr_ok = b, wr_status = st, wr_stopReason = t, wr_steps = [], wr_completedSteps = None,
      wr_elapsedMs = None, wr_resultBytes = 0, wr_truncated = None\<rparr> \<le> 93" for b st t
    by (induct b; induct st; induct t; code_simp)
  then show ?thesis by (simp add: fallback_def)
qed

lemma fallback_fits:
  assumes "100 \<le> n"
  shows "resultUtf8 (fst (measuredResultBytes (fallback r))) = wr_resultBytes (fst (measuredResultBytes (fallback r)))
    \<and> resultUtf8 (fst (measuredResultBytes (fallback r))) \<le> n"
proof -
  let ?s = "resultUtf8 (fallback r\<lparr>wr_resultBytes := 0\<rparr>)"
  obtain m where m: "measuredResultBytes (fallback r) = (fallback r\<lparr>wr_resultBytes := m\<rparr>, m)"
    "resultUtf8 (fallback r\<lparr>wr_resultBytes := m\<rparr>) = m" "m \<le> ?s + 1 + digit_count ?s"
    using measured_exact by blast
  have "digit_count ?s \<le> 2" using fallback_small[of r] by (simp add: digit_count_bound)
  with m fallback_small[of r] assms show ?thesis by simp
qed


definition demo_report :: step_report where
  "demo_report = \<lparr>sr_index = 0, sr_op = OpOpen, sr_status = StepSuccess, sr_ok = True, sr_elapsedMs = 5, sr_pageRevision = Some 2,
     sr_summary = Some (OpenSummary (Some ''https://example.test/'') (Some ''Example'') (Some 2)), sr_error = None\<rparr>"

definition demo_result :: workflow_result where
  "demo_result = \<lparr>wr_ok = True, wr_status = RunCompleted, wr_stopReason = Completed, wr_steps = [demo_report],
     wr_completedSteps = Some 1, wr_elapsedMs = Some 9, wr_resultBytes = 0, wr_truncated = Some False\<rparr>"


text \<open>
  The comment on the fallback reserves it for callers that bypass validation; the smallest admitted budget
  reaches it with any one report, and the result then has no count, no time and no \<open>truncated\<close> mark.
\<close>

lemma shrink_bytes: "shrink n (r\<lparr>wr_resultBytes := k\<rparr>) = map_option (\<lambda>r'. r'\<lparr>wr_resultBytes := k\<rparr>) (shrink n r)"
  by (simp add: shrink_def split: option.split)

lemma measured_over:
  assumes "n < resultUtf8 (r\<lparr>wr_resultBytes := 0\<rparr>)"
  obtains k where "measuredResultBytes r = (r\<lparr>wr_resultBytes := k\<rparr>, k)" "n < k"
proof -
  obtain k where k: "measuredResultBytes r = (r\<lparr>wr_resultBytes := k\<rparr>, k)" "resultUtf8 (r\<lparr>wr_resultBytes := k\<rparr>) = k"
    using measured_exact by blast
  with result_size[of k r] digit_count_pos[of k] assms have "n < k" by (simp add: digit_count_def)
  with k show ?thesis using that by blast
qed

lemma boundLoop_over:
  assumes "n < resultUtf8 (r\<lparr>wr_resultBytes := 0\<rparr>)" and "shrink n r = Some r'"
  shows "boundLoop n r = boundLoop n r'"
proof -
  obtain k where k: "measuredResultBytes r = (r\<lparr>wr_resultBytes := k\<rparr>, k)" "n < k" using measured_over[OF assms(1)] .
  have "boundLoop n r = boundLoop n (r'\<lparr>wr_resultBytes := k\<rparr>)"
    by (subst boundLoop.simps) (use k in \<open>simp add: shrink_bytes assms(2) Let_def\<close>)
  also have "\<dots> = boundLoop n r'"
    by (subst (1 2) boundLoop.simps) (simp add: measured_again)
  finally show ?thesis .
qed

lemma boundResult_stuck:
  assumes "boundLoop n r = boundLoop n r'" and "n < resultUtf8 (r'\<lparr>wr_resultBytes := 0\<rparr>)" and "shrink n r' = None"
  shows "wr_steps (boundResult r n) = [] \<and> wr_completedSteps (boundResult r n) = None \<and> wr_truncated (boundResult r n) = None"
proof -
  obtain k where k: "measuredResultBytes r' = (r'\<lparr>wr_resultBytes := k\<rparr>, k)" "n < k" using measured_over[OF assms(2)] .
  then have "boundLoop n r = (r'\<lparr>wr_resultBytes := k\<rparr>, k)"
    unfolding assms(1) by (subst boundLoop.simps) (simp add: shrink_bytes assms(3) Let_def)
  moreover obtain m where "measuredResultBytes (fallback (r'\<lparr>wr_resultBytes := k\<rparr>)) = (fallback (r'\<lparr>wr_resultBytes := k\<rparr>)\<lparr>wr_resultBytes := m\<rparr>, m)"
    using measured_exact by blast
  ultimately show ?thesis using k(2) by (simp add: boundResult_def fallback_def)
qed

definition demo_bare :: "string option \<Rightarrow> workflow_result" where
  "demo_bare url = demo_result\<lparr>wr_steps := [demo_report\<lparr>sr_summary := Some (OpenSummary url None (Some 2))\<rparr>], wr_truncated := Some True\<rparr>"

lemma minimum_budget_reaches_fallback:
  "wr_steps (boundResult demo_result 100) = [] \<and> wr_completedSteps (boundResult demo_result 100) = None
   \<and> wr_truncated (boundResult demo_result 100) = None"
proof (rule boundResult_stuck)
  have "shrink 100 demo_result = Some (demo_bare (Some ''https://example.test/''))"
    "shrink 100 (demo_bare (Some ''https://example.test/'')) = Some (demo_bare None)"
    by (simp_all add: shrink_def shortenContent_def removeOptionalFields_def shortenReport_def shortenSummary_def dropReportField_def
        dropSummaryField_def demo_bare_def demo_result_def demo_report_def)
  moreover have "100 < resultUtf8 (demo_result\<lparr>wr_resultBytes := 0\<rparr>)" by code_simp
  moreover have "100 < resultUtf8 (demo_bare (Some ''https://example.test/'')\<lparr>wr_resultBytes := 0\<rparr>)" by code_simp
  ultimately show "boundLoop 100 demo_result = boundLoop 100 (demo_bare None)" using boundLoop_over by metis
  show "100 < resultUtf8 (demo_bare None\<lparr>wr_resultBytes := 0\<rparr>)" by code_simp
  show "shrink 100 (demo_bare None) = None"
    by (simp add: shrink_def shortenContent_def removeOptionalFields_def shortenReport_def shortenSummary_def dropReportField_def
        dropSummaryField_def demo_bare_def demo_result_def demo_report_def)
qed

end
