(* ===== verification/WorkflowRun.thy ===== *)
theory WorkflowRun
  imports WorkflowResult
begin

text \<open>
  The executor of \<open>src/browser/workflow.ts\<close>: it runs validated steps against an adapter that the server owns.
  What the adapter answers, the clock and the abort signal are an \<open>environment\<close> over a state of its own:
  a call answers a value (\<open>Inr\<close>), throws (\<open>Inl\<close>, the error as an object) or is overtaken by the timer (\<open>None\<close>).
  A value that is \<open>undefined\<close> is \<open>JNull\<close>: the code reads both alike. Whole numbers only: a fractional time of
  an adapter counts as absent. Calls that go on in the background after their step timed out are not modelled.
\<close>

subsection \<open>Calls of the adapter\<close>

record step_guards =
  sg_actionId :: "string option"
  sg_expectedPageRevision :: "int option"
  sg_expectedTabId :: "string option"

definition no_guards :: step_guards where
  "no_guards = \<lparr>sg_actionId = None, sg_expectedPageRevision = None, sg_expectedTabId = None\<rparr>"

record action_options = step_guards +
  ao_timeoutMs :: "int option"
  ao_waitUntil :: "wait_until option"
  ao_clearFirst :: "bool option"
  ao_submit :: "bool option"
  ao_sensitive :: "bool option"

text \<open>\<open>CallSelect target None\<close> would be a selection by the label \<open>undefined\<close>.\<close>

datatype adapter_call =
    CallOpen string action_options
  | CallClick workflow_target action_options
  | CallType workflow_target string action_options
  | CallSelect workflow_target "select_choice option" action_options
  | CallScroll direction int "workflow_target option" action_options
  | CallWait "int option" "wait_condition option" "workflow_target option" "int option"
  | CallSnapshot "int option" "int option" "int option" "bool option" "content_format option"

record 's environment =
  en_now :: "'s \<Rightarrow> int \<times> 's"
  en_aborted :: "'s \<Rightarrow> bool"
  en_status :: "('s \<Rightarrow> (json + json) option \<times> 's) option"
  en_call :: "adapter_call \<Rightarrow> 's \<Rightarrow> (json + json) option \<times> 's"

fun operation_of :: "workflow_step \<Rightarrow> operation" where
  "operation_of (OpenStep _ _ _) = OpOpen"
| "operation_of (ClickStep _ _) = OpClick"
| "operation_of (TypeStep _ _ _ _ _ _ _) = OpType"
| "operation_of (SelectStep _ _ _ _) = OpSelect"
| "operation_of (ScrollStep _ _ _) = OpScroll"
| "operation_of (WaitStep _ _ _ _) = OpWait"
| "operation_of (SnapshotStep _ _ _ _ _ _) = OpSnapshot"

definition isWriteStep :: "workflow_step \<Rightarrow> bool" where
  "isWriteStep st \<longleftrightarrow> operation_of st \<in> {OpOpen, OpClick, OpType, OpSelect, OpScroll}"

fun adapterTarget :: "workflow_target \<Rightarrow> workflow_target" where
  "adapterTarget (RefTarget r) = RefText r"
| "adapterTarget t = t"

definition options_of :: "step_guards \<Rightarrow> int option \<Rightarrow> action_options" where
  "options_of g timeoutMs =
     \<lparr>sg_actionId = sg_actionId g, sg_expectedPageRevision = sg_expectedPageRevision g, sg_expectedTabId = sg_expectedTabId g,
      ao_timeoutMs = timeoutMs, ao_waitUntil = None, ao_clearFirst = None, ao_submit = None, ao_sensitive = None\<rparr>"

text \<open>The calls of one step, in order; only the first carries the guards.\<close>

fun stepCalls :: "step_guards \<Rightarrow> workflow_step \<Rightarrow> adapter_call list" where
  "stepCalls g (OpenStep url waitUntil timeoutMs) = [CallOpen url ((options_of g timeoutMs)\<lparr>ao_waitUntil := waitUntil\<rparr>)]"
| "stepCalls g (ClickStep target timeoutMs) = [CallClick (adapterTarget target) (options_of g timeoutMs)]"
| "stepCalls g (TypeStep target text clear clearFirst submit sensitive timeoutMs) =
     [CallType (adapterTarget target) text ((options_of g timeoutMs)
        \<lparr>ao_clearFirst := (if clearFirst \<noteq> None then clearFirst else clear), ao_submit := submit, ao_sensitive := sensitive\<rparr>)]"
| "stepCalls g (SelectStep target choice vals timeoutMs) =
     (case vals of
        Some vs \<Rightarrow> map (\<lambda>(i, v). CallSelect (adapterTarget target) (Some (ChoiceValue v))
            (options_of (if i = 0 then g else no_guards) timeoutMs)) (enumerate 0 vs)
      | None \<Rightarrow> [CallSelect (adapterTarget target) choice (options_of g timeoutMs)])"
| "stepCalls g (ScrollStep dir amount target) = [CallScroll dir amount (map_option adapterTarget target) (options_of g None)]"
| "stepCalls g (WaitStep durationMs condition target timeoutMs) =
     [CallWait durationMs condition (map_option adapterTarget target) timeoutMs]"
| "stepCalls g (SnapshotStep maxNodes maxChars maxBytes includeText cmpct format) =
     [CallSnapshot maxNodes maxChars maxBytes includeText
        (if format \<noteq> None then format else map_option (\<lambda>b. if b then FormatCompact else FormatStructured) cmpct)]"

fun callAll :: "'s environment \<Rightarrow> adapter_call list \<Rightarrow> json \<Rightarrow> 's \<Rightarrow> (json + json) option \<times> 's" where
  "callAll env [] v s = (Some (Inr v), s)"
| "callAll env (c # cs) v s =
     (case en_call env c s of
        (Some (Inr v'), s') \<Rightarrow> callAll env cs v' s'
      | r \<Rightarrow> r)"

definition invoke :: "'s environment \<Rightarrow> workflow_step \<Rightarrow> step_guards \<Rightarrow> 's \<Rightarrow> (json + json) option \<times> 's" where
  "invoke env st g s = callAll env (stepCalls g st) JNull s"

definition timeout_error :: json where
  "timeout_error = JObject [(''code'', JString ''WORKFLOW_TIMEOUT'')]"

definition withDeadline :: "'s environment \<Rightarrow> int \<Rightarrow> ('s \<Rightarrow> (json + json) option \<times> 's) \<Rightarrow> 's \<Rightarrow> (json + json) \<times> 's" where
  "withDeadline env deadline op s =
     (case en_now env s of (t, s1) \<Rightarrow>
        if deadline - t \<le> 0 then (Inl timeout_error, s1)
        else if en_aborted env s1 then (Inl timeout_error, s1)
        else (case op s1 of
            (Some r, s2) \<Rightarrow> (r, s2)
          | (None, s2) \<Rightarrow> (Inl timeout_error, s2)))"

subsection \<open>Reading what the adapter answered\<close>

text \<open>\<open>rawRecord(v)[k]\<close>: an array is an object too, and has a length.\<close>

definition rawField :: "json \<Rightarrow> string \<Rightarrow> json option" where
  "rawField v k =
     (case v of
        JObject fs \<Rightarrow> map_of fs k
      | JArray xs \<Rightarrow> if k = ''length'' then Some (int_json (int (length xs))) else None
      | _ \<Rightarrow> None)"

definition subField :: "json option \<Rightarrow> string \<Rightarrow> json option" where
  "subField v k = (case v of Some x \<Rightarrow> rawField x k | None \<Rightarrow> None)"

definition first_some :: "'a option \<Rightarrow> 'a option \<Rightarrow> 'a option" where
  "first_some a b = (case a of Some x \<Rightarrow> Some x | None \<Rightarrow> b)"

definition safeRevision :: "json option \<Rightarrow> int option" where
  "safeRevision v =
     (case v of Some (JNumber (IntN i)) \<Rightarrow> if is_safe_integer (IntN i) \<and> 0 \<le> i then Some i else None | _ \<Rightarrow> None)"

definition resultRevision :: "json \<Rightarrow> int option" where
  "resultRevision v =
     first_some (safeRevision (rawField v ''pageRevision''))
       (first_some (safeRevision (rawField v ''pageGeneration'')) (safeRevision (rawField v ''generation'')))"

definition safeOpaque :: "json option \<Rightarrow> nat \<Rightarrow> string option" where
  "safeOpaque v n =
     (case v of
        Some (JString s) \<Rightarrow>
          (let cleaned = take n (filter (\<lambda>c. \<not> control_char c) s) in if s = [] \<or> cleaned = [] then None else Some cleaned)
      | _ \<Rightarrow> None)"

definition safeUrl :: "(string \<Rightarrow> web_url option) \<Rightarrow> json option \<Rightarrow> string option" where
  "safeUrl parse v =
     (case v of
        Some (JString s) \<Rightarrow>
          (case parse s of
             Some u \<Rightarrow> if wu_protocol u \<in> {''http:'', ''https:''} then Some (take 2048 (wu_origin u @ wu_pathname u)) else None
           | None \<Rightarrow> None)
      | _ \<Rightarrow> None)"

definition safeTitle :: "json option \<Rightarrow> string option" where
  "safeTitle v = (case v of Some (JString s) \<Rightarrow> truthy_text (Some (singleLine s 500)) | _ \<Rightarrow> None)"

text \<open>The class \<open>[\u0000-\u0008\u000b\u000c\u000e-\u001f\u007f]\<close>.\<close>

definition unprintable :: "char \<Rightarrow> bool" where
  "unprintable c = (control_char c \<and> code_point c \<notin> {9, 10, 13})"

definition safeContent :: "json option \<Rightarrow> string option" where
  "safeContent v =
     (case v of Some (JString s) \<Rightarrow> Some (take (nat MAX_SNAPSHOT_BYTES) (filter (\<lambda>c. \<not> unprintable c) s)) | _ \<Rightarrow> None)"

fun target_ref :: "workflow_target \<Rightarrow> string option" where
  "target_ref (RefText r) = Some r"
| "target_ref (RefTarget r) = Some r"
| "target_ref _ = None"

definition safeRef :: "json \<Rightarrow> workflow_target \<Rightarrow> string option" where
  "safeRef raw target =
     (case nullish (rawField raw ''ref'') None Some of
        Some v \<Rightarrow> safeOpaque (Some v) 100
      | None \<Rightarrow> safeOpaque (map_option JString (target_ref target)) 100)"

text \<open>\<open>snapshot && snapshot.k\<close>: the empty text is falsy and then the value itself.\<close>

definition andField :: "json \<Rightarrow> string \<Rightarrow> json option" where
  "andField v k = (if v = JString [] then Some v else rawField v k)"

definition js_truthy :: "json \<Rightarrow> bool" where
  "js_truthy v = (v \<noteq> JNull \<and> v \<noteq> JBool False \<and> v \<noteq> JString [] \<and> v \<noteq> JNumber (IntN 0))"

definition is_object :: "json \<Rightarrow> bool" where
  "is_object v = (case v of JObject _ \<Rightarrow> True | JArray _ \<Rightarrow> True | _ \<Rightarrow> False)"

definition snapshotSummary :: "json \<Rightarrow> int option \<Rightarrow> snapshot_summary" where
  "snapshotSummary raw revision =
     (let content = safeContent (andField raw ''content'')
      in \<lparr>ss_tabId = safeOpaque (andField raw ''tabId'') 100,
          ss_snapshotId = safeOpaque (andField raw ''snapshotId'') 128,
          ss_pageRevision = revision,
          ss_format = (case rawField raw ''format'' of Some (JString f) \<Rightarrow> map_of FORMATS f | _ \<Rightarrow> None),
          ss_content = content,
          ss_contentBytes = (case safeRevision (rawField raw ''contentBytes'') of
              Some n \<Rightarrow> Some (min MAX_SNAPSHOT_BYTES n)
            | None \<Rightarrow> map_option (\<lambda>c. int (utf8Length c)) content),
          ss_truncated = (case rawField raw ''truncated'' of
              Some t \<Rightarrow> if is_object t then Some (case rawField t ''content'' of Some b \<Rightarrow> js_truthy b | None \<Rightarrow> False) else None
            | None \<Rightarrow> None)\<rparr>)"

fun safeStepSummary :: "(string \<Rightarrow> web_url option) \<Rightarrow> workflow_step \<Rightarrow> json \<Rightarrow> int option \<Rightarrow> step_summary" where
  "safeStepSummary parse (OpenStep url _ _) raw revision =
     OpenSummary (first_some (safeUrl parse (rawField raw ''url'')) (safeUrl parse (Some (JString url))))
       (safeTitle (rawField raw ''title'')) (first_some revision (resultRevision raw))"
| "safeStepSummary parse (ClickStep target _) raw revision =
     ClickSummary (safeRef raw target) (first_some revision (resultRevision raw))"
| "safeStepSummary parse (TypeStep target text _ _ _ _ _) raw revision =
     TypeSummary (safeRef raw target)
       (case safeRevision (rawField raw ''length'') of Some n \<Rightarrow> n | None \<Rightarrow> int (length text))
       (first_some revision (resultRevision raw))"
| "safeStepSummary parse (SelectStep target _ _ _) raw revision =
     SelectSummary (safeRef raw target) (first_some revision (resultRevision raw))"
| "safeStepSummary parse (ScrollStep dir amount _) raw revision =
     ScrollSummary (case rawField raw ''direction'' of
         Some (JString d) \<Rightarrow> (case map_of DIRECTIONS d of Some d' \<Rightarrow> d' | None \<Rightarrow> dir) | _ \<Rightarrow> dir)
       (case rawField raw ''amount'' of
         Some (JNumber (IntN n)) \<Rightarrow> if n \<in> {1, 2, 3} then n else amount | _ \<Rightarrow> amount)
       (first_some revision (resultRevision raw))"
| "safeStepSummary parse (WaitStep _ _ _ _) raw revision =
     WaitSummary (case rawField raw ''waitedMs'' of
         Some (JNumber (IntN n)) \<Rightarrow> if 0 \<le> n then Some (min MAX_WAIT_DURATION_MS n) else None | _ \<Rightarrow> None)
       (case rawField raw ''conditionMet'' of Some (JBool b) \<Rightarrow> Some b | _ \<Rightarrow> None)
       (first_some revision (resultRevision raw))"
| "safeStepSummary parse (SnapshotStep _ _ _ _ _ _) raw revision =
     SnapshotSummary (snapshotSummary raw (first_some revision (resultRevision raw)))"

subsection \<open>Status, failures and reasons to stop\<close>

record norm_status =
  ns_state :: "string option"
  ns_tabId :: "string option"
  ns_pageRevision :: "int option"
  ns_challengeDetected :: bool
  ns_latestInterruptSequence :: "int option"
  ns_recentInterruptTypes :: "string list"
  ns_interruptTotal :: "int option"

definition text_values :: "json option list \<Rightarrow> string list" where
  "text_values vs = concat (map (\<lambda>v. case v of Some (JString s) \<Rightarrow> [s] | _ \<Rightarrow> []) vs)"

definition normalizeStatus :: "json \<Rightarrow> norm_status" where
  "normalizeStatus v =
     (let challenge = rawField v ''challenge''; interrupts = rawField v ''interrupts''; state = jtext (rawField v ''state'')
      in \<lparr>ns_state = state,
          ns_tabId = safeOpaque (rawField v ''tabId'') 100,
          ns_pageRevision = first_some (safeRevision (rawField v ''pageRevision'')) (safeRevision (rawField v ''pageGeneration'')),
          ns_challengeDetected = (subField challenge ''detected'' = Some (JBool True) \<or> state = Some ''PAUSED_CHALLENGE''),
          ns_latestInterruptSequence = safeRevision (subField interrupts ''latestSequence''),
          ns_recentInterruptTypes = (case subField interrupts ''recent'' of
              Some (JArray es) \<Rightarrow> text_values (map (\<lambda>e. rawField e ''type'') es) | _ \<Rightarrow> []),
          ns_interruptTotal = safeRevision (subField interrupts ''total'')\<rparr>)"

definition isInterruptCode :: "string \<Rightarrow> bool" where
  "isInterruptCode code = list_ex (\<lambda>p. includes_text (ascii_lower code) p)
     [''popup'', ''dialog'', ''download'', ''interrupt'', ''page_crashed'', ''context_closed'']"

record failure =
  cf_code :: string
  cf_reason :: stop_reason
  cf_retryable :: bool
  cf_details :: "(int option \<times> int option) option"

definition classifyFailure :: "json \<Rightarrow> failure" where
  "classifyFailure e =
     (let code = (case rawField e ''code'' of Some (JString c) \<Rightarrow> c | _ \<Rightarrow> ''INTERNAL'');
          retryable = (rawField e ''retryable'' = Some (JBool True));
          x = safeRevision (subField (rawField e ''details'') ''expectedPageRevision'');
          a = safeRevision (subField (rawField e ''details'') ''actualPageRevision'');
          details = (if code = ''PAGE_REVISION_MISMATCH'' \<and> (x \<noteq> None \<or> a \<noteq> None) then Some (x, a) else None)
      in if code = ''WORKFLOW_TIMEOUT'' \<or> code = ''ACTION_TIMEOUT''
         then \<lparr>cf_code = code, cf_reason = StopTimeout, cf_retryable = True, cf_details = details\<rparr>
         else if code = ''SESSION_PAUSED_CHALLENGE'' \<or> includes_text (ascii_lower code) ''challenge''
         then \<lparr>cf_code = code, cf_reason = StopChallenge, cf_retryable = retryable, cf_details = details\<rparr>
         else if code = ''PAGE_REVISION_MISMATCH''
         then \<lparr>cf_code = code, cf_reason = StopRevisionMismatch, cf_retryable = True, cf_details = details\<rparr>
         else if isInterruptCode code
         then \<lparr>cf_code = code, cf_reason = StopInterrupt, cf_retryable = retryable, cf_details = details\<rparr>
         else \<lparr>cf_code = code, cf_reason = StopError, cf_retryable = retryable, cf_details = details\<rparr>)"

definition safeErrorMessage :: "string \<Rightarrow> string" where
  "safeErrorMessage code =
     (if code = ''SESSION_PAUSED_CHALLENGE'' then ''Automation paused for human challenge handling.''
      else if code = ''PAGE_REVISION_MISMATCH'' then ''The page changed; obtain a fresh snapshot.''
      else if code \<in> {''WORKFLOW_TIMEOUT'', ''ACTION_TIMEOUT''} then ''The workflow deadline was exceeded.''
      else if code = ''TARGET_AMBIGUOUS'' then ''The target was ambiguous.''
      else if code = ''TARGET_NOT_FOUND'' then ''The target was not found.''
      else if code \<in> {''NAVIGATION_DENIED'', ''PRIVATE_NETWORK_DENIED''} then ''Navigation was denied by policy.''
      else ''The workflow step failed.'')"

definition errorSummary :: "failure \<Rightarrow> error_summary" where
  "errorSummary f =
     \<lparr>es_code = cf_code f, es_retryable = cf_retryable f, es_message = Some (safeErrorMessage (cf_code f)), es_details = cf_details f\<rparr>"

text \<open>A blocked dialog or download stops unless the workflow names other triggers only.\<close>

definition blocked_stop :: "stop_trigger \<Rightarrow> stop_trigger list \<Rightarrow> stop_reason option" where
  "blocked_stop trigger stopOn =
     (if stopOn = [] \<or> trigger \<in> set stopOn \<or> OnInterrupt \<in> set stopOn then Some StopInterrupt else None)"

definition grew :: "int option \<Rightarrow> int option \<Rightarrow> bool" where
  "grew before after = (case (before, after) of (Some b, Some a) \<Rightarrow> b < a | _ \<Rightarrow> False)"

definition last_type :: "norm_status \<Rightarrow> string option" where
  "last_type st = (if ns_recentInterruptTypes st = [] then None else Some (last (ns_recentInterruptTypes st)))"

definition interrupt_stop :: "string option \<Rightarrow> stop_trigger list \<Rightarrow> stop_reason option" where
  "interrupt_stop type stopOn =
     (if type = Some ''DIALOG_BLOCKED'' then blocked_stop OnDialog stopOn
      else if type = Some ''DOWNLOAD_BLOCKED'' then blocked_stop OnDownload stopOn
      else Some StopInterrupt)"

definition statusStopReason :: "norm_status option \<Rightarrow> norm_status option \<Rightarrow> stop_trigger list \<Rightarrow> stop_reason option" where
  "statusStopReason before after stopOn =
     (case after of
        None \<Rightarrow> None
      | Some a \<Rightarrow>
        if ns_challengeDetected a \<and> \<not> (case before of Some b \<Rightarrow> ns_challengeDetected b | None \<Rightarrow> False) then Some StopChallenge
        else if ns_state a = Some ''HUMAN_TAKEOVER'' \<or> ns_state a = Some ''ERROR'' then Some StopInterrupt
        else if \<not> grew (Option.bind before ns_latestInterruptSequence) (ns_latestInterruptSequence a)
              \<and> \<not> grew (Option.bind before ns_interruptTotal) (ns_interruptTotal a) then None
        else interrupt_stop (last_type a) stopOn)"

definition rawStopReason :: "json \<Rightarrow> stop_trigger list \<Rightarrow> stop_reason option" where
  "rawStopReason raw stopOn =
     (let type = jtext (rawField raw ''interruptType'');
          nested = normalizeStatus (case rawField raw ''status'' of Some st \<Rightarrow> st | None \<Rightarrow> JNull)
      in if rawField raw ''challenge'' = Some (JBool True) \<or> rawField raw ''challengeDetected'' = Some (JBool True) then Some StopChallenge
         else if type = Some ''DIALOG_BLOCKED'' \<or> type = Some ''DOWNLOAD_BLOCKED'' then interrupt_stop type stopOn
         else if type \<noteq> None \<or> rawField raw ''interrupted'' = Some (JBool True) \<or> rawField raw ''interrupt'' \<noteq> None then Some StopInterrupt
         else if ns_challengeDetected nested then Some StopChallenge
         else if (ns_latestInterruptSequence nested \<noteq> None \<or> ns_interruptTotal nested \<noteq> None)
              \<and> (rawField raw ''blocked'' = Some (JBool True) \<or> rawField raw ''interrupted'' = Some (JBool True))
         then interrupt_stop (last_type nested) stopOn
         else None)"

definition navigationDetected :: "norm_status option \<Rightarrow> norm_status option \<Rightarrow> json \<Rightarrow> bool" where
  "navigationDetected before after raw =
     (case (Option.bind before ns_pageRevision, first_some (Option.bind after ns_pageRevision) (resultRevision raw)) of
        (Some b, Some a) \<Rightarrow> b \<noteq> a
      | _ \<Rightarrow> False)"

subsection \<open>One run\<close>

record run_options =
  ro_actionId :: "string option"
  ro_expectedPageRevision :: "int option"
  ro_expectedTabId :: "string option"
  ro_maxDurationMs :: int
  ro_maxResultBytes :: int

definition readStatus :: "'s environment \<Rightarrow> int \<Rightarrow> 's \<Rightarrow> norm_status option \<times> 's" where
  "readStatus env deadline s =
     (case en_status env of
        None \<Rightarrow> (None, s)
      | Some status \<Rightarrow>
        (case withDeadline env deadline status s of
           (Inr v, s') \<Rightarrow> (Some (normalizeStatus v), s')
         | (Inl e, s') \<Rightarrow> (None, s')))"

definition findFirst :: "('a \<Rightarrow> bool) \<Rightarrow> 'a list \<Rightarrow> nat option" where
  "findFirst P xs = List.find (\<lambda>i. P (xs ! i)) [0..<length xs]"

definition guards_at :: "workflow \<Rightarrow> run_options \<Rightarrow> nat \<Rightarrow> step_guards" where
  "guards_at w opts i =
     (if findFirst isWriteStep (wf_steps w) = Some i
      then \<lparr>sg_actionId = ro_actionId opts, sg_expectedPageRevision = ro_expectedPageRevision opts,
            sg_expectedTabId = ro_expectedTabId opts\<rparr>
      else no_guards)"

definition success_report ::
  "(string \<Rightarrow> web_url option) \<Rightarrow> nat \<Rightarrow> workflow_step \<Rightarrow> int \<Rightarrow> json \<Rightarrow> norm_status option \<Rightarrow> step_report" where
  "success_report parse i st elapsed raw after =
     (let revision = first_some (Option.bind after ns_pageRevision) (resultRevision raw)
      in \<lparr>sr_index = i, sr_op = operation_of st, sr_status = StepSuccess, sr_ok = True, sr_elapsedMs = max 0 elapsed,
          sr_pageRevision = revision, sr_summary = Some (safeStepSummary parse st raw revision), sr_error = None\<rparr>)"

definition failure_report :: "nat \<Rightarrow> workflow_step \<Rightarrow> int \<Rightarrow> failure \<Rightarrow> step_report" where
  "failure_report i st elapsed f =
     \<lparr>sr_index = i, sr_op = operation_of st, sr_status = (if cf_reason f = StopInterrupt then StepInterrupted else StepFailed),
      sr_ok = False, sr_elapsedMs = max 0 elapsed, sr_pageRevision = Option.bind (cf_details f) snd, sr_summary = None,
      sr_error = Some (errorSummary f)\<rparr>"

definition stop_after :: "workflow \<Rightarrow> norm_status option \<Rightarrow> norm_status option \<Rightarrow> json \<Rightarrow> stop_reason option" where
  "stop_after w before after raw =
     first_some (first_some (statusStopReason before after (wf_stopOn w)) (rawStopReason raw (wf_stopOn w)))
       (if OnNavigation \<in> set (wf_stopOn w) \<and> navigationDetected before after raw then Some StopNavigation else None)"

fun runSteps ::
  "'s environment \<Rightarrow> (string \<Rightarrow> web_url option) \<Rightarrow> workflow \<Rightarrow> run_options \<Rightarrow> int \<Rightarrow> workflow_step list \<Rightarrow> nat
   \<Rightarrow> norm_status option \<Rightarrow> 's \<Rightarrow> step_report list \<times> stop_reason \<times> 's" where
  "runSteps env parse w opts deadline [] i prev s = ([], Completed, s)"
| "runSteps env parse w opts deadline (st # sts) i prev s =
     (case en_now env s of (t, s1) \<Rightarrow>
        if deadline - t \<le> 0 then ([], StopTimeout, s1)
        else (case en_now env s1 of (t0, s2) \<Rightarrow>
          (case withDeadline env deadline (invoke env st (guards_at w opts i)) s2 of
             (Inl e, s3) \<Rightarrow>
               (case en_now env s3 of (t1, s4) \<Rightarrow>
                  ([failure_report i st (t1 - t0) (classifyFailure e)], cf_reason (classifyFailure e), s4))
           | (Inr raw, s3) \<Rightarrow>
               (case readStatus env deadline s3 of (after, s4) \<Rightarrow>
                (case en_now env s4 of (t1, s5) \<Rightarrow>
                 (case stop_after w prev after raw of
                    Some reason \<Rightarrow> ([success_report parse i st (t1 - t0) raw after], reason, s5)
                  | None \<Rightarrow>
                    (case runSteps env parse w opts deadline sts (Suc i) (first_some after prev) s5 of (rs, reason, s6) \<Rightarrow>
                       (success_report parse i st (t1 - t0) raw after # rs, reason, s6))))))))"

definition result_of :: "workflow \<Rightarrow> step_report list \<Rightarrow> stop_reason \<Rightarrow> int \<Rightarrow> workflow_result" where
  "result_of w reports reason elapsed =
     (let complete = (reason = Completed \<and> length reports = length (wf_steps w))
      in \<lparr>wr_ok = complete, wr_status = (if complete then RunCompleted else RunStopped), wr_stopReason = reason,
          wr_steps = reports, wr_completedSteps = Some (count_success reports), wr_elapsedMs = Some (max 0 elapsed),
          wr_resultBytes = 0, wr_truncated = Some False\<rparr>)"

text \<open>The preconditions of a run on the status before its first step.\<close>

definition differs :: "'a option \<Rightarrow> 'a option \<Rightarrow> bool" where
  "differs expected actual = (expected \<noteq> None \<and> actual \<noteq> None \<and> actual \<noteq> expected)"

definition refusal :: "run_options \<Rightarrow> norm_status option \<Rightarrow> stop_reason option" where
  "refusal opts status =
     (if differs (ro_expectedTabId opts) (Option.bind status ns_tabId) then Some StopRevisionMismatch
      else if differs (ro_expectedPageRevision opts) (Option.bind status ns_pageRevision) then Some StopRevisionMismatch
      else if (case status of Some st \<Rightarrow> ns_challengeDetected st | None \<Rightarrow> False) then Some StopChallenge
      else None)"

definition runReports ::
  "'s environment \<Rightarrow> (string \<Rightarrow> web_url option) \<Rightarrow> workflow \<Rightarrow> run_options \<Rightarrow> 's \<Rightarrow> workflow_result \<times> 's" where
  "runReports env parse w opts s =
     (case en_now env s of (startedAt, s1) \<Rightarrow>
      (case readStatus env (startedAt + ro_maxDurationMs opts) s1 of (initial, s2) \<Rightarrow>
       (case refusal opts initial of
          Some reason \<Rightarrow> (case en_now env s2 of (t, s3) \<Rightarrow> (result_of w [] reason (t - startedAt), s3))
        | None \<Rightarrow>
          (case runSteps env parse w opts (startedAt + ro_maxDurationMs opts) (wf_steps w) 0 initial s2 of (reports, reason, s3) \<Rightarrow>
           (case en_now env s3 of (t, s4) \<Rightarrow> (result_of w reports reason (t - startedAt), s4))))))"

definition runUncached ::
  "'s environment \<Rightarrow> (string \<Rightarrow> web_url option) \<Rightarrow> workflow \<Rightarrow> run_options \<Rightarrow> 's \<Rightarrow> workflow_result \<times> 's" where
  "runUncached env parse w opts s =
     (case runReports env parse w opts s of (r, s') \<Rightarrow> (boundResult r (nat (ro_maxResultBytes opts)), s'))"

subsection \<open>Reports\<close>

lemma first_some_simps [simp]: "first_some (Some x) y = Some x" "first_some None y = y"
  by (simp_all add: first_some_def)

lemma stop_reasons_real:
  "cf_reason (classifyFailure e) \<noteq> Completed"
  "statusStopReason b a so \<noteq> Some Completed" "rawStopReason raw so \<noteq> Some Completed"
  by (auto simp: classifyFailure_def Let_def statusStopReason_def rawStopReason_def interrupt_stop_def blocked_stop_def
      split: option.splits)

lemma stop_after_real: "stop_after w b a raw \<noteq> Some Completed"
  using stop_reasons_real(2)[of b a "wf_stopOn w"] stop_reasons_real(3)[of raw "wf_stopOn w"]
  by (auto simp: stop_after_def first_some_def split: option.splits)

text \<open>What a run may look like: successes up to the last report, which may be a failure.\<close>

definition reports_ok :: "nat \<Rightarrow> workflow_step list \<Rightarrow> step_report list \<Rightarrow> stop_reason \<Rightarrow> bool" where
  "reports_ok i sts rs reason \<longleftrightarrow>
     length rs \<le> length sts
     \<and> (\<forall>k < length rs. sr_index (rs ! k) = i + k \<and> sr_op (rs ! k) = operation_of (sts ! k)
         \<and> (sr_ok (rs ! k) \<longleftrightarrow> sr_status (rs ! k) = StepSuccess) \<and> (Suc k < length rs \<longrightarrow> sr_ok (rs ! k)))
     \<and> (reason = Completed \<longrightarrow> length rs = length sts \<and> (\<forall>k < length rs. sr_ok (rs ! k)))"

lemma reports_ok_Cons:
  assumes "reports_ok (Suc i) sts rs reason" and "sr_index r = i" "sr_op r = operation_of st" "sr_ok r" "sr_status r = StepSuccess"
  shows "reports_ok i (st # sts) (r # rs) reason"
  using assms by (auto simp: reports_ok_def nth_Cons split: nat.split)

text \<open>The four ways one turn of the loop can go.\<close>

lemma runSteps_cases:
  assumes "runSteps env parse w opts deadline (st # sts) i prev s = (rs, reason, s')"
  obtains (late) t where "en_now env s = (t, s')" "rs = []" "reason = StopTimeout"
  | (failed) t s1 t0 s2 e s3 t1 where "en_now env s = (t, s1)" "en_now env s1 = (t0, s2)"
      "withDeadline env deadline (invoke env st (guards_at w opts i)) s2 = (Inl e, s3)" "en_now env s3 = (t1, s')"
      "rs = [failure_report i st (t1 - t0) (classifyFailure e)]" "reason = cf_reason (classifyFailure e)"
  | (stopped) t s1 t0 s2 raw s3 after s4 t1 where "en_now env s = (t, s1)" "en_now env s1 = (t0, s2)"
      "withDeadline env deadline (invoke env st (guards_at w opts i)) s2 = (Inr raw, s3)"
      "readStatus env deadline s3 = (after, s4)" "en_now env s4 = (t1, s')" "stop_after w prev after raw = Some reason"
      "rs = [success_report parse i st (t1 - t0) raw after]"
  | (went_on) t s1 t0 s2 raw s3 after s4 t1 s5 rs' where "en_now env s = (t, s1)" "en_now env s1 = (t0, s2)"
      "withDeadline env deadline (invoke env st (guards_at w opts i)) s2 = (Inr raw, s3)"
      "readStatus env deadline s3 = (after, s4)" "en_now env s4 = (t1, s5)" "stop_after w prev after raw = None"
      "runSteps env parse w opts deadline sts (Suc i) (first_some after prev) s5 = (rs', reason, s')"
      "rs = success_report parse i st (t1 - t0) raw after # rs'"
proof -
  obtain t s1 where n1: "en_now env s = (t, s1)" by (cases "en_now env s")
  obtain t0 s2 where n2: "en_now env s1 = (t0, s2)" by (cases "en_now env s1")
  obtain out s3 where c: "withDeadline env deadline (invoke env st (guards_at w opts i)) s2 = (out, s3)"
    by (cases "withDeadline env deadline (invoke env st (guards_at w opts i)) s2")
  show ?thesis
  proof (cases "deadline - t \<le> 0")
    case True
    with assms n1 show ?thesis by (intro late) auto
  next
    case False
    show ?thesis
    proof (cases out)
      case (Inl e)
      obtain t1 s4 where "en_now env s3 = (t1, s4)" by (cases "en_now env s3")
      with assms n1 n2 c False Inl show ?thesis by (intro failed) auto
    next
      case (Inr raw)
      obtain after s4 where a: "readStatus env deadline s3 = (after, s4)" by (cases "readStatus env deadline s3")
      obtain t1 s5 where n5: "en_now env s4 = (t1, s5)" by (cases "en_now env s4")
      show ?thesis
      proof (cases "stop_after w prev after raw")
        case (Some q)
        with assms n1 n2 c False Inr a n5 show ?thesis by (intro stopped) auto
      next
        case None
        obtain rs' q s6 where "runSteps env parse w opts deadline sts (Suc i) (first_some after prev) s5 = (rs', q, s6)"
          by (cases "runSteps env parse w opts deadline sts (Suc i) (first_some after prev) s5") auto
        with assms n1 n2 c False Inr a n5 None show ?thesis by (intro went_on) auto
      qed
    qed
  qed
qed

lemma runSteps_ok:
  "runSteps env parse w opts deadline sts i prev s = (rs, reason, s') \<Longrightarrow> reports_ok i sts rs reason"
proof (induction sts arbitrary: i prev s rs reason s')
  case Nil
  then show ?case by (simp add: reports_ok_def)
next
  case (Cons st sts)
  show ?case
    using Cons.prems
  proof (cases rule: runSteps_cases)
    case late
    then show ?thesis by (simp add: reports_ok_def)
  next
    case failed
    then show ?thesis by (simp add: reports_ok_def failure_report_def stop_reasons_real)
  next
    case (stopped t s1 t0 s2 raw s3 after s4 t1)
    then show ?thesis using stop_after_real[of w prev after raw] by (simp add: reports_ok_def success_report_def Let_def)
  next
    case went_on
    with reports_ok_Cons[OF Cons.IH] show ?thesis by (simp add: success_report_def Let_def)
  qed
qed

subsection \<open>Calls\<close>

text \<open>The same environment, with the calls of the adapter on record.\<close>

definition logged :: "'s environment \<Rightarrow> (adapter_call list \<times> 's) environment" where
  "logged env =
     \<lparr>en_now = (\<lambda>(l, s). case en_now env s of (t, s') \<Rightarrow> (t, (l, s'))),
      en_aborted = (\<lambda>(l, s). en_aborted env s),
      en_status = map_option (\<lambda>f (l, s). case f s of (r, s') \<Rightarrow> (r, (l, s'))) (en_status env),
      en_call = (\<lambda>c (l, s). case en_call env c s of (r, s') \<Rightarrow> (r, (l @ [c], s')))\<rparr>"

text \<open>The calls of the first \<open>n\<close> steps from \<open>i\<close> on.\<close>

definition planned :: "workflow \<Rightarrow> run_options \<Rightarrow> nat \<Rightarrow> workflow_step list \<Rightarrow> adapter_call list" where
  "planned w opts i sts = concat (map (\<lambda>(k, st). stepCalls (guards_at w opts k) st) (enumerate i sts))"

lemma planned_simps [simp]:
  "planned w opts i [] = []"
  "planned w opts i (st # sts) = stepCalls (guards_at w opts i) st @ planned w opts (Suc i) sts"
  by (simp_all add: planned_def)

lemma logged_simps [simp]:
  "en_now (logged env) p = (case en_now env (snd p) of (t, s') \<Rightarrow> (t, fst p, s'))"
  "en_aborted (logged env) p = en_aborted env (snd p)"
  "en_status (logged env) = map_option (\<lambda>f p. case f (snd p) of (r, s') \<Rightarrow> (r, fst p, s')) (en_status env)"
  "en_call (logged env) c p = (case en_call env c (snd p) of (r, s') \<Rightarrow> (r, fst p @ [c], s'))"
  by (simp_all add: logged_def split_beta map_option_cong fun_eq_iff)

lemma now_log: "en_now (logged env) p = (t, q) \<Longrightarrow> fst q = fst p"
  by (auto split: prod.splits)

lemma callAll_log:
  "callAll (logged env) cs v p = (r, q) \<Longrightarrow>
   \<exists>ds. fst q = fst p @ ds \<and> prefix ds cs \<and> ((\<exists>x. r = Some (Inr x)) \<longrightarrow> ds = cs)"
proof (induction cs arbitrary: v p)
  case (Cons c cs)
  obtain out s1 where out: "en_call env c (snd p) = (out, s1)" by (cases "en_call env c (snd p)")
  show ?case
  proof (cases "\<exists>x. out = Some (Inr x)")
    case True
    with out Cons.prems obtain x where "callAll (logged env) cs x (fst p @ [c], s1) = (r, q)" by auto
    from Cons.IH[OF this] obtain ds where "fst q = fst p @ c # ds" "prefix ds cs" "(\<exists>x. r = Some (Inr x)) \<longrightarrow> ds = cs" by auto
    then show ?thesis by (intro exI[of _ "c # ds"]) auto
  next
    case False
    with out Cons.prems have "r = out" "fst q = fst p @ [c]" by (auto split: option.splits sum.splits)
    with False show ?thesis by (intro exI[of _ "[c]"]) auto
  qed
qed auto

lemma withDeadline_log:
  assumes "withDeadline (logged env) deadline (invoke (logged env) st g) p = (out, q)"
  obtains ds where "fst q = fst p @ ds" "prefix ds (stepCalls g st)" "(\<exists>x. out = Inr x) \<Longrightarrow> ds = stepCalls g st"
proof -
  obtain t s1 where n: "en_now env (snd p) = (t, s1)" by (cases "en_now env (snd p)")
  show ?thesis
  proof (cases "deadline - t \<le> 0 \<or> en_aborted env s1")
    case True
    with assms n have "fst q = fst p \<and> out = Inl timeout_error" by (auto simp: withDeadline_def split: if_splits)
    then show ?thesis by (intro that[of "[]"]) auto
  next
    case False
    obtain r q2 where c: "callAll (logged env) (stepCalls g st) JNull (fst p, s1) = (r, q2)"
      by (cases "callAll (logged env) (stepCalls g st) JNull (fst p, s1)")
    with assms n False have "q = q2" "out = (case r of Some x \<Rightarrow> x | None \<Rightarrow> Inl timeout_error)"
      by (auto simp: withDeadline_def invoke_def split: option.splits)
    with callAll_log[OF c] that show ?thesis by (cases r) auto
  qed
qed

lemma readStatus_log: "readStatus (logged env) deadline p = (st, q) \<Longrightarrow> fst q = fst p"
  by (auto simp: readStatus_def withDeadline_def split: option.splits prod.splits sum.splits if_splits)

lemma runSteps_log:
  "runSteps (logged env) parse w opts deadline sts i prev p = (rs, reason, q) \<Longrightarrow>
   \<exists>cs. fst q = fst p @ cs \<and> prefix cs (planned w opts i (take (length rs) sts))
     \<and> ((\<forall>r \<in> set rs. sr_ok r) \<longrightarrow> cs = planned w opts i (take (length rs) sts))"
proof (induction sts arbitrary: i prev p rs reason q)
  case Nil
  then show ?case by simp
next
  case (Cons st sts)
  show ?case
    using Cons.prems
  proof (cases rule: runSteps_cases)
    case (late t)
    then show ?thesis using now_log[OF late(1)] by simp
  next
    case (failed t s1 t0 s2 e s3 t1)
    from failed(3) obtain ds where "fst s3 = fst s2 @ ds" "prefix ds (stepCalls (guards_at w opts i) st)"
      by (rule withDeadline_log)
    moreover have "fst s2 = fst p" "fst q = fst s3" using now_log[OF failed(1)] now_log[OF failed(2)] now_log[OF failed(4)] by simp_all
    ultimately show ?thesis using failed(5) by (auto simp: failure_report_def)
  next
    case (stopped t s1 t0 s2 raw s3 after s4 t1)
    from stopped(3) obtain ds where "fst s3 = fst s2 @ ds" "(\<exists>x. Inr raw = Inr x) \<Longrightarrow> ds = stepCalls (guards_at w opts i) st"
      by (rule withDeadline_log) blast
    moreover have "fst s2 = fst p" "fst q = fst s3" using now_log[OF stopped(1)] now_log[OF stopped(2)] readStatus_log[OF stopped(4)] now_log[OF stopped(5)] by simp_all
    ultimately show ?thesis using stopped(7) by simp
  next
    case (went_on t s1 t0 s2 raw s3 after s4 t1 s5 rs')
    from went_on(3) obtain ds where ds: "fst s3 = fst s2 @ ds" "(\<exists>x. Inr raw = Inr x) \<Longrightarrow> ds = stepCalls (guards_at w opts i) st"
      by (rule withDeadline_log) blast
    have e: "fst s2 = fst p" "fst s5 = fst s3" using now_log[OF went_on(1)] now_log[OF went_on(2)] readStatus_log[OF went_on(4)] now_log[OF went_on(5)] by simp_all
    from Cons.IH[OF went_on(7)] obtain cs where "fst q = fst s5 @ cs" "prefix cs (planned w opts (Suc i) (take (length rs') sts))"
      "(\<forall>r \<in> set rs'. sr_ok r) \<longrightarrow> cs = planned w opts (Suc i) (take (length rs') sts)" by blast
    then show ?thesis using went_on(8) ds e by (intro exI[of _ "stepCalls (guards_at w opts i) st @ cs"]) simp
  qed
qed

lemma runReports_cases:
  assumes "runReports env parse w opts s = (r, s')"
  obtains (refused) startedAt s1 initial s2 t reason where "en_now env s = (startedAt, s1)"
      "readStatus env (startedAt + ro_maxDurationMs opts) s1 = (initial, s2)" "refusal opts initial = Some reason"
      "en_now env s2 = (t, s')" "r = result_of w [] reason (t - startedAt)"
  | (ran) startedAt s1 initial s2 reports reason s3 t where "en_now env s = (startedAt, s1)"
      "readStatus env (startedAt + ro_maxDurationMs opts) s1 = (initial, s2)" "refusal opts initial = None"
      "runSteps env parse w opts (startedAt + ro_maxDurationMs opts) (wf_steps w) 0 initial s2 = (reports, reason, s3)"
      "en_now env s3 = (t, s')" "r = result_of w reports reason (t - startedAt)"
proof -
  obtain startedAt s1 where n: "en_now env s = (startedAt, s1)" by (cases "en_now env s")
  let ?d = "startedAt + ro_maxDurationMs opts"
  obtain initial s2 where i: "readStatus env ?d s1 = (initial, s2)" by (cases "readStatus env ?d s1")
  show ?thesis
  proof (cases "refusal opts initial")
    case None
    obtain reports reason s3 where b: "runSteps env parse w opts ?d (wf_steps w) 0 initial s2 = (reports, reason, s3)"
      by (cases "runSteps env parse w opts ?d (wf_steps w) 0 initial s2") auto
    obtain t s4 where "en_now env s3 = (t, s4)" by (cases "en_now env s3")
    with assms n i None b show ?thesis by (intro ran) (auto simp: runReports_def)
  next
    case (Some reason)
    obtain t s3 where "en_now env s2 = (t, s3)" by (cases "en_now env s2")
    with assms n i Some show ?thesis by (intro refused) (auto simp: runReports_def)
  qed
qed

lemma refusal_real: "refusal opts st \<noteq> Some Completed"
  by (simp add: refusal_def)

lemma result_of_simps [simp]:
  "wr_steps (result_of w rs reason e) = rs" "wr_stopReason (result_of w rs reason e) = reason"
  "wr_ok (result_of w rs reason e) = (reason = Completed \<and> length rs = length (wf_steps w))"
  "wr_status (result_of w rs reason e) = (if reason = Completed \<and> length rs = length (wf_steps w) then RunCompleted else RunStopped)"
  by (simp_all add: result_of_def Let_def)

lemma runReports_timeline:
  assumes "runReports (logged env) parse w opts p = (r, q)"
  shows "reports_ok 0 (wf_steps w) (wr_steps r) (wr_stopReason r)
    \<and> (wr_ok r \<longleftrightarrow> wr_stopReason r = Completed) \<and> (wr_ok r \<longleftrightarrow> wr_status r = RunCompleted)
    \<and> (\<exists>cs. fst q = fst p @ cs \<and> prefix cs (planned w opts 0 (take (length (wr_steps r)) (wf_steps w)))
        \<and> (wr_ok r \<longrightarrow> cs = planned w opts 0 (wf_steps w)))"
  using assms
proof (cases rule: runReports_cases)
  case (refused startedAt s1 initial s2 t reason)
  have "fst q = fst p" using now_log[OF refused(1)] readStatus_log[OF refused(2)] now_log[OF refused(4)] by simp
  with refused(3,5) refusal_real[of opts initial] show ?thesis by (auto simp: reports_ok_def)
next
  case (ran startedAt s1 initial s2 reports reason s3 t)
  note ok = runSteps_ok[OF ran(4)]
  obtain cs where cs: "fst s3 = fst s2 @ cs" "prefix cs (planned w opts 0 (take (length reports) (wf_steps w)))"
    "(\<forall>r \<in> set reports. sr_ok r) \<longrightarrow> cs = planned w opts 0 (take (length reports) (wf_steps w))"
    using runSteps_log[OF ran(4)] by blast
  have q: "fst q = fst p @ cs"
    using now_log[OF ran(1)] readStatus_log[OF ran(2)] now_log[OF ran(5)] cs(1) by simp
  have done_all: "length reports = length (wf_steps w) \<and> (\<forall>r \<in> set reports. sr_ok r)" if "reason = Completed"
    using ok that by (auto simp: reports_ok_def in_set_conv_nth)
  with ok cs q ran(6) show ?thesis by (auto simp del: planned_simps)
qed

subsection \<open>Guards\<close>

text \<open>The preconditions a call carries; reading calls carry none.\<close>

fun call_guards :: "adapter_call \<Rightarrow> step_guards option" where
  "call_guards (CallOpen _ ao) = Some (step_guards.truncate ao)"
| "call_guards (CallClick _ ao) = Some (step_guards.truncate ao)"
| "call_guards (CallType _ _ ao) = Some (step_guards.truncate ao)"
| "call_guards (CallSelect _ _ ao) = Some (step_guards.truncate ao)"
| "call_guards (CallScroll _ _ _ ao) = Some (step_guards.truncate ao)"
| "call_guards (CallWait _ _ _ _) = None"
| "call_guards (CallSnapshot _ _ _ _ _) = None"

lemma truncate_options [simp]:
  "step_guards.truncate (options_of g t) = g"
  "step_guards.truncate (ao\<lparr>ao_waitUntil := x\<rparr>) = step_guards.truncate ao"
  "step_guards.truncate (ao\<lparr>ao_clearFirst := b\<rparr>) = step_guards.truncate ao"
  "step_guards.truncate (ao\<lparr>ao_submit := b\<rparr>) = step_guards.truncate ao"
  "step_guards.truncate (ao\<lparr>ao_sensitive := b\<rparr>) = step_guards.truncate ao"
  by (simp_all add: step_guards.truncate_def options_of_def)

lemma read_calls: "\<not> isWriteStep st \<Longrightarrow> c \<in> set (stepCalls g st) \<Longrightarrow> call_guards c = None"
  by (cases st) (auto simp: isWriteStep_def)

lemma unguarded_calls: "c \<in> set (stepCalls no_guards st) \<Longrightarrow> call_guards c \<in> {None, Some no_guards}"
  by (cases st) (auto split: option.splits)

lemma write_calls:
  assumes "isWriteStep st" "step_ok parse l st"
  obtains c cs where "stepCalls g st = c # cs" "call_guards c = Some g" "\<forall>d \<in> set cs. call_guards d = Some no_guards"
proof (cases st)
  case (SelectStep target choice vals t)
  show ?thesis
  proof (cases vals)
    case (Some vs)
    with assms(2) SelectStep obtain v vs' where vs: "vs = v # vs'" by (cases vs) (auto simp: opt_ok_def)
    let ?f = "\<lambda>(i, v). CallSelect (adapterTarget target) (Some (ChoiceValue v)) (options_of (if i = 0 then g else no_guards) t)"
    have "\<forall>d \<in> set (map ?f (enumerate (Suc 0) vs')). call_guards d = Some no_guards"
      by (auto simp: in_set_enumerate_eq)
    then show ?thesis using Some SelectStep vs by (intro that) auto
  qed (use SelectStep that in auto)
qed (use assms(1) that in \<open>auto simp: isWriteStep_def\<close>)

lemma findFirst_spec:
  "findFirst P xs = Some i \<longleftrightarrow> i < length xs \<and> P (xs ! i) \<and> (\<forall>j < i. \<not> P (xs ! j))"
  by (auto simp: findFirst_def find_Some_iff)

lemma planned_append: "planned w opts i (xs @ ys) = planned w opts i xs @ planned w opts (i + length xs) ys"
  by (induction xs arbitrary: i) simp_all

text \<open>The first writing call carries \<open>g\<close>, and no later call carries a precondition.\<close>

fun guards_once :: "step_guards \<Rightarrow> adapter_call list \<Rightarrow> bool" where
  "guards_once g [] = True"
| "guards_once g (c # cs) =
     (if call_guards c = None then guards_once g cs
      else call_guards c = Some g \<and> list_all (\<lambda>d. call_guards d \<in> {None, Some no_guards}) cs)"

lemma guards_once_reads: "\<forall>c \<in> set xs. call_guards c = None \<Longrightarrow> guards_once g (xs @ ys) = guards_once g ys"
  by (induction xs) auto

lemma guards_once_prefix: "guards_once g ys \<Longrightarrow> prefix xs ys \<Longrightarrow> guards_once g xs"
proof (induction xs arbitrary: ys)
  case (Cons x xs)
  then obtain zs where "ys = x # zs" "prefix xs zs" by (cases ys) auto
  moreover from this have "set xs \<subseteq> set zs" by (auto dest: set_mono_prefix)
  ultimately show ?case using Cons by (simp add: list_all_iff split: if_splits) blast
qed simp

definition run_guards :: "run_options \<Rightarrow> step_guards" where
  "run_guards opts = \<lparr>sg_actionId = ro_actionId opts, sg_expectedPageRevision = ro_expectedPageRevision opts,
     sg_expectedTabId = ro_expectedTabId opts\<rparr>"

lemma planned_unguarded:
  assumes "\<And>k. i \<le> k \<Longrightarrow> guards_at w opts k = no_guards"
  shows "c \<in> set (planned w opts i sts) \<Longrightarrow> call_guards c \<in> {None, Some no_guards}"
  using assms
proof (induction sts arbitrary: i)
  case (Cons st sts)
  from Cons.prems(1) have "c \<in> set (stepCalls no_guards st) \<or> c \<in> set (planned w opts (Suc i) sts)"
    using Cons.prems(2)[of i] by auto
  then show ?case
  proof
    assume "c \<in> set (planned w opts (Suc i) sts)"
    then show ?thesis using Cons.prems(2) by (intro Cons.IH[of "Suc i"]) auto
  qed (rule unguarded_calls)
qed simp

lemma planned_guards:
  assumes "list_all (step_ok parse l) (wf_steps w)" "\<forall>j < i. \<not> isWriteStep (wf_steps w ! j)" "sts = drop i (wf_steps w)"
  shows "guards_once (run_guards opts) (planned w opts i sts)"
  using assms(2,3)
proof (induction sts arbitrary: i)
  case (Cons st sts)
  from Cons.prems(2) have i: "i < length (wf_steps w)" "st = wf_steps w ! i" "sts = drop (Suc i) (wf_steps w)"
    by (metis drop_all list.simps(3) not_le_imp_less) (metis Cons_nth_drop_Suc Cons.prems(2) drop_all list.inject list.simps(3) not_le_imp_less)+
  show ?case
  proof (cases "isWriteStep st")
    case True
    then have f: "findFirst isWriteStep (wf_steps w) = Some i" using i Cons.prems(1) by (simp add: findFirst_spec)
    then have g: "guards_at w opts i = run_guards opts" by (simp add: guards_at_def run_guards_def)
    have rest: "guards_at w opts k = no_guards" if "Suc i \<le> k" for k using f that by (simp add: guards_at_def)
    have "step_ok parse l st" using assms(1) i by (simp add: list_all_length)
    then obtain c cs where c: "stepCalls (run_guards opts) st = c # cs" "call_guards c = Some (run_guards opts)"
      "\<forall>d \<in> set cs. call_guards d = Some no_guards" using write_calls[OF True] by metis
    with planned_unguarded[OF rest, where sts = sts] show ?thesis by (auto simp: g list_all_iff)
  next
    case False
    then have "\<forall>j < Suc i. \<not> isWriteStep (wf_steps w ! j)" using Cons.prems(1) i by (auto simp: less_Suc_eq)
    from Cons.IH[OF this i(3)] read_calls[OF False] show ?thesis by (auto simp: guards_once_reads)
  qed
qed simp

text \<open>
  C36: A run of a workflow does what its reports say, in order, and checks its preconditions once. For every
  adapter, clock and validated workflow: the reports name the first steps in their order, all but the
  last succeeded, and a run counts as completed exactly when every step succeeded and nothing asked it to stop;
  the adapter has received exactly a prefix of the calls of the reported steps (all calls of all steps if
  the run completed), so nothing is called for a step that is not reported; and the first call that can
  change the page carries the action id, the page revision and the tab that the caller expects, no other
  call carries any of them.
\<close>

theorem workflow_run_timeline:
  assumes "normalizeWorkflow parse v vopts = Inr w"
    and "runReports (logged env) parse w opts ([], s) = (r, calls, s')"
  shows "reports_ok 0 (wf_steps w) (wr_steps r) (wr_stopReason r)
    \<and> (wr_ok r \<longleftrightarrow> wr_stopReason r = Completed) \<and> (wr_ok r \<longleftrightarrow> wr_status r = RunCompleted)
    \<and> prefix calls (planned w opts 0 (take (length (wr_steps r)) (wf_steps w)))
    \<and> (wr_ok r \<longrightarrow> calls = planned w opts 0 (wf_steps w))
    \<and> guards_once (run_guards opts) calls"
proof -
  have t: "reports_ok 0 (wf_steps w) (wr_steps r) (wr_stopReason r)
    \<and> (wr_ok r \<longleftrightarrow> wr_stopReason r = Completed) \<and> (wr_ok r \<longleftrightarrow> wr_status r = RunCompleted)
    \<and> prefix calls (planned w opts 0 (take (length (wr_steps r)) (wf_steps w)))
    \<and> (wr_ok r \<longrightarrow> calls = planned w opts 0 (wf_steps w))"
    using runReports_timeline[OF assms(2)] unfolding fst_conv append_Nil by metis
  have "planned w opts 0 (wf_steps w) = planned w opts 0 (take n (wf_steps w)) @ planned w opts (min (length (wf_steps w)) n) (drop n (wf_steps w))" for n
    using planned_append[of w opts 0 "take n (wf_steps w)" "drop n (wf_steps w)"] by simp
  with t have "prefix calls (planned w opts 0 (wf_steps w))" by (metis prefixI prefix_order.trans)
  moreover have "guards_once (run_guards opts) (planned w opts 0 (wf_steps w))"
    using normalizeWorkflow_ok[OF assms(1)] by (intro planned_guards) (auto simp: workflow_ok_def)
  ultimately show ?thesis using t guards_once_prefix by blast
qed

definition demo_environment :: "nat environment" where
  "demo_environment = \<lparr>en_now = (\<lambda>s. (int s, Suc s)), en_aborted = (\<lambda>s. False), en_status = None,
     en_call = (\<lambda>c s. (Some (Inr (JObject [(''pageRevision'', JNumber (IntN 4))])), Suc s))\<rparr>"

definition demo_run :: run_options where
  "demo_run = \<lparr>ro_actionId = None, ro_expectedPageRevision = Some 4, ro_expectedTabId = Some ''tab-1'', ro_maxDurationMs = 5000,
     ro_maxResultBytes = 4096\<rparr>"

lemma demo_completes:
  "wr_ok (fst (runReports (logged demo_environment) demo_parse demo_workflow demo_run ([], 0)))
   \<and> length (fst (snd (runReports (logged demo_environment) demo_parse demo_workflow demo_run ([], 0)))) = 4"
  by code_simp

theorem workflow_run_timeline_witness:
  "fst (snd (runReports (logged demo_environment) demo_parse demo_workflow demo_run ([], 0))) = planned demo_workflow demo_run 0 (wf_steps demo_workflow)
   \<and> guards_once (run_guards demo_run) (fst (snd (runReports (logged demo_environment) demo_parse demo_workflow demo_run ([], 0))))"
proof -
  let ?x = "runReports (logged demo_environment) demo_parse demo_workflow demo_run ([], 0)"
  have "?x = (fst ?x, fst (snd ?x), snd (snd ?x))" by (simp only: prod.collapse)
  from workflow_run_timeline[OF demo_validates this] demo_completes show ?thesis by blast
qed

text \<open>
  A run is not stopped without a cause: with time left, no abort, no status method, and an adapter whose
  answers report neither a challenge nor an interrupt, every step is executed and the run completes.
\<close>

definition calm :: "'s environment \<Rightarrow> workflow \<Rightarrow> int \<Rightarrow> bool" where
  "calm env w deadline \<longleftrightarrow> en_status env = None \<and> (\<forall>s. \<not> en_aborted env s) \<and> (\<forall>s. fst (en_now env s) < deadline)
     \<and> (\<forall>c s. \<exists>v. fst (en_call env c s) = Some (Inr v) \<and> rawStopReason v (wf_stopOn w) = None)
     \<and> rawStopReason JNull (wf_stopOn w) = None"

lemma calm_calls:
  assumes "calm env w d" "rawStopReason v (wf_stopOn w) = None"
  shows "\<exists>x. fst (callAll env cs v s) = Some (Inr x) \<and> rawStopReason x (wf_stopOn w) = None"
  using assms(2)
proof (induction cs arbitrary: v s)
  case (Cons c cs)
  obtain out s1 where out: "en_call env c s = (out, s1)" by (cases "en_call env c s")
  moreover obtain x where "out = Some (Inr x)" "rawStopReason x (wf_stopOn w) = None"
    using assms(1) out unfolding calm_def by (metis fst_conv)
  ultimately show ?case using Cons.IH by simp
qed simp

lemma calm_steps:
  assumes "calm env w d"
  shows "fst (snd (runSteps env parse w opts d sts i None s)) = Completed"
proof (induction sts arbitrary: i s)
  case (Cons st sts)
  have now: "fst (en_now env s) < d" "\<not> en_aborted env s" "en_status env = None" for s
    using assms by (simp_all add: calm_def)
  obtain t s1 t0 s2 t2 s3 where n: "en_now env s = (t, s1)" "en_now env s1 = (t0, s2)" "en_now env s2 = (t2, s3)"
    by (metis surj_pair)
  obtain x s4 where c: "callAll env (stepCalls (guards_at w opts i) st) JNull s3 = (Some (Inr x), s4)"
    "rawStopReason x (wf_stopOn w) = None"
    using calm_calls[OF assms, of JNull "stepCalls (guards_at w opts i) st" s3] assms by (metis calm_def prod.collapse)
  have w: "withDeadline env d (invoke env st (guards_at w opts i)) s2 = (Inr x, s4)"
    using n c now(1)[of s2] now(2)[of s3] by (simp add: withDeadline_def invoke_def)
  obtain t1 s5 where n5: "en_now env s4 = (t1, s5)" by (cases "en_now env s4")
  have "stop_after w None None x = None" using c(2) by (simp add: stop_after_def statusStopReason_def navigationDetected_def)
  then have "runSteps env parse w opts d (st # sts) i None s
      = (case runSteps env parse w opts d sts (Suc i) None s5 of (rs, reason, s6) \<Rightarrow>
          (success_report parse i st (t1 - t0) x None # rs, reason, s6))"
    using n w n5 now(1)[of s] now(3) by (simp add: readStatus_def)
  moreover obtain rs q s6 where rec: "runSteps env parse w opts d sts (Suc i) None s5 = (rs, q, s6)" by (metis surj_pair)
  moreover have "q = Completed" using Cons.IH[of "Suc i" s5] rec by simp
  ultimately show ?case by (simp only: prod.case fst_conv snd_conv)
qed simp

lemma calm_run_completes:
  assumes "calm env w (fst (en_now env s) + ro_maxDurationMs opts)"
  shows "wr_ok (fst (runReports env parse w opts s))"
proof (cases rule: runReports_cases[OF prod.collapse[symmetric, of "runReports env parse w opts s"]])
  case (1 startedAt s1 initial s2 t reason)
  then show ?thesis using assms by (simp add: readStatus_def calm_def refusal_def differs_def)
next
  case (2 startedAt s1 initial s2 reports reason s3 t)
  then have "initial = None" using assms by (simp add: readStatus_def calm_def)
  then have "reason = Completed"
    using 2(1,4) assms calm_steps[of env w "startedAt + ro_maxDurationMs opts"] by (metis fst_conv snd_conv)
  with runSteps_ok[OF 2(4)] 2(6) show ?thesis by (simp add: reports_ok_def)
qed

end
