(* ===== verification/WorkflowCache.thy ===== *)
theory WorkflowCache
  imports WorkflowRun
begin

text \<open>
  \<open>WorkflowExecutor.run\<close> of \<open>src/browser/workflow.ts\<close>: validation, the options that a call overrides, and the
  cache that makes a run with an action id idempotent for ten minutes. The digest is an argument.
\<close>

subsection \<open>The executor and its cache of runs\<close>

text \<open>A run in flight or finished is named by a number; the cache keeps that name, as the code keeps its promise.\<close>

record cache_entry =
  ce_fingerprint :: string
  ce_expiresAt :: int
  ce_result :: nat

record executor =
  ex_limits :: workflow_limits
  ex_cache :: "(string, cache_entry) jmap"
  ex_next :: nat

record execution_options =
  eo_actionId :: "string option"
  eo_expectedTabId :: "string option"
  eo_expectedPageRevision :: "jsnum option"
  eo_maxDurationMs :: "jsnum option"
  eo_maxResultBytes :: "jsnum option"

datatype run_outcome =
    Refused validation_error
  | ActionIdConflict
  | Joined nat
  | Started nat workflow run_options

definition WORKFLOW_CACHE_TTL_MS :: int where "WORKFLOW_CACHE_TTL_MS = 10 * 60 * 1000"
definition MAX_WORKFLOW_CACHE_ENTRIES :: nat where "MAX_WORKFLOW_CACHE_ENTRIES = 256"

definition newExecutor :: "limit_request option \<Rightarrow> executor" where
  "newExecutor limits = \<lparr>ex_limits = resolveWorkflowLimits limits, ex_cache = [], ex_next = 0\<rparr>"

definition pruneCache :: "int \<Rightarrow> (string, cache_entry) jmap \<Rightarrow> (string, cache_entry) jmap" where
  "pruneCache now c = filter (\<lambda>p. \<not> ce_expiresAt (snd p) \<le> now) c"

fun evictRuns :: "nat \<Rightarrow> (string, cache_entry) jmap \<Rightarrow> (string, cache_entry) jmap" where
  "evictRuns n [] = []"
| "evictRuns n (p # ps) = (if n < length (p # ps) then evictRuns n ps else p # ps)"

text \<open>What is fingerprinted; the triggers are sorted by name.\<close>

definition request_json :: "workflow \<Rightarrow> run_options \<Rightarrow> json" where
  "request_json w opts =
     JObject ([(''steps'', JArray (map step_json (wf_steps w)))]
       @ opt_field ''expectedPageRevision'' int_json (ro_expectedPageRevision opts)
       @ opt_field ''expectedTabId'' JString (ro_expectedTabId opts)
       @ [(''maxDurationMs'', int_json (ro_maxDurationMs opts)), (''maxResultBytes'', int_json (ro_maxResultBytes opts)),
          (''stopOn'', JArray (map JString (sort (map (name_of WORKFLOW_STOP_TRIGGERS) (wf_stopOn w)))))])"

text \<open>\<open>digest\<close> is SHA-256.\<close>

definition fingerprint :: "(string \<Rightarrow> string) \<Rightarrow> json \<Rightarrow> string" where
  "fingerprint digest v = digest (stableJson v)"

text \<open>A number among the options of a call, which must lie within the limit; the workflow's own otherwise.\<close>

definition chosenLimit :: "jsnum option \<Rightarrow> int \<Rightarrow> int \<Rightarrow> int \<Rightarrow> string \<Rightarrow> validation_error + int" where
  "chosenLimit opt own lo hi path =
     (case opt of
        None \<Rightarrow> Inr own
      | Some n \<Rightarrow> (let checked = boundedInteger (Some (JNumber n)) lo hi (-1)
                  in if checked < lo then fail_at path else Inr checked))"

definition chooseOptions :: "workflow_limits \<Rightarrow> workflow \<Rightarrow> execution_options \<Rightarrow> validation_error + run_options" where
  "chooseOptions limits w eo =
     bindR (demand (case eo_actionId eo of Some a \<Rightarrow> ACTION_ID_PATTERN a | None \<Rightarrow> True) ''options.actionId'') (\<lambda>_.
     bindR (optionalRevision (map_option JNumber (eo_expectedPageRevision eo)) ''options.expectedPageRevision'') (\<lambda>revision.
     bindR (optionalTabId (map_option JString (eo_expectedTabId eo)) ''options.expectedTabId'') (\<lambda>tabId.
     bindR (chosenLimit (eo_maxDurationMs eo) (wf_maxDurationMs w) 1 (wl_maxDurationMs limits) ''options.maxDurationMs'') (\<lambda>duration.
     bindR (chosenLimit (eo_maxResultBytes eo) (wf_maxResultBytes w) MIN_WORKFLOW_RESULT_BYTES (wl_maxResultBytes limits)
       ''options.maxResultBytes'') (\<lambda>bytes.
       Inr \<lparr>ro_actionId = first_some (eo_actionId eo) (wf_actionId w),
            ro_expectedPageRevision = first_some revision (wf_expectedPageRevision w),
            ro_expectedTabId = first_some tabId (wf_expectedTabId w),
            ro_maxDurationMs = duration, ro_maxResultBytes = bytes\<rparr>)))))"

text \<open>The synchronous part of \<open>run\<close>, up to the first await of the run it starts.\<close>

definition admit :: "(string \<Rightarrow> string) \<Rightarrow> int \<Rightarrow> workflow \<Rightarrow> run_options \<Rightarrow> executor \<Rightarrow> run_outcome \<times> executor" where
  "admit digest now w opts ex =
     (let cache = pruneCache now (ex_cache ex)
      in case ro_actionId opts of
           None \<Rightarrow> (Started (ex_next ex) w opts, ex\<lparr>ex_cache := cache, ex_next := Suc (ex_next ex)\<rparr>)
         | Some a \<Rightarrow>
           (let fp = fingerprint digest (request_json w opts)
            in case map_of cache a of
                 Some e \<Rightarrow>
                   if ce_fingerprint e \<noteq> fp then (ActionIdConflict, ex\<lparr>ex_cache := cache\<rparr>)
                   else (Joined (ce_result e), ex\<lparr>ex_cache := cache\<rparr>)
               | None \<Rightarrow>
                   (Started (ex_next ex) w opts,
                    ex\<lparr>ex_cache := evictRuns MAX_WORKFLOW_CACHE_ENTRIES
                         (jset cache a \<lparr>ce_fingerprint = fp, ce_expiresAt = now + WORKFLOW_CACHE_TTL_MS, ce_result = ex_next ex\<rparr>),
                       ex_next := Suc (ex_next ex)\<rparr>)))"

text \<open>What \<open>run\<close> validates before it touches the cache, and the whole of it.\<close>

definition requestOf ::
  "(string \<Rightarrow> web_url option) \<Rightarrow> workflow_limits \<Rightarrow> json \<Rightarrow> execution_options \<Rightarrow> validation_error + workflow \<times> run_options" where
  "requestOf parse limits v eo =
     bindR (normalizeWorkflow parse v \<lparr>vo_maxDurationMs = eo_maxDurationMs eo, vo_maxResultBytes = eo_maxResultBytes eo,
       vo_limits = Some (request_of limits)\<rparr>) (\<lambda>w.
     bindR (chooseOptions limits w eo) (\<lambda>opts. Inr (w, opts)))"

definition run ::
  "(string \<Rightarrow> web_url option) \<Rightarrow> (string \<Rightarrow> string) \<Rightarrow> int \<Rightarrow> json \<Rightarrow> execution_options \<Rightarrow> executor \<Rightarrow> run_outcome \<times> executor" where
  "run parse digest now v eo ex =
     (case requestOf parse (ex_limits ex) v eo of
        Inl e \<Rightarrow> (Refused e, ex)
      | Inr (w, opts) \<Rightarrow> admit digest now w opts ex)"

definition clearCache :: "executor \<Rightarrow> executor" where
  "clearCache ex = ex\<lparr>ex_cache := []\<rparr>"


subsection \<open>The invariant\<close>

definition executor_inv :: "executor \<Rightarrow> bool" where
  "executor_inv ex \<longleftrightarrow> limits_ok (ex_limits ex) \<and> jwf (ex_cache ex) \<and> length (ex_cache ex) \<le> MAX_WORKFLOW_CACHE_ENTRIES
     \<and> (\<forall>p \<in> set (ex_cache ex). ce_result (snd p) < ex_next ex)"

lemma evictRuns_drop: "evictRuns n c = drop (length c - n) c"
  by (induction n c rule: evictRuns.induct) (auto simp: Suc_diff_le)

lemma prune_wf: "jwf c \<Longrightarrow> jwf (pruneCache now c)"
  by (simp add: pruneCache_def distinct_map_filter)

lemma prune_set: "set (pruneCache now c) \<subseteq> set c"
  by (auto simp: pruneCache_def)

lemma prune_length: "length (pruneCache now c) \<le> length c"
  by (simp add: pruneCache_def)

lemma drop_wf: "jwf c \<Longrightarrow> jwf (drop n c)"
  by (simp add: drop_map[symmetric])

text \<open>What admission does to the cache.\<close>

lemma admit_cases:
  obtains (anonymous) "ro_actionId opts = None"
      "admit digest now w opts ex = (Started (ex_next ex) w opts, ex\<lparr>ex_cache := pruneCache now (ex_cache ex), ex_next := Suc (ex_next ex)\<rparr>)"
  | (known) a e where "ro_actionId opts = Some a" "map_of (pruneCache now (ex_cache ex)) a = Some e"
      "admit digest now w opts ex =
         (if ce_fingerprint e = fingerprint digest (request_json w opts) then Joined (ce_result e) else ActionIdConflict,
          ex\<lparr>ex_cache := pruneCache now (ex_cache ex)\<rparr>)"
  | (fresh) a e where "ro_actionId opts = Some a" "map_of (pruneCache now (ex_cache ex)) a = None"
      "e = \<lparr>ce_fingerprint = fingerprint digest (request_json w opts), ce_expiresAt = now + WORKFLOW_CACHE_TTL_MS, ce_result = ex_next ex\<rparr>"
      "admit digest now w opts ex =
         (Started (ex_next ex) w opts,
          ex\<lparr>ex_cache := evictRuns MAX_WORKFLOW_CACHE_ENTRIES (pruneCache now (ex_cache ex) @ [(a, e)]), ex_next := Suc (ex_next ex)\<rparr>)"
proof (cases "ro_actionId opts")
  case None
  then show ?thesis by (intro anonymous) (simp_all add: admit_def Let_def)
next
  case (Some a)
  show ?thesis
  proof (cases "map_of (pruneCache now (ex_cache ex)) a")
    case None
    with Some show ?thesis by (intro fresh) (simp_all add: admit_def Let_def jset_fresh)
  next
    case e: (Some e)
    with Some show ?thesis by (intro known[of a e]) (auto simp: admit_def Let_def)
  qed
qed

lemma admitted_inv: "executor_inv ex \<Longrightarrow> executor_inv (snd (admit digest now w opts ex))"
proof (cases rule: admit_cases[of opts digest now w ex])
  case anonymous
  moreover assume "executor_inv ex"
  ultimately show ?thesis using prune_wf prune_set prune_length[of now "ex_cache ex"] by (force simp: executor_inv_def)
next
  case known
  moreover assume "executor_inv ex"
  ultimately show ?thesis using prune_wf prune_set prune_length[of now "ex_cache ex"] by (force simp: executor_inv_def)
next
  case (fresh a e)
  assume inv: "executor_inv ex"
  let ?c = "pruneCache now (ex_cache ex) @ [(a, e)]"
  have "jwf ?c" using fresh(2) inv prune_wf by (auto simp: executor_inv_def map_of_eq_None_iff)
  moreover have "\<forall>p \<in> set ?c. ce_result (snd p) < Suc (ex_next ex)"
    using inv prune_set fresh(3) by (fastforce simp: executor_inv_def)
  moreover define n where "n = length ?c - MAX_WORKFLOW_CACHE_ENTRIES"
  ultimately have "jwf (drop n ?c)" "\<forall>p \<in> set (drop n ?c). ce_result (snd p) < Suc (ex_next ex)"
    "length (drop n ?c) \<le> MAX_WORKFLOW_CACHE_ENTRIES"
    using drop_wf[of ?c n] set_drop_subset[of n ?c] by (auto simp del: drop_append)
  with inv fresh(4) show ?thesis by (simp add: executor_inv_def evictRuns_drop n_def del: drop_append length_append)
qed

lemma executed_inv: "executor_inv ex \<Longrightarrow> executor_inv (snd (run parse digest now v eo ex))"
  by (auto simp: run_def admitted_inv split: sum.split)

lemma newExecutor_inv: "executor_inv (newExecutor limits)"
  by (simp add: newExecutor_def executor_inv_def)

definition run_op :: "(string \<Rightarrow> web_url option) \<Rightarrow> (string \<Rightarrow> string) \<Rightarrow> executor \<Rightarrow> int \<times> json \<times> execution_options \<Rightarrow> executor" where
  "run_op parse digest ex c = (case c of (now, v, eo) \<Rightarrow> snd (run parse digest now v eo ex))"

interpretation workflow_runs: machine "run_op parse digest" executor_inv for parse digest
  by unfold_locales (auto simp: run_op_def executed_inv)

subsection \<open>One execution per action id\<close>

text \<open>The entry of \<open>a\<close> is in the cache and at most \<open>n\<close> entries are younger.\<close>

definition kept :: "string \<Rightarrow> cache_entry \<Rightarrow> nat \<Rightarrow> (string, cache_entry) jmap \<Rightarrow> bool" where
  "kept a e n c \<longleftrightarrow> (\<exists>xs ys. c = xs @ (a, e) # ys \<and> length ys \<le> n)"

lemma kept_lookup: "kept a e n c \<Longrightarrow> jwf c \<Longrightarrow> map_of c a = Some e"
  by (auto simp: kept_def)

lemma kept_mono: "kept a e n c \<Longrightarrow> n \<le> m \<Longrightarrow> kept a e m c"
  unfolding kept_def by (elim exE conjE, intro exI conjI) (assumption, erule order_trans)

lemma kept_prune: "kept a e n c \<Longrightarrow> now < ce_expiresAt e \<Longrightarrow> kept a e n (pruneCache now c)"
  unfolding kept_def pruneCache_def by (force intro: le_trans[OF length_filter_le])

lemma kept_append: "kept a e n c \<Longrightarrow> kept a e (Suc n) (c @ [p])"
  unfolding kept_def by force

lemma kept_evict: "kept a e n c \<Longrightarrow> n < m \<Longrightarrow> kept a e n (evictRuns m c)"
proof -
  assume "kept a e n c" "n < m"
  then obtain xs ys where c: "c = xs @ (a, e) # ys" "length ys \<le> n" by (auto simp: kept_def)
  then have "evictRuns m c = drop (length c - m) xs @ (a, e) # ys" using \<open>n < m\<close> by (simp add: evictRuns_drop)
  with c show ?thesis by (auto simp: kept_def)
qed

lemma run_kept:
  assumes "kept a e n (ex_cache ex)" "now < ce_expiresAt e" "Suc n < MAX_WORKFLOW_CACHE_ENTRIES"
  shows "kept a e (Suc n) (ex_cache (snd (run parse digest now v eo ex)))"
proof (cases "requestOf parse (ex_limits ex) v eo")
  case Inl
  with assms(1) show ?thesis by (auto simp: run_def intro: kept_mono)
next
  case (Inr q)
  obtain w opts where q: "q = (w, opts)" by (cases q)
  note p = kept_prune[OF assms(1,2)]
  show ?thesis
  proof (cases rule: admit_cases[of opts digest now w ex])
    case (fresh b f)
    then show ?thesis using kept_evict[OF kept_append[OF p] assms(3)] Inr q by (simp add: run_def)
  qed (use Inr q kept_mono[OF p] in \<open>simp_all add: run_def\<close>)
qed

lemma runs_kept:
  assumes "list_all (\<lambda>c. fst c < ce_expiresAt e) cs"
  shows "kept a e n (ex_cache ex) \<Longrightarrow> n + length cs < MAX_WORKFLOW_CACHE_ENTRIES
    \<Longrightarrow> kept a e (n + length cs) (ex_cache (foldl (run_op parse digest) ex cs))"
  using assms
proof (induction cs arbitrary: n ex)
  case (Cons c cs)
  obtain now v eo where c: "c = (now, v, eo)" by (cases c)
  have "kept a e (Suc n) (ex_cache (run_op parse digest ex c))"
    using run_kept[OF Cons.prems(1)] Cons.prems(2,3) c by (simp add: run_op_def)
  from Cons.IH[OF this] Cons.prems(2,3) show ?case by simp
qed simp

lemma run_limits: "ex_limits (snd (run parse digest now v eo ex)) = ex_limits ex"
  by (cases "requestOf parse (ex_limits ex) v eo") (auto simp: run_def admit_def Let_def split: option.split)

lemma runs_limits: "ex_limits (foldl (run_op parse digest) ex cs) = ex_limits ex"
  by (induction cs arbitrary: ex) (auto simp: run_op_def run_limits split: prod.splits)

lemma ints_opt_field: "(\<forall>p \<in> set (opt_field k f v). ints_only (snd p)) \<longleftrightarrow> (\<forall>x. v = Some x \<longrightarrow> ints_only (f x))"
  by (cases v) (simp_all add: opt_field_def)

lemma ints_int [simp]: "ints_only (int_json i)"
  by (simp add: int_json_def)

lemma ints_target [simp]: "ints_only (target_json t)"
  by (cases t) (simp_all add: list_all_iff ball_Un ints_opt_field)

lemma ints_step: "ints_only (step_json st)"
proof -
  have "ints_only (choice_json c)" for c by (cases c) simp_all
  moreover have "ints_only (condition_json c)" for c by (simp add: condition_json_def)
  ultimately show ?thesis by (cases st) (simp_all add: list_all_iff ball_Un ints_opt_field)
qed

lemma ints_request: "ints_only (request_json w opts)"
  by (simp add: request_json_def ints_opt_field ints_step list_all_iff ball_Un)

lemma fingerprint_eq:
  assumes "inj digest"
  shows "fingerprint digest (request_json w opts) = fingerprint digest (request_json w' opts')
    \<longleftrightarrow> canon (request_json w opts) = canon (request_json w' opts')"
  using stable_json_inj[OF _ ints_request ints_request, of w opts w' opts'] injD[OF assms]
  by (auto simp: fingerprint_def stable_canon)


definition demo_json :: json where
  "demo_json = JObject [(''steps'', JArray [JObject [(''op'', JString ''click''), (''target'', JString ''ref_a1'')]])]"

definition demo_execution :: execution_options where
  "demo_execution = \<lparr>eo_actionId = Some ''01234567-89ab-4cde-8f01-23456789abcd'', eo_expectedTabId = None, eo_expectedPageRevision = Some (IntN 4),
     eo_maxDurationMs = None, eo_maxResultBytes = Some (IntN 500)\<rparr>"

definition demo_click :: workflow where
  "demo_click = \<lparr>wf_steps = [ClickStep (RefText ''ref_a1'') None], wf_actionId = None, wf_expectedPageRevision = None,
     wf_expectedTabId = None, wf_maxDurationMs = 120000, wf_maxResultBytes = 500, wf_stopOn = []\<rparr>"

definition demo_chosen :: run_options where
  "demo_chosen = \<lparr>ro_actionId = Some ''01234567-89ab-4cde-8f01-23456789abcd'', ro_expectedPageRevision = Some 4, ro_expectedTabId = None,
     ro_maxDurationMs = 120000, ro_maxResultBytes = 500\<rparr>"

lemma demo_request: "requestOf demo_parse (ex_limits (newExecutor None)) demo_json demo_execution = Inr (demo_click, demo_chosen)"
  by code_simp

lemma demo_started:
  "run demo_parse id 0 demo_json demo_execution (newExecutor None)
   = (Started 0 demo_click demo_chosen, snd (run demo_parse id 0 demo_json demo_execution (newExecutor None)))"
  unfolding run_def demo_request by (simp add: admit_def demo_chosen_def newExecutor_def pruneCache_def Let_def)


end
