(* ===== verification/SnapshotHistory.thy ===== *)
theory SnapshotHistory
  imports TargetRegistry JsonText
begin

text \<open>
  \<open>src/browser/snapshot-history.ts\<close>: the bounded history of semantic snapshots of one session, and the
  difference of an observation to a retained one. An observation arrives as parsed JSON, since the code
  checks every field of it. The digest, the random suffix of generated names and the clock are arguments; the
  clock is read once per operation. Texts are Latin-1.
\<close>

datatype history_error =
    SNAPSHOT_NOT_FOUND | SNAPSHOT_EXPIRED | SNAPSHOT_ID_CONFLICT | PAGE_REVISION_MISMATCH | INVALID_SNAPSHOT | RESOURCE_EXHAUSTED

datatype node_field =
    FRole | FName | FTag | FType | FTestId | FFrameId | FVisible | FEnabled | FEditable | FChecked | FRequired | FValue | FText

text \<open>A node; a value is only ever the mark \<open><redacted>\<close>.\<close>

record hist_node =
  hn_ref :: string
  hn_generation :: int
  hn_role :: string
  hn_name :: string
  hn_tag :: string
  hn_type :: "string option"
  hn_testId :: "string option"
  hn_frameId :: "string option"
  hn_text :: "string option"
  hn_visible :: "bool option"
  hn_enabled :: "bool option"
  hn_editable :: "bool option"
  hn_checked :: "bool option"
  hn_required :: "bool option"
  hn_value :: bool

record stored_node =
  st_node :: hist_node
  st_textDigest :: "string option"

record stored_entry =
  se_snapshotId :: string
  se_tabId :: "string option"
  se_pageRevision :: int
  se_generation :: int
  se_createdAt :: int
  se_expiresAt :: int
  se_bytes :: nat
  se_nodes :: "stored_node list"

record hist_truncation =
  ht_content :: bool
  ht_targets :: bool
  ht_reason :: "truncation_reason option"

record hist_snapshot =
  hs_generation :: int
  hs_tabId :: "string option"
  hs_pageGeneration :: "int option"
  hs_pageRevision :: int
  hs_frameGeneration :: "int option"
  hs_snapshotId :: string
  hs_targets :: "hist_node list"
  hs_url :: "string option"
  hs_title :: "string option"
  hs_text :: "string option"
  hs_textTruncated :: bool
  hs_content :: "string option"
  hs_format :: "snapshot_format option"
  hs_truncated :: "hist_truncation option"

record history =
  sh_sessionId :: "string option"
  sh_maxSnapshots :: nat
  sh_ttlMs :: int
  sh_maxBytes :: nat
  sh_maxSnapshotBytes :: nat
  sh_maxNodes :: nat
  sh_idFactory :: "(nat \<Rightarrow> int \<Rightarrow> string) option"
  sh_entries :: "(string, stored_entry) jmap"
  sh_expiredIds :: "(string, int) jmap"
  sh_totalBytes :: int
  sh_sequence :: nat

record record_options =
  rc_snapshotId :: "string option"
  rc_pageRevision :: "jsnum option"
  rc_expectedPageRevision :: "jsnum option"

record diff_options =
  df_expectedPageRevision :: "jsnum option"
  df_requireSamePageRevision :: bool

record node_update =
  nu_key :: string
  nu_before :: hist_node
  nu_after :: hist_node
  nu_changed :: "node_field list"

record snapshot_diff =
  sd_sinceSnapshotId :: string
  sd_snapshotId :: string
  sd_tabId :: "string option"
  sd_fromPageRevision :: int
  sd_pageRevision :: int
  sd_pageRevisionChanged :: bool
  sd_added :: "hist_node list"
  sd_removed :: "hist_node list"
  sd_updated :: "node_update list"
  sd_changed :: bool

definition DEFAULT_MAX_SNAPSHOTS :: int where "DEFAULT_MAX_SNAPSHOTS = 32"
definition DEFAULT_TTL_MS :: int where "DEFAULT_TTL_MS = 10 * 60000"
definition DEFAULT_MAX_BYTES :: int where "DEFAULT_MAX_BYTES = 2 * 1024 * 1024"
definition DEFAULT_MAX_SNAPSHOT_BYTES :: int where "DEFAULT_MAX_SNAPSHOT_BYTES = 256 * 1024"
definition DEFAULT_MAX_NODES :: int where "DEFAULT_MAX_NODES = 500"
definition HARD_MAX_SNAPSHOTS :: int where "HARD_MAX_SNAPSHOTS = 512"
definition HARD_MAX_TTL_MS :: int where "HARD_MAX_TTL_MS = 24 * 60 * 60000"
definition HARD_MAX_BYTES :: int where "HARD_MAX_BYTES = 16 * 1024 * 1024"
definition HARD_MAX_SNAPSHOT_BYTES :: int where "HARD_MAX_SNAPSHOT_BYTES = 4 * 1024 * 1024"
definition HARD_MAX_NODES :: int where "HARD_MAX_NODES = 2000"
definition MAX_ID_LENGTH :: nat where "MAX_ID_LENGTH = 200"
definition MAX_NODE_STRING_LENGTH :: nat where "MAX_NODE_STRING_LENGTH = 256"
definition MAX_NAME_LENGTH :: nat where "MAX_NAME_LENGTH = 200"
definition MAX_REF_LENGTH :: nat where "MAX_REF_LENGTH = 200"

text \<open>\<open>None\<close>: absent or not finite.\<close>

definition boundedNumber :: "rat option \<Rightarrow> int \<Rightarrow> int \<Rightarrow> int \<Rightarrow> int" where
  "boundedNumber v lo hi dflt = (case v of None \<Rightarrow> dflt | Some x \<Rightarrow> max lo (min hi \<lfloor>x\<rfloor>))"

record history_options =
  ho_sessionId :: "string option"
  ho_maxSnapshots :: "rat option"
  ho_ttlMs :: "rat option"
  ho_maxBytes :: "rat option"
  ho_maxSnapshotBytes :: "rat option"
  ho_maxNodes :: "rat option"
  ho_idFactory :: "(nat \<Rightarrow> int \<Rightarrow> string) option"

definition newHistory :: "history_options \<Rightarrow> history" where
  "newHistory opts =
     (let maxBytes = boundedNumber (ho_maxBytes opts) 1 HARD_MAX_BYTES DEFAULT_MAX_BYTES
      in \<lparr>sh_sessionId = ho_sessionId opts,
          sh_maxSnapshots = nat (boundedNumber (ho_maxSnapshots opts) 1 HARD_MAX_SNAPSHOTS DEFAULT_MAX_SNAPSHOTS),
          sh_ttlMs = boundedNumber (ho_ttlMs opts) 1 HARD_MAX_TTL_MS DEFAULT_TTL_MS,
          sh_maxBytes = nat maxBytes,
          sh_maxSnapshotBytes = nat (boundedNumber (ho_maxSnapshotBytes opts) 1 (min HARD_MAX_SNAPSHOT_BYTES maxBytes)
            (min DEFAULT_MAX_SNAPSHOT_BYTES maxBytes)),
          sh_maxNodes = nat (boundedNumber (ho_maxNodes opts) 1 HARD_MAX_NODES DEFAULT_MAX_NODES),
          sh_idFactory = ho_idFactory opts, sh_entries = [], sh_expiredIds = [], sh_totalBytes = 0, sh_sequence = 0\<rparr>)"

subsection \<open>Nodes\<close>

text \<open>\<open>.replace(/[\u0000-\u001f\u007f]/gu, ' ').replace(/\s+/gu, ' ').trim()\<close> within two cuts.\<close>

definition boundedLine :: "string \<Rightarrow> nat \<Rightarrow> string" where
  "boundedLine v n = take n (js_trim (collapse js_white False (map (\<lambda>c. if control_char c then CHR '' '' else c) (take (n * 4) v))))"

definition revisionValue :: "json option \<Rightarrow> history_error + int" where
  "revisionValue v =
     (case v of
        Some (JNumber (IntN i)) \<Rightarrow> if is_safe_integer (IntN i) \<and> 0 \<le> i then Inr i else Inl INVALID_SNAPSHOT
      | _ \<Rightarrow> Inl INVALID_SNAPSHOT)"

definition opaqueText :: "nat \<Rightarrow> json option \<Rightarrow> history_error + string" where
  "opaqueText n v =
     (case v of
        Some (JString s) \<Rightarrow> if s = [] \<or> n < length s \<or> list_ex control_char s then Inl INVALID_SNAPSHOT else Inr s
      | _ \<Rightarrow> Inl INVALID_SNAPSHOT)"

definition validateSnapshotId :: "json option \<Rightarrow> history_error + string" where
  "validateSnapshotId = opaqueText MAX_ID_LENGTH"

definition validateTabId :: "json option \<Rightarrow> history_error + string" where
  "validateTabId = opaqueText 100"

definition nodeRef :: "json option \<Rightarrow> history_error + string" where
  "nodeRef v =
     (case v of
        Some (JString s) \<Rightarrow> if s = [] \<or> MAX_REF_LENGTH < length s then Inl INVALID_SNAPSHOT else Inr s
      | _ \<Rightarrow> Inl INVALID_SNAPSHOT)"

definition boolField :: "json option \<Rightarrow> bool option" where
  "boolField v = (case v of Some (JBool b) \<Rightarrow> Some b | _ \<Rightarrow> None)"

text \<open>A field that the loop over \<open>STRING_NODE_FIELDS\<close> copies when it is a text with characters.\<close>

definition textField :: "nat \<Rightarrow> json option \<Rightarrow> string option" where
  "textField n v = map_option (\<lambda>s. boundedLine s n) (truthy_text (jtext v))"

definition requiredText :: "nat \<Rightarrow> json option \<Rightarrow> string \<Rightarrow> string" where
  "requiredText n v dflt =
     (case textField n v of
        Some s \<Rightarrow> s
      | None \<Rightarrow> boundedLine (case jtext v of Some s \<Rightarrow> s | None \<Rightarrow> dflt) MAX_NAME_LENGTH)"

definition normalizeStoredNode :: "(string \<Rightarrow> string) \<Rightarrow> int \<Rightarrow> json \<Rightarrow> history_error + stored_node" where
  "normalizeStoredNode digest generation input =
     (case input of
        JObject fs \<Rightarrow>
          bindR (nodeRef (map_of fs ''ref'')) (\<lambda>r.
          bindR (if map_of fs ''generation'' = None then Inr generation else revisionValue (map_of fs ''generation'')) (\<lambda>gen.
            Inr \<lparr>st_node =
                  \<lparr>hn_ref = boundedLine r MAX_REF_LENGTH, hn_generation = gen,
                   hn_role = requiredText MAX_NODE_STRING_LENGTH (map_of fs ''role'') ''generic'',
                   hn_name = requiredText MAX_NAME_LENGTH (map_of fs ''name'') [],
                   hn_tag = requiredText MAX_NODE_STRING_LENGTH (map_of fs ''tag'') ''unknown'',
                   hn_type = textField MAX_NODE_STRING_LENGTH (map_of fs ''type''),
                   hn_testId = textField MAX_NODE_STRING_LENGTH (map_of fs ''testId''),
                   hn_frameId = textField MAX_NODE_STRING_LENGTH (map_of fs ''frameId''),
                   hn_text = textField MAX_NODE_STRING_LENGTH (map_of fs ''text''),
                   hn_visible = boolField (map_of fs ''visible''), hn_enabled = boolField (map_of fs ''enabled''),
                   hn_editable = boolField (map_of fs ''editable''), hn_checked = boolField (map_of fs ''checked''),
                   hn_required = boolField (map_of fs ''required''),
                   hn_value = (map_of fs ''value'' \<noteq> None \<or> sensitive_type (jtext (map_of fs ''type'')))\<rparr>,
                 st_textDigest = map_option digest (truthy_text (jtext (map_of fs ''text'')))\<rparr>))
      | _ \<Rightarrow> Inl INVALID_SNAPSHOT)"

definition withoutNodeText :: "hist_node \<Rightarrow> hist_node" where
  "withoutNodeText n = n\<lparr>hn_text := None\<rparr>"

definition field_if :: "string \<Rightarrow> ('a \<Rightarrow> json) \<Rightarrow> 'a option \<Rightarrow> (string \<times> json) list" where
  "field_if k f v = (case v of Some x \<Rightarrow> [(k, f x)] | None \<Rightarrow> [])"

text \<open>The node as an object.\<close>

definition node_fields :: "hist_node \<Rightarrow> (string \<times> json) list" where
  "node_fields n =
     [(''ref'', JString (hn_ref n)), (''generation'', JNumber (IntN (hn_generation n))), (''role'', JString (hn_role n)),
        (''name'', JString (hn_name n)), (''tag'', JString (hn_tag n))]
      @ field_if ''type'' JString (hn_type n) @ field_if ''testId'' JString (hn_testId n) @ field_if ''frameId'' JString (hn_frameId n)
      @ field_if ''text'' JString (hn_text n) @ field_if ''visible'' JBool (hn_visible n) @ field_if ''enabled'' JBool (hn_enabled n)
      @ field_if ''editable'' JBool (hn_editable n) @ field_if ''checked'' JBool (hn_checked n)
      @ field_if ''required'' JBool (hn_required n) @ (if hn_value n then [(''value'', JString redacted)] else [])"

definition node_json :: "hist_node \<Rightarrow> json" where
  "node_json n = JObject (node_fields n)"

fun normalizeNodes :: "(string \<Rightarrow> string) \<Rightarrow> int \<Rightarrow> json list \<Rightarrow> history_error + stored_node list" where
  "normalizeNodes digest generation [] = Inr []"
| "normalizeNodes digest generation (x # xs) =
     bindR (normalizeStoredNode digest generation x) (\<lambda>n.
     bindR (normalizeNodes digest generation xs) (\<lambda>ns. Inr (n # ns)))"

definition storedOf :: "stored_node \<Rightarrow> stored_node" where
  "storedOf n = n\<lparr>st_node := withoutNodeText (st_node n)\<rparr>"

text \<open>\<open>FVisible\<close> and the like compare the field, \<open>FText\<close> the digest of the text that is not retained.\<close>

fun field_equal :: "node_field \<Rightarrow> stored_node \<Rightarrow> stored_node \<Rightarrow> bool" where
  "field_equal FRole a b = (hn_role (st_node a) = hn_role (st_node b))"
| "field_equal FName a b = (hn_name (st_node a) = hn_name (st_node b))"
| "field_equal FTag a b = (hn_tag (st_node a) = hn_tag (st_node b))"
| "field_equal FType a b = (hn_type (st_node a) = hn_type (st_node b))"
| "field_equal FTestId a b = (hn_testId (st_node a) = hn_testId (st_node b))"
| "field_equal FFrameId a b = (hn_frameId (st_node a) = hn_frameId (st_node b))"
| "field_equal FVisible a b = (hn_visible (st_node a) = hn_visible (st_node b))"
| "field_equal FEnabled a b = (hn_enabled (st_node a) = hn_enabled (st_node b))"
| "field_equal FEditable a b = (hn_editable (st_node a) = hn_editable (st_node b))"
| "field_equal FChecked a b = (hn_checked (st_node a) = hn_checked (st_node b))"
| "field_equal FRequired a b = (hn_required (st_node a) = hn_required (st_node b))"
| "field_equal FValue a b = (hn_value (st_node a) = hn_value (st_node b))"
| "field_equal FText a b = (st_textDigest a = st_textDigest b)"

definition NODE_FIELDS :: "node_field list" where
  "NODE_FIELDS = [FRole, FName, FTag, FType, FTestId, FFrameId, FVisible, FEnabled, FEditable, FChecked, FRequired, FValue, FText]"

definition changedFields :: "stored_node \<Rightarrow> stored_node \<Rightarrow> node_field list" where
  "changedFields before after = filter (\<lambda>f. \<not> field_equal f before after) NODE_FIELDS"

definition sameStoredNodes :: "stored_node list \<Rightarrow> stored_node list \<Rightarrow> bool" where
  "sameStoredNodes ls rs =
     list_all2 (\<lambda>a b. list_all (\<lambda>f. field_equal f a b) NODE_FIELDS \<and> hn_ref (st_node a) = hn_ref (st_node b)
       \<and> hn_generation (st_node a) = hn_generation (st_node b)) ls rs"

subsection \<open>Differences\<close>

definition upper_hex :: "nat \<Rightarrow> char" where
  "upper_hex n = char_of (if n < 10 then 48 + n else 55 + n)"

definition unreserved :: "char \<Rightarrow> bool" where
  "unreserved c = (is_digit c \<or> 65 \<le> code_point c \<and> code_point c \<le> 90 \<or> 97 \<le> code_point c \<and> code_point c \<le> 122
     \<or> code_point c \<in> {45, 95, 46, 33, 126, 42, 39, 40, 41})"

definition encodeURIComponent :: "string \<Rightarrow> string" where
  "encodeURIComponent s =
     concat (map (\<lambda>c. if unreserved c then [c]
       else concat (map (\<lambda>b. [CHR ''%'', upper_hex (b div 16), upper_hex (b mod 16)]) (utf8 (code_point c)))) s)"

definition semanticKey :: "hist_node \<Rightarrow> string" where
  "semanticKey n =
     (let frame = (case hn_frameId n of Some f \<Rightarrow> f | None \<Rightarrow> ''main'')
      in case truthy_text (hn_testId n) of
           Some t \<Rightarrow> ''test:'' @ frame @ '':'' @ t
         | None \<Rightarrow> join_with '':'' (map encodeURIComponent
             [''semantic'', frame, hn_role n, hn_tag n, hn_name n, (case hn_type n of Some t \<Rightarrow> t | None \<Rightarrow> [])]))"

text \<open>The indices of the base nodes with the same reference, then those with the same key.\<close>

definition candidatesOf :: "stored_node list \<Rightarrow> hist_node \<Rightarrow> nat list" where
  "candidatesOf base n =
     filter (\<lambda>i. hn_ref (st_node (base ! i)) = hn_ref n) [0..<length base]
     @ filter (\<lambda>i. semanticKey (st_node (base ! i)) = semanticKey n) [0..<length base]"

record matching =
  ma_used :: "nat list"
  ma_added :: "hist_node list"
  ma_updated :: "node_update list"

definition match_node :: "stored_node list \<Rightarrow> matching \<Rightarrow> stored_node \<Rightarrow> matching" where
  "match_node base m current =
     (case List.find (\<lambda>i. i \<notin> set (ma_used m)) (candidatesOf base (st_node current)) of
        None \<Rightarrow> m\<lparr>ma_added := ma_added m @ [st_node current]\<rparr>
      | Some i \<Rightarrow>
        (let changed = changedFields (base ! i) current; m' = m\<lparr>ma_used := ma_used m @ [i]\<rparr>
         in if changed = [] then m'
            else m'\<lparr>ma_updated := ma_updated m @ [\<lparr>nu_key = semanticKey (st_node current), nu_before = st_node (base ! i),
                  nu_after = st_node current, nu_changed = changed\<rparr>]\<rparr>))"

definition matchAll :: "stored_node list \<Rightarrow> stored_node list \<Rightarrow> matching" where
  "matchAll base currents = foldl (match_node base) \<lparr>ma_used = [], ma_added = [], ma_updated = []\<rparr> currents"

definition removedNodes :: "stored_node list \<Rightarrow> nat list \<Rightarrow> hist_node list" where
  "removedNodes base used = map (\<lambda>i. st_node (base ! i)) (filter (\<lambda>i. i \<notin> set used) [0..<length base])"

definition makeDiff :: "(string \<Rightarrow> string) \<Rightarrow> hist_snapshot \<Rightarrow> stored_entry \<Rightarrow> string \<Rightarrow> history_error + snapshot_diff" where
  "makeDiff digest current base since =
     bindR (normalizeNodes digest (hs_generation current) (map node_json (hs_targets current))) (\<lambda>nodes.
       let m = matchAll (se_nodes base) nodes; removed = removedNodes (se_nodes base) (ma_used m)
       in Inr \<lparr>sd_sinceSnapshotId = since, sd_snapshotId = hs_snapshotId current, sd_tabId = hs_tabId current,
               sd_fromPageRevision = se_pageRevision base, sd_pageRevision = hs_pageRevision current,
               sd_pageRevisionChanged = (se_pageRevision base \<noteq> hs_pageRevision current),
               sd_added = ma_added m, sd_removed = removed, sd_updated = ma_updated m,
               sd_changed = (ma_added m \<noteq> [] \<or> removed \<noteq> [] \<or> ma_updated m \<noteq> [])\<rparr>)"

subsection \<open>Preparing an observation\<close>

definition arrayField :: "json option \<Rightarrow> json list option" where
  "arrayField v = (case v of Some (JArray xs) \<Rightarrow> Some xs | _ \<Rightarrow> None)"

definition givenRevision :: "json option \<Rightarrow> history_error + unit" where
  "givenRevision v = (if v = None then Inr () else bindR (revisionValue v) (\<lambda>_. Inr ()))"

definition assertSnapshotShape :: "json \<Rightarrow> history_error + (string \<times> json) list" where
  "assertSnapshotShape input =
     (case input of
        JObject fs \<Rightarrow>
          bindR (revisionValue (map_of fs ''generation'')) (\<lambda>_.
          bindR (givenRevision (map_of fs ''pageGeneration'')) (\<lambda>_.
          bindR (givenRevision (map_of fs ''pageRevision'')) (\<lambda>_.
          bindR (givenRevision (map_of fs ''frameGeneration'')) (\<lambda>_.
            if arrayField (map_of fs ''targets'') = None \<and> arrayField (map_of fs ''elements'') = None
            then Inl INVALID_SNAPSHOT else Inr fs))))
      | _ \<Rightarrow> Inl INVALID_SNAPSHOT)"

definition assertRevision :: "int \<Rightarrow> jsnum option \<Rightarrow> history_error + unit" where
  "assertRevision actual expected =
     (case expected of
        None \<Rightarrow> Inr ()
      | Some n \<Rightarrow> bindR (revisionValue (Some (JNumber n))) (\<lambda>x. if actual \<noteq> x then Inl PAGE_REVISION_MISMATCH else Inr ()))"

definition defaultSnapshotId :: "string option \<Rightarrow> (nat \<Rightarrow> string) \<Rightarrow> nat \<Rightarrow> int \<Rightarrow> string" where
  "defaultSnapshotId sessionId rnd sequence revision =
     (let part = (case sessionId of
          Some s \<Rightarrow> if s \<noteq> [] \<and> length s \<le> 100 \<and> list_all (\<lambda>c. is_digit c \<or> 65 \<le> code_point c \<and> code_point c \<le> 90
              \<or> 97 \<le> code_point c \<and> code_point c \<le> 122 \<or> c = CHR ''_'' \<or> c = CHR ''-'') s then s else ''session''
        | None \<Rightarrow> ''session'')
      in ''snp_'' @ part @ ''_'' @ base36_of (nat revision) @ ''_'' @ base36_of sequence @ ''_'' @ rnd sequence)"

fun nextSnapshotId :: "nat \<Rightarrow> (nat \<Rightarrow> string) \<Rightarrow> int \<Rightarrow> history \<Rightarrow> (history_error + string) \<times> history" where
  "nextSnapshotId 0 rnd revision h = (Inl RESOURCE_EXHAUSTED, h)"
| "nextSnapshotId (Suc attempts) rnd revision h =
     (let sequence = Suc (sh_sequence h); h' = h\<lparr>sh_sequence := sequence\<rparr>;
          generated = (case sh_idFactory h of Some f \<Rightarrow> f sequence revision
                       | None \<Rightarrow> defaultSnapshotId (sh_sessionId h) rnd sequence revision)
      in case validateSnapshotId (Some (JString generated)) of
           Inl e \<Rightarrow> (Inl e, h')
         | Inr i \<Rightarrow> if map_of (sh_entries h') i = None then (Inr i, h') else nextSnapshotId attempts rnd revision h')"

text \<open>The \<open>truncated\<close> field.\<close>

definition truncatedOf :: "json option \<Rightarrow> bool \<Rightarrow> hist_truncation option" where
  "truncatedOf v over =
     (case v of
        Some (JObject fs) \<Rightarrow>
          Some \<lparr>ht_content = (map_of fs ''content'' = Some (JBool True)),
                ht_targets = (map_of fs ''targets'' = Some (JBool True) \<or> over),
                ht_reason = (if map_of fs ''reason'' = Some (JString ''max_bytes'') then Some MaxBytes
                  else if map_of fs ''reason'' = Some (JString ''max_nodes'') then Some MaxNodes
                  else if over then Some MaxNodes else None)\<rparr>
      | Some (JArray _) \<Rightarrow> Some \<lparr>ht_content = False, ht_targets = over, ht_reason = (if over then Some MaxNodes else None)\<rparr>
      | _ \<Rightarrow> if over then Some \<lparr>ht_content = False, ht_targets = True, ht_reason = Some MaxNodes\<rparr> else None)"

definition safe_int :: "json option \<Rightarrow> int option" where
  "safe_int v = (case revisionValue v of Inr i \<Rightarrow> Some i | Inl _ \<Rightarrow> None)"

definition boundedUtf8 :: "nat \<Rightarrow> string \<Rightarrow> string \<times> bool" where
  "boundedUtf8 n s = (if utf8Length s \<le> n then (s, False) else (cutUtf8 n s, True))"

definition normalizePublicSnapshot ::
  "(string \<times> json) list \<Rightarrow> int \<Rightarrow> string \<Rightarrow> int \<Rightarrow> hist_node list \<Rightarrow> bool \<Rightarrow> nat \<Rightarrow> history_error + hist_snapshot" where
  "normalizePublicSnapshot fs generation snapshotId pageRevision targets over maxSnapshotBytes =
     bindR (if map_of fs ''tabId'' = None then Inr None else bindR (validateTabId (map_of fs ''tabId'')) (\<lambda>t. Inr (Some t))) (\<lambda>tabId.
       Inr \<lparr>hs_generation = generation, hs_tabId = tabId, hs_pageGeneration = safe_int (map_of fs ''pageGeneration''),
            hs_pageRevision = pageRevision, hs_frameGeneration = safe_int (map_of fs ''frameGeneration''),
            hs_snapshotId = snapshotId, hs_targets = targets,
            hs_url = map_option (\<lambda>s. boundedLine s 2048) (jtext (map_of fs ''url'')),
            hs_title = map_option (\<lambda>s. boundedLine s 500) (jtext (map_of fs ''title'')),
            hs_text = map_option (\<lambda>s. fst (boundedUtf8 100000 s)) (jtext (map_of fs ''text'')),
            hs_textTruncated = (map_of fs ''textTruncated'' = Some (JBool True)
              \<or> (case jtext (map_of fs ''text'') of Some s \<Rightarrow> snd (boundedUtf8 100000 s) | None \<Rightarrow> False)),
            hs_content = map_option (\<lambda>s. fst (boundedUtf8 maxSnapshotBytes s)) (jtext (map_of fs ''content'')),
            hs_format = (case jtext (map_of fs ''format'') of
                Some f \<Rightarrow> if f = ''structured'' then Some Structured else if f = ''compact'' then Some Compact else None
              | None \<Rightarrow> None),
            hs_truncated = truncatedOf (map_of fs ''truncated'') over\<rparr>)"

record prepared =
  pp_snapshot :: hist_snapshot
  pp_pageRevision :: int
  pp_storedNodes :: "stored_node list"
  pp_entryBytes :: nat

definition stored_json :: "stored_node \<Rightarrow> json" where
  "stored_json n = JObject ([(''node'', node_json (st_node n))] @ field_if ''textDigest'' JString (truthy_text (st_textDigest n)))"

definition entryBytes :: "string \<Rightarrow> string option \<Rightarrow> int \<Rightarrow> int \<Rightarrow> stored_node list \<Rightarrow> nat" where
  "entryBytes snapshotId tabId pageRevision generation nodes =
     utf8Length (stringify (JObject ([(''snapshotId'', JString snapshotId)] @ field_if ''tabId'' JString tabId
       @ [(''pageRevision'', JNumber (IntN pageRevision)), (''generation'', JNumber (IntN generation)),
          (''targets'', JArray (map stored_json nodes))])))"

text \<open>\<open>options.pageRevision ?? input.pageRevision ?? input.pageGeneration ?? input.generation\<close>.\<close>

definition chosenRevision :: "(string \<times> json) list \<Rightarrow> jsnum option \<Rightarrow> json option" where
  "chosenRevision fs opt =
     (case opt of Some n \<Rightarrow> Some (JNumber n)
      | None \<Rightarrow> if map_of fs ''pageRevision'' \<noteq> None then map_of fs ''pageRevision''
               else if map_of fs ''pageGeneration'' \<noteq> None then map_of fs ''pageGeneration'' else map_of fs ''generation'')"

definition rawTargets :: "(string \<times> json) list \<Rightarrow> json list" where
  "rawTargets fs =
     (case arrayField (map_of fs ''targets'') of Some xs \<Rightarrow> xs
      | None \<Rightarrow> (case arrayField (map_of fs ''elements'') of Some xs \<Rightarrow> xs | None \<Rightarrow> []))"

definition prepareNodes ::
  "(string \<Rightarrow> string) \<Rightarrow> (string \<times> json) list \<Rightarrow> int \<Rightarrow> string \<Rightarrow> history \<Rightarrow> history_error + prepared" where
  "prepareNodes digest fs revision snapshotId h =
     bindR (revisionValue (map_of fs ''generation'')) (\<lambda>generation.
     bindR (normalizeNodes digest generation (take (sh_maxNodes h) (rawTargets fs))) (\<lambda>nodes.
     bindR (normalizePublicSnapshot fs generation snapshotId revision (map st_node nodes) (sh_maxNodes h < length (rawTargets fs))
       (sh_maxSnapshotBytes h)) (\<lambda>snapshot.
       Inr \<lparr>pp_snapshot = snapshot, pp_pageRevision = revision, pp_storedNodes = map storedOf nodes,
            pp_entryBytes = entryBytes snapshotId (hs_tabId snapshot) revision (hs_generation snapshot) (map storedOf nodes)\<rparr>)))"

definition no_options :: record_options where
  "no_options = \<lparr>rc_snapshotId = None, rc_pageRevision = None, rc_expectedPageRevision = None\<rparr>"

definition prepareSnapshot ::
  "(string \<Rightarrow> string) \<Rightarrow> (nat \<Rightarrow> string) \<Rightarrow> json \<Rightarrow> record_options \<Rightarrow> history \<Rightarrow> (history_error + prepared) \<times> history" where
  "prepareSnapshot digest rnd input opts h =
     (case bindR (assertSnapshotShape input) (\<lambda>fs.
           bindR (revisionValue (chosenRevision fs (rc_pageRevision opts))) (\<lambda>revision.
           bindR (assertRevision revision (rc_expectedPageRevision opts)) (\<lambda>_. Inr (fs, revision)))) of
        Inl e \<Rightarrow> (Inl e, h)
      | Inr (fs, revision) \<Rightarrow>
        andthen
          (\<lambda>h. case (case rc_snapshotId opts of Some i \<Rightarrow> Some (JString i) | None \<Rightarrow> map_of fs ''snapshotId'') of
             None \<Rightarrow> nextSnapshotId 8 rnd revision h
           | Some v \<Rightarrow> (validateSnapshotId (Some v), h))
          (\<lambda>snapshotId h. (prepareNodes digest fs revision snapshotId h, h)) h)"

subsection \<open>The history\<close>

definition pruneEntries :: "int \<Rightarrow> history \<Rightarrow> history" where
  "pruneEntries now h =
     (let gone = filter (\<lambda>p. se_expiresAt (snd p) \<le> now) (sh_entries h)
      in h\<lparr>sh_entries := filter (\<lambda>p. now < se_expiresAt (snd p)) (sh_entries h),
           sh_totalBytes := sh_totalBytes h - int (sum_list (map (\<lambda>p. se_bytes (snd p)) gone)),
           sh_expiredIds := foldl (\<lambda>m p. jset m (fst p) now) (sh_expiredIds h) gone\<rparr>)"

fun dropTombstones :: "nat \<Rightarrow> (string, int) jmap \<Rightarrow> (string, int) jmap" where
  "dropTombstones n [] = []"
| "dropTombstones n (p # ps) = (if n < length (p # ps) then dropTombstones n ps else p # ps)"

definition tombstoneLimit :: "history \<Rightarrow> nat" where
  "tombstoneLimit h = min (nat HARD_MAX_SNAPSHOTS) (sh_maxSnapshots h * 2)"

definition prune :: "int \<Rightarrow> history \<Rightarrow> nat \<times> history" where
  "prune now h =
     (let h1 = pruneEntries now h;
          kept = filter (\<lambda>p. now < snd p + sh_ttlMs h) (sh_expiredIds h1)
      in (length (sh_entries h) - length (sh_entries h1),
          h1\<lparr>sh_expiredIds := dropTombstones (tombstoneLimit h) kept, sh_totalBytes := max 0 (sh_totalBytes h1)\<rparr>))"

definition pruned :: "int \<Rightarrow> history \<Rightarrow> history" where "pruned now h = snd (prune now h)"

text \<open>The loop that evicts from the oldest on until there is room for \<open>bytes\<close> more.\<close>

fun makeRoom :: "nat \<Rightarrow> nat \<Rightarrow> nat \<Rightarrow> (string, stored_entry) jmap \<Rightarrow> int \<Rightarrow> (string, stored_entry) jmap \<times> int" where
  "makeRoom maxSnapshots maxBytes bytes [] held = ([], held)"
| "makeRoom maxSnapshots maxBytes bytes (p # ps) held =
     (if maxSnapshots \<le> length (p # ps) \<or> int maxBytes < held + int bytes
      then makeRoom maxSnapshots maxBytes bytes ps (max 0 (held - int (se_bytes (snd p))))
      else (p # ps, held))"

definition retainPrepared :: "int \<Rightarrow> prepared \<Rightarrow> history \<Rightarrow> (history_error + hist_snapshot) \<times> history" where
  "retainPrepared now p h0 =
     (let h = pruned now h0; s = pp_snapshot p
      in case map_of (sh_entries h) (hs_snapshotId s) of
           Some e \<Rightarrow>
             if se_tabId e \<noteq> hs_tabId s \<or> se_pageRevision e \<noteq> pp_pageRevision p \<or> \<not> sameStoredNodes (se_nodes e) (pp_storedNodes p)
             then (Inl SNAPSHOT_ID_CONFLICT, h)
             else (Inr s, h)
         | None \<Rightarrow>
             if sh_maxSnapshotBytes h < pp_entryBytes p \<or> sh_maxBytes h < pp_entryBytes p then (Inl RESOURCE_EXHAUSTED, h)
             else (case makeRoom (sh_maxSnapshots h) (sh_maxBytes h) (pp_entryBytes p) (sh_entries h) (sh_totalBytes h) of
                     (es, held) \<Rightarrow>
                       (Inr s, h\<lparr>sh_entries := jset es (hs_snapshotId s)
                            \<lparr>se_snapshotId = hs_snapshotId s, se_tabId = hs_tabId s, se_pageRevision = pp_pageRevision p,
                             se_generation = hs_generation s, se_createdAt = now, se_expiresAt = now + sh_ttlMs h,
                             se_bytes = pp_entryBytes p, se_nodes = pp_storedNodes p\<rparr>,
                          sh_totalBytes := held + int (pp_entryBytes p),
                          sh_expiredIds := jdel (sh_expiredIds h) (hs_snapshotId s)\<rparr>)))"

definition recordSnapshot ::
  "(string \<Rightarrow> string) \<Rightarrow> (nat \<Rightarrow> string) \<Rightarrow> int \<Rightarrow> json \<Rightarrow> record_options \<Rightarrow> history \<Rightarrow> (history_error + hist_snapshot) \<times> history" where
  "recordSnapshot digest rnd now input opts =
     andthen (prepareSnapshot digest rnd input opts) (\<lambda>p. retainPrepared now p)"

definition getEntry :: "int \<Rightarrow> string \<Rightarrow> history \<Rightarrow> stored_entry option \<times> history" where
  "getEntry now snapshotId h = (let h' = pruned now h in (map_of (sh_entries h') snapshotId, h'))"

definition hasEntry :: "int \<Rightarrow> string \<Rightarrow> history \<Rightarrow> bool \<times> history" where
  "hasEntry now snapshotId h = (let h' = pruned now h in (map_of (sh_entries h') snapshotId \<noteq> None, h'))"

definition requireEntry :: "int \<Rightarrow> string \<Rightarrow> history \<Rightarrow> (history_error + stored_entry) \<times> history" where
  "requireEntry now snapshotId h =
     (let h' = pruned now h
      in (case map_of (sh_entries h') snapshotId of
            Some e \<Rightarrow> Inr e
          | None \<Rightarrow> if map_of (sh_expiredIds h') snapshotId \<noteq> None then Inl SNAPSHOT_EXPIRED else Inl SNAPSHOT_NOT_FOUND, h'))"

definition sameRevision :: "diff_options \<Rightarrow> int \<Rightarrow> stored_entry \<Rightarrow> history_error + unit" where
  "sameRevision opts revision base =
     bindR (assertRevision revision (df_expectedPageRevision opts)) (\<lambda>_.
       if df_requireSamePageRevision opts \<and> revision \<noteq> se_pageRevision base then Inl PAGE_REVISION_MISMATCH else Inr ())"

definition diffSnapshot ::
  "(string \<Rightarrow> string) \<Rightarrow> (nat \<Rightarrow> string) \<Rightarrow> int \<Rightarrow> json \<Rightarrow> string \<Rightarrow> diff_options \<Rightarrow> history \<Rightarrow> (history_error + snapshot_diff) \<times> history" where
  "diffSnapshot digest rnd now input since opts =
     andthen (prepareSnapshot digest rnd input no_options) (\<lambda>p.
     andthen (requireEntry now since) (\<lambda>base h.
       (bindR (sameRevision opts (hs_pageRevision (pp_snapshot p)) base) (\<lambda>_. makeDiff digest (pp_snapshot p) base since), h)))"

definition truncation_json :: "hist_truncation \<Rightarrow> json" where
  "truncation_json t =
     JObject ([(''content'', JBool (ht_content t)), (''targets'', JBool (ht_targets t))]
       @ field_if ''reason'' (\<lambda>r. JString (case r of MaxBytes \<Rightarrow> ''max_bytes'' | MaxNodes \<Rightarrow> ''max_nodes'')) (ht_reason t))"

text \<open>The returned snapshot as an object, as \<open>recordWithDiff\<close> hands it to \<open>diff\<close>.\<close>

definition snapshot_json :: "hist_snapshot \<Rightarrow> json" where
  "snapshot_json s =
     JObject ([(''generation'', JNumber (IntN (hs_generation s)))] @ field_if ''tabId'' JString (hs_tabId s)
       @ field_if ''pageGeneration'' (\<lambda>i. JNumber (IntN i)) (hs_pageGeneration s)
       @ [(''pageRevision'', JNumber (IntN (hs_pageRevision s)))]
       @ field_if ''frameGeneration'' (\<lambda>i. JNumber (IntN i)) (hs_frameGeneration s)
       @ [(''snapshotId'', JString (hs_snapshotId s)), (''targets'', JArray (map node_json (hs_targets s))),
          (''elements'', JArray (map node_json (hs_targets s)))]
       @ field_if ''url'' JString (hs_url s) @ field_if ''title'' JString (hs_title s) @ field_if ''text'' JString (hs_text s)
       @ (if hs_textTruncated s then [(''textTruncated'', JBool True)] else [])
       @ field_if ''content'' JString (hs_content s)
       @ field_if ''contentBytes'' (\<lambda>c. JNumber (IntN (int (utf8Length c)))) (hs_content s)
       @ field_if ''format'' (\<lambda>f. JString (case f of Structured \<Rightarrow> ''structured'' | Compact \<Rightarrow> ''compact'')) (hs_format s)
       @ field_if ''truncated'' truncation_json (hs_truncated s))"

definition recordWithDiff ::
  "(string \<Rightarrow> string) \<Rightarrow> (nat \<Rightarrow> string) \<Rightarrow> int \<Rightarrow> json \<Rightarrow> record_options \<Rightarrow> string option \<Rightarrow> diff_options option \<Rightarrow> history
   \<Rightarrow> (history_error + (hist_snapshot \<times> snapshot_diff option)) \<times> history" where
  "recordWithDiff digest rnd now input opts since dopts =
     (let df = (case dopts of Some d \<Rightarrow> d | None \<Rightarrow> \<lparr>df_expectedPageRevision = None, df_requireSamePageRevision = False\<rparr>)
      in case since of
           None \<Rightarrow>
             andthen (prepareSnapshot digest rnd input opts) (\<lambda>p.
             andthen (retainPrepared now p) (\<lambda>saved h. (Inr (saved, None), h)))
         | Some baseId \<Rightarrow>
             andthen (requireEntry now baseId) (\<lambda>base.
             andthen (prepareSnapshot digest rnd input opts) (\<lambda>p.
             andthen (\<lambda>h. (sameRevision df (pp_pageRevision p) base, h)) (\<lambda>_.
             andthen (retainPrepared now p) (\<lambda>saved.
             andthen (diffSnapshot digest rnd now (snapshot_json saved) baseId df) (\<lambda>d h. (Inr (saved, Some d), h)))))))"

definition clearHistory :: "history \<Rightarrow> history" where
  "clearHistory h = h\<lparr>sh_entries := [], sh_expiredIds := [], sh_totalBytes := 0\<rparr>"

subsection \<open>The invariant of the history\<close>

text \<open>The size of the retained entries.\<close>

definition held_bytes :: "(string, stored_entry) jmap \<Rightarrow> nat" where
  "held_bytes es = sum_list (map (\<lambda>p. se_bytes (snd p)) es)"

definition entry_ok :: "history \<Rightarrow> string \<times> stored_entry \<Rightarrow> bool" where
  "entry_ok h p \<longleftrightarrow> se_snapshotId (snd p) = fst p \<and> se_bytes (snd p) \<le> sh_maxSnapshotBytes h
     \<and> length (se_nodes (snd p)) \<le> sh_maxNodes h \<and> list_all (\<lambda>n. hn_text (st_node n) = None) (se_nodes (snd p))"

definition history_inv :: "history \<Rightarrow> bool" where
  "history_inv h \<longleftrightarrow> jwf (sh_entries h) \<and> list_all (entry_ok h) (sh_entries h)
     \<and> length (sh_entries h) \<le> sh_maxSnapshots h
     \<and> sh_totalBytes h = int (held_bytes (sh_entries h)) \<and> held_bytes (sh_entries h) \<le> sh_maxBytes h
     \<and> length (sh_expiredIds h) \<le> tombstoneLimit h
     \<and> (\<forall>k \<in> set (jkeys (sh_entries h)). map_of (sh_expiredIds h) k = None)
     \<and> 1 \<le> sh_maxSnapshots h \<and> 1 \<le> sh_ttlMs h"

lemma held_bytes_simps [simp]:
  "held_bytes [] = 0" "held_bytes (p # es) = se_bytes (snd p) + held_bytes es" "held_bytes (es @ fs) = held_bytes es + held_bytes fs"
  by (simp_all add: held_bytes_def)

lemma held_bytes_split: "held_bytes (filter P es) + held_bytes (filter (\<lambda>p. \<not> P p) es) = held_bytes es"
  by (induction es) auto

lemma dropTombstones_drop: "dropTombstones n m = drop (length m - n) m"
  by (induction n m rule: dropTombstones.induct) (auto simp: Suc_diff_le)

lemma map_of_foldl_mark:
  "map_of (foldl (\<lambda>m p. jset m (fst p) now) m ps) k = (if k \<in> fst ` set ps then Some now else map_of m k)"
  by (induction ps arbitrary: m) (auto simp: jmap_simps)

lemma map_of_filtered_None: "map_of m k = None \<Longrightarrow> map_of (filter P m) k = None"
  by (auto simp: map_of_eq_None_iff)

lemma map_of_drop_None: "map_of m k = None \<Longrightarrow> map_of (drop n m) k = None"
  by (auto simp: map_of_eq_None_iff dest: in_set_dropD)

lemma pruned_fields [simp]:
  "sh_entries (pruned now h) = filter (\<lambda>p. now < se_expiresAt (snd p)) (sh_entries h)"
  "sh_maxSnapshots (pruned now h) = sh_maxSnapshots h" "sh_maxBytes (pruned now h) = sh_maxBytes h"
  "sh_maxSnapshotBytes (pruned now h) = sh_maxSnapshotBytes h" "sh_maxNodes (pruned now h) = sh_maxNodes h"
  "sh_ttlMs (pruned now h) = sh_ttlMs h"
  by (simp_all add: pruned_def prune_def pruneEntries_def Let_def)

lemma pruned_inv:
  assumes "history_inv h"
  shows "history_inv (pruned now h)"
proof -
  let ?keep = "filter (\<lambda>p. now < se_expiresAt (snd p)) (sh_entries h)"
  let ?gone = "filter (\<lambda>p. se_expiresAt (snd p) \<le> now) (sh_entries h)"
  have jwf: "jwf (sh_entries h)" using assms by (simp add: history_inv_def)
  have sum: "held_bytes ?keep + held_bytes ?gone = held_bytes (sh_entries h)"
    using held_bytes_split[of "\<lambda>p. now < se_expiresAt (snd p)"] by (simp add: not_less)
  have bytes: "sh_totalBytes (pruned now h) = int (held_bytes ?keep)"
    using assms sum by (simp add: pruned_def prune_def pruneEntries_def Let_def history_inv_def held_bytes_def[of ?gone])
  have disjoint: "fst q \<noteq> fst p" if "p \<in> set ?keep" "q \<in> set ?gone" for p q
    using that jwf by (metis (mono_tags, lifting) eq_key_imp_eq_value leD mem_Collect_eq prod.collapse set_filter)
  have fresh: "map_of (sh_expiredIds (pruned now h)) k = None" if "k \<in> set (jkeys ?keep)" for k
  proof -
    have "k \<notin> fst ` set ?gone" using that disjoint by force
    moreover have "map_of (sh_expiredIds h) k = None" using that assms by (auto simp: history_inv_def)
    ultimately show ?thesis
      by (simp add: pruned_def prune_def pruneEntries_def Let_def dropTombstones_drop map_of_drop_None map_of_filtered_None map_of_foldl_mark)
  qed
  have few: "length (sh_expiredIds (pruned now h)) \<le> tombstoneLimit h"
    by (simp add: pruned_def prune_def Let_def dropTombstones_drop)
  have same: "entry_ok (pruned now h) = entry_ok h" "tombstoneLimit (pruned now h) = tombstoneLimit h"
    by (auto simp: entry_ok_def tombstoneLimit_def fun_eq_iff)
  have count: "length ?keep \<le> sh_maxSnapshots h"
    using assms order_trans[OF length_filter_le, of "sh_entries h"] by (simp add: history_inv_def)
  have size: "held_bytes ?keep \<le> sh_maxBytes h" using assms sum by (simp add: history_inv_def)
  have ok: "list_all (entry_ok h) ?keep" using assms by (simp add: history_inv_def list_all_iff)
  have jwf': "jwf ?keep" using jwf by (simp add: distinct_map_filter)
  show ?thesis
    unfolding history_inv_def same pruned_fields
    using assms jwf' ok count bytes size few fresh by (simp add: history_inv_def)
qed

lemma makeRoom_spec:
  assumes "makeRoom maxSnapshots maxBytes bytes ps t = (es, t')" "t = int (held_bytes ps)" "bytes \<le> maxBytes" "1 \<le> maxSnapshots"
  shows "\<exists>n. es = drop n ps" and "t' = int (held_bytes es)" and "length es < maxSnapshots" and "t' + int bytes \<le> int maxBytes"
proof -
  have "(\<exists>n. es = drop n ps) \<and> t' = int (held_bytes es) \<and> length es < maxSnapshots \<and> t' + int bytes \<le> int maxBytes"
    using assms
  proof (induction ps arbitrary: t)
    case (Cons p ps)
    show ?case
    proof (cases "maxSnapshots \<le> length (p # ps) \<or> int maxBytes < t + int bytes")
      case True
      with Cons.prems have "makeRoom maxSnapshots maxBytes bytes ps (int (held_bytes ps)) = (es, t')" by simp
      from Cons.IH[OF this refl Cons.prems(3,4)] show ?thesis by (metis drop_Suc_Cons)
    next
      case False
      with Cons.prems have "es = p # ps" "t' = t" by auto
      with False Cons.prems show ?thesis by (auto intro: exI[of _ 0])
    qed
  qed auto
  then show "\<exists>n. es = drop n ps" "t' = int (held_bytes es)" "length es < maxSnapshots" "t' + int bytes \<le> int maxBytes" by auto
qed

definition prepared_ok :: "history \<Rightarrow> prepared \<Rightarrow> bool" where
  "prepared_ok h p \<longleftrightarrow> length (pp_storedNodes p) \<le> sh_maxNodes h \<and> list_all (\<lambda>n. hn_text (st_node n) = None) (pp_storedNodes p)"

lemma retainPrepared_inv:
  assumes inv: "history_inv h0" and p: "prepared_ok h0 p"
  shows "history_inv (snd (retainPrepared now p h0))"
proof -
  let ?h = "pruned now h0" and ?id = "hs_snapshotId (pp_snapshot p)"
  have h: "history_inv ?h" using inv by (rule pruned_inv)
  show ?thesis
  proof (cases "map_of (sh_entries ?h) ?id \<noteq> None \<or> sh_maxSnapshotBytes ?h < pp_entryBytes p \<or> sh_maxBytes ?h < pp_entryBytes p")
    case True
    then have "snd (retainPrepared now p h0) = ?h" by (auto simp: retainPrepared_def Let_def split: option.splits)
    with h show ?thesis by simp
  next
    case False
    obtain es t where room: "makeRoom (sh_maxSnapshots ?h) (sh_maxBytes ?h) (pp_entryBytes p) (sh_entries ?h) (sh_totalBytes ?h) = (es, t)"
      by (cases "makeRoom (sh_maxSnapshots ?h) (sh_maxBytes ?h) (pp_entryBytes p) (sh_entries ?h) (sh_totalBytes ?h)")
    have t: "sh_totalBytes ?h = int (held_bytes (sh_entries ?h))" "1 \<le> sh_maxSnapshots ?h" using h by (simp_all add: history_inv_def)
    obtain n where es: "es = drop n (sh_entries ?h)" "t = int (held_bytes es)" "length es < sh_maxSnapshots ?h"
      "t + int (pp_entryBytes p) \<le> int (sh_maxBytes ?h)"
      using makeRoom_spec[OF room t(1) _ t(2)] False by auto
    have none: "map_of es ?id = None" using False es(1) by (metis map_of_drop_None)
    define e where "e = \<lparr>se_snapshotId = ?id, se_tabId = hs_tabId (pp_snapshot p), se_pageRevision = pp_pageRevision p,
       se_generation = hs_generation (pp_snapshot p), se_createdAt = now, se_expiresAt = now + sh_ttlMs ?h,
       se_bytes = pp_entryBytes p, se_nodes = pp_storedNodes p\<rparr>"
    have r: "snd (retainPrepared now p h0) = ?h\<lparr>sh_entries := es @ [(?id, e)], sh_totalBytes := t + int (pp_entryBytes p),
        sh_expiredIds := jdel (sh_expiredIds ?h) ?id\<rparr>"
      using False room none by (simp add: retainPrepared_def Let_def e_def jset_fresh)
    have "jwf es" unfolding es(1) drop_map[symmetric] by (rule distinct_drop) (use h in \<open>simp only: history_inv_def\<close>)
    then have "jwf (es @ [(?id, e)])" using none by (simp add: map_of_eq_None_iff)
    moreover have "list_all (entry_ok ?h) es"
      using h unfolding es(1) history_inv_def by (metis (no_types, lifting) in_set_dropD list_all_iff)
    then have "list_all (entry_ok ?h) (es @ [(?id, e)])"
      using p False by (simp add: entry_ok_def e_def prepared_ok_def)
    moreover have "length (jdel (sh_expiredIds ?h) ?id) \<le> tombstoneLimit ?h"
      using h jdel_length_le[of ?id "sh_expiredIds ?h"] by (simp add: history_inv_def)
    moreover have "map_of (sh_expiredIds ?h) k = None" if "k \<in> set (jkeys es)" for k
      using h that unfolding es(1) history_inv_def drop_map[symmetric] by (metis in_set_dropD)
    then have "\<forall>k \<in> set (jkeys (es @ [(?id, e)])). map_of (jdel (sh_expiredIds ?h) ?id) k = None"
      by (simp add: jmap_simps)
    moreover have "entry_ok (snd (retainPrepared now p h0)) = entry_ok ?h" "tombstoneLimit (snd (retainPrepared now p h0)) = tombstoneLimit ?h"
      unfolding r by (simp_all add: entry_ok_def tombstoneLimit_def fun_eq_iff)
    moreover have "length (es @ [(?id, e)]) \<le> sh_maxSnapshots ?h" "held_bytes (es @ [(?id, e)]) = held_bytes es + pp_entryBytes p"
      using es(3) by (simp_all add: e_def)
    ultimately show ?thesis using h es(2,4) unfolding history_inv_def by (simp add: r)
  qed
qed

subsection \<open>Every operation keeps the invariant\<close>

lemma normalizeNodes_length: "normalizeNodes digest g xs = Inr ns \<Longrightarrow> length ns = length xs"
  by (induction xs arbitrary: ns) (auto simp: bindR_Inr_iff)

lemma nextSnapshotId_state:
  "\<exists>n. snd (nextSnapshotId k rnd revision h) = h\<lparr>sh_sequence := n\<rparr>"
proof (induction k arbitrary: h)
  case 0
  show ?case by (auto intro: exI[of _ "sh_sequence h"])
next
  case (Suc k)
  from Suc[of "h\<lparr>sh_sequence := Suc (sh_sequence h)\<rparr>"] show ?case by (auto simp: Let_def split: sum.splits)
qed

lemma history_inv_sequence [simp]: "history_inv (h\<lparr>sh_sequence := n\<rparr>) = history_inv h"
  by (simp add: history_inv_def entry_ok_def tombstoneLimit_def cong: list.pred_cong)

lemma prepareSnapshot_state: "\<exists>n. snd (prepareSnapshot digest rnd input opts h) = h\<lparr>sh_sequence := n\<rparr>"
proof -
  have same: "\<exists>n. h = h\<lparr>sh_sequence := n\<rparr>" by (rule exI[of _ "sh_sequence h"]) simp
  show ?thesis
    using same nextSnapshotId_state[of 8 rnd _ h]
    by (auto simp: prepareSnapshot_def andthen_def split: sum.splits option.splits prod.splits) (metis snd_conv)+
qed

lemma prepareNodes_ok: "prepareNodes digest fs revision i h = Inr p \<Longrightarrow> prepared_ok h p"
  by (auto simp: prepareNodes_def bindR_Inr_iff prepared_ok_def storedOf_def withoutNodeText_def list_all_iff dest: normalizeNodes_length)

lemma prepareSnapshot_ok: "prepareSnapshot digest rnd input opts h = (Inr p, h') \<Longrightarrow> prepared_ok h' p"
  by (auto simp: prepareSnapshot_def andthen_def dest: prepareNodes_ok split: sum.splits prod.splits option.splits)

lemma prepareSnapshot_inv: "history_inv h \<Longrightarrow> history_inv (snd (prepareSnapshot digest rnd input opts h))"
  using prepareSnapshot_state[of digest rnd input opts h] by auto

lemma requireEntry_state [simp]: "snd (requireEntry now i h) = pruned now h"
  by (simp add: requireEntry_def Let_def)

text \<open>The sequencing rule at the invariant.\<close>

lemmas inv_then = andthen_post[of history_inv]

lemma diffSnapshot_inv:
  assumes "history_inv h"
  shows "history_inv (snd (diffSnapshot digest rnd now input since opts h))"
  unfolding diffSnapshot_def
proof (rule inv_then)
  show "history_inv (snd (prepareSnapshot digest rnd input no_options h))" using assms by (rule prepareSnapshot_inv)
  show "history_inv (snd (andthen (requireEntry now since)
      (\<lambda>base h. (bindR (sameRevision opts (hs_pageRevision (pp_snapshot p)) base)
        (\<lambda>_. makeDiff digest (pp_snapshot p) base since), h)) h'))" if "history_inv h'" for p h'
    by (rule inv_then) (simp_all add: pruned_inv that)
qed

lemma recordSnapshot_inv:
  assumes "history_inv h"
  shows "history_inv (snd (recordSnapshot digest rnd now input opts h))"
  unfolding recordSnapshot_def
  by (rule inv_then) (auto intro: prepareSnapshot_inv assms retainPrepared_inv dest: prepareSnapshot_ok)

lemma recordWithDiff_inv:
  assumes inv: "history_inv h"
  shows "history_inv (snd (recordWithDiff digest rnd now input opts since dopts h))"
proof (cases since)
  case None
  show ?thesis unfolding recordWithDiff_def Let_def None option.case
  proof (rule inv_then, goal_cases)
    case 1
    show ?case using inv by (rule prepareSnapshot_inv)
  next
    case (2 p h')
    show ?case by (rule inv_then) (use 2 in \<open>auto intro: retainPrepared_inv dest: prepareSnapshot_ok\<close>)
  qed
next
  case (Some baseId)
  show ?thesis unfolding recordWithDiff_def Let_def Some option.case
  proof (rule inv_then, goal_cases)
    case 1
    show ?case using inv by (simp add: pruned_inv)
  next
    case (2 base h1)
    show ?case
    proof (rule inv_then, goal_cases)
      case 1
      show ?case using 2(2) by (rule prepareSnapshot_inv)
    next
      case (2 p h2)
      show ?case
      proof (rule inv_then, goal_cases)
        case 1
        show ?case using 2(2) by simp
      next
        case (2 u h3)
        with \<open>prepareSnapshot digest rnd input opts h1 = (Inr p, h2)\<close> have "prepared_ok h3 p"
          by (auto dest: prepareSnapshot_ok)
        with 2(2) show ?case
          by (intro inv_then[OF retainPrepared_inv]) (auto intro: inv_then[OF diffSnapshot_inv])
      qed
    qed
  qed
qed

datatype history_event =
    PruneH int
  | RecordH int json record_options
  | GetH int string
  | HasH int string
  | DiffH int json string diff_options
  | RecordWithDiffH int json record_options "string option" "diff_options option"
  | ClearH

text \<open>The state each public method leaves, whether it returned or threw.\<close>

fun historyStep :: "(string \<Rightarrow> string) \<Rightarrow> (nat \<Rightarrow> string) \<Rightarrow> history \<Rightarrow> history_event \<Rightarrow> history" where
  "historyStep digest rnd h (PruneH now) = snd (prune now h)"
| "historyStep digest rnd h (RecordH now input opts) = snd (recordSnapshot digest rnd now input opts h)"
| "historyStep digest rnd h (GetH now i) = snd (getEntry now i h)"
| "historyStep digest rnd h (HasH now i) = snd (hasEntry now i h)"
| "historyStep digest rnd h (DiffH now input since opts) = snd (diffSnapshot digest rnd now input since opts h)"
| "historyStep digest rnd h (RecordWithDiffH now input opts since d) = snd (recordWithDiff digest rnd now input opts since d h)"
| "historyStep digest rnd h ClearH = clearHistory h"

lemma historyStep_inv: "history_inv h \<Longrightarrow> history_inv (historyStep digest rnd h e)"
  by (cases e) (auto simp: recordSnapshot_inv diffSnapshot_inv recordWithDiff_inv getEntry_def hasEntry_def Let_def pruned_inv
      pruned_inv[unfolded pruned_def] clearHistory_def history_inv_def[of "_\<lparr>sh_totalBytes := _\<rparr>"] entry_ok_def tombstoneLimit_def
      simp: history_inv_def[of h])

interpretation snapshots: machine "historyStep digest rnd" history_inv for digest rnd
  by unfold_locales (rule historyStep_inv)

lemma boundedNumber_range: "lo \<le> hi \<Longrightarrow> lo \<le> d \<Longrightarrow> d \<le> hi \<Longrightarrow> lo \<le> boundedNumber v lo hi d \<and> boundedNumber v lo hi d \<le> hi"
  by (auto simp: boundedNumber_def split: option.splits)

lemma newHistory_inv: "history_inv (newHistory opts)"
proof -
  have "1 \<le> boundedNumber (ho_maxSnapshots opts) 1 HARD_MAX_SNAPSHOTS DEFAULT_MAX_SNAPSHOTS"
    "1 \<le> boundedNumber (ho_ttlMs opts) 1 HARD_MAX_TTL_MS DEFAULT_TTL_MS"
    by (simp_all add: boundedNumber_range HARD_MAX_SNAPSHOTS_def DEFAULT_MAX_SNAPSHOTS_def HARD_MAX_TTL_MS_def DEFAULT_TTL_MS_def)
  then show ?thesis by (simp add: newHistory_def Let_def history_inv_def)
qed

text \<open>The limits are those of the constructor for ever.\<close>

definition limits :: "history \<Rightarrow> nat \<times> int \<times> nat \<times> nat \<times> nat" where
  "limits h = (sh_maxSnapshots h, sh_ttlMs h, sh_maxBytes h, sh_maxSnapshotBytes h, sh_maxNodes h)"

lemma limits_simps [simp]:
  "limits (pruned now h) = limits h" "limits (clearHistory h) = limits h" "limits (h\<lparr>sh_sequence := n\<rparr>) = limits h"
  by (simp_all add: limits_def clearHistory_def)

lemmas limits_then = andthen_post[of "\<lambda>h. limits h = l" for l]

lemma prepareSnapshot_limits [simp]: "limits (snd (prepareSnapshot digest rnd input opts h)) = limits h"
  using prepareSnapshot_state[of digest rnd input opts h] by auto

lemma retainPrepared_limits [simp]: "limits (snd (retainPrepared now p h)) = limits h"
  by (auto simp: retainPrepared_def Let_def limits_def split: option.splits prod.splits)

lemma diffSnapshot_limits [simp]: "limits (snd (diffSnapshot digest rnd now input since opts h)) = limits h"
  unfolding diffSnapshot_def by (rule limits_then, simp, rule limits_then) simp_all

lemma recordWithDiff_limits [simp]: "limits (snd (recordWithDiff digest rnd now input opts since dopts h)) = limits h"
proof (cases since)
  case None
  show ?thesis unfolding recordWithDiff_def Let_def None option.case
    by (rule limits_then, simp, rule limits_then) simp_all
next
  case (Some baseId)
  show ?thesis unfolding recordWithDiff_def Let_def Some option.case
    by (rule limits_then, simp, rule limits_then, simp, rule limits_then, simp, rule limits_then, simp, rule limits_then) simp_all
qed

lemma recordSnapshot_limits [simp]: "limits (snd (recordSnapshot digest rnd now input opts h)) = limits h"
  unfolding recordSnapshot_def by (rule limits_then) simp_all

lemma historyStep_limits: "limits (historyStep digest rnd h e) = limits h"
  by (cases e) (simp_all add: getEntry_def hasEntry_def Let_def flip: pruned_def)

interpretation snapshot_limits: machine "historyStep digest rnd" "\<lambda>h. limits h = l" for digest rnd l
  by unfold_locales (simp add: historyStep_limits)

lemma newHistory_limits:
  "limits (newHistory opts) = (m, ttl, b, sb, n) \<Longrightarrow> 1 \<le> m \<and> m \<le> 512 \<and> 1 \<le> ttl \<and> ttl \<le> HARD_MAX_TTL_MS \<and> int b \<le> HARD_MAX_BYTES
     \<and> sb \<le> b \<and> n \<le> 2000"
proof -
  assume l: "limits (newHistory opts) = (m, ttl, b, sb, n)"
  define mb where "mb = boundedNumber (ho_maxBytes opts) 1 HARD_MAX_BYTES DEFAULT_MAX_BYTES"
  have "1 \<le> mb \<and> mb \<le> HARD_MAX_BYTES"
    unfolding mb_def by (rule boundedNumber_range) (simp_all add: HARD_MAX_BYTES_def DEFAULT_MAX_BYTES_def)
  moreover have "1 \<le> boundedNumber (ho_maxSnapshotBytes opts) 1 (min HARD_MAX_SNAPSHOT_BYTES mb) (min DEFAULT_MAX_SNAPSHOT_BYTES mb)
      \<and> boundedNumber (ho_maxSnapshotBytes opts) 1 (min HARD_MAX_SNAPSHOT_BYTES mb) (min DEFAULT_MAX_SNAPSHOT_BYTES mb)
        \<le> min HARD_MAX_SNAPSHOT_BYTES mb"
    by (rule boundedNumber_range) (use calculation in \<open>auto simp: HARD_MAX_SNAPSHOT_BYTES_def DEFAULT_MAX_SNAPSHOT_BYTES_def\<close>)
  moreover have "1 \<le> boundedNumber (ho_maxSnapshots opts) 1 HARD_MAX_SNAPSHOTS DEFAULT_MAX_SNAPSHOTS
      \<and> boundedNumber (ho_maxSnapshots opts) 1 HARD_MAX_SNAPSHOTS DEFAULT_MAX_SNAPSHOTS \<le> 512"
    using boundedNumber_range[of 1 512 32] by (simp add: HARD_MAX_SNAPSHOTS_def DEFAULT_MAX_SNAPSHOTS_def)
  moreover have "1 \<le> boundedNumber (ho_ttlMs opts) 1 HARD_MAX_TTL_MS DEFAULT_TTL_MS
      \<and> boundedNumber (ho_ttlMs opts) 1 HARD_MAX_TTL_MS DEFAULT_TTL_MS \<le> HARD_MAX_TTL_MS"
    by (rule boundedNumber_range) (simp_all add: HARD_MAX_TTL_MS_def DEFAULT_TTL_MS_def)
  moreover have "boundedNumber (ho_maxNodes opts) 1 HARD_MAX_NODES DEFAULT_MAX_NODES \<le> 2000"
    using boundedNumber_range[of 1 2000 500] by (simp add: HARD_MAX_NODES_def DEFAULT_MAX_NODES_def)
  ultimately show ?thesis
    using l unfolding limits_def newHistory_def Let_def mb_def[symmetric] by (simp add: nat_le_iff) linarith
qed


subsection \<open>What a difference says\<close>

text \<open>
  The pairing behind a difference: for every current node the index of the base node it was matched with, if any.
\<close>

definition matched :: "nat option list \<Rightarrow> nat list" where
  "matched ms = concat (map (\<lambda>x. case x of Some i \<Rightarrow> [i] | None \<Rightarrow> []) ms)"

definition pairs_ok :: "stored_node list \<Rightarrow> stored_node list \<Rightarrow> nat option list \<Rightarrow> bool" where
  "pairs_ok base currents ms \<longleftrightarrow> length ms = length currents
     \<and> distinct (matched ms) \<and> set (matched ms) \<subseteq> {..<length base}
     \<and> (\<forall>(n, x) \<in> set (zip currents ms). case x of
           Some i \<Rightarrow> hn_ref (st_node (base ! i)) = hn_ref (st_node n) \<or> semanticKey (st_node (base ! i)) = semanticKey (st_node n)
         | None \<Rightarrow> set (candidatesOf base (st_node n)) \<subseteq> set (matched ms))"

definition unmatched :: "stored_node list \<Rightarrow> nat option list \<Rightarrow> hist_node list" where
  "unmatched currents ms = map (\<lambda>p. st_node (fst p)) (filter (\<lambda>p. snd p = None) (zip currents ms))"

definition update_of :: "stored_node list \<Rightarrow> stored_node \<times> nat option \<Rightarrow> node_update list" where
  "update_of base p =
     (case p of
        (n, Some i) \<Rightarrow> (if changedFields (base ! i) n = [] then []
          else [\<lparr>nu_key = semanticKey (st_node n), nu_before = st_node (base ! i), nu_after = st_node n, nu_changed = changedFields (base ! i) n\<rparr>])
      | (n, None) \<Rightarrow> [])"

lemma candidates_sound:
  "i \<in> set (candidatesOf base n) \<longleftrightarrow> i < length base
     \<and> (hn_ref (st_node (base ! i)) = hn_ref n \<or> semanticKey (st_node (base ! i)) = semanticKey n)"
  by (auto simp: candidatesOf_def)

lemma matched_simps [simp]: "matched [] = []" "matched (ms @ [x]) = matched ms @ (case x of Some i \<Rightarrow> [i] | None \<Rightarrow> [])"
  by (simp_all add: matched_def)

lemma update_of_simps [simp]:
  "update_of base (n, None) = []"
  "update_of base (n, Some i) = (if changedFields (base ! i) n = [] then []
     else [\<lparr>nu_key = semanticKey (st_node n), nu_before = st_node (base ! i), nu_after = st_node n, nu_changed = changedFields (base ! i) n\<rparr>])"
  by (simp_all add: update_of_def)

lemma matchAll_snoc: "matchAll base (ns @ [n]) = match_node base (matchAll base ns) n"
  by (simp add: matchAll_def)

lemma matchAll_pairs:
  "\<exists>ms. pairs_ok base currents ms \<and> ma_used (matchAll base currents) = matched ms
     \<and> ma_added (matchAll base currents) = unmatched currents ms
     \<and> ma_updated (matchAll base currents) = concat (map (update_of base) (zip currents ms))"
proof (induction currents rule: rev_induct)
  case Nil
  show ?case by (rule exI[of _ "[]"]) (simp add: pairs_ok_def unmatched_def matchAll_def)
next
  case (snoc n ns)
  then obtain ms where ms: "pairs_ok base ns ms" "ma_used (matchAll base ns) = matched ms"
    "ma_added (matchAll base ns) = unmatched ns ms" "ma_updated (matchAll base ns) = concat (map (update_of base) (zip ns ms))"
    by blast
  have len: "length ms = length ns" using ms(1) by (simp add: pairs_ok_def)
  let ?found = "List.find (\<lambda>i. i \<notin> set (ma_used (matchAll base ns))) (candidatesOf base (st_node n))"
  show ?case
  proof (cases ?found)
    case None
    then have "set (candidatesOf base (st_node n)) \<subseteq> set (matched ms)" by (auto simp: find_None_iff ms(2))
    then have "pairs_ok base (ns @ [n]) (ms @ [None])" using ms(1) len by (auto simp: pairs_ok_def)
    with None ms len show ?thesis
      by (intro exI[of _ "ms @ [None]"]) (simp add: matchAll_snoc match_node_def unmatched_def)
  next
    case (Some i)
    then have i: "i \<notin> set (matched ms)" "i \<in> set (candidatesOf base (st_node n))"
      by (auto simp: find_Some_iff ms(2))
    then have "pairs_ok base (ns @ [n]) (ms @ [Some i])"
      using ms(1) len by (fastforce simp: pairs_ok_def candidates_sound split: option.splits)
    with Some ms len show ?thesis
      by (intro exI[of _ "ms @ [Some i]"]) (simp add: matchAll_snoc match_node_def unmatched_def Let_def)
  qed
qed

lemma length_unmatched: "length ms = length currents \<Longrightarrow> length (unmatched currents ms) + length (matched ms) = length currents"
proof (induction ms arbitrary: currents rule: rev_induct)
  case (snoc x ms)
  then obtain ns n where "currents = ns @ [n]" by (cases currents rule: rev_cases) auto
  with snoc show ?case by (simp add: unmatched_def split: option.splits)
qed (simp add: unmatched_def matched_def)

lemma length_removed:
  assumes "distinct used" "set used \<subseteq> {..<length base}"
  shows "length (removedNodes base used) + length used = length base"
proof -
  have "set (filter (\<lambda>i. i \<in> set used) [0..<length base]) = set used" using assms(2) by auto
  then have "length (filter (\<lambda>i. i \<in> set used) [0..<length base]) = length used"
    using assms(1) by (metis distinct_card distinct_filter distinct_upt)
  then show ?thesis using sum_length_filter_compl[of "\<lambda>i. i \<in> set used" "[0..<length base]"] by (simp add: removedNodes_def)
qed


subsection \<open>The same observation again\<close>

text \<open>A node that a second normalisation leaves as it is, with the digest of the text that it shows.\<close>

definition settled_text :: "nat \<Rightarrow> string option \<Rightarrow> bool" where
  "settled_text n v = (case v of None \<Rightarrow> True | Some s \<Rightarrow> s \<noteq> [] \<and> boundedLine s n = s)"

definition settled_node :: "(string \<Rightarrow> string) \<Rightarrow> stored_node \<Rightarrow> bool" where
  "settled_node digest n \<longleftrightarrow> (let x = st_node n in
     hn_ref x \<noteq> [] \<and> length (hn_ref x) \<le> MAX_REF_LENGTH \<and> boundedLine (hn_ref x) MAX_REF_LENGTH = hn_ref x
     \<and> 0 \<le> hn_generation x \<and> hn_generation x \<le> MAX_SAFE
     \<and> boundedLine (hn_role x) MAX_NODE_STRING_LENGTH = hn_role x \<and> boundedLine (hn_name x) MAX_NAME_LENGTH = hn_name x
     \<and> boundedLine (hn_tag x) MAX_NODE_STRING_LENGTH = hn_tag x
     \<and> list_all (settled_text MAX_NODE_STRING_LENGTH) [hn_type x, hn_testId x, hn_frameId x, hn_text x]
     \<and> (sensitive_type (hn_type x) \<longrightarrow> hn_value x) \<and> st_textDigest n = map_option digest (hn_text x))"

lemma boundedLine_Nil [simp]: "boundedLine [] n = []"
  by (simp add: boundedLine_def js_trim_def)

lemma requiredText_settled: "boundedLine s n = s \<Longrightarrow> requiredText n (Some (JString s)) d = s"
  by (cases s) (simp_all add: requiredText_def textField_def jtext_def truthy_text_def)

lemma textField_settled: "settled_text n v \<Longrightarrow> textField n (map_option JString v) = v"
  by (cases v) (auto simp: settled_text_def textField_def jtext_def truthy_text_def split: list.splits)

lemma truthy_settled: "settled_text n v \<Longrightarrow> truthy_text (jtext (map_option JString v)) = v"
  by (cases v) (auto simp: settled_text_def jtext_def truthy_text_def split: list.splits)

lemma field_if_same: "map_of (field_if k f v @ fs) k = (if v = None then map_of fs k else map_option f v)"
  by (cases v) (auto simp: field_if_def)

lemma field_if_other: "k' \<noteq> k \<Longrightarrow> map_of (field_if k f v @ fs) k' = map_of fs k'"
  by (cases v) (auto simp: field_if_def)

lemma boolField_settled: "boolField (map_option JBool v) = v"
  by (cases v) (simp_all add: boolField_def)

text \<open>The fields of a printed node.\<close>

lemma node_fields_get:
  "map_of (node_fields n) ''ref'' = Some (JString (hn_ref n))" "map_of (node_fields n) ''generation'' = Some (JNumber (IntN (hn_generation n)))"
  "map_of (node_fields n) ''role'' = Some (JString (hn_role n))" "map_of (node_fields n) ''name'' = Some (JString (hn_name n))"
  "map_of (node_fields n) ''tag'' = Some (JString (hn_tag n))" "map_of (node_fields n) ''type'' = map_option JString (hn_type n)"
  "map_of (node_fields n) ''testId'' = map_option JString (hn_testId n)" "map_of (node_fields n) ''frameId'' = map_option JString (hn_frameId n)"
  "map_of (node_fields n) ''text'' = map_option JString (hn_text n)" "map_of (node_fields n) ''visible'' = map_option JBool (hn_visible n)"
  "map_of (node_fields n) ''enabled'' = map_option JBool (hn_enabled n)" "map_of (node_fields n) ''editable'' = map_option JBool (hn_editable n)"
  "map_of (node_fields n) ''checked'' = map_option JBool (hn_checked n)" "map_of (node_fields n) ''required'' = map_option JBool (hn_required n)"
  "map_of (node_fields n) ''value'' = (if hn_value n then Some (JString redacted) else None)"
  by (simp_all add: node_fields_def field_if_same field_if_other del: map_of_append)

lemma normalize_settled:
  assumes "settled_node digest n"
  shows "normalizeStoredNode digest g (node_json (st_node n)) = Inr n"
proof -
  have jt: "jtext (map_option JString v) = v" for v by (cases v) (simp_all add: jtext_def)
  have r: "nodeRef (Some (JString (hn_ref (st_node n)))) = Inr (hn_ref (st_node n))"
    and g: "revisionValue (Some (JNumber (IntN (hn_generation (st_node n))))) = Inr (hn_generation (st_node n))"
    using assms by (auto simp: nodeRef_def revisionValue_def settled_node_def Let_def)
  have v: "((if hn_value (st_node n) then Some (JString redacted) else None) \<noteq> None \<or> sensitive_type (hn_type (st_node n)))
      = hn_value (st_node n)"
    using assms by (auto simp: settled_node_def Let_def)
  have t: "truthy_text (hn_text (st_node n)) = hn_text (st_node n)"
    using assms truthy_settled[of MAX_NODE_STRING_LENGTH "hn_text (st_node n)"] by (simp add: settled_node_def Let_def jt)
  show ?thesis
    unfolding node_json_def normalizeStoredNode_def json.case node_fields_get jt r g v t
    apply (simp only: option.simps(3) if_False bindR_simps)
    using assms
    by (intro arg_cong[where f = Inr] stored_node.equality hist_node.equality)
      (simp_all add: g settled_node_def Let_def requiredText_settled textField_settled boolField_settled)
qed

lemma normalizeNodes_settled:
  "list_all (settled_node digest) ns \<Longrightarrow> normalizeNodes digest g (map node_json (map st_node ns)) = Inr ns"
  by (induction ns) (simp_all add: normalize_settled)

lemma changedFields_same: "changedFields (storedOf n) n = []"
  by (simp add: changedFields_def NODE_FIELDS_def storedOf_def withoutNodeText_def)

lemma only_one: "k < n \<Longrightarrow> filter (\<lambda>i. i = k) [0..<n] = [k]"
  by (induction n) (auto simp: less_Suc_eq filter_empty_conv)

text \<open>With references all different every node finds its own predecessor first.\<close>

lemma matchAll_same:
  assumes "distinct (map (\<lambda>n. hn_ref (st_node n)) ns)" and "k \<le> length ns"
  shows "matchAll (map storedOf ns) (take k ns) = \<lparr>ma_used = [0..<k], ma_added = [], ma_updated = []\<rparr>"
  using assms(2)
proof (induction k)
  case 0
  show ?case by (simp add: matchAll_def)
next
  case (Suc k)
  then have k: "k < length ns" by simp
  let ?n = "ns ! k"
  have "filter (\<lambda>i. hn_ref (st_node (map storedOf ns ! i)) = hn_ref (st_node ?n)) [0..<length ns] = filter (\<lambda>i. i = k) [0..<length ns]"
    using assms(1) k by (intro filter_cong) (auto simp: storedOf_def withoutNodeText_def distinct_conv_nth)
  also have "\<dots> = [k]" using k by (simp add: only_one)
  finally have "List.find (\<lambda>i. i \<notin> set [0..<k]) (candidatesOf (map storedOf ns) (st_node ?n)) = Some k"
    by (simp add: candidatesOf_def)
  with Suc k show ?case
    by (simp add: take_Suc_conv_app_nth matchAll_snoc match_node_def Let_def changedFields_same)
qed

text \<open>
  Observing the same page again reports no change. Whatever was retained for an observation whose nodes have
  different references and are in normal form, the difference of that observation to it adds, removes and updates
  nothing.
\<close>

theorem snapshot_diff_of_same:
  assumes "list_all (settled_node digest) ns" and "distinct (map (\<lambda>n. hn_ref (st_node n)) ns)"
    and "hs_targets current = map st_node ns" and "se_nodes base = map storedOf ns"
  shows "\<exists>d. makeDiff digest current base since = Inr d \<and> sd_added d = [] \<and> sd_removed d = [] \<and> sd_updated d = [] \<and> \<not> sd_changed d"
proof -
  have "matchAll (map storedOf ns) ns = \<lparr>ma_used = [0..<length ns], ma_added = [], ma_updated = []\<rparr>"
    using matchAll_same[OF assms(2), of "length ns"] by simp
  moreover have "removedNodes (map storedOf ns) [0..<length ns] = []" by (simp add: removedNodes_def filter_empty_conv)
  ultimately show ?thesis
    using normalizeNodes_settled[OF assms(1), of "hs_generation current"] assms(3,4) by (simp add: makeDiff_def Let_def)
qed

definition example_node :: "string \<Rightarrow> stored_node" where
  "example_node r =
     \<lparr>st_node = \<lparr>hn_ref = r, hn_generation = 0, hn_role = ''button'', hn_name = ''Buy'', hn_tag = ''button'', hn_type = None,
        hn_testId = None, hn_frameId = None, hn_text = Some ''Buy'', hn_visible = Some True, hn_enabled = Some True,
        hn_editable = None, hn_checked = None, hn_required = None, hn_value = False\<rparr>, st_textDigest = Some ''Buy''\<rparr>"

definition example_snapshot :: "stored_node list \<Rightarrow> hist_snapshot" where
  "example_snapshot ns =
     \<lparr>hs_generation = 0, hs_tabId = None, hs_pageGeneration = None, hs_pageRevision = 0, hs_frameGeneration = None,
      hs_snapshotId = ''s2'', hs_targets = map st_node ns, hs_url = None, hs_title = None, hs_text = None, hs_textTruncated = False,
      hs_content = None, hs_format = None, hs_truncated = None\<rparr>"

definition example_entry :: "stored_node list \<Rightarrow> stored_entry" where
  "example_entry ns =
     \<lparr>se_snapshotId = ''s1'', se_tabId = None, se_pageRevision = 0, se_generation = 0, se_createdAt = 0, se_expiresAt = 1,
      se_bytes = 1, se_nodes = map storedOf ns\<rparr>"

theorem snapshot_diff_of_same_witness:
  "\<exists>d. makeDiff (\<lambda>s. s) (example_snapshot [example_node ''e1'', example_node ''e2''])
      (example_entry [example_node ''e1'', example_node ''e2'']) ''s1'' = Inr d
     \<and> sd_added d = [] \<and> sd_removed d = [] \<and> sd_updated d = [] \<and> \<not> sd_changed d"
proof (rule snapshot_diff_of_same)
  show "list_all (settled_node (\<lambda>s. s)) [example_node ''e1'', example_node ''e2'']" by code_simp
  show "distinct (map (\<lambda>n. hn_ref (st_node n)) [example_node ''e1'', example_node ''e2''])" by (simp add: example_node_def)
qed (simp_all add: example_snapshot_def example_entry_def)


subsection \<open>Two surprises\<close>

text \<open>
  The history digests the text of a target as it is given, but the difference digests what is left of it in the
  returned snapshot, its spaces collapsed and 256 characters at most, although the registry hands out up to 500: a
  target whose text is not already in that form is reported as changed by every observation.
\<close>

definition example_history :: "rat \<Rightarrow> history" where
  "example_history n = newHistory \<lparr>ho_sessionId = None, ho_maxSnapshots = Some n, ho_ttlMs = None, ho_maxBytes = None,
     ho_maxSnapshotBytes = None, ho_maxNodes = None, ho_idFactory = None\<rparr>"

definition example_input :: "string \<Rightarrow> json" where
  "example_input t = JObject [(''generation'', JNumber (IntN 0)),
     (''targets'', JArray [JObject [(''ref'', JString ''e1''), (''text'', JString t)]])]"

definition observed_twice :: "rat \<Rightarrow> string \<Rightarrow> (history_error + (hist_snapshot \<times> snapshot_diff option)) \<times> history" where
  "observed_twice n t =
     recordWithDiff (\<lambda>s. s) (\<lambda>_. []) 1 (example_input t) (no_options\<lparr>rc_snapshotId := Some ''s2''\<rparr>) (Some ''s1'') None
       (snd (recordSnapshot (\<lambda>s. s) (\<lambda>_. []) 0 (example_input t) (no_options\<lparr>rc_snapshotId := Some ''s1''\<rparr>) (example_history n)))"

lemma same_text_reported_changed:
  "case observed_twice 2 ''Buy  now'' of
     (Inr (_, Some d), _) \<Rightarrow> map nu_changed (sd_updated d) = [[FText]] \<and> sd_added d = [] \<and> sd_removed d = [] | _ \<Rightarrow> False"
  by code_simp

text \<open>
  With room for one snapshot the observation evicts the base that it is compared to: the call reports the base as
  not found and leaves the new observation behind.
\<close>

lemma single_slot_loses_base:
  "case observed_twice 1 ''Buy'' of (r, h) \<Rightarrow> r = Inl SNAPSHOT_NOT_FOUND \<and> jkeys (sh_entries h) = [''s2'']"
  by code_simp

end
