(* ===== verification/AccountMetrics.thy ===== *)
theory AccountMetrics
  imports TaskTypes JsText
begin

text \<open>
  \<open>src/operations/account-metrics.ts\<close>: counters with a rolling window, gauges, histograms and the alerts over
  them. Readings of the clock and finite values are exact rationals.
\<close>

datatype counter_metric =
    Starts | Stops | LoginRestore | CheckpointFailures | LeaseLoss | ProxyQuarantine | AdmissionRejection

datatype metric = Counter counter_metric | StateTotals | Durations

record labels =
  lb_tenant :: "string option"
  lb_accountGroup :: "string option"
  lb_domain :: "string option"

text \<open>\<open>JSON.stringify\<close> of the metric and its three dimensions, an injective text: the tuple itself.\<close>

type_synonym metric_key = "metric \<times> string \<times> string \<times> string"

record alert_rule =
  rl_id :: string
  rl_metric :: counter_metric
  rl_threshold :: rat
  rl_windowMs :: int

record alert_state =
  al_ruleId :: string
  al_active :: bool
  al_value :: rat

datatype histogram_bound = UpTo int | Unbounded

record histogram =
  hg_sum :: rat
  hg_count :: nat
  hg_buckets :: "(histogram_bound, nat) jmap"

record account_metrics =
  am_maxCardinality :: nat
  am_bucketSizeMs :: int
  am_maxRollingBuckets :: nat
  am_counters :: "(metric_key, rat) jmap"
  am_gauges :: "(metric_key, rat) jmap"
  am_histograms :: "(metric_key, histogram) jmap"
  am_rolling :: "(metric_key, (int, rat) jmap) jmap"
  am_alertRules :: "alert_rule list"
  am_labelKeys :: "metric_key list"

datatype metrics_error =
    BadMaxCardinality | BadBucketSize | BadMaxRolling | BadRuleId | BadThreshold | BadWindow | RuleLimit | DuplicateRule
  | BadIncrement | BadGauge | BadHistogram

definition HISTOGRAM_BUCKETS :: "int list" where
  "HISTOGRAM_BUCKETS = [100, 500, 1000, 5000, 10000, 30000, 60000]"

text \<open>\<open>SAFE_RULE_ID\<close>.\<close>

definition safe_rule_id :: "string \<Rightarrow> bool" where
  "safe_rule_id v = ident_pattern 127 v"

definition dimension :: "string option \<Rightarrow> string" where
  "dimension v =
     (case v of
        None \<Rightarrow> ''unknown''
      | Some s \<Rightarrow> let normalized = js_trim s in if normalized = [] then ''unknown'' else take 128 normalized)"

definition integer_between :: "int \<Rightarrow> int \<Rightarrow> jsnum \<Rightarrow> bool" where
  "integer_between lo hi n = (is_safe_integer n \<and> (case n of IntN i \<Rightarrow> lo \<le> i \<and> i \<le> hi | OtherN \<Rightarrow> False))"

definition newMetrics :: "jsnum option \<Rightarrow> jsnum option \<Rightarrow> jsnum option \<Rightarrow> metrics_error + account_metrics" where
  "newMetrics maxCardinality bucketSizeMs maxRollingBuckets =
     (let c = (case maxCardinality of Some n \<Rightarrow> n | None \<Rightarrow> IntN 1000);
          b = (case bucketSizeMs of Some n \<Rightarrow> n | None \<Rightarrow> IntN 60000);
          r = (case maxRollingBuckets of Some n \<Rightarrow> n | None \<Rightarrow> IntN 1440)
      in if \<not> integer_between 1 100000 c then Inl BadMaxCardinality
         else if \<not> integer_between 1000 3600000 b then Inl BadBucketSize
         else if \<not> integer_between 1 10000 r then Inl BadMaxRolling
         else (case (c, b, r) of
            (IntN c, IntN b, IntN r) \<Rightarrow>
              Inr \<lparr>am_maxCardinality = nat c, am_bucketSizeMs = b, am_maxRollingBuckets = nat r, am_counters = [], am_gauges = [],
                   am_histograms = [], am_rolling = [], am_alertRules = [], am_labelKeys = []\<rparr>
          | _ \<Rightarrow> Inl BadMaxCardinality))"

definition addAlertRule :: "string \<Rightarrow> counter_metric \<Rightarrow> jsreal \<Rightarrow> jsnum \<Rightarrow> account_metrics \<Rightarrow> (metrics_error + unit) \<times> account_metrics" where
  "addAlertRule ruleId metric threshold windowMs m =
     (if \<not> safe_rule_id ruleId then (Inl BadRuleId, m)
      else case threshold of
        NonFinite \<Rightarrow> (Inl BadThreshold, m)
      | Fin x \<Rightarrow>
          if x \<le> 0 then (Inl BadThreshold, m)
          else (case windowMs of
             IntN w \<Rightarrow>
               if \<not> is_safe_integer windowMs \<or> w < am_bucketSizeMs m \<or> am_bucketSizeMs m * int (am_maxRollingBuckets m) < w
               then (Inl BadWindow, m)
               else if 100 \<le> length (am_alertRules m) then (Inl RuleLimit, m)
               else if list_ex (\<lambda>r. rl_id r = ruleId) (am_alertRules m) then (Inl DuplicateRule, m)
               else (Inr (), m\<lparr>am_alertRules := am_alertRules m
                      @ [\<lparr>rl_id = ruleId, rl_metric = metric, rl_threshold = x, rl_windowMs = w\<rparr>]\<rparr>)
           | OtherN \<Rightarrow> (Inl BadWindow, m)))"

definition metricKey :: "metric \<Rightarrow> labels \<Rightarrow> metric_key" where
  "metricKey metric ls = (metric, dimension (lb_tenant ls), dimension (lb_accountGroup ls), dimension (lb_domain ls))"

definition admitKey :: "metric_key \<Rightarrow> account_metrics \<Rightarrow> bool \<times> account_metrics" where
  "admitKey k m =
     (if k \<in> set (am_labelKeys m) then (True, m)
      else if am_maxCardinality m \<le> length (am_labelKeys m) then (False, m)
      else (True, m\<lparr>am_labelKeys := am_labelKeys m @ [k]\<rparr>))"

definition amount :: "('k, rat) jmap \<Rightarrow> 'k \<Rightarrow> rat" where
  "amount m k = (case map_of m k of Some v \<Rightarrow> v | None \<Rightarrow> 0)"

definition bucket_of :: "int \<Rightarrow> rat \<Rightarrow> int" where
  "bucket_of bucketSizeMs now = \<lfloor>now / of_int bucketSizeMs\<rfloor> * bucketSizeMs"

fun dropOldest :: "nat \<Rightarrow> ('k \<times> 'v) list \<Rightarrow> ('k \<times> 'v) list" where
  "dropOldest n [] = []"
| "dropOldest n (p # ps) = (if n < length (p # ps) then dropOldest n ps else p # ps)"

text \<open>The rolling part of \<open>increment\<close>, for one key.\<close>

definition rollAdd :: "int \<Rightarrow> nat \<Rightarrow> rat \<Rightarrow> rat \<Rightarrow> (int, rat) jmap \<Rightarrow> (int, rat) jmap" where
  "rollAdd bucketSizeMs maxRolling now v rolling =
     (let b = bucket_of bucketSizeMs now in dropOldest maxRolling (jset rolling b (amount rolling b + v)))"

definition rolling_of :: "account_metrics \<Rightarrow> metric_key \<Rightarrow> (int, rat) jmap" where
  "rolling_of m k = (case map_of (am_rolling m) k of Some r \<Rightarrow> r | None \<Rightarrow> [])"

definition incrementMetric :: "rat \<Rightarrow> counter_metric \<Rightarrow> labels \<Rightarrow> jsreal \<Rightarrow> account_metrics \<Rightarrow> (metrics_error + unit) \<times> account_metrics" where
  "incrementMetric now metric ls v m =
     (case v of
        NonFinite \<Rightarrow> (Inl BadIncrement, m)
      | Fin x \<Rightarrow>
          if x \<le> 0 then (Inl BadIncrement, m)
          else (let k = metricKey (Counter metric) ls in
            case admitKey k m of
              (False, m1) \<Rightarrow> (Inr (), m1)
            | (True, m1) \<Rightarrow>
                (Inr (), m1\<lparr>am_counters := jset (am_counters m1) k (amount (am_counters m1) k + x),
                   am_rolling := jset (am_rolling m1) k
                     (rollAdd (am_bucketSizeMs m1) (am_maxRollingBuckets m1) now x (rolling_of m1 k))\<rparr>)))"

definition setGauge :: "labels \<Rightarrow> jsreal \<Rightarrow> account_metrics \<Rightarrow> (metrics_error + unit) \<times> account_metrics" where
  "setGauge ls v m =
     (case v of
        NonFinite \<Rightarrow> (Inl BadGauge, m)
      | Fin x \<Rightarrow>
          (let k = metricKey StateTotals ls in
           case admitKey k m of
             (False, m1) \<Rightarrow> (Inr (), m1)
           | (True, m1) \<Rightarrow> (Inr (), m1\<lparr>am_gauges := jset (am_gauges m1) k x\<rparr>)))"

definition empty_histogram :: histogram where
  "empty_histogram = \<lparr>hg_sum = 0, hg_count = 0, hg_buckets = map (\<lambda>b. (UpTo b, 0)) HISTOGRAM_BUCKETS @ [(Unbounded, 0)]\<rparr>"

definition bound_of :: "rat \<Rightarrow> histogram_bound" where
  "bound_of v = (case find (\<lambda>b. v \<le> of_int b) HISTOGRAM_BUCKETS of Some b \<Rightarrow> UpTo b | None \<Rightarrow> Unbounded)"

definition observe :: "rat \<Rightarrow> histogram \<Rightarrow> histogram" where
  "observe v h =
     (let b = bound_of v in
      h\<lparr>hg_sum := hg_sum h + v, hg_count := hg_count h + 1,
        hg_buckets := jset (hg_buckets h) b ((case map_of (hg_buckets h) b of Some n \<Rightarrow> n | None \<Rightarrow> 0) + 1)\<rparr>)"

definition observeHistogram :: "labels \<Rightarrow> jsreal \<Rightarrow> account_metrics \<Rightarrow> (metrics_error + unit) \<times> account_metrics" where
  "observeHistogram ls v m =
     (case v of
        NonFinite \<Rightarrow> (Inl BadHistogram, m)
      | Fin x \<Rightarrow>
          if x < 0 then (Inl BadHistogram, m)
          else (let k = metricKey Durations ls in
            case admitKey k m of
              (False, m1) \<Rightarrow> (Inr (), m1)
            | (True, m1) \<Rightarrow>
                (Inr (), m1\<lparr>am_histograms := jset (am_histograms m1) k
                   (observe x (case map_of (am_histograms m1) k of Some h \<Rightarrow> h | None \<Rightarrow> empty_histogram))\<rparr>)))"

text \<open>What one key holds in the buckets that overlap the window.\<close>

definition windowTotal :: "int \<Rightarrow> int \<Rightarrow> rat \<Rightarrow> (int, rat) jmap \<Rightarrow> rat" where
  "windowTotal bucketSizeMs windowMs now rolling =
     sum_list (map snd (filter (\<lambda>p. now - of_int windowMs < of_int (fst p + bucketSizeMs) \<and> of_int (fst p) \<le> now) rolling))"

definition alertValue :: "alert_rule \<Rightarrow> rat \<Rightarrow> account_metrics \<Rightarrow> rat" where
  "alertValue r now m =
     foldl max 0 (map (\<lambda>p. windowTotal (am_bucketSizeMs m) (rl_windowMs r) now (snd p))
       (filter (\<lambda>p. fst (fst p) = Counter (rl_metric r)) (am_rolling m)))"

definition evaluateAlerts :: "rat \<Rightarrow> account_metrics \<Rightarrow> alert_state list" where
  "evaluateAlerts now m =
     map (\<lambda>r. \<lparr>al_ruleId = rl_id r, al_active = (rl_threshold r \<le> alertValue r now m), al_value = alertValue r now m\<rparr>) (am_alertRules m)"

definition metricsSnapshot :: "account_metrics \<Rightarrow> (metric_key, rat) jmap \<times> (metric_key, rat) jmap \<times> (metric_key, histogram) jmap" where
  "metricsSnapshot m = (am_counters m, am_gauges m, am_histograms m)"

subsection \<open>Everything is bounded\<close>

definition histogram_ok :: "histogram \<Rightarrow> bool" where
  "histogram_ok h \<longleftrightarrow> jkeys (hg_buckets h) = map UpTo HISTOGRAM_BUCKETS @ [Unbounded] \<and> hg_count h = sum_list (jvals (hg_buckets h))
     \<and> 0 \<le> hg_sum h"

definition metrics_ok :: "account_metrics \<Rightarrow> bool" where
  "metrics_ok m \<longleftrightarrow> distinct (am_labelKeys m) \<and> length (am_labelKeys m) \<le> am_maxCardinality m
     \<and> set (jkeys (am_counters m)) \<subseteq> set (am_labelKeys m) \<and> set (jkeys (am_gauges m)) \<subseteq> set (am_labelKeys m)
     \<and> set (jkeys (am_histograms m)) \<subseteq> set (am_labelKeys m) \<and> set (jkeys (am_rolling m)) \<subseteq> set (am_labelKeys m)
     \<and> jwf (am_counters m) \<and> jwf (am_gauges m) \<and> jwf (am_histograms m) \<and> jwf (am_rolling m)
     \<and> (\<forall>p \<in> set (am_rolling m). length (snd p) \<le> am_maxRollingBuckets m)
     \<and> (\<forall>p \<in> set (am_counters m). 0 < snd p) \<and> (\<forall>p \<in> set (am_histograms m). histogram_ok (snd p))
     \<and> length (am_alertRules m) \<le> 100 \<and> distinct (map rl_id (am_alertRules m))
     \<and> (\<forall>r \<in> set (am_alertRules m). 0 < rl_threshold r \<and> am_bucketSizeMs m \<le> rl_windowMs r
          \<and> rl_windowMs r \<le> am_bucketSizeMs m * int (am_maxRollingBuckets m))"

lemma dropOldest_drop: "dropOldest n m = drop (length m - n) m"
  by (induction n m rule: dropOldest.induct) (auto simp: Suc_diff_le)

lemma rollAdd_length: "length (rollAdd b n now v r) \<le> n"
  by (simp add: rollAdd_def Let_def dropOldest_drop)

lemma jset_all: "\<forall>p \<in> set m. P (snd p) \<Longrightarrow> P v \<Longrightarrow> \<forall>p \<in> set (jset m k v). P (snd p)"
  using jset_set_subset[of k v m] by fastforce

lemma jset_keys_subset: "fst ` set m \<subseteq> K \<Longrightarrow> k \<in> K \<Longrightarrow> fst ` set (jset m k v) \<subseteq> K"
  using jset_set_subset[of k v m] by fastforce

lemma admitKey_cases:
  assumes "admitKey k m = (b, m1)"
  obtains (known) "b" "m1 = m" "k \<in> set (am_labelKeys m)"
  | (full) "\<not> b" "m1 = m" "k \<notin> set (am_labelKeys m)" "am_maxCardinality m \<le> length (am_labelKeys m)"
  | (added) "b" "m1 = m\<lparr>am_labelKeys := am_labelKeys m @ [k]\<rparr>" "k \<notin> set (am_labelKeys m)" "length (am_labelKeys m) < am_maxCardinality m"
  using assms unfolding admitKey_def by (simp split: if_splits)

lemma key_added_ok:
  "metrics_ok m \<Longrightarrow> k \<notin> set (am_labelKeys m) \<Longrightarrow> length (am_labelKeys m) < am_maxCardinality m
   \<Longrightarrow> metrics_ok (m\<lparr>am_labelKeys := am_labelKeys m @ [k]\<rparr>)"
  by (simp add: metrics_ok_def subset_insertI2)

lemma admitKey_ok:
  assumes "metrics_ok m" and "admitKey k m = (b, m1)"
  shows "metrics_ok m1" and "b \<Longrightarrow> k \<in> set (am_labelKeys m1)"
    and "am_bucketSizeMs m1 = am_bucketSizeMs m" "am_maxRollingBuckets m1 = am_maxRollingBuckets m" "am_rolling m1 = am_rolling m"
  using assms(2) by (cases rule: admitKey_cases; use assms(1) in \<open>simp add: key_added_ok\<close>)+

lemma amount_nonneg: "\<forall>p \<in> set m. 0 < snd p \<Longrightarrow> 0 \<le> amount m k"
  by (auto simp: amount_def split: option.splits dest!: map_of_SomeD)

lemma sum_list_jset_nat:
  fixes m :: "('k, nat) jmap"
  shows "jwf m \<Longrightarrow> map_of m k = Some n \<Longrightarrow> sum_list (jvals (jset m k (Suc n))) = Suc (sum_list (jvals m))"
proof (induction m)
  case (Cons p m)
  then show ?case by (cases p) (simp split: if_splits)
qed simp

lemma bound_of_key: "bound_of v \<in> set (map UpTo HISTOGRAM_BUCKETS @ [Unbounded])"
  by (auto simp: bound_of_def find_Some_iff split: option.splits)

lemma observe_ok:
  assumes "histogram_ok h" "0 \<le> v"
  shows "histogram_ok (observe v h)"
proof -
  let ?b = "bound_of v"
  have keys: "jkeys (hg_buckets h) = map UpTo HISTOGRAM_BUCKETS @ [Unbounded]" using assms by (simp add: histogram_ok_def)
  have "?b \<in> set (jkeys (hg_buckets h))" unfolding keys by (rule bound_of_key)
  then obtain n where n: "map_of (hg_buckets h) ?b = Some n" by (metis map_of_eq_None_iff not_Some_eq set_map)
  have "jwf (hg_buckets h)" unfolding keys by (simp add: HISTOGRAM_BUCKETS_def)
  then have "sum_list (jvals (jset (hg_buckets h) ?b (Suc n))) = Suc (sum_list (jvals (hg_buckets h)))"
    using n by (rule sum_list_jset_nat)
  then show ?thesis
    using assms n \<open>?b \<in> set (jkeys (hg_buckets h))\<close> by (simp add: histogram_ok_def observe_def Let_def jset_keys)
qed

lemma empty_histogram_ok: "histogram_ok empty_histogram"
  by (simp add: histogram_ok_def empty_histogram_def HISTOGRAM_BUCKETS_def)

lemma rolling_ok:
  assumes "metrics_ok m" "k \<in> set (am_labelKeys m)" "0 < x"
  shows "metrics_ok (m\<lparr>am_counters := jset (am_counters m) k (amount (am_counters m) k + x),
     am_rolling := jset (am_rolling m) k (rollAdd (am_bucketSizeMs m) (am_maxRollingBuckets m) now x (rolling_of m k))\<rparr>)"
proof -
  have "\<forall>p \<in> set (jset (am_rolling m) k (rollAdd (am_bucketSizeMs m) (am_maxRollingBuckets m) now x (rolling_of m k))).
      length (snd p) \<le> am_maxRollingBuckets m"
    by (rule jset_all) (use assms in \<open>simp_all add: metrics_ok_def rollAdd_length\<close>)
  moreover have "\<forall>p \<in> set (jset (am_counters m) k (amount (am_counters m) k + x)). 0 < snd p"
    by (rule jset_all) (use assms amount_nonneg[of "am_counters m" k] in \<open>simp_all add: metrics_ok_def\<close>)
  ultimately show ?thesis using assms(1,2) by (simp add: metrics_ok_def jset_keys_subset)
qed

lemma incrementMetric_ok: "metrics_ok m \<Longrightarrow> metrics_ok (snd (incrementMetric now metric ls v m))"
  by (auto simp: incrementMetric_def Let_def split: jsreal.splits prod.splits bool.splits
      intro!: rolling_ok dest: admitKey_ok(1,2))

lemma setGauge_ok: "metrics_ok m \<Longrightarrow> metrics_ok (snd (setGauge ls v m))"
proof -
  assume m: "metrics_ok m"
  have "metrics_ok (m1\<lparr>am_gauges := jset (am_gauges m1) k x\<rparr>)" if "admitKey k m = (True, m1)" for k m1 x
    using admitKey_ok(1,2)[OF m that] by (simp add: metrics_ok_def jset_keys_subset)
  then show ?thesis using m by (auto simp: setGauge_def Let_def admitKey_ok split: jsreal.splits prod.splits bool.splits)
qed

lemma observeHistogram_ok: "metrics_ok m \<Longrightarrow> metrics_ok (snd (observeHistogram ls v m))"
proof -
  assume m: "metrics_ok m"
  have "metrics_ok (m1\<lparr>am_histograms := jset (am_histograms m1) k
      (observe x (case map_of (am_histograms m1) k of Some h \<Rightarrow> h | None \<Rightarrow> empty_histogram))\<rparr>)"
    if a: "admitKey k m = (True, m1)" and x: "0 \<le> x" for k m1 x
  proof -
    note m1 = admitKey_ok(1,2)[OF m a]
    have "histogram_ok (case map_of (am_histograms m1) k of Some h \<Rightarrow> h | None \<Rightarrow> empty_histogram)"
      using m1(1) empty_histogram_ok by (auto simp: metrics_ok_def split: option.splits dest!: map_of_SomeD)
    then have "\<forall>p \<in> set (jset (am_histograms m1) k
        (observe x (case map_of (am_histograms m1) k of Some h \<Rightarrow> h | None \<Rightarrow> empty_histogram))). histogram_ok (snd p)"
      using m1(1) x by (intro jset_all observe_ok) (simp_all add: metrics_ok_def)
    with m1 show ?thesis by (simp add: metrics_ok_def jset_keys_subset)
  qed
  then show ?thesis using m by (auto simp: observeHistogram_def Let_def admitKey_ok split: jsreal.splits prod.splits bool.splits)
qed

lemma addAlertRule_ok: "metrics_ok m \<Longrightarrow> metrics_ok (snd (addAlertRule i metric x w m))"
  by (auto simp: addAlertRule_def metrics_ok_def list_ex_iff split: jsreal.splits jsnum.splits)

datatype metrics_event =
    AddRule string counter_metric jsreal jsnum
  | Increment rat counter_metric labels jsreal
  | Gauge labels jsreal
  | Observe labels jsreal

fun metricsStep :: "account_metrics \<Rightarrow> metrics_event \<Rightarrow> account_metrics" where
  "metricsStep m (AddRule i metric x w) = snd (addAlertRule i metric x w m)"
| "metricsStep m (Increment now metric ls v) = snd (incrementMetric now metric ls v m)"
| "metricsStep m (Gauge ls v) = snd (setGauge ls v m)"
| "metricsStep m (Observe ls v) = snd (observeHistogram ls v m)"

interpretation metrics_machine: machine metricsStep metrics_ok
proof
  fix m e
  assume "metrics_ok m"
  then show "metrics_ok (metricsStep m e)"
    by (cases e) (simp_all add: incrementMetric_ok setGauge_ok observeHistogram_ok addAlertRule_ok)
qed

lemma newMetrics_ok: "newMetrics c b r = Inr m \<Longrightarrow> metrics_ok m"
  by (auto simp: newMetrics_def Let_def metrics_ok_def split: if_splits jsnum.splits)

text \<open>
  However the collector is used, it never holds more than \<open>maxCardinality\<close> keys, every series belongs to one of
  them, no series keeps more rolling buckets than configured, counters are positive, a histogram has exactly its
  eight buckets and counts every observation in one of them, and there are at most a hundred alert rules, with
  different names, positive thresholds and windows within the retained horizon.
\<close>

theorem metrics_bounded:
  assumes "newMetrics c b r = Inr m0"
  shows "let m = foldl metricsStep m0 es in metrics_ok m
     \<and> length (am_counters m) + length (am_gauges m) + length (am_histograms m) \<le> 3 * am_maxCardinality m
     \<and> length (am_rolling m) \<le> am_maxCardinality m"
proof -
  define m where "m = foldl metricsStep m0 es"
  have ok: "metrics_ok m" unfolding m_def by (rule metrics_machine.run_good) (rule newMetrics_ok[OF assms])
  have "length xs \<le> am_maxCardinality m" if "distinct (map fst xs)" "fst ` set xs \<subseteq> set (am_labelKeys m)" for xs :: "(metric_key \<times> 'v) list"
  proof -
    have "length (map fst xs) \<le> length (am_labelKeys m)"
      using that by (metis List.finite_set card_mono distinct_card card_length le_trans set_map)
    then show ?thesis using ok by (simp add: metrics_ok_def)
  qed
  note few = this
  have "length (am_counters m) \<le> am_maxCardinality m" "length (am_gauges m) \<le> am_maxCardinality m"
    "length (am_histograms m) \<le> am_maxCardinality m" "length (am_rolling m) \<le> am_maxCardinality m"
    using ok by (auto simp: metrics_ok_def intro!: few)
  with ok show ?thesis unfolding Let_def m_def[symmetric] by simp
qed

theorem metrics_bounded_witness:
  "case newMetrics None None None of Inr m0 \<Rightarrow> metrics_ok (foldl metricsStep m0 [Gauge \<lparr>lb_tenant = None, lb_accountGroup = None, lb_domain = None\<rparr> (Fin 3)]) | Inl _ \<Rightarrow> False"
proof -
  obtain m0 where m0: "newMetrics None None None = Inr m0"
    by (cases "newMetrics None None None") (auto simp: newMetrics_def integer_between_def MAX_SAFE_def)
  from metrics_bounded[OF m0] m0 show ?thesis by (simp add: Let_def del: foldl.simps)
qed

subsection \<open>Alerts see their window\<close>

text \<open>What the increments of a lg add to one bucket.\<close>

definition logged :: "int \<Rightarrow> (rat \<times> rat) list \<Rightarrow> int \<Rightarrow> rat" where
  "logged s lg b = sum_list (map snd (filter (\<lambda>e. bucket_of s (fst e) = b) lg))"

definition rollAll :: "int \<Rightarrow> nat \<Rightarrow> (rat \<times> rat) list \<Rightarrow> (int, rat) jmap" where
  "rollAll s n lg = foldl (\<lambda>r e. rollAdd s n (fst e) (snd e) r) [] lg"

lemma bucket_bounds:
  assumes "0 < s"
  shows "of_int (bucket_of s t) \<le> t" and "t < of_int (bucket_of s t + s)" and "s dvd bucket_of s t"
proof -
  have pos: "0 < (of_int s :: rat)" using assms by simp
  have "of_int \<lfloor>t / of_int s\<rfloor> * of_int s \<le> t" by (rule iffD1[OF pos_le_divide_eq[OF pos] of_int_floor_le])
  moreover have "t / of_int s < of_int \<lfloor>t / of_int s\<rfloor> + 1" by linarith
  then have "t < (of_int \<lfloor>t / of_int s\<rfloor> + 1) * of_int s" by (rule iffD1[OF pos_divide_less_eq[OF pos]])
  ultimately show "of_int (bucket_of s t) \<le> t" "t < of_int (bucket_of s t + s)" by (simp_all add: bucket_of_def algebra_simps)
qed (simp add: bucket_of_def)

lemma bucket_mono: "0 < s \<Longrightarrow> t \<le> t' \<Longrightarrow> bucket_of s t \<le> bucket_of s t'"
  by (simp add: bucket_of_def floor_mono divide_right_mono)

lemma multiples_gap:
  assumes "sorted_wrt (<) ks" "\<forall>k \<in> set ks. s dvd k" "0 < (s::int)" "ks \<noteq> []"
  shows "hd ks + int (length ks - 1) * s \<le> last ks"
  using assms
proof (induction ks)
  case (Cons a ks)
  show ?case
  proof (cases "ks = []")
    case False
    then have "hd ks + int (length ks - 1) * s \<le> last ks" using Cons by simp
    moreover have "a < hd ks" "s dvd hd ks" "s dvd a" using Cons.prems False by (cases ks; simp)+
    then have "a + s \<le> hd ks" using \<open>0 < s\<close> by (metis add.commute dvd_diff zdvd_imp_le zle_diff1_eq add_le_cancel_right diff_add_cancel diff_gt_0_iff_gt)
    moreover have "int (length ks) * s = int (length ks - 1) * s + s" using False by (cases ks) (simp_all add: algebra_simps)
    ultimately show ?thesis using False by simp
  qed simp
qed simp

definition roll_inv :: "int \<Rightarrow> nat \<Rightarrow> (rat \<times> rat) list \<Rightarrow> (int, rat) jmap \<Rightarrow> bool" where
  "roll_inv s n lg r \<longleftrightarrow> sorted_wrt (<) (jkeys r) \<and> (\<forall>k \<in> set (jkeys r). s dvd k \<and> map_of r k = Some (logged s lg k))
     \<and> length r \<le> n \<and> (lg = [] \<longleftrightarrow> r = []) \<and> (lg \<noteq> [] \<longrightarrow> last (jkeys r) = bucket_of s (fst (last lg)))
     \<and> (\<forall>e \<in> set lg. bucket_of s (fst e) \<in> set (jkeys r) \<or> bucket_of s (fst e) + int n * s \<le> last (jkeys r))"

lemma logged_snoc: "logged s (lg @ [(t, v)]) b = logged s lg b + (if bucket_of s t = b then v else 0)"
  by (simp add: logged_def)

lemma logged_none: "\<forall>e \<in> set lg. bucket_of s (fst e) \<noteq> b \<Longrightarrow> logged s lg b = 0"
  by (simp add: logged_def filter_empty_conv)

lemma sorted_last_max: "sorted_wrt (<) ks \<Longrightarrow> k \<in> set ks \<Longrightarrow> k \<le> last (ks :: int list)"
  by (induction ks) (auto simp: less_imp_le)

lemma roll_step:
  assumes inv: "roll_inv s n lg r" and s: "0 < s" and n: "1 \<le> n" and time: "lg = [] \<or> fst (last lg) \<le> t"
  shows "roll_inv s n (lg @ [(t, v)]) (rollAdd s n t v r)"
proof -
  let ?b = "bucket_of s t"
  have sorted: "sorted_wrt (<) (jkeys r)" and len: "length r \<le> n" and keys: "\<And>k. k \<in> set (jkeys r) \<Longrightarrow> s dvd k \<and> map_of r k = Some (logged s lg k)"
    and far: "\<And>e. e \<in> set lg \<Longrightarrow> bucket_of s (fst e) \<in> set (jkeys r) \<or> bucket_of s (fst e) + int n * s \<le> last (jkeys r)"
    and empty: "lg = [] \<longleftrightarrow> r = []"
    using inv unfolding roll_inv_def by blast+
  have last: "last (jkeys r) \<le> ?b" if "r \<noteq> []"
    using that inv time bucket_mono[OF s] by (auto simp: roll_inv_def)
  have below: "k \<le> ?b" if "k \<in> set (jkeys r)" for k
    using sorted_last_max[OF sorted that] last that by (cases r) auto
  have wf: "jwf r" using sorted by (simp add: strict_sorted_iff)
  show ?thesis
  proof (cases "?b \<in> set (jkeys r)")
    case True
    then have "?b = last (jkeys r)" using sorted_last_max[OF sorted True] last by (cases r) auto
    moreover have same: "jkeys (jset r ?b x) = jkeys r" for x using True by (simp only: jset_keys if_True)
    moreover from this have same_length: "length (jset r ?b x) = length r" for x by (metis length_map)
    moreover have "rollAdd s n t v r = jset r ?b (amount r ?b + v)"
      using len by (simp add: rollAdd_def Let_def dropOldest_drop same_length)
    moreover have "amount r ?b = logged s lg ?b" using keys[OF True] by (simp add: amount_def)
    moreover have "r \<noteq> []" using True by auto
    ultimately have r': "rollAdd s n t v r = jset r ?b (logged s lg ?b + v)" and k': "jkeys (rollAdd s n t v r) = jkeys r"
      and b: "?b = last (jkeys r)" and "r \<noteq> []"
      by simp_all
    have "map_of (rollAdd s n t v r) k = Some (logged s (lg @ [(t, v)]) k)" if "k \<in> set (jkeys r)" for k
      using keys[OF that] unfolding r' by (simp add: jset_apply logged_snoc)
    moreover have "length (rollAdd s n t v r) \<le> n" by (rule rollAdd_length)
    moreover have "rollAdd s n t v r \<noteq> []" using k' \<open>r \<noteq> []\<close> by (metis map_is_Nil_conv)
    moreover have "\<forall>e \<in> set (lg @ [(t, v)]). bucket_of s (fst e) \<in> set (jkeys r) \<or> bucket_of s (fst e) + int n * s \<le> last (jkeys r)"
      using far True by simp
    ultimately show ?thesis using sorted keys b unfolding roll_inv_def k' by simp
  next
    case False
    have gone: "bucket_of s (fst e) \<noteq> ?b" if "e \<in> set lg" for e
    proof
      assume e: "bucket_of s (fst e) = ?b"
      then have "?b + int n * s \<le> last (jkeys r)" "r \<noteq> []" using far[OF that] False empty that by auto
      then show False using last s n by (smt (verit) mult_pos_pos of_nat_0_less_iff zero_less_one order_less_le_trans)
    qed
    then have zero: "logged s lg ?b = 0" by (intro logged_none) blast
    let ?r = "r @ [(?b, v)]"
    have m: "map_of r ?b = None" using False by (simp add: map_of_eq_None_iff)
    then have r: "rollAdd s n t v r = drop (length ?r - n) ?r"
      by (simp add: rollAdd_def Let_def dropOldest_drop jset_fresh amount_def)
    have less: "k < ?b" if "k \<in> set (jkeys r)" for k using below[OF that] False that by (metis order_le_less)
    have sorted': "sorted_wrt (<) (jkeys ?r)" using sorted less by (auto simp: sorted_wrt_append)
    have div: "\<forall>k \<in> set (jkeys ?r). s dvd k" using keys bucket_bounds(3)[OF s] by auto
    have map': "map_of ?r k = Some (logged s (lg @ [(t, v)]) k)" if "k \<in> set (jkeys ?r)" for k
    proof (cases "k = ?b")
      case True
      with m zero show ?thesis by (simp add: logged_snoc map_add_def)
    next
      case False
      then have "k \<in> set (jkeys r)" using that by auto
      with keys[of k] False show ?thesis by (simp add: logged_snoc map_add_def)
    qed
    show ?thesis
    proof (cases "length r < n")
      case True
      then have "rollAdd s n t v r = ?r" by (simp add: r)
      moreover have "bucket_of s (fst e) \<in> set (jkeys ?r) \<or> bucket_of s (fst e) + int n * s \<le> ?b" if "e \<in> set (lg @ [(t, v)])" for e
        using that far[of e] last empty by (cases "r = []") auto
      ultimately show ?thesis using sorted' div map' True unfolding roll_inv_def by simp
    next
      case full: False
      then have eq: "length r = n" "r \<noteq> []" using len n by auto
      then have "length ?r - n = Suc 0" using eq by simp
      then have d: "rollAdd s n t v r = tl ?r" unfolding r by (simp only: drop_Suc drop_0)
      have gap: "fst (hd r) + int n * s \<le> ?b"
        using multiples_gap[OF sorted' div s] eq by (simp add: hd_append hd_map)
      have keys': "jkeys (tl ?r) = tl (jkeys r) @ [?b]" using eq by (simp add: map_tl)
      have member: "k \<in> set (tl (jkeys r))" if "k \<in> set (jkeys r)" "k \<noteq> fst (hd r)" for k
        using that eq by (cases r) auto
      have "map_of (tl ?r) k = Some (logged s (lg @ [(t, v)]) k)" if "k \<in> set (jkeys (tl ?r))" for k
      proof -
        have "map_of (tl ?r) k = map_of ?r k"
          using that sorted' eq by (cases r) (auto simp: strict_sorted_iff)
        moreover have "k \<in> set (jkeys ?r)" using that by (metis list.set_sel(2) map_tl tl_Nil)
        ultimately show ?thesis using map' by simp
      qed
      moreover have "sorted_wrt (<) (jkeys (tl ?r))" "\<forall>k \<in> set (jkeys (tl ?r)). s dvd k"
        using sorted' div by (metis map_tl sorted_wrt.simps(2) list.collapse tl_Nil, metis list.set_sel(2) map_tl tl_Nil)
      moreover have "bucket_of s (fst e) \<in> set (jkeys (tl ?r)) \<or> bucket_of s (fst e) + int n * s \<le> ?b" if "e \<in> set (lg @ [(t, v)])" for e
        using that far[of e] last eq(2) gap member unfolding keys' by fastforce
      ultimately show ?thesis using eq n unfolding d roll_inv_def by (simp add: keys')
    qed
  qed
qed

lemma roll_run: "0 < s \<Longrightarrow> 1 \<le> n \<Longrightarrow> sorted (map fst lg) \<Longrightarrow> roll_inv s n lg (rollAll s n lg)"
proof (induction lg rule: rev_induct)
  case Nil
  then show ?case by (simp add: roll_inv_def rollAll_def)
next
  case (snoc e lg)
  then have "lg = [] \<or> fst (last lg) \<le> fst e" by (cases lg rule: rev_cases) (auto simp: sorted_append)
  with snoc roll_step[of s n lg "rollAll s n lg" "fst e" "snd e"] show ?case by (simp add: rollAll_def sorted_append)
qed

lemma sum_at: "distinct ks \<Longrightarrow> (\<Sum>k\<leftarrow>ks. if b = k then v else (0::rat)) = (if b \<in> set ks then v else 0)"
  by (induction ks) auto

lemma logged_sum:
  "distinct ks \<Longrightarrow> (\<Sum>k\<leftarrow>ks. logged s lg k) = sum_list (map snd (filter (\<lambda>e. bucket_of s (fst e) \<in> set ks) lg))"
proof (induction lg)
  case (Cons e lg)
  have "logged s (e # lg) k = (if bucket_of s (fst e) = k then snd e else 0) + logged s lg k" for k by (simp add: logged_def)
  with Cons show ?case by (simp add: sum_list_addf sum_at)
next
  case Nil
  have "logged s [] = (\<lambda>_. 0)" by (simp add: logged_def fun_eq_iff)
  then show ?case by simp
qed

lemma sum_filter_mono:
  "\<forall>e \<in> set lg. 0 < snd e \<Longrightarrow> \<forall>e \<in> set lg. P e \<longrightarrow> Q e
   \<Longrightarrow> sum_list (map snd (filter P lg)) \<le> (sum_list (map snd (filter Q lg)) :: rat)"
  by (induction lg) (auto simp: less_imp_le add_increasing)

lemma sorted_last_time: "sorted (map fst lg) \<Longrightarrow> e \<in> set lg \<Longrightarrow> fst e \<le> fst (last lg)"
  by (induction lg rule: rev_induct) (auto simp: sorted_append)

text \<open>All events of a window that is one bucket shorter than what is retained are counted.\<close>

lemma window_counts_all:
  assumes s: "0 < s" and n: "1 \<le> n" and "sorted (map fst lg)" and "lg \<noteq> []" and now: "fst (last lg) \<le> now"
    and w: "w \<le> s * (int n - 1)" and pos: "\<forall>e \<in> set lg. 0 < snd e"
  shows "sum_list (map snd (filter (\<lambda>e. now - of_int w < fst e) lg)) \<le> windowTotal s w now (rollAll s n lg)"
proof -
  let ?r = "rollAll s n lg"
  let ?K = "filter (\<lambda>k. now - of_int w < of_int (k + s) \<and> of_int k \<le> now) (jkeys ?r)"
  have inv: "roll_inv s n lg ?r" using assms(1-3) by (rule roll_run)
  have sorted: "sorted_wrt (<) (jkeys ?r)" using inv by (simp add: roll_inv_def)
  have last: "last (jkeys ?r) = bucket_of s (fst (last lg))" using inv \<open>lg \<noteq> []\<close> by (simp add: roll_inv_def)
  have recent: "bucket_of s (fst e) \<in> set ?K" if e: "e \<in> set lg" "now - of_int w < fst e" for e
  proof -
    note b = bucket_bounds[OF s, of "fst e"]
    have "fst e \<le> now" using sorted_last_time[OF assms(3) e(1)] now by simp
    moreover have "bucket_of s (fst e) \<in> set (jkeys ?r)"
    proof (rule ccontr)
      assume "bucket_of s (fst e) \<notin> set (jkeys ?r)"
      then have "bucket_of s (fst e) + int n * s \<le> bucket_of s (fst (last lg))"
        using inv e(1) unfolding roll_inv_def last by blast
      then have "of_int (bucket_of s (fst e) + int n * s) \<le> now"
        using bucket_bounds(1)[OF s, of "fst (last lg)"] now by (meson of_int_le_iff order_trans)
      moreover have "of_int w \<le> (of_int (s * (int n - 1)) :: rat)" using w by (simp only: of_int_le_iff)
      ultimately show False using b(2) e(2) by (simp add: algebra_simps)
    qed
    ultimately show ?thesis using b e by simp
  qed
  have total: "windowTotal s w now ?r = (\<Sum>k\<leftarrow>?K. logged s lg k)"
  proof -
    have "snd p = logged s lg (fst p)" if "p \<in> set ?r" for p
      using that inv sorted unfolding roll_inv_def strict_sorted_iff by (metis map_of_eq_Some_iff option.inject prod.collapse imageI set_map)
    then have mp: "map snd (filter P ?r) = map (\<lambda>p. logged s lg (fst p)) (filter P ?r)" for P by simp
    show ?thesis unfolding windowTotal_def mp by (simp add: filter_map comp_def)
  qed
  have "distinct ?K" using sorted by (simp add: strict_sorted_iff)
  have "sum_list (map snd (filter (\<lambda>e. now - of_int w < fst e) lg)) \<le> sum_list (map snd (filter (\<lambda>e. bucket_of s (fst e) \<in> set ?K) lg))"
    by (rule sum_filter_mono) (use pos recent in blast)+
  also have "\<dots> = (\<Sum>k\<leftarrow>?K. logged s lg k)" using \<open>distinct ?K\<close> by (rule logged_sum[symmetric])
  finally show ?thesis unfolding total .
qed

text \<open>A run of increments, and what of it belongs to one key.\<close>

definition incrementStep :: "account_metrics \<Rightarrow> rat \<times> counter_metric \<times> labels \<times> rat \<Rightarrow> account_metrics" where
  "incrementStep m e = (case e of (now, metric, ls, v) \<Rightarrow> snd (incrementMetric now metric ls (Fin v) m))"

definition log_of :: "metric_key \<Rightarrow> (rat \<times> counter_metric \<times> labels \<times> rat) list \<Rightarrow> (rat \<times> rat) list" where
  "log_of k es = map (\<lambda>(now, metric, ls, v). (now, v)) (filter (\<lambda>(now, metric, ls, v). metricKey (Counter metric) ls = k) es)"

definition key_ok :: "int \<Rightarrow> nat \<Rightarrow> (rat \<times> counter_metric \<times> labels \<times> rat) list \<Rightarrow> account_metrics \<Rightarrow> metric_key \<Rightarrow> bool" where
  "key_ok s n es m k \<longleftrightarrow> (k \<in> set (am_labelKeys m) \<longrightarrow> rolling_of m k = rollAll s n (log_of k es))
     \<and> (k \<notin> set (am_labelKeys m) \<longrightarrow> log_of k es = [] \<or> am_maxCardinality m \<le> length (am_labelKeys m))
     \<and> (k \<notin> set (am_labelKeys m) \<longrightarrow> map_of (am_rolling m) k = None)"

definition run_ok :: "account_metrics \<Rightarrow> (rat \<times> counter_metric \<times> labels \<times> rat) list \<Rightarrow> account_metrics \<Rightarrow> bool" where
  "run_ok m0 es m \<longleftrightarrow> am_bucketSizeMs m = am_bucketSizeMs m0 \<and> am_maxRollingBuckets m = am_maxRollingBuckets m0
     \<and> am_alertRules m = am_alertRules m0 \<and> jwf (am_rolling m)
     \<and> (\<forall>k. key_ok (am_bucketSizeMs m0) (am_maxRollingBuckets m0) es m k)"

lemma log_of_snoc: "log_of k (es @ [(now, metric, ls, v)]) = log_of k es @ (if metricKey (Counter metric) ls = k then [(now, v)] else [])"
  by (simp add: log_of_def)

lemma rollAll_snoc: "rollAll s n (lg @ [(t, v)]) = rollAdd s n t v (rollAll s n lg)"
  by (simp add: rollAll_def)

lemma rolling_of_jset:
  "rolling_of (m\<lparr>am_counters := c, am_rolling := jset (am_rolling m) k r\<rparr>) k' = (if k' = k then r else rolling_of m k')"
  by (simp add: rolling_of_def jset_apply)

lemma rolling_of_keys [simp]: "rolling_of (m\<lparr>am_labelKeys := ks\<rparr>) k = rolling_of m k"
  by (simp add: rolling_of_def)

lemma run_ok_step:
  assumes ok: "run_ok m0 es m" and v: "0 < v"
  shows "run_ok m0 (es @ [(now, metric, ls, v)]) (incrementStep m (now, metric, ls, v))"
proof -
  let ?k = "metricKey (Counter metric) ls"
  obtain b m1 where a: "admitKey ?k m = (b, m1)" by (cases "admitKey ?k m")
  have run: "incrementStep m (now, metric, ls, v) = (if b then m1\<lparr>am_counters := jset (am_counters m1) ?k (amount (am_counters m1) ?k + v),
      am_rolling := jset (am_rolling m1) ?k (rollAdd (am_bucketSizeMs m1) (am_maxRollingBuckets m1) now v (rolling_of m1 ?k))\<rparr> else m1)"
    using v a by (simp add: incrementStep_def incrementMetric_def Let_def)
  have k: "key_ok (am_bucketSizeMs m0) (am_maxRollingBuckets m0) es m k" for k using ok unfolding run_ok_def by blast
  have same: "am_bucketSizeMs m = am_bucketSizeMs m0" "am_maxRollingBuckets m = am_maxRollingBuckets m0"
    "am_alertRules m = am_alertRules m0" "jwf (am_rolling m)" using ok by (simp_all add: run_ok_def)
  from a show ?thesis
  proof (cases rule: admitKey_cases)
    case known
    have "key_ok (am_bucketSizeMs m0) (am_maxRollingBuckets m0) (es @ [(now, metric, ls, v)]) (incrementStep m (now, metric, ls, v)) k'" for k'
      using k[of k'] known same unfolding run
      by (cases "k' = ?k") (simp_all add: key_ok_def rolling_of_jset log_of_snoc rollAll_snoc jset_apply)
    with known same show ?thesis unfolding run run_ok_def by simp
  next
    case full
    have "key_ok (am_bucketSizeMs m0) (am_maxRollingBuckets m0) (es @ [(now, metric, ls, v)]) (incrementStep m (now, metric, ls, v)) k'" for k'
      using k[of k'] full same unfolding run by (auto simp: key_ok_def log_of_snoc)
    with full same show ?thesis unfolding run run_ok_def by simp
  next
    case added
    have fresh: "map_of (am_rolling m) ?k = None" "log_of ?k es = []" using k[of ?k] added by (auto simp: key_ok_def)
    have "key_ok (am_bucketSizeMs m0) (am_maxRollingBuckets m0) (es @ [(now, metric, ls, v)]) (incrementStep m (now, metric, ls, v)) k'" for k'
    proof (cases "k' = ?k")
      case True
      with added same fresh show ?thesis
        unfolding run by (simp add: key_ok_def rolling_of_def log_of_snoc rollAll_def jset_apply)
    next
      case False
      with k[of k'] added same show ?thesis
        unfolding run by (simp add: key_ok_def rolling_of_def log_of_snoc jset_apply)
    qed
    with added same show ?thesis unfolding run run_ok_def by simp
  qed
qed

lemma run_ok_run:
  assumes "am_labelKeys m0 = []" "am_rolling m0 = []" and "\<forall>(now, metric, ls, v) \<in> set es. 0 < v"
  shows "run_ok m0 es (foldl incrementStep m0 es)"
  using assms(3)
proof (induction es rule: rev_induct)
  case Nil
  then show ?case using assms(1,2) by (simp add: run_ok_def key_ok_def log_of_def rolling_of_def rollAll_def)
next
  case (snoc e es)
  then show ?case by (cases e) (auto intro: run_ok_step)
qed

lemma foldl_max_start: "(a :: rat) \<le> foldl max a xs"
proof (induction xs arbitrary: a)
  case (Cons x xs)
  from order_trans[OF max.cobounded1 Cons] show ?case by simp
qed simp

lemma foldl_max_ge: "x \<in> set xs \<or> x \<le> (a :: rat) \<Longrightarrow> x \<le> foldl max a xs"
proof (induction xs arbitrary: a)
  case (Cons y ys)
  show ?case
  proof (cases "x \<in> set ys")
    case True
    then show ?thesis using Cons.IH by simp
  next
    case False
    then have "x \<le> max a y" using Cons.prems by auto
    from order_trans[OF this foldl_max_start] show ?thesis by simp
  qed
qed simp


definition example_metrics :: account_metrics where
  "example_metrics = \<lparr>am_maxCardinality = 10, am_bucketSizeMs = 60000, am_maxRollingBuckets = 2, am_counters = [], am_gauges = [],
     am_histograms = [], am_rolling = [], am_alertRules = [\<lparr>rl_id = ''r'', rl_metric = Starts, rl_threshold = 2, rl_windowMs = 60000\<rparr>],
     am_labelKeys = []\<rparr>"

definition no_labels :: labels where
  "no_labels = \<lparr>lb_tenant = None, lb_accountGroup = None, lb_domain = None\<rparr>"


text \<open>
  \<open>addAlertRule\<close> admits a window as long as the whole history, which holds one bucket less than the window can
  overlap: with one bucket of a minute, two increments two milliseconds apart are counted as one by a rule over a minute.
\<close>

lemma full_window_misses:
  "case newMetrics None (Some (IntN 60000)) (Some (IntN 1)) of
     Inr m0 \<Rightarrow>
       (let ls = \<lparr>lb_tenant = None, lb_accountGroup = None, lb_domain = None\<rparr>;
            m = foldl incrementStep (snd (addAlertRule ''r'' Starts (Fin 2) (IntN 60000) m0)) [(59999, Starts, ls, 1), (60001, Starts, ls, 1)]
        in map al_value (evaluateAlerts 60001 m) = [1] \<and> \<not> list_ex al_active (evaluateAlerts 60001 m))
   | Inl _ \<Rightarrow> False"
  by code_simp

end
