(* ===== verification/WorkerDaemon.thy ===== *)
theory WorkerDaemon
  imports Scheduler Admission AccountMetrics
begin

text \<open>
  \<open>src/distributed/worker-daemon.ts\<close>: the worker that takes tasks from the queue, checks that it still is the
  account's worker, asks for admission, runs the task and hands the result back, over the in-memory adapter.
  Every call of the adapter can also fail without an effect (\<open>down\<close>), as a queue behind a network does. The
  fetcher, the session manager, the URL parser, the clock, lease names and permit tokens are arguments. A task
  is cut at its awaits into three steps: the claim, the start (placement and admission) and the end (its result
  is there and is handed back); a recovery timer is one step. Event messages are ASCII constants.
\<close>

subsection \<open>State\<close>

datatype recovery_kind = EnqueueWork | PersistWork

record recovery =
  rw_task :: task
  rw_kind :: recovery_kind

text \<open>A task in execution: its local record, its start, the permit it holds and its domain.\<close>

record frame =
  fr_task :: task
  fr_start :: int
  fr_permit :: "string option"
  fr_domain :: string
  fr_started :: bool

record worker =
  wk_workerId :: string
  wk_hostname :: string
  wk_capacity :: int
  wk_tenants :: "string list"
  wk_namespace :: string
  wk_hasPolicy :: bool
  wk_hasSessions :: bool
  wk_store :: "placement state_store option"
  wk_admission :: "controller option"
  wk_metrics :: "account_metrics option"
  wk_queue :: queue
  wk_activeTasks :: int
  wk_isRunning :: bool
  wk_closed :: bool
  wk_stopping :: bool
  wk_shutdownFinished :: bool
  wk_frames :: "(nat, frame) jmap"
  wk_nextFrame :: nat
  wk_controllers :: "(string, bool) jmap"
  wk_retryTimers :: "(nat, recovery \<times> int) jmap"
  wk_nextTimer :: nat
  wk_recoveryFailures :: "queue_error list"
  wk_lateRecovery :: "recovery list"
  wk_cursor :: nat

definition QUEUE_RECOVERY_DELAY_MS :: int where "QUEUE_RECOVERY_DELAY_MS = 1000"

definition MSG_CLAIMED :: string where "MSG_CLAIMED = ''worker claimed the task''"
definition MSG_SESSION :: string where "MSG_SESSION = ''browser session created''"
definition MSG_DONE :: string where "MSG_DONE = ''task completed''"
definition MSG_RETRY :: string where "MSG_RETRY = ''task will be retried''"
definition MSG_FAILED :: string where "MSG_FAILED = ''task failed''"

definition withEvent :: "int \<Rightarrow> task_phase \<Rightarrow> string \<Rightarrow> task \<Rightarrow> task" where
  "withEvent now phase message t = t\<lparr>t_events := Some (appendTaskEvent now t phase message)\<rparr>"

text \<open>An exception: its \<open>code\<close>, its message if it is an \<open>Error\<close>, and whether it is the stale placement.\<close>

record thrown =
  th_code :: "string option"
  th_message :: "string option"
  th_stale :: bool

definition plain_error :: "string \<Rightarrow> thrown" where
  "plain_error m = \<lparr>th_code = None, th_message = Some m, th_stale = False\<rparr>"

definition stale_error :: thrown where
  "stale_error = \<lparr>th_code = Some ''TASK_PLACEMENT_STALE'', th_message = Some ''Task account placement is stale'', th_stale = True\<rparr>"

text \<open>\<open>/^[A-Z][A-Z0-9_-]{1,63}$/\<close>.\<close>

definition code_pattern :: "string \<Rightarrow> bool" where
  "code_pattern s =
     (case s of
        [] \<Rightarrow> False
      | c # cs \<Rightarrow> char_in (CHR ''A'') (CHR ''Z'') c \<and> 1 \<le> length cs \<and> length cs \<le> 63
          \<and> list_all (\<lambda>d. char_in (CHR ''A'') (CHR ''Z'') d \<or> is_digit d \<or> d = CHR ''_'' \<or> d = CHR ''-'') cs)"

definition taskErrorCode :: "thrown \<Rightarrow> string option" where
  "taskErrorCode e = (case th_code e of Some c \<Rightarrow> if code_pattern c then Some c else None | None \<Rightarrow> None)"

text \<open>\<open>/^HTTP \d{3}\b/\<close>.\<close>

definition word_char :: "char \<Rightarrow> bool" where
  "word_char c = (alnum_char c \<or> c = CHR ''_'')"

definition http_message :: "string \<Rightarrow> bool" where
  "http_message m = (startsWith m ''HTTP '' \<and> 8 \<le> length m \<and> list_all is_digit (take 3 (drop 5 m))
     \<and> (length m = 8 \<or> \<not> word_char (m ! 8)))"

definition safeTaskError :: "thrown \<Rightarrow> string" where
  "safeTaskError e =
     (case taskErrorCode e of
        Some c \<Rightarrow> ''Task failed ('' @ c @ '').''
      | None \<Rightarrow> (case th_message e of
            Some m \<Rightarrow> if http_message m then take 64 m else ''Task execution failed.''
          | None \<Rightarrow> ''Task execution failed.''))"

subsection \<open>The constructor\<close>

datatype worker_error = BadWorkerTenant | BadWorkerNamespace

record worker_options =
  wo_workerId :: "string option"
  wo_hostname :: "string option"
  wo_concurrency :: "jsreal option"
  wo_tenants :: "string list option"
  wo_namespace :: "string option"
  wo_hasPolicy :: bool
  wo_hasSessions :: bool
  wo_store :: "placement state_store option"
  wo_admission :: "controller option"
  wo_metrics :: "account_metrics option"

definition boundedInteger :: "jsreal \<Rightarrow> int \<Rightarrow> int \<Rightarrow> int \<Rightarrow> int" where
  "boundedInteger v minimum maximum fallback =
     (case v of Fin x \<Rightarrow> max minimum (min maximum \<lfloor>x\<rfloor>) | NonFinite \<Rightarrow> fallback)"

definition validWorkerNamespace :: "string \<Rightarrow> worker_error + string" where
  "validWorkerNamespace v =
     (let normalized = js_trim v in if namespace_pattern normalized then Inr normalized else Inl BadWorkerNamespace)"

text \<open>\<open>[...new Set(xs)]\<close>: the first occurrences.\<close>

definition first_occurrences :: "'a list \<Rightarrow> 'a list" where
  "first_occurrences xs = rev (remdups (rev xs))"

text \<open>The machine's name, a random suffix and the number of processors are arguments, and so is the queue.\<close>

definition newWorker :: "string \<Rightarrow> string \<Rightarrow> nat \<Rightarrow> queue \<Rightarrow> worker_options \<Rightarrow> worker_error + worker" where
  "newWorker host suffix8 cpus q opts =
     (let wid = (case wo_workerId opts of Some i \<Rightarrow> i | None \<Rightarrow> ''worker_'' @ host @ ''_'' @ suffix8);
          tenants = (case wo_tenants opts of Some ts \<Rightarrow> ts | None \<Rightarrow> [DEFAULT_TENANT_ID])
      in case those (map (\<lambda>t. normalizeTenantId (Some t)) tenants) of
           None \<Rightarrow> Inl BadWorkerTenant
         | Some ts \<Rightarrow>
             bindR (validWorkerNamespace (case wo_namespace opts of Some n \<Rightarrow> n | None \<Rightarrow> ''local:'' @ wid)) (\<lambda>ns.
               Inr \<lparr>wk_workerId = wid, wk_hostname = (case wo_hostname opts of Some h \<Rightarrow> h | None \<Rightarrow> host),
                 wk_capacity = boundedInteger (case wo_concurrency opts of Some c \<Rightarrow> c | None \<Rightarrow> Fin (of_nat (max 2 cpus))) 1 32 2,
                 wk_tenants = first_occurrences ts, wk_namespace = ns, wk_hasPolicy = wo_hasPolicy opts,
                 wk_hasSessions = wo_hasSessions opts, wk_store = wo_store opts, wk_admission = wo_admission opts,
                 wk_metrics = wo_metrics opts, wk_queue = q, wk_activeTasks = 0, wk_isRunning = False, wk_closed = False,
                 wk_stopping = False, wk_shutdownFinished = False, wk_frames = [], wk_nextFrame = 0, wk_controllers = [],
                 wk_retryTimers = [], wk_nextTimer = 0, wk_recoveryFailures = [], wk_lateRecovery = [], wk_cursor = 0\<rparr>))"

lemma newWorker_fields:
  assumes "newWorker host sfx cpus q opts = Inr w"
  shows "wk_frames w = []" "wk_activeTasks w = 0" "1 \<le> wk_capacity w \<and> wk_capacity w \<le> 32" "wk_admission w = wo_admission opts"
    "wk_queue w = q" "distinct (wk_tenants w) \<and> (\<forall>t \<in> set (wk_tenants w). isTenantId t)" "wk_retryTimers w = []" "wk_lateRecovery w = []"
    "\<not> wk_shutdownFinished w"
proof -
  obtain ts ns where d: "those (map (\<lambda>t. normalizeTenantId (Some t)) (case wo_tenants opts of Some ts \<Rightarrow> ts | None \<Rightarrow> [DEFAULT_TENANT_ID])) = Some ts"
    "w = \<lparr>wk_workerId = (case wo_workerId opts of Some i \<Rightarrow> i | None \<Rightarrow> ''worker_'' @ host @ ''_'' @ sfx),
       wk_hostname = (case wo_hostname opts of Some h \<Rightarrow> h | None \<Rightarrow> host),
       wk_capacity = boundedInteger (case wo_concurrency opts of Some c \<Rightarrow> c | None \<Rightarrow> Fin (of_nat (max 2 cpus))) 1 32 2,
       wk_tenants = first_occurrences ts, wk_namespace = ns, wk_hasPolicy = wo_hasPolicy opts,
       wk_hasSessions = wo_hasSessions opts, wk_store = wo_store opts, wk_admission = wo_admission opts,
       wk_metrics = wo_metrics opts, wk_queue = q, wk_activeTasks = 0, wk_isRunning = False, wk_closed = False,
       wk_stopping = False, wk_shutdownFinished = False, wk_frames = [], wk_nextFrame = 0, wk_controllers = [],
       wk_retryTimers = [], wk_nextTimer = 0, wk_recoveryFailures = [], wk_lateRecovery = [], wk_cursor = 0\<rparr>"
    using assms unfolding newWorker_def Let_def by (auto simp: bindR_Inr_iff split: option.splits)
  have "1 \<le> boundedInteger v 1 32 2 \<and> boundedInteger v 1 32 2 \<le> 32" for v by (simp add: boundedInteger_def split: jsreal.split)
  then show "1 \<le> wk_capacity w \<and> wk_capacity w \<le> 32" unfolding d(2) by simp
  have "those (map f xs) = Some ys \<Longrightarrow> (\<And>x y. f x = Some y \<Longrightarrow> P y) \<Longrightarrow> \<forall>t \<in> set ys. P t" for f :: "string \<Rightarrow> string option" and P xs ys
  proof (induction xs arbitrary: ys)
    case (Cons x xs)
    then show ?case by (cases "f x"; cases "those (map f xs)") auto
  qed simp
  note all = this[OF d(1)]
  have "normalizeTenantId (Some t) = Some y \<Longrightarrow> isTenantId y" for t y unfolding normalizeTenantId_def Let_def option.case
    by (cases "isTenantId t") simp_all
  from all[OF this] have "\<forall>t \<in> set ts. isTenantId t" .
  then show "distinct (wk_tenants w) \<and> (\<forall>t \<in> set (wk_tenants w). isTenantId t)" unfolding d(2) first_occurrences_def by (simp only: worker.simps distinct_rev distinct_remdups set_rev set_remdups)
  show "wk_frames w = []" "wk_activeTasks w = 0" "wk_admission w = wo_admission opts" "wk_queue w = q" "wk_retryTimers w = []"
    "wk_lateRecovery w = []" "\<not> wk_shutdownFinished w" unfolding d(2) by simp_all
qed

subsection \<open>Calls of the adapter\<close>

definition reach :: "bool \<Rightarrow> (queue \<Rightarrow> (queue_error + 'a) \<times> queue) \<Rightarrow> queue \<Rightarrow> (queue_error + 'a) \<times> queue" where
  "reach down f q = (if down then (Inl QueueUnavailable, q) else f q)"

text \<open>Which calls find the queue out of reach.\<close>

record outage =
  ot_update :: bool
  ot_mark :: bool
  ot_enqueue :: bool
  ot_heartbeat :: bool

definition persistTask :: "outage \<Rightarrow> task \<Rightarrow> queue \<Rightarrow> (queue_error + unit) \<times> queue" where
  "persistTask ot t = reach (ot_update ot) (updateTask t)"

definition persistCompletedTask :: "int \<Rightarrow> outage \<Rightarrow> task \<Rightarrow> queue \<Rightarrow> (queue_error + unit) \<times> queue" where
  "persistCompletedTask now ot t =
     andthen (persistTask ot t) (\<lambda>_ q.
       if t_state t = TCompleted then reach (ot_mark ot) (markUrlSeen now (t_url t) None (Some (t_tenantId t))) q else (Inr (), q))"

definition sendHeartbeat :: "int \<Rightarrow> bool \<Rightarrow> worker \<Rightarrow> string \<Rightarrow> queue \<Rightarrow> queue" where
  "sendHeartbeat now down w tenant q =
     snd (reach down (updateWorkerHeartbeat now
       \<lparr>wn_workerId = wk_workerId w, wn_tenantId = tenant, wn_hostname = wk_hostname w, wn_capacity = wk_capacity w,
        wn_activeTasks = wk_activeTasks w, wn_healthy = True, wn_lastHeartbeat = now, wn_storageNamespace = Some (wk_namespace w)\<rparr>) q)"

definition heartbeats :: "int \<Rightarrow> bool \<Rightarrow> worker \<Rightarrow> worker" where
  "heartbeats now down w = w\<lparr>wk_queue := foldl (\<lambda>q tenant. sendHeartbeat now down w tenant q) (wk_queue w) (wk_tenants w)\<rparr>"

subsection \<open>Recovery work\<close>

definition scheduleRecovery :: "task \<Rightarrow> recovery_kind \<Rightarrow> int \<Rightarrow> worker \<Rightarrow> worker" where
  "scheduleRecovery t kind delayMs w =
     (let work = \<lparr>rw_task = t, rw_kind = kind\<rparr>
      in if wk_shutdownFinished w then w
         else if wk_stopping w then w\<lparr>wk_lateRecovery := wk_lateRecovery w @ [work]\<rparr>
         else w\<lparr>wk_retryTimers := jset (wk_retryTimers w) (wk_nextTimer w) (work, max QUEUE_RECOVERY_DELAY_MS delayMs),
                wk_nextTimer := Suc (wk_nextTimer w)\<rparr>)"

definition flushRecovery :: "int \<Rightarrow> outage \<Rightarrow> recovery \<Rightarrow> queue \<Rightarrow> (queue_error + unit) \<times> queue" where
  "flushRecovery now ot work q =
     (let t = rw_task work
      in case rw_kind work of
           EnqueueWork \<Rightarrow> reach (ot_enqueue ot) (enqueueTask (t\<lparr>t_state := TPending\<rparr>)) q
         | PersistWork \<Rightarrow> if t_state t = TCompleted then persistCompletedTask now ot t q else persistTask ot t q)"

definition runRecovery :: "int \<Rightarrow> outage \<Rightarrow> recovery \<Rightarrow> worker \<Rightarrow> worker" where
  "runRecovery now ot work w =
     (case flushRecovery now ot work (wk_queue w) of
        (Inr _, q) \<Rightarrow> w\<lparr>wk_queue := q\<rparr>
      | (Inl e, q) \<Rightarrow>
          (let w1 = w\<lparr>wk_queue := q\<rparr>
           in if e = TASK_LEASE_LOST then w1
              else if \<not> wk_stopping w then
                scheduleRecovery (if rw_kind work = EnqueueWork then (rw_task work)\<lparr>t_state := TRetrying\<rparr> else rw_task work)
                  (rw_kind work) QUEUE_RECOVERY_DELAY_MS w1
              else if \<not> wk_shutdownFinished w then w1\<lparr>wk_recoveryFailures := wk_recoveryFailures w1 @ [e]\<rparr>
              else w1))"

text \<open>A recovery timer fires.\<close>

definition fireTimer :: "int \<Rightarrow> outage \<Rightarrow> nat \<Rightarrow> worker \<Rightarrow> worker" where
  "fireTimer now ot i w =
     (case map_of (wk_retryTimers w) i of
        None \<Rightarrow> w
      | Some (work, _) \<Rightarrow> runRecovery now ot work (w\<lparr>wk_retryTimers := jdel (wk_retryTimers w) i\<rparr>))"

definition requeueTask :: "outage \<Rightarrow> task \<Rightarrow> worker \<Rightarrow> worker" where
  "requeueTask ot t w =
     (case reach (ot_enqueue ot) (enqueueTask (t\<lparr>t_state := TPending\<rparr>)) (wk_queue w) of
        (Inr _, q) \<Rightarrow> w\<lparr>wk_queue := q\<rparr>
      | (Inl e, q) \<Rightarrow>
          if e = TASK_LEASE_LOST then w\<lparr>wk_queue := q\<rparr>
          else scheduleRecovery (t\<lparr>t_state := TRetrying\<rparr>) EnqueueWork QUEUE_RECOVERY_DELAY_MS (w\<lparr>wk_queue := q\<rparr>))"

subsection \<open>Claiming\<close>

text \<open>\<open>dequeueTask\<close> and the part of \<open>executeTask\<close> before its first await; \<open>True\<close>: a task was claimed.\<close>

definition claimPartition :: "int \<Rightarrow> string \<Rightarrow> bool \<Rightarrow> string \<Rightarrow> worker \<Rightarrow> bool \<times> worker" where
  "claimPartition now uuid down tenant w =
     (case reach down (dequeueTask now uuid (wk_workerId w) (Some tenant)) (wk_queue w) of
        (Inr (Some t), q) \<Rightarrow>
          (True, w\<lparr>wk_queue := q, wk_activeTasks := wk_activeTasks w + 1,
             wk_controllers := jset (wk_controllers w) (taskKey (t_tenantId t) (t_id t)) False,
             wk_frames := jset (wk_frames w) (wk_nextFrame w)
               \<lparr>fr_task = withEvent now PhRunning MSG_CLAIMED t, fr_start = now, fr_permit = None, fr_domain = ''unknown'', fr_started = False\<rparr>,
             wk_nextFrame := Suc (wk_nextFrame w)\<rparr>)
      | (_, q) \<Rightarrow> (False, w\<lparr>wk_queue := q\<rparr>))"

text \<open>
  One round of \<open>pollLoop\<close>: every partition once, from the cursor on; \<open>call\<close> gives the lease name of the partition at
  an offset and whether the queue is out of reach. \<open>shards\<close> is the adapter's number of shards.
\<close>

definition partitionTenant :: "nat \<Rightarrow> nat \<Rightarrow> worker \<Rightarrow> string" where
  "partitionTenant shards part w = wk_tenants w ! (part div shards)"

definition pollOffset :: "int \<Rightarrow> nat \<Rightarrow> (nat \<Rightarrow> string \<times> bool) \<Rightarrow> nat \<Rightarrow> bool \<times> worker \<Rightarrow> nat \<Rightarrow> bool \<times> worker" where
  "pollOffset now shards call start cw offset =
     (case cw of (claimed, w) \<Rightarrow>
        if wk_activeTasks w < wk_capacity w
        then (let part = (start + offset) mod (length (wk_tenants w) * shards);
                  tenant = partitionTenant shards part w
              in if tenant = [] then (claimed, w)
                 else case claimPartition now (fst (call offset)) (snd (call offset)) tenant w of
                        (c, w') \<Rightarrow> (claimed \<or> c, w'))
        else (claimed, w))"

definition pollRound :: "int \<Rightarrow> nat \<Rightarrow> (nat \<Rightarrow> string \<times> bool) \<Rightarrow> worker \<Rightarrow> bool \<times> worker" where
  "pollRound now shards call w =
     (let count = length (wk_tenants w) * shards
      in if \<not> wk_isRunning w \<or> wk_capacity w \<le> wk_activeTasks w \<or> count = 0 then (False, w)
         else (let start = wk_cursor w mod count
               in case foldl (pollOffset now shards call start) (False, w) [0..<count] of
                    (claimed, w') \<Rightarrow> (claimed, w'\<lparr>wk_cursor := (start + 1) mod count\<rparr>)))"

subsection \<open>Execution\<close>

definition assertCurrentAccountPlacement :: "task \<Rightarrow> worker \<Rightarrow> thrown + unit" where
  "assertCurrentAccountPlacement t w =
     (case (t_mode t, t_profileId t, wk_store w) of
        (BrowserMode, Some profile, Some st) \<Rightarrow>
          (case (t_targetWorkerId t, t_placementGeneration t) of
             (Some target, Some generation) \<Rightarrow>
               (case store_get (t_tenantId t) profile st of
                  Inl _ \<Rightarrow> Inl (plain_error ''scope'')
                | Inr None \<Rightarrow> Inl stale_error
                | Inr (Some (p, _)) \<Rightarrow>
                    if pr_workerId p \<noteq> wk_workerId w \<or> pr_workerId p \<noteq> target \<or> pr_storageNamespace p \<noteq> wk_namespace w
                       \<or> pr_generation p \<noteq> generation
                    then Inl stale_error else Inr ())
           | _ \<Rightarrow> Inl stale_error)
      | _ \<Rightarrow> Inr ())"

definition count_metric :: "rat \<Rightarrow> counter_metric \<Rightarrow> task \<Rightarrow> string \<Rightarrow> worker \<Rightarrow> worker" where
  "count_metric now metric t domain w =
     w\<lparr>wk_metrics := map_option (\<lambda>m. snd (incrementMetric now metric
         \<lparr>lb_tenant = Some (t_tenantId t), lb_accountGroup = t_accountGroup t, lb_domain = Some domain\<rparr> (Fin 1) m)) (wk_metrics w)\<rparr>"

definition or_else :: "'a option \<Rightarrow> 'a option \<Rightarrow> 'a \<Rightarrow> 'a" where
  "or_else a b d = (case a of Some x \<Rightarrow> x | None \<Rightarrow> (case b of Some x \<Rightarrow> x | None \<Rightarrow> d))"

text \<open>The controller's turn: \<open>Inr\<close> the permit, if there is a controller.\<close>

definition admitTask :: "rat \<Rightarrow> string \<Rightarrow> jsreal \<Rightarrow> task \<Rightarrow> string \<Rightarrow> worker \<Rightarrow> (thrown + string option) \<times> worker" where
  "admitTask now token clk t domain w =
     (case wk_admission w of
        None \<Rightarrow> (Inr None, w)
      | Some c \<Rightarrow>
          (case acquire token clk \<lparr>ar_tenantId = t_tenantId t, ar_accountId = or_else (t_profileId t) (t_accountGroup t) ''default'',
              ar_domainKey = domain, ar_proxyId = or_else (t_proxyId t) None ''default''\<rparr> c of
             (Inl _, c') \<Rightarrow> (Inl (plain_error ''admission''), w\<lparr>wk_admission := Some c'\<rparr>)
           | (Inr (Denied reason ms), c') \<Rightarrow>
               (Inl (plain_error ''Admission rejected''), count_metric now AdmissionRejection t domain (w\<lparr>wk_admission := Some c'\<rparr>))
           | (Inr (Allowed permit), c') \<Rightarrow> (Inr (Some permit), w\<lparr>wk_admission := Some c'\<rparr>)))"

text \<open>The body: what the fetcher and the session manager answer.\<close>

record fetched =
  ft_ok :: bool
  ft_status :: nat
  ft_statusText :: string
  ft_json :: json

record answers =
  an_fetch :: "thrown + fetched"
  an_start :: "thrown + string"
  an_open :: "thrown + unit"
  an_extract :: "thrown + json"
  an_snapshot :: "thrown + json"

definition runBody :: "int \<Rightarrow> answers \<Rightarrow> worker \<Rightarrow> task \<Rightarrow> (thrown + json) \<times> task" where
  "runBody now a w t =
     (case t_mode t of
        FetchMode \<Rightarrow>
          if \<not> wk_hasPolicy w then (Inl (plain_error ''A server URL policy is required for worker fetch tasks''), t)
          else (bindR (an_fetch a) (\<lambda>f.
                  if \<not> ft_ok f \<and> ft_status f \<in> {403, 429, 503}
                  then Inl (plain_error (''HTTP '' @ dec_of (ft_status f) @ '': '' @ ft_statusText f)) else Inr (ft_json f)), t)
      | BrowserMode \<Rightarrow>
          if \<not> wk_hasSessions w then (Inl (plain_error ''SessionManager is required for browser execution mode on this worker''), t)
          else (case an_start a of
             Inl e \<Rightarrow> (Inl e, t)
           | Inr session \<Rightarrow>
               (let t1 = withEvent now PhRunning MSG_SESSION (t\<lparr>t_sessionId := Some session\<rparr>)
                in (bindR (an_open a) (\<lambda>_. if t_extractionSchema t \<noteq> None then an_extract a else an_snapshot a), t1))))"

text \<open>What the task's result does, before the \<open>finally\<close> block.\<close>

definition settleSuccess :: "int \<Rightarrow> outage \<Rightarrow> int \<Rightarrow> task \<Rightarrow> json \<Rightarrow> worker \<Rightarrow> worker" where
  "settleSuccess now ot start t result w =
     (let t1 = (withEvent now PhCompleted MSG_DONE t)\<lparr>t_state := TCompleted, t_completedAt := Some now, t_durationMs := Some (now - start),
                  t_result := Some result\<rparr>
      in case persistCompletedTask now ot t1 (wk_queue w) of
           (Inr _, q) \<Rightarrow> w\<lparr>wk_queue := q\<rparr>
         | (Inl e, q) \<Rightarrow>
             if e = TASK_LEASE_LOST then w\<lparr>wk_queue := q\<rparr>
             else scheduleRecovery t1 PersistWork QUEUE_RECOVERY_DELAY_MS (w\<lparr>wk_queue := q\<rparr>))"

definition retryDelay :: "bool \<Rightarrow> int \<Rightarrow> int" where
  "retryDelay persisted retries = (if persisted then min 10000 (1000 * 2 ^ nat retries) else QUEUE_RECOVERY_DELAY_MS)"

definition settleFailure :: "int \<Rightarrow> outage \<Rightarrow> int \<Rightarrow> task \<Rightarrow> thrown \<Rightarrow> worker \<Rightarrow> worker" where
  "settleFailure now ot start t err w =
     (let t0 = t\<lparr>t_errorCode := taskErrorCode err\<rparr>
      in if \<not> th_stale err \<and> t_retries t < t_maxRetries t
         then (let t1 = withEvent now PhRetrying MSG_RETRY (t0\<lparr>t_retries := t_retries t + 1, t_state := TRetrying, t_error := Some (safeTaskError err)\<rparr>)
               in case persistTask ot t1 (wk_queue w) of
                    (r, q) \<Rightarrow>
                      let w1 = w\<lparr>wk_queue := q\<rparr>
                      in if r = Inl TASK_LEASE_LOST then w1
                         else if \<not> wk_isRunning w1 then requeueTask ot t1 w1
                         else scheduleRecovery t1 EnqueueWork (retryDelay (r = Inr ()) (t_retries t1)) w1)
         else (let t1 = withEvent now PhFailed MSG_FAILED (t0\<lparr>t_state := TFailed, t_completedAt := Some now, t_durationMs := Some (now - start),
                          t_error := Some (safeTaskError err)\<rparr>)
               in case persistTask ot t1 (wk_queue w) of
                    (Inr _, q) \<Rightarrow> w\<lparr>wk_queue := q\<rparr>
                  | (Inl e, q) \<Rightarrow>
                      if e = TASK_LEASE_LOST then w\<lparr>wk_queue := q\<rparr>
                      else scheduleRecovery t1 PersistWork QUEUE_RECOVERY_DELAY_MS (w\<lparr>wk_queue := q\<rparr>)))"

text \<open>The \<open>finally\<close> block.\<close>

definition leaveTask :: "int \<Rightarrow> outage \<Rightarrow> nat \<Rightarrow> frame \<Rightarrow> worker \<Rightarrow> worker" where
  "leaveTask now ot i f w =
     (let t = fr_task f;
          w1 = (case (fr_permit f, wk_admission w) of
                  (Some p, Some c) \<Rightarrow> w\<lparr>wk_admission := Some (release p c)\<rparr>
                | _ \<Rightarrow> w);
          w2 = (if fr_permit f \<noteq> None then count_metric (of_int now) Stops t (fr_domain f) w1 else w1)
      in heartbeats now (ot_heartbeat ot) (w2\<lparr>wk_controllers := jdel (wk_controllers w2) (taskKey (t_tenantId t) (t_id t)),
           wk_frames := jdel (wk_frames w2) i, wk_activeTasks := wk_activeTasks w2 - 1\<rparr>))"

text \<open>From the placement check to the start of the body; a refusal ends the task at once.\<close>

definition startTask :: "int \<Rightarrow> string option \<Rightarrow> string \<Rightarrow> jsreal \<Rightarrow> outage \<Rightarrow> nat \<Rightarrow> worker \<Rightarrow> worker" where
  "startTask now hostname token clk ot i w =
     (case map_of (wk_frames w) i of
        None \<Rightarrow> w
      | Some f \<Rightarrow>
          if fr_started f then w
          else (case assertCurrentAccountPlacement (fr_task f) w of
             Inl e \<Rightarrow> leaveTask now ot i f (settleFailure now ot (fr_start f) (fr_task f) e w)
           | Inr _ \<Rightarrow>
               (let domain = (case hostname of Some h \<Rightarrow> h | None \<Rightarrow> ''unknown'')
                in case admitTask (of_int now) token clk (fr_task f) domain w of
                     (Inl e, w1) \<Rightarrow> leaveTask now ot i (f\<lparr>fr_domain := domain\<rparr>) (settleFailure now ot (fr_start f) (fr_task f) e w1)
                   | (Inr permit, w1) \<Rightarrow>
                       count_metric (of_int now) Starts (fr_task f) domain
                         (w1\<lparr>wk_frames := jset (wk_frames w1) i (f\<lparr>fr_permit := permit, fr_domain := domain, fr_started := True\<rparr>)\<rparr>))))"

definition endTask :: "int \<Rightarrow> answers \<Rightarrow> outage \<Rightarrow> nat \<Rightarrow> worker \<Rightarrow> worker" where
  "endTask now a ot i w =
     (case map_of (wk_frames w) i of
        None \<Rightarrow> w
      | Some f \<Rightarrow>
          if \<not> fr_started f then w
          else (case runBody now a w (fr_task f) of
             (Inr result, t) \<Rightarrow> leaveTask now ot i f (settleSuccess now ot (fr_start f) t result w)
           | (Inl e, t) \<Rightarrow> leaveTask now ot i f (settleFailure now ot (fr_start f) t e w)))"

text \<open>The renewal timer of a task; its interval is half the lease.\<close>

definition renewalInterval :: "jsreal \<Rightarrow> int" where
  "renewalInterval leaseDurationMs =
     (case leaseDurationMs of Fin d \<Rightarrow> if 0 < d then max 1 \<lfloor>d / 2\<rfloor> else max 1 150000 | NonFinite \<Rightarrow> max 1 150000)"

definition renewTick :: "bool \<Rightarrow> nat \<Rightarrow> worker \<Rightarrow> worker" where
  "renewTick down i w =
     (case map_of (wk_frames w) i of
        None \<Rightarrow> w
      | Some f \<Rightarrow>
          (let t = fr_task f; key = taskKey (t_tenantId t) (t_id t)
           in if falsy (t_leaseId t) \<or> falsy (t_workerId t) \<or> map_of (wk_controllers w) key = Some True \<or> wk_shutdownFinished w \<or> down then w
              else if renewTaskLease t (wk_queue w) = Inr False then w\<lparr>wk_controllers := jset (wk_controllers w) key True\<rparr>
              else w))"

subsection \<open>Start and stop\<close>

definition startWorker :: "int \<Rightarrow> bool \<Rightarrow> worker \<Rightarrow> bool \<times> worker" where
  "startWorker now down w =
     (if wk_closed w then (False, w)
      else if wk_isRunning w then (True, w)
      else (True, heartbeats now down (w\<lparr>wk_isRunning := True\<rparr>)))"

definition stopBegin :: "worker \<Rightarrow> worker" where
  "stopBegin w =
     (if wk_closed w then w
      else w\<lparr>wk_stopping := True, wk_closed := True, wk_isRunning := False,
             wk_controllers := map (\<lambda>p. (fst p, True)) (wk_controllers w)\<rparr>)"

text \<open>\<open>flushRecoveryCollectingErrors\<close>; \<open>None\<close> among the errors is the time-out of tasks still running.\<close>

definition flushCollecting :: "int \<Rightarrow> (queue_error option list \<times> queue) \<Rightarrow> recovery \<times> outage \<Rightarrow> queue_error option list \<times> queue" where
  "flushCollecting now eq wo =
     (case eq of (errors, q) \<Rightarrow> case flushRecovery now (snd wo) (fst wo) q of
        (Inr _, q') \<Rightarrow> (errors, q')
      | (Inl e, q') \<Rightarrow> (if e = TASK_LEASE_LOST then errors else errors @ [Some e], q'))"

text \<open>
  The drain of \<open>stopInternal\<close>, after the wait for active tasks; \<open>ots\<close> tells which calls of each flush find the queue
  out of reach. The errors are those that \<open>stop\<close> throws. \<open>closeWorker\<close> closes the adapter.
\<close>

definition stopDrain :: "int \<Rightarrow> (nat \<Rightarrow> outage) \<Rightarrow> worker \<Rightarrow> queue_error option list \<times> worker" where
  "stopDrain now ots w =
     (let works = map (\<lambda>p. fst (snd p)) (wk_retryTimers w) @ wk_lateRecovery w
      in case foldl (flushCollecting now) (map Some (wk_recoveryFailures w), wk_queue w) (zip works (map ots [0..<length works])) of
           (errors, q) \<Rightarrow>
             (errors @ (if 0 < wk_activeTasks w then [None] else []),
              w\<lparr>wk_queue := q, wk_recoveryFailures := [], wk_retryTimers := [], wk_lateRecovery := []\<rparr>))"

definition closeWorker :: "worker \<Rightarrow> worker" where
  "closeWorker w = w\<lparr>wk_queue := closeQueue (wk_queue w), wk_shutdownFinished := True\<rparr>"

subsection \<open>Runs\<close>

datatype worker_event =
    StartW int bool
  | PollW int nat "nat \<Rightarrow> string \<times> bool"
  | StartTaskW int "string option" string jsreal outage nat
  | EndTaskW int answers outage nat
  | RenewW bool nat
  | TimerW int outage nat
  | StopBeginW
  | StopDrainW int "nat \<Rightarrow> outage"
  | OthersW queue_event

text \<open>\<open>OthersW\<close>: what schedulers and other workers do to the queue.\<close>

fun workerStep :: "worker \<Rightarrow> worker_event \<Rightarrow> worker" where
  "workerStep w (StartW now down) = snd (startWorker now down w)"
| "workerStep w (PollW now shards call) = snd (pollRound now shards call w)"
| "workerStep w (StartTaskW now host token clk ot i) = startTask now host token clk ot i w"
| "workerStep w (EndTaskW now a ot i) = endTask now a ot i w"
| "workerStep w (RenewW down i) = renewTick down i w"
| "workerStep w (TimerW now ot i) = fireTimer now ot i w"
| "workerStep w StopBeginW = stopBegin w"
| "workerStep w (StopDrainW now ots) = snd (stopDrain now ots w)"
| "workerStep w (OthersW e) = w\<lparr>wk_queue := queue_step (wk_queue w) e\<rparr>"

subsection \<open>No claimed task is lost\<close>

definition terminal :: "task \<Rightarrow> bool" where
  "terminal t = (t_state t \<in> {TCompleted, TFailed, TCancelled})"

definition presents :: "string \<Rightarrow> string \<Rightarrow> string \<Rightarrow> task \<Rightarrow> bool" where
  "presents k l wid t \<longleftrightarrow> taskKey (t_tenantId t) (t_id t) = k \<and> t_leaseId t = Some l \<and> t_workerId t = Some wid"

text \<open>The queue has a record of the task, and every record of it carries a lease.\<close>

definition recorded :: "string \<Rightarrow> queue \<Rightarrow> bool" where
  "recorded k q \<longleftrightarrow> (\<exists>t. map_of (q_tasks q) k = Some t \<and> t_leaseId t \<noteq> None)"

text \<open>The queue alone accounts for the claim: it was handed on, is finished, or waits to be dequeued.\<close>

definition accounted :: "string \<Rightarrow> string \<Rightarrow> string \<Rightarrow> queue \<Rightarrow> bool" where
  "accounted k l wid q \<longleftrightarrow> (\<exists>t. map_of (q_tasks q) k = Some t \<and> t_leaseId t \<noteq> None
     \<and> (\<not> (t_leaseId t = Some l \<and> t_workerId t = Some wid) \<or> terminal t \<or> is_queued t \<and> k \<in> set (q_pending q)))"

text \<open>The worker still has it: it runs, or recovery work for it is scheduled.\<close>

definition in_hand :: "string \<Rightarrow> string \<Rightarrow> string \<Rightarrow> worker \<Rightarrow> bool" where
  "in_hand k l wid w \<longleftrightarrow> (\<exists>p \<in> set (wk_frames w). presents k l wid (fr_task (snd p)))
     \<or> (\<exists>p \<in> set (wk_retryTimers w). presents k l wid (rw_task (fst (snd p))))
     \<or> (\<exists>r \<in> set (wk_lateRecovery w). presents k l wid (rw_task r))"

text \<open>Recovery work that only writes holds a finished task.\<close>

definition work_ok :: "recovery \<Rightarrow> bool" where
  "work_ok r \<longleftrightarrow> (rw_kind r = PersistWork \<longrightarrow> terminal (rw_task r))"

definition works_ok :: "worker \<Rightarrow> bool" where
  "works_ok w \<longleftrightarrow> (\<forall>p \<in> set (wk_retryTimers w). work_ok (fst (snd p))) \<and> (\<forall>r \<in> set (wk_lateRecovery w). work_ok r)"

definition safe_claim :: "string \<Rightarrow> string \<Rightarrow> string \<Rightarrow> worker \<Rightarrow> bool" where
  "safe_claim k l wid w \<longleftrightarrow> recorded k (wk_queue w) \<and> works_ok w \<and> \<not> wk_shutdownFinished w \<and> wk_workerId w = wid
     \<and> jwf (wk_frames w) \<and> jwf (wk_retryTimers w) \<and> (\<forall>i \<in> set (jkeys (wk_frames w)). i < wk_nextFrame w)
     \<and> (\<forall>i \<in> set (jkeys (wk_retryTimers w)). i < wk_nextTimer w)
     \<and> (in_hand k l wid w \<or> accounted k l wid (wk_queue w) \<or> wk_recoveryFailures w \<noteq> [])"

text \<open>
  Others may do anything to the queue except present the claim's own lease with a task that is neither
  queued nor finished (\<open>cancelTask\<close> and \<open>retryTask\<close> do present it); lease names are fresh.
\<close>

fun others_ok :: "string \<Rightarrow> string \<Rightarrow> string \<Rightarrow> queue_event \<Rightarrow> bool" where
  "others_ok k l wid (QUpdate t) = (presents k l wid t \<longrightarrow> terminal t)"
| "others_ok k l wid (QEnqueue t) = (presents k l wid t \<longrightarrow> terminal t \<or> is_queued t)"
| "others_ok k l wid (QDequeue now uuid w tn) = (uuid \<noteq> l)"
| "others_ok k l wid _ = True"

lemma accounted_recorded: "accounted k l wid q \<Longrightarrow> recorded k q"
  by (auto simp: accounted_def recorded_def)

lemma updateTask_recorded: "recorded k q \<Longrightarrow> recorded k (snd (updateTask t q))"
  by (cases rule: updateTask_cases[of t q]) (auto simp: recorded_def jset_apply lease_owned_def split: option.splits)

lemma enqueueTask_recorded: "recorded k q \<Longrightarrow> recorded k (snd (enqueueTask t q))"
  by (cases rule: enqueueTask_cases[of t q]) (auto simp: recorded_def jset_apply lease_owned_def split: option.splits)

lemma updateTask_accounted:
  assumes "accounted k l wid q" "presents k l wid t \<longrightarrow> terminal t"
  shows "accounted k l wid (snd (updateTask t q))"
  using assms
  by (cases rule: updateTask_cases[of t q]) (auto simp: accounted_def presents_def jset_apply lease_owned_def split: option.splits)

lemma enqueueTask_accounted:
  assumes "accounted k l wid q" "presents k l wid t \<longrightarrow> terminal t \<or> is_queued t"
  shows "accounted k l wid (snd (enqueueTask t q))"
  using assms
  by (cases rule: enqueueTask_cases[of t q])
    (auto simp: accounted_def presents_def jset_apply lease_owned_def set_removePendingKey split: option.splits)

text \<open>A dequeue leaves a queued task in the queue unless it takes it.\<close>

lemma dequeue_keeps_key:
  assumes d: "dequeue_pass w pre tasks ks = (r, ks')" and k: "k \<in> set ks" "map_of tasks k = Some t" "is_queued t"
    and r: "\<forall>k' t'. r = Some (k', t') \<longrightarrow> k' \<noteq> k"
  shows "k \<in> set ks'"
proof -
  have live: "live_key pre tasks k" using k by (simp add: live_key_def)
  note rest = dequeue_pass_rest[of pre tasks w ks] and res = dequeue_pass_result[of w pre tasks ks]
  have "k \<in> set (filter (live_key pre tasks) ks')"
  proof (cases "find (eligible w pre tasks) ks")
    case None
    with rest d k live show ?thesis by simp
  next
    case (Some k')
    with res d r have "k' \<noteq> k" by auto
    with Some rest d k live show ?thesis by (auto simp: in_set_remove1)
  qed
  then show ?thesis by simp
qed

lemma dequeueTask_recorded: "recorded k q \<Longrightarrow> recorded k (snd (dequeueTask now uuid w tn q))"
  by (cases rule: dequeueTask_cases[of tn now uuid w q]) (auto simp: recorded_def jset_apply)

lemma dequeueTask_accounted:
  assumes "uuid \<noteq> l" "accounted k l wid q"
  shows "accounted k l wid (snd (dequeueTask now uuid w tn q))"
proof (cases rule: dequeueTask_cases[of tn now uuid w q])
  case (idle n ks)
  with assms dequeue_keeps_key[OF idle(2), of k] show ?thesis by (auto simp: accounted_def)
next
  case (taken n k' t ks)
  show ?thesis
  proof (cases "k' = k")
    case True
    with taken assms show ?thesis by (auto simp: accounted_def jset_apply)
  next
    case False
    with taken assms dequeue_keeps_key[OF taken(6), of k] show ?thesis by (auto simp: accounted_def jset_apply)
  qed
qed (use assms in simp)

text \<open>The other operations leave tasks and pending keys alone.\<close>

lemma claims_aside:
  "q_tasks (snd (updateWorkerHeartbeat now w q)) = q_tasks q \<and> q_pending (snd (updateWorkerHeartbeat now w q)) = q_pending q"
  "q_tasks (snd (isUrlSeen now u tn q)) = q_tasks q \<and> q_pending (snd (isUrlSeen now u tn q)) = q_pending q"
  "q_tasks (snd (claimUrls now us ttl tn q)) = q_tasks q \<and> q_pending (snd (claimUrls now us ttl tn q)) = q_pending q"
  "q_tasks (snd (releaseUrls us tn q)) = q_tasks q \<and> q_pending (snd (releaseUrls us tn q)) = q_pending q"
  "q_tasks (snd (markUrlSeen now u ttl tn q)) = q_tasks q \<and> q_pending (snd (markUrlSeen now u ttl tn q)) = q_pending q"
  by (simp_all add: updateWorkerHeartbeat_def isUrlSeen_def claimUrls_def releaseUrls_def markUrlSeen_def Let_def split: option.splits)

lemma others_keep:
  assumes "others_ok k l wid e"
  shows "recorded k q \<Longrightarrow> recorded k (queue_step q e)" and "accounted k l wid q \<Longrightarrow> accounted k l wid (queue_step q e)"
proof -
  show "recorded k (queue_step q e)" if r: "recorded k q"
  proof (cases e)
    case (QUpdate t)
    with r show ?thesis by (simp add: updateTask_recorded)
  next
    case (QEnqueue t)
    with r show ?thesis by (simp add: enqueueTask_recorded)
  next
    case (QDequeue now uuid w tn)
    with r show ?thesis by (simp add: dequeueTask_recorded)
  qed (use r in \<open>simp_all only: queue_step.simps recorded_def claims_aside\<close>)
  assume a: "accounted k l wid q"
  show "accounted k l wid (queue_step q e)"
  proof (cases e)
    case (QUpdate t)
    with a assms show ?thesis by (simp add: updateTask_accounted)
  next
    case (QEnqueue t)
    with a assms show ?thesis by (simp add: enqueueTask_accounted)
  next
    case (QDequeue now uuid w tn)
    with a assms show ?thesis by (simp add: dequeueTask_accounted)
  qed (use a in \<open>simp_all only: queue_step.simps accounted_def claims_aside\<close>)
qed

text \<open>What the worker's own writes achieve.\<close>

lemma update_settles:
  assumes "recorded k q" "presents k l wid t" "updateTask t q = (r, q')"
  shows "r = Inr () \<Longrightarrow> terminal t \<Longrightarrow> accounted k l wid q'" and "r = Inl TASK_LEASE_LOST \<Longrightarrow> accounted k l wid q'"
  using assms
  by (auto simp: updateTask_def Let_def accounted_def recorded_def presents_def jset_apply lease_owned_def terminal_def
      split: option.splits if_splits dest!: normalizeTenantId_id)

lemma enqueue_settles:
  assumes "recorded k q" "presents k l wid t" "enqueueTask t q = (r, q')"
  shows "r = Inr () \<Longrightarrow> is_queued t \<Longrightarrow> accounted k l wid q'" and "r = Inl TASK_LEASE_LOST \<Longrightarrow> accounted k l wid q'"
  using assms
  by (auto simp: enqueueTask_def Let_def accounted_def recorded_def presents_def jset_apply lease_owned_def
      split: option.splits if_splits dest!: normalizeTenantId_id)

subsection \<open>The worker's steps\<close>

lemma persist_keeps:
  assumes "recorded k q"
  shows "recorded k (snd (persistTask ot t q))" and "recorded k (snd (persistCompletedTask now ot t q))"
proof -
  have p: "recorded k (snd (persistTask ot t q'))" if "recorded k q'" for q'
    using that by (simp add: persistTask_def reach_def updateTask_recorded)
  show "recorded k (snd (persistTask ot t q))" using p assms .
  have "recorded k (snd (markUrlSeen now u ttl tn q'))" if "recorded k q'" for u ttl tn q'
    using that others_keep(1)[of k l wid "QMark now u ttl tn" q'] by simp
  then show "recorded k (snd (persistCompletedTask now ot t q))"
    unfolding persistCompletedTask_def
    by (intro andthen_post[of "recorded k"] p assms) (simp add: reach_def)
qed

lemma persist_accounted:
  assumes "accounted k l wid q" "presents k l wid t \<longrightarrow> terminal t"
  shows "accounted k l wid (snd (persistTask ot t q))" and "accounted k l wid (snd (persistCompletedTask now ot t q))"
proof -
  have p: "accounted k l wid (snd (persistTask ot t q'))" if "accounted k l wid q'" for q'
    using that assms(2) by (simp add: persistTask_def reach_def updateTask_accounted)
  show "accounted k l wid (snd (persistTask ot t q))" using p assms(1) .
  have "accounted k l wid (snd (markUrlSeen now u ttl tn q'))" if "accounted k l wid q'" for u ttl tn q'
    using that others_keep(2)[of k l wid "QMark now u ttl tn" q'] by simp
  then show "accounted k l wid (snd (persistCompletedTask now ot t q))"
    unfolding persistCompletedTask_def
    by (intro andthen_post[of "accounted k l wid"] p assms) (simp add: reach_def)
qed

text \<open>A write with the claim's lease that returns, or that is refused because the lease was lost, settles the claim.\<close>

lemma persist_settles:
  assumes "recorded k q" "presents k l wid t" "terminal t"
  shows "persistTask ot t q = (r, q') \<Longrightarrow> r = Inr () \<or> r = Inl TASK_LEASE_LOST \<Longrightarrow> accounted k l wid q'"
    and "persistCompletedTask now ot t q = (r, q') \<Longrightarrow> r = Inr () \<or> r = Inl TASK_LEASE_LOST \<Longrightarrow> accounted k l wid q'"
proof -
  have p: "accounted k l wid q2" if "persistTask ot t q = (r2, q2)" "r2 = Inr () \<or> r2 = Inl TASK_LEASE_LOST" for r2 q2
    using that update_settles[OF assms(1,2), of r2 q2] assms(3) by (auto simp: persistTask_def reach_def split: if_splits)
  then show "persistTask ot t q = (r, q') \<Longrightarrow> r = Inr () \<or> r = Inl TASK_LEASE_LOST \<Longrightarrow> accounted k l wid q'" .
  assume c: "persistCompletedTask now ot t q = (r, q')" "r = Inr () \<or> r = Inl TASK_LEASE_LOST"
  show "accounted k l wid q'"
  proof (cases rule: andthen_cases[of "persistTask ot t" q
      "\<lambda>_ q. if t_state t = TCompleted then reach (ot_mark ot) (markUrlSeen now (t_url t) None (Some (t_tenantId t))) q else (Inr (), q)"])
    case (threw e s')
    with c p show ?thesis by (auto simp: persistCompletedTask_def)
  next
    case (returned a s')
    then have s: "accounted k l wid s'" using p by auto
    then have "accounted k l wid (snd (markUrlSeen now (t_url t) None (Some (t_tenantId t)) s'))"
      using others_keep(2)[of k l wid "QMark now (t_url t) None (Some (t_tenantId t))" s'] by simp
    with s returned c show ?thesis unfolding persistCompletedTask_def
      by (cases "markUrlSeen now (t_url t) None (Some (t_tenantId t)) s'") (auto simp: reach_def split: if_splits)
  qed
qed

lemma requeue_settles:
  assumes "recorded k q" "presents k l wid t" "reach down (enqueueTask (t\<lparr>t_state := TPending\<rparr>)) q = (r, q')"
    and "r = Inr () \<or> r = Inl TASK_LEASE_LOST"
  shows "accounted k l wid q'"
  using assms(3,4) enqueue_settles[OF assms(1), of l wid "t\<lparr>t_state := TPending\<rparr>" r q'] assms(2)
  by (auto simp: reach_def presents_def is_queued_def split: if_splits)

definition scheduled :: "string \<Rightarrow> string \<Rightarrow> string \<Rightarrow> worker \<Rightarrow> bool" where
  "scheduled k l wid w \<longleftrightarrow> (\<exists>p \<in> set (wk_retryTimers w). presents k l wid (rw_task (fst (snd p))))
     \<or> (\<exists>r \<in> set (wk_lateRecovery w). presents k l wid (rw_task r))"

definition base_ok :: "string \<Rightarrow> string \<Rightarrow> worker \<Rightarrow> bool" where
  "base_ok k wid w \<longleftrightarrow> recorded k (wk_queue w) \<and> works_ok w \<and> \<not> wk_shutdownFinished w \<and> wk_workerId w = wid
     \<and> jwf (wk_frames w) \<and> jwf (wk_retryTimers w) \<and> (\<forall>i \<in> set (jkeys (wk_frames w)). i < wk_nextFrame w)
     \<and> (\<forall>i \<in> set (jkeys (wk_retryTimers w)). i < wk_nextTimer w)"

lemma safe_claim_alt:
  "safe_claim k l wid w \<longleftrightarrow> base_ok k wid w
     \<and> ((\<exists>p \<in> set (wk_frames w). presents k l wid (fr_task (snd p))) \<or> scheduled k l wid w \<or> accounted k l wid (wk_queue w)
        \<or> wk_recoveryFailures w \<noteq> [])"
  by (auto simp: safe_claim_def base_ok_def in_hand_def scheduled_def)

lemma presents_update [simp]:
  "presents k l wid (t\<lparr>t_state := st\<rparr>) = presents k l wid t" "presents k l wid (t\<lparr>t_completedAt := ca\<rparr>) = presents k l wid t"
  "presents k l wid (t\<lparr>t_durationMs := d\<rparr>) = presents k l wid t" "presents k l wid (t\<lparr>t_result := r\<rparr>) = presents k l wid t"
  "presents k l wid (t\<lparr>t_error := er\<rparr>) = presents k l wid t" "presents k l wid (t\<lparr>t_errorCode := ec\<rparr>) = presents k l wid t"
  "presents k l wid (t\<lparr>t_retries := n\<rparr>) = presents k l wid t" "presents k l wid (t\<lparr>t_sessionId := s\<rparr>) = presents k l wid t"
  "presents k l wid (withEvent now ph m t) = presents k l wid t"
  by (simp_all add: presents_def withEvent_def)

lemma base_queue: "base_ok k wid w \<Longrightarrow> recorded k q \<Longrightarrow> base_ok k wid (w\<lparr>wk_queue := q\<rparr>)"
  by (simp add: base_ok_def works_ok_def)

lemma scheduled_queue [simp]: "scheduled k l wid (w\<lparr>wk_queue := q\<rparr>) = scheduled k l wid w"
  by (simp add: scheduled_def)

text \<open>Scheduling keeps everything and holds the task.\<close>

lemma scheduleRecovery_same [simp]:
  "wk_queue (scheduleRecovery t kind d w) = wk_queue w" "wk_frames (scheduleRecovery t kind d w) = wk_frames w"
  "wk_recoveryFailures (scheduleRecovery t kind d w) = wk_recoveryFailures w" "wk_isRunning (scheduleRecovery t kind d w) = wk_isRunning w"
  "wk_nextFrame (scheduleRecovery t kind d w) = wk_nextFrame w" "wk_workerId (scheduleRecovery t kind d w) = wk_workerId w"
  "wk_activeTasks (scheduleRecovery t kind d w) = wk_activeTasks w" "wk_admission (scheduleRecovery t kind d w) = wk_admission w"
  "wk_capacity (scheduleRecovery t kind d w) = wk_capacity w"
  by (simp_all add: scheduleRecovery_def Let_def)

lemma fresh_timer: "base_ok k wid w \<Longrightarrow> jset (wk_retryTimers w) (wk_nextTimer w) x = wk_retryTimers w @ [(wk_nextTimer w, x)]"
  by (rule jset_fresh) (auto simp: base_ok_def map_of_eq_None_iff)

lemma scheduleRecovery_ok:
  assumes "base_ok k wid w" "work_ok \<lparr>rw_task = t, rw_kind = kind\<rparr>"
  shows "base_ok k wid (scheduleRecovery t kind d w)"
    and "presents k l wid t \<or> scheduled k l wid w \<Longrightarrow> scheduled k l wid (scheduleRecovery t kind d w)"
  using assms fresh_timer[OF assms(1)]
  by (auto simp: scheduleRecovery_def Let_def base_ok_def works_ok_def scheduled_def less_Suc_eq)

lemma requeueTask_ok:
  assumes b: "base_ok k wid w"
  shows "base_ok k wid (requeueTask ot t w)" and "wk_frames (requeueTask ot t w) = wk_frames w"
    and "presents k l wid t \<Longrightarrow> accounted k l wid (wk_queue (requeueTask ot t w)) \<or> scheduled k l wid (requeueTask ot t w)"
    and "accounted k l wid (wk_queue w) \<Longrightarrow> accounted k l wid (wk_queue (requeueTask ot t w))"
    and "scheduled k l wid w \<Longrightarrow> scheduled k l wid (requeueTask ot t w)"
    and "wk_recoveryFailures (requeueTask ot t w) = wk_recoveryFailures w"
proof -
  obtain r q where e: "reach (ot_enqueue ot) (enqueueTask (t\<lparr>t_state := TPending\<rparr>)) (wk_queue w) = (r, q)"
    by (cases "reach (ot_enqueue ot) (enqueueTask (t\<lparr>t_state := TPending\<rparr>)) (wk_queue w)")
  have rec: "recorded k (wk_queue w)" using b by (simp add: base_ok_def)
  then have rec': "recorded k q"
    using e enqueueTask_recorded[OF rec, of "t\<lparr>t_state := TPending\<rparr>"] by (auto simp: reach_def split: if_splits)
  note b' = base_queue[OF b rec']
  have work: "work_ok \<lparr>rw_task = t\<lparr>t_state := TRetrying\<rparr>, rw_kind = EnqueueWork\<rparr>" by (simp add: work_ok_def)
  note sch = scheduleRecovery_ok[OF b' work]
  have run: "requeueTask ot t w = (if r = Inr () \<or> r = Inl TASK_LEASE_LOST then w\<lparr>wk_queue := q\<rparr>
      else scheduleRecovery (t\<lparr>t_state := TRetrying\<rparr>) EnqueueWork QUEUE_RECOVERY_DELAY_MS (w\<lparr>wk_queue := q\<rparr>))"
    using e by (auto simp: requeueTask_def split: sum.splits)
  have acc: "accounted k l wid q" if "accounted k l wid (wk_queue w)"
    using e enqueueTask_accounted[OF that, of "t\<lparr>t_state := TPending\<rparr>"] by (auto simp: reach_def is_queued_def split: if_splits)
      (metis snd_conv that)+
  show "base_ok k wid (requeueTask ot t w)" "wk_frames (requeueTask ot t w) = wk_frames w"
    "wk_recoveryFailures (requeueTask ot t w) = wk_recoveryFailures w"
    using b' sch(1) unfolding run by simp_all
  show "accounted k l wid (wk_queue (requeueTask ot t w))" if "accounted k l wid (wk_queue w)"
    using acc[OF that] unfolding run by simp
  show "scheduled k l wid (requeueTask ot t w)" if "scheduled k l wid w"
    using that sch(2)[of l] unfolding run by simp
  show "accounted k l wid (wk_queue (requeueTask ot t w)) \<or> scheduled k l wid (requeueTask ot t w)" if "presents k l wid t"
    using that sch(2)[of l] requeue_settles[OF rec that e] unfolding run by simp
qed

text \<open>What handing back a task \<open>t\<close> guarantees for the claim, whether it is the claim's or another one.\<close>

definition settles :: "string \<Rightarrow> string \<Rightarrow> string \<Rightarrow> task \<Rightarrow> worker \<Rightarrow> worker \<Rightarrow> bool" where
  "settles k l wid t w w' \<longleftrightarrow> base_ok k wid w' \<and> wk_frames w' = wk_frames w \<and> wk_recoveryFailures w' = wk_recoveryFailures w
     \<and> (presents k l wid t \<longrightarrow> accounted k l wid (wk_queue w') \<or> scheduled k l wid w')
     \<and> (\<not> presents k l wid t \<longrightarrow> accounted k l wid (wk_queue w) \<longrightarrow> accounted k l wid (wk_queue w'))
     \<and> (scheduled k l wid w \<longrightarrow> scheduled k l wid w')"

text \<open>The common shape: a write of a finished task, and recovery work when the queue was out of reach.\<close>

lemma write_settles:
  assumes b: "base_ok k wid w" and t: "terminal t" and e: "f (wk_queue w) = (r, q)"
    and f: "f = persistTask ot t \<or> f = persistCompletedTask now ot t"
  shows "settles k l wid t w (if r = Inr () \<or> r = Inl TASK_LEASE_LOST then w\<lparr>wk_queue := q\<rparr>
      else scheduleRecovery t PersistWork d (w\<lparr>wk_queue := q\<rparr>))"
proof -
  have rec: "recorded k (wk_queue w)" using b by (simp add: base_ok_def)
  have rec': "recorded k q" using f e persist_keeps(1)[OF rec, of ot t] persist_keeps(2)[OF rec, of now ot t] by auto
  note b' = base_queue[OF b rec']
  have "work_ok \<lparr>rw_task = t, rw_kind = PersistWork\<rparr>" using t by (simp add: work_ok_def)
  note sch = scheduleRecovery_ok[OF b' this]
  have "accounted k l wid q" if "presents k l wid t" "r = Inr () \<or> r = Inl TASK_LEASE_LOST"
    using f e that persist_settles[OF rec that(1) t] by metis
  moreover have "accounted k l wid q" if "accounted k l wid (wk_queue w)" "\<not> presents k l wid t"
    using f e that persist_accounted(1)[OF that(1), of t ot] persist_accounted(2)[OF that(1), of t now ot] by auto
  ultimately show ?thesis using b' sch by (auto simp: settles_def)
qed

lemma settleSuccess_settles:
  assumes b: "base_ok k wid w"
  shows "settles k l wid t w (settleSuccess now ot start t res w)"
proof -
  define t1 where "t1 = (withEvent now PhCompleted MSG_DONE t)\<lparr>t_state := TCompleted, t_completedAt := Some now, t_durationMs := Some (now - start),
     t_result := Some res\<rparr>"
  obtain r q where e: "persistCompletedTask now ot t1 (wk_queue w) = (r, q)" by (cases "persistCompletedTask now ot t1 (wk_queue w)")
  have run: "settleSuccess now ot start t res w = (if r = Inr () \<or> r = Inl TASK_LEASE_LOST then w\<lparr>wk_queue := q\<rparr>
      else scheduleRecovery t1 PersistWork QUEUE_RECOVERY_DELAY_MS (w\<lparr>wk_queue := q\<rparr>))"
    using e by (auto simp: settleSuccess_def Let_def t1_def split: sum.splits)
  have "terminal t1" "presents k l wid t1 = presents k l wid t" by (simp_all add: t1_def terminal_def)
  with write_settles[OF b, where f = "persistCompletedTask now ot t1" and t = t1 and l = l and d = QUEUE_RECOVERY_DELAY_MS and ot = ot and now = now, OF _ e]
  show ?thesis unfolding run by (simp add: settles_def)
qed

lemma settleFailure_settles:
  assumes b: "base_ok k wid w"
  shows "settles k l wid t w (settleFailure now ot start t err w)"
proof (cases "\<not> th_stale err \<and> t_retries t < t_maxRetries t")
  case False
  define t1 where "t1 = withEvent now PhFailed MSG_FAILED (t\<lparr>t_errorCode := taskErrorCode err, t_state := TFailed, t_completedAt := Some now,
     t_durationMs := Some (now - start), t_error := Some (safeTaskError err)\<rparr>)"
  obtain r q where e: "persistTask ot t1 (wk_queue w) = (r, q)" by (cases "persistTask ot t1 (wk_queue w)")
  have run: "settleFailure now ot start t err w = (if r = Inr () \<or> r = Inl TASK_LEASE_LOST then w\<lparr>wk_queue := q\<rparr>
      else scheduleRecovery t1 PersistWork QUEUE_RECOVERY_DELAY_MS (w\<lparr>wk_queue := q\<rparr>))"
    using e False unfolding settleFailure_def Let_def t1_def by (auto split: sum.splits)
  have "terminal t1" "presents k l wid t1 = presents k l wid t" by (simp_all add: t1_def terminal_def withEvent_def presents_def)
  with write_settles[OF b, where f = "persistTask ot t1" and t = t1 and l = l and d = QUEUE_RECOVERY_DELAY_MS and ot = ot, OF _ e]
  show ?thesis unfolding run by (simp add: settles_def)
next
  case True
  define t1 where "t1 = withEvent now PhRetrying MSG_RETRY (t\<lparr>t_errorCode := taskErrorCode err, t_retries := t_retries t + 1, t_state := TRetrying,
     t_error := Some (safeTaskError err)\<rparr>)"
  obtain r q where e: "persistTask ot t1 (wk_queue w) = (r, q)" by (cases "persistTask ot t1 (wk_queue w)")
  define w1 where "w1 = w\<lparr>wk_queue := q\<rparr>"
  have run: "settleFailure now ot start t err w = (if r = Inl TASK_LEASE_LOST then w1 else if \<not> wk_isRunning w1 then requeueTask ot t1 w1
      else scheduleRecovery t1 EnqueueWork (retryDelay (r = Inr ()) (t_retries t1)) w1)"
    using e True by (simp add: settleFailure_def Let_def t1_def w1_def)
  have t1: "presents k l wid t1 = presents k l wid t" by (simp add: t1_def)
  have rec: "recorded k (wk_queue w)" using b by (simp add: base_ok_def)
  have b': "base_ok k wid w1" unfolding w1_def using e persist_keeps(1)[OF rec, of ot t1] by (intro base_queue[OF b]) simp
  have lost: "accounted k l wid q" if "presents k l wid t1" "r = Inl TASK_LEASE_LOST"
    using e that update_settles(2)[OF rec that(1), of r q] by (auto simp: persistTask_def reach_def split: if_splits)
  have other: "accounted k l wid q" if "accounted k l wid (wk_queue w)" "\<not> presents k l wid t1"
    using e that persist_accounted(1)[OF that(1), of t1 ot] by simp
  have "work_ok \<lparr>rw_task = t1, rw_kind = EnqueueWork\<rparr>" by (simp add: work_ok_def)
  note sch = scheduleRecovery_ok[OF b' this] and req = requeueTask_ok[OF b', where ot = ot and t = t1]
  show ?thesis
    using b' lost other sch req t1 unfolding run settles_def by (auto simp: w1_def)
qed

lemma heartbeats_aside [simp]:
  "q_tasks (wk_queue (heartbeats now down w)) = q_tasks (wk_queue w)" "q_pending (wk_queue (heartbeats now down w)) = q_pending (wk_queue w)"
  "wk_frames (heartbeats now down w) = wk_frames w" "wk_retryTimers (heartbeats now down w) = wk_retryTimers w"
  "wk_lateRecovery (heartbeats now down w) = wk_lateRecovery w" "wk_recoveryFailures (heartbeats now down w) = wk_recoveryFailures w"
  "wk_shutdownFinished (heartbeats now down w) = wk_shutdownFinished w" "wk_workerId (heartbeats now down w) = wk_workerId w"
  "wk_nextFrame (heartbeats now down w) = wk_nextFrame w" "wk_nextTimer (heartbeats now down w) = wk_nextTimer w"
  "wk_activeTasks (heartbeats now down w) = wk_activeTasks w" "wk_capacity (heartbeats now down w) = wk_capacity w"
  "wk_admission (heartbeats now down w) = wk_admission w"
proof -
  have "q_tasks (foldl (\<lambda>q tenant. sendHeartbeat now down w tenant q) q ts) = q_tasks q
      \<and> q_pending (foldl (\<lambda>q tenant. sendHeartbeat now down w tenant q) q ts) = q_pending q" for q ts
    by (induction ts arbitrary: q) (simp_all add: sendHeartbeat_def reach_def claims_aside)
  then show "q_tasks (wk_queue (heartbeats now down w)) = q_tasks (wk_queue w)"
    "q_pending (wk_queue (heartbeats now down w)) = q_pending (wk_queue w)" by (simp_all add: heartbeats_def)
qed (simp_all add: heartbeats_def)

text \<open>Two workers that agree on what the claim depends on.\<close>

definition same_claims :: "worker \<Rightarrow> worker \<Rightarrow> bool" where
  "same_claims w w' \<longleftrightarrow> q_tasks (wk_queue w') = q_tasks (wk_queue w) \<and> q_pending (wk_queue w') = q_pending (wk_queue w)
     \<and> wk_retryTimers w' = wk_retryTimers w \<and> wk_lateRecovery w' = wk_lateRecovery w \<and> wk_recoveryFailures w' = wk_recoveryFailures w
     \<and> wk_shutdownFinished w' = wk_shutdownFinished w \<and> wk_workerId w' = wk_workerId w \<and> wk_nextFrame w' = wk_nextFrame w
     \<and> wk_nextTimer w' = wk_nextTimer w"

lemma same_claims_transfer:
  assumes "same_claims w w'"
  shows "scheduled k l wid w' = scheduled k l wid w" "accounted k l wid (wk_queue w') = accounted k l wid (wk_queue w)"
    and "wk_frames w' = wk_frames w \<Longrightarrow> base_ok k wid w' = base_ok k wid w"
    and "wk_frames w' = wk_frames w \<Longrightarrow> safe_claim k l wid w' = safe_claim k l wid w"
  using assms
  by (auto simp: same_claims_def scheduled_def accounted_def base_ok_def works_ok_def recorded_def safe_claim_alt)

lemma count_metric_same [simp]:
  "wk_frames (count_metric now m t d w) = wk_frames w" "same_claims w (count_metric now m t d w)"
  "wk_admission (count_metric now m t d w) = wk_admission w" "wk_activeTasks (count_metric now m t d w) = wk_activeTasks w"
  "wk_capacity (count_metric now m t d w) = wk_capacity w" "wk_nextFrame (count_metric now m t d w) = wk_nextFrame w"
  by (simp_all add: count_metric_def same_claims_def)

lemma leaveTask_frames: "wk_frames (leaveTask now ot i f w) = jdel (wk_frames w) i"
  by (simp add: leaveTask_def Let_def count_metric_def split: option.splits)

lemma leaveTask_same: "same_claims w (leaveTask now ot i f w)"
  by (auto simp: leaveTask_def Let_def same_claims_def count_metric_def split: option.splits)

lemma base_frame_gone:
  "base_ok k wid w \<Longrightarrow> same_claims w w' \<Longrightarrow> wk_frames w' = jdel (wk_frames w) i \<Longrightarrow> base_ok k wid w'"
  by (auto simp: base_ok_def same_claims_def works_ok_def recorded_def)

lemma leaveTask_safe:
  assumes w: "safe_claim k l wid w" and f: "map_of (wk_frames w) i = Some f" and t: "presents k l wid (fr_task f) = presents k l wid t"
    and w': "settles k l wid t w w'"
  shows "safe_claim k l wid (leaveTask now ot i g w')"
proof -
  let ?w = "leaveTask now ot i g w'"
  note same = same_claims_transfer(1,2)[OF leaveTask_same[of w' now ot i g], of k l wid]
  have frames: "wk_frames ?w = jdel (wk_frames w) i" using w' by (simp add: leaveTask_frames settles_def)
  have base: "base_ok k wid ?w"
    by (rule base_frame_gone[OF _ leaveTask_same leaveTask_frames]) (use w' in \<open>simp add: settles_def\<close>)
  show ?thesis
  proof (cases "presents k l wid t")
    case True
    then have "accounted k l wid (wk_queue w') \<or> scheduled k l wid w'" using w' by (simp add: settles_def)
    with base same show ?thesis by (auto simp: safe_claim_alt)
  next
    case False
    have keep: "\<exists>p \<in> set (wk_frames ?w). presents k l wid (fr_task (snd p))" if "p \<in> set (wk_frames w)" "presents k l wid (fr_task (snd p))" for p
    proof -
      have "jwf (wk_frames w)" using w by (simp add: safe_claim_def)
      then have "fst p \<noteq> i" using that f t False by (metis map_of_is_SomeI option.inject prod.collapse)
      with that show ?thesis unfolding frames by (intro bexI[of _ p]) auto
    qed
    have "wk_recoveryFailures ?w = wk_recoveryFailures w"
      using leaveTask_same[of w' now ot i g] w' by (simp add: same_claims_def settles_def)
    note fails = this
    from w consider (frame) p where "p \<in> set (wk_frames w)" "presents k l wid (fr_task (snd p))" | (sched) "scheduled k l wid w"
      | (acc) "accounted k l wid (wk_queue w)" | (failed) "wk_recoveryFailures w \<noteq> []"
      unfolding safe_claim_alt by blast
    then show ?thesis
    proof cases
      case frame
      from keep[OF this] base show ?thesis by (simp add: safe_claim_alt)
    qed (use w' base same False fails in \<open>simp_all add: safe_claim_alt settles_def\<close>)
  qed
qed

lemma endTask_safe:
  assumes "safe_claim k l wid w"
  shows "safe_claim k l wid (endTask now a ot i w)"
proof (cases "map_of (wk_frames w) i")
  case None
  with assms show ?thesis by (simp add: endTask_def)
next
  case (Some f)
  have b: "base_ok k wid w" using assms by (simp add: safe_claim_alt)
  obtain r t where body: "runBody now a w (fr_task f) = (r, t)" by (cases "runBody now a w (fr_task f)")
  then have t: "presents k l wid (fr_task f) = presents k l wid t"
    by (auto simp: runBody_def Let_def split: execution_mode.splits if_splits sum.splits)
  note leave = leaveTask_safe[OF assms Some t]
  show ?thesis
    using assms Some body leave[OF settleSuccess_settles[OF b]] leave[OF settleFailure_settles[OF b]]
    by (auto simp: endTask_def split: sum.splits)
qed

lemma admitTask_same: "admitTask now token clk t d w = (r, w') \<Longrightarrow> same_claims w w' \<and> wk_frames w' = wk_frames w"
  by (auto simp: admitTask_def same_claims_def count_metric_def split: option.splits prod.splits sum.splits admission_result.splits)

lemma startTask_safe:
  assumes w: "safe_claim k l wid w"
  shows "safe_claim k l wid (startTask now host token clk ot i w)"
proof (cases "map_of (wk_frames w) i")
  case None
  with w show ?thesis by (simp add: startTask_def)
next
  case (Some f)
  show ?thesis
  proof (cases "fr_started f")
    case True
    with Some w show ?thesis by (simp add: startTask_def)
  next
    case False
    have b: "base_ok k wid w" using w by (simp add: safe_claim_alt)
    let ?d = "case host of Some h \<Rightarrow> h | None \<Rightarrow> ''unknown''"
    obtain r w1 where adm: "admitTask (of_int now) token clk (fr_task f) ?d w = (r, w1)"
      by (cases "admitTask (of_int now) token clk (fr_task f) ?d w")
    note same = admitTask_same[OF adm]
    have w1: "safe_claim k l wid w1" "base_ok k wid w1" "map_of (wk_frames w1) i = Some f"
      using same same_claims_transfer(3,4)[of w w1] w b Some by simp_all
    note leave = leaveTask_safe[OF w Some refl settleFailure_settles[OF b]]
      and leave1 = leaveTask_safe[OF w1(1) w1(3) refl settleFailure_settles[OF w1(2)]]
    have kept: "safe_claim k l wid (w1\<lparr>wk_frames := jset (wk_frames w1) i (f\<lparr>fr_permit := p, fr_domain := ?d, fr_started := True\<rparr>)\<rparr>)" for p
    proof -
      have "i < wk_nextFrame w1" "jwf (wk_frames w1)"
        using w1(2,3) by (auto simp: base_ok_def dest!: map_of_SomeD)
      moreover have "\<exists>q \<in> set (jset (wk_frames w1) i (f\<lparr>fr_permit := p, fr_domain := ?d, fr_started := True\<rparr>)). presents k l wid (fr_task (snd q))"
        if x: "x \<in> set (wk_frames w1)" "presents k l wid (fr_task (snd x))" for x
      proof -
        let ?m = "jset (wk_frames w1) i (f\<lparr>fr_permit := p, fr_domain := ?d, fr_started := True\<rparr>)"
        have "map_of (wk_frames w1) (fst x) = Some (snd x)" using x(1) \<open>jwf (wk_frames w1)\<close> by (simp add: map_of_is_SomeI)
        then have "\<exists>g. map_of ?m (fst x) = Some g \<and> fr_task g = fr_task (snd x)" using w1(3) by (auto simp: jset_apply)
        then show ?thesis using x(2) by (metis map_of_SomeD snd_conv)
      qed
      ultimately show ?thesis
        using w1(1) unfolding safe_claim_alt
        by (auto simp: base_ok_def works_ok_def scheduled_def jset_keys simp del: set_map split: if_splits)
    qed
    show ?thesis
      using Some False adm leave leave1 kept same_claims_transfer(4)[OF count_metric_same(2) count_metric_same(1)]
      by (auto simp: startTask_def Let_def split: sum.splits)
  qed
qed

text \<open>A claim by this worker itself: another lease, as lease names are fresh.\<close>

lemma claimPartition_safe:
  assumes w: "safe_claim k l wid w" and "uuid \<noteq> l"
  shows "safe_claim k l wid (snd (claimPartition now uuid down tenant w))"
proof -
  let ?D = "reach down (dequeueTask now uuid (wk_workerId w) (Some tenant))"
  obtain r q where d: "?D (wk_queue w) = (r, q)" by (cases "?D (wk_queue w)")
  have rec: "recorded k q"
    using w d dequeueTask_recorded[of k "wk_queue w" now uuid "wk_workerId w" "Some tenant"]
    by (auto simp: safe_claim_def reach_def split: if_splits)
  have acc: "accounted k l wid q" if "accounted k l wid (wk_queue w)"
    using that d dequeueTask_accounted[OF assms(2) that, of now "wk_workerId w" "Some tenant"] by (auto simp: reach_def split: if_splits)
  have q: "safe_claim k l wid (w\<lparr>wk_queue := q\<rparr>)"
    using w rec acc base_queue[of k wid w q] by (auto simp: safe_claim_alt)
  have fresh: "jset (wk_frames w) (wk_nextFrame w) f = wk_frames w @ [(wk_nextFrame w, f)]" for f
    by (rule jset_fresh) (use w in \<open>auto simp: safe_claim_def map_of_eq_None_iff\<close>)
  have "safe_claim k l wid (w\<lparr>wk_queue := q, wk_activeTasks := n, wk_controllers := c,
      wk_frames := jset (wk_frames w) (wk_nextFrame w) f, wk_nextFrame := Suc (wk_nextFrame w)\<rparr>)" for n c f
  proof -
    have "wk_nextFrame w \<notin> set (jkeys (wk_frames w))" using w by (auto simp: safe_claim_def)
    then show ?thesis using q by (auto simp: fresh safe_claim_alt base_ok_def works_ok_def scheduled_def less_Suc_eq)
  qed
  with q d show ?thesis unfolding claimPartition_def by (auto split: sum.splits option.splits)
qed

lemma pollOffset_safe:
  assumes "safe_claim k l wid (snd cw)" "fst (call offset) \<noteq> l"
  shows "safe_claim k l wid (snd (pollOffset now shards call start cw offset))"
proof (cases cw)
  case (Pair c w)
  with assms claimPartition_safe[of k l wid w "fst (call offset)" now "snd (call offset)"] show ?thesis
    by (auto simp: pollOffset_def Let_def split: prod.splits) (metis snd_conv)
qed

lemma pollRound_safe:
  assumes w: "safe_claim k l wid w" and fresh: "\<forall>n < length (wk_tenants w) * shards. fst (call n) \<noteq> l"
  shows "safe_claim k l wid (snd (pollRound now shards call w))"
proof -
  have fold: "safe_claim k l wid (snd (foldl (pollOffset now shards call start) cw os))" if "safe_claim k l wid (snd cw)" "\<forall>n \<in> set os. fst (call n) \<noteq> l" for start cw os
    using that by (induction os arbitrary: cw) (simp_all add: pollOffset_safe)
  have "safe_claim k l wid (w'\<lparr>wk_cursor := c\<rparr>) = safe_claim k l wid w'" for w' c
    by (rule same_claims_transfer(4)) (simp_all add: same_claims_def)
  then show ?thesis
    using w fold[of "(False, w)" "[0..<length (wk_tenants w) * shards]"] fresh
    by (auto simp: pollRound_def Let_def split: prod.splits) (metis snd_conv)
qed

text \<open>A flush, as the settling of the task it carries.\<close>

lemma flush_effect:
  assumes rec: "recorded k q" and ok: "work_ok r" and f: "flushRecovery now ot r q = (x, q')"
  shows "recorded k q'" and "presents k l wid (rw_task r) \<Longrightarrow> x = Inr () \<or> x = Inl TASK_LEASE_LOST \<Longrightarrow> accounted k l wid q'"
    and "accounted k l wid q \<Longrightarrow> accounted k l wid q'"
proof -
  let ?t = "rw_task r"
  have t: "terminal ?t" if "rw_kind r = PersistWork" using ok that by (simp add: work_ok_def)
  have e: "reach (ot_enqueue ot) (enqueueTask (?t\<lparr>t_state := TPending\<rparr>)) q = (x, q')" if "rw_kind r = EnqueueWork"
    using f that by (simp add: flushRecovery_def)
  have p: "persistTask ot ?t q = (x, q') \<or> persistCompletedTask now ot ?t q = (x, q')" if "rw_kind r = PersistWork"
    using f that by (auto simp: flushRecovery_def Let_def split: if_splits)
  show "recorded k q'"
  proof (cases "rw_kind r")
    case EnqueueWork
    with e rec enqueueTask_recorded[OF rec, of "?t\<lparr>t_state := TPending\<rparr>"] show ?thesis by (auto simp: reach_def split: if_splits)
  next
    case PersistWork
    with p persist_keeps(1)[OF rec, of ot ?t] persist_keeps(2)[OF rec, of now ot ?t] show ?thesis by auto
  qed
  show "accounted k l wid q'" if "presents k l wid ?t" "x = Inr () \<or> x = Inl TASK_LEASE_LOST"
  proof (cases "rw_kind r")
    case EnqueueWork
    with requeue_settles[OF rec that(1) e that(2)] show ?thesis by simp
  next
    case PersistWork
    with p persist_settles[OF rec that(1) t] that(2) show ?thesis by metis
  qed
  show "accounted k l wid q'" if a: "accounted k l wid q"
  proof (cases "rw_kind r")
    case EnqueueWork
    with e a enqueueTask_accounted[OF a, of "?t\<lparr>t_state := TPending\<rparr>"] show ?thesis
      by (auto simp: reach_def is_queued_def split: if_splits)
  next
    case PersistWork
    with p persist_accounted(1)[OF a, of ?t ot] persist_accounted(2)[OF a, of ?t now ot] t show ?thesis by auto
  qed
qed

lemma fireTimer_safe:
  assumes w: "safe_claim k l wid w"
  shows "safe_claim k l wid (fireTimer now ot i w)"
proof (cases "map_of (wk_retryTimers w) i")
  case None
  with w show ?thesis by (simp add: fireTimer_def)
next
  case (Some x)
  obtain r d where x: "x = (r, d)" by (cases x)
  have in_timers: "(i, r, d) \<in> set (wk_retryTimers w)" using Some x by (auto dest: map_of_SomeD)
  have ok: "work_ok r" using w in_timers by (force simp: safe_claim_def works_ok_def)
  have rec: "recorded k (wk_queue w)" using w by (simp add: safe_claim_def)
  obtain e q where f: "flushRecovery now ot r (wk_queue w) = (e, q)" by (cases "flushRecovery now ot r (wk_queue w)")
  note eff = flush_effect[OF rec ok f]
  define w1 where "w1 = w\<lparr>wk_retryTimers := jdel (wk_retryTimers w) i, wk_queue := q\<rparr>"
  have b: "base_ok k wid w1"
    using w eff(1) by (auto simp: safe_claim_alt base_ok_def works_ok_def w1_def)
  have keep: "scheduled k l wid w1" if "scheduled k l wid w" "\<not> presents k l wid (rw_task r)"
  proof -
    have "jwf (wk_retryTimers w)" using w by (simp add: safe_claim_def)
    then have "fst p \<noteq> i" if "p \<in> set (wk_retryTimers w)" "presents k l wid (rw_task (fst (snd p)))" for p
      using that Some x \<open>\<not> presents k l wid (rw_task r)\<close> by (metis fst_conv map_of_is_SomeI option.inject prod.collapse)
    with that show ?thesis unfolding scheduled_def w1_def by force
  qed
  have same: "wk_frames w1 = wk_frames w" "wk_recoveryFailures w1 = wk_recoveryFailures w" "wk_queue w1 = q" by (simp_all add: w1_def)
  let ?t = "if rw_kind r = EnqueueWork then (rw_task r)\<lparr>t_state := TRetrying\<rparr> else rw_task r"
  have run: "fireTimer now ot i w = (if e = Inr () \<or> e = Inl TASK_LEASE_LOST then w1
      else if \<not> wk_stopping w1 then scheduleRecovery ?t (rw_kind r) QUEUE_RECOVERY_DELAY_MS w1
      else w1\<lparr>wk_recoveryFailures := wk_recoveryFailures w1 @ [projl e]\<rparr>)"
    using Some x f b by (auto simp: fireTimer_def runRecovery_def Let_def w1_def base_ok_def split: sum.splits)
  have "work_ok \<lparr>rw_task = ?t, rw_kind = rw_kind r\<rparr>" using ok by (auto simp: work_ok_def)
  note sch = scheduleRecovery_ok[OF b this]
  have failed: "base_ok k wid (w1\<lparr>wk_recoveryFailures := xs\<rparr>)" for xs using b by (simp add: base_ok_def works_ok_def)
  consider (settled) "e = Inr () \<or> e = Inl TASK_LEASE_LOST" | (again) "\<not> (e = Inr () \<or> e = Inl TASK_LEASE_LOST)" "\<not> wk_stopping w1"
    | (reported) "\<not> (e = Inr () \<or> e = Inl TASK_LEASE_LOST)" "wk_stopping w1" by blast
  then show ?thesis
  proof cases
    case settled
    have "safe_claim k l wid w1"
      using w keep eff(2)[OF _ settled] eff(3) b unfolding safe_claim_alt same by blast
    with settled show ?thesis unfolding run by simp
  next
    case again
    have "presents k l wid (rw_task r) \<longrightarrow> presents k l wid ?t" by simp
    then have "safe_claim k l wid (scheduleRecovery ?t (rw_kind r) QUEUE_RECOVERY_DELAY_MS w1)"
      using w keep sch eff(3) unfolding safe_claim_alt same scheduleRecovery_same by blast
    with again show ?thesis unfolding run by simp
  next
    case reported
    then show ?thesis using failed unfolding run safe_claim_alt by simp
  qed
qed

text \<open>The drain: unless it reports an error, it settles everything that was scheduled.\<close>

lemma flush_all:
  assumes "recorded k q" "\<forall>x \<in> set ws. work_ok (fst x)" "foldl (flushCollecting now) (es, q) ws = (es', q')" "es' = []"
  shows "es = [] \<and> recorded k q' \<and> (accounted k l wid q \<longrightarrow> accounted k l wid q')
     \<and> ((\<exists>x \<in> set ws. presents k l wid (rw_task (fst x))) \<longrightarrow> accounted k l wid q')"
  using assms
proof (induction ws arbitrary: es q)
  case (Cons x ws)
  obtain e q1 where f: "flushRecovery now (snd x) (fst x) q = (e, q1)" by (cases "flushRecovery now (snd x) (fst x) q")
  define es1 where "es1 = (if e = Inr () \<or> e = Inl TASK_LEASE_LOST then es else es @ [Some (projl e)])"
  have step: "flushCollecting now (es, q) x = (es1, q1)" using f by (auto simp: flushCollecting_def es1_def split: sum.splits)
  note eff = flush_effect[OF Cons.prems(1) _ f]
  have ok: "work_ok (fst x)" using Cons.prems(2) by simp
  have ih: "es1 = [] \<and> recorded k q' \<and> (accounted k l wid q1 \<longrightarrow> accounted k l wid q')
     \<and> ((\<exists>y \<in> set ws. presents k l wid (rw_task (fst y))) \<longrightarrow> accounted k l wid q')"
    by (rule Cons.IH[of q1 es1]) (use Cons.prems step eff(1)[OF ok] in simp_all)
  moreover have "e = Inr () \<or> e = Inl TASK_LEASE_LOST" "es = []" using ih by (auto simp: es1_def split: if_splits)
  ultimately show ?case using eff(2,3)[OF ok, of l wid] by auto
qed auto

lemma stopDrain_safe:
  assumes w: "safe_claim k l wid w" and quiet: "fst (stopDrain now ots w) = []"
  shows "safe_claim k l wid (snd (stopDrain now ots w)) \<and> (wk_frames w = [] \<longrightarrow> accounted k l wid (wk_queue (snd (stopDrain now ots w))))"
proof -
  define works where "works = map (\<lambda>p. fst (snd p)) (wk_retryTimers w) @ wk_lateRecovery w"
  define ws where "ws = zip works (map ots [0..<length works])"
  obtain es q where d: "foldl (flushCollecting now) (map Some (wk_recoveryFailures w), wk_queue w) ws = (es, q)"
    by (cases "foldl (flushCollecting now) (map Some (wk_recoveryFailures w), wk_queue w) ws")
  have fsts: "fst ` set ws = set works" unfolding ws_def by (metis list.set_map map_fst_zip length_map length_upt minus_nat.diff_0)
  have "es = []" using quiet d by (simp add: stopDrain_def Let_def works_def[symmetric] ws_def[symmetric])
  have "\<forall>r \<in> set works. work_ok r" using w by (auto simp: safe_claim_def works_ok_def works_def)
  then have ok: "\<forall>x \<in> set ws. work_ok (fst x)" unfolding fsts[symmetric] by blast
  note all = flush_all[OF _ ok d \<open>es = []\<close>, of k l wid]
  have rec: "recorded k (wk_queue w)" using w by (simp add: safe_claim_def)
  have sched: "scheduled k l wid w \<longleftrightarrow> (\<exists>x \<in> set ws. presents k l wid (rw_task (fst x)))"
  proof -
    have "scheduled k l wid w \<longleftrightarrow> (\<exists>r \<in> set works. presents k l wid (rw_task r))" by (auto simp: scheduled_def works_def)
    then show ?thesis unfolding fsts[symmetric] by blast
  qed
  have "snd (stopDrain now ots w) = w\<lparr>wk_queue := q, wk_recoveryFailures := [], wk_retryTimers := [], wk_lateRecovery := []\<rparr>"
    using d by (simp add: stopDrain_def Let_def works_def[symmetric] ws_def[symmetric])
  then show ?thesis using w all[OF rec] sched by (auto simp: safe_claim_alt base_ok_def works_ok_def)
qed

text \<open>Which steps a run may take: fresh lease names, no step of \<open>stop\<close> that reports an error.\<close>

fun event_ok :: "string \<Rightarrow> string \<Rightarrow> string \<Rightarrow> worker \<Rightarrow> worker_event \<Rightarrow> bool" where
  "event_ok k l wid w (PollW now shards call) = (\<forall>n < length (wk_tenants w) * shards. fst (call n) \<noteq> l)"
| "event_ok k l wid w (StopDrainW now ots) = (fst (stopDrain now ots w) = [])"
| "event_ok k l wid w (OthersW e) = others_ok k l wid e"
| "event_ok k l wid w _ = True"

inductive worker_run :: "string \<Rightarrow> string \<Rightarrow> string \<Rightarrow> worker \<Rightarrow> worker \<Rightarrow> bool" for k l wid w0 where
  run_start: "worker_run k l wid w0 w0"
| run_step: "worker_run k l wid w0 w \<Longrightarrow> event_ok k l wid w e \<Longrightarrow> worker_run k l wid w0 (workerStep w e)"

lemma renewTick_safe: "safe_claim k l wid (renewTick down i w) = safe_claim k l wid w"
  by (rule same_claims_transfer(4)) (auto simp: renewTick_def Let_def same_claims_def split: option.splits)

lemma startWorker_safe: "safe_claim k l wid (snd (startWorker now down w)) = safe_claim k l wid w"
  by (rule same_claims_transfer(4)) (auto simp: startWorker_def same_claims_def)

lemma stopBegin_safe: "safe_claim k l wid (stopBegin w) = safe_claim k l wid w"
  by (rule same_claims_transfer(4)) (auto simp: stopBegin_def same_claims_def)

lemma others_safe:
  assumes "safe_claim k l wid w" "others_ok k l wid e"
  shows "safe_claim k l wid (w\<lparr>wk_queue := queue_step (wk_queue w) e\<rparr>)"
proof -
  have "recorded k (wk_queue w)" using assms(1) by (simp add: safe_claim_def)
  note rec = others_keep(1)[OF assms(2) this] and acc = others_keep(2)[OF assms(2), of "wk_queue w"]
  show ?thesis using assms(1) base_queue[OF _ rec, of wid] acc by (auto simp: safe_claim_alt)
qed

lemma workerStep_safe: "safe_claim k l wid w \<Longrightarrow> event_ok k l wid w e \<Longrightarrow> safe_claim k l wid (workerStep w e)"
  by (cases e) (simp_all add: renewTick_safe startWorker_safe stopBegin_safe others_safe startTask_safe endTask_safe fireTimer_safe
      stopDrain_safe pollRound_safe)

lemma worker_run_safe: "worker_run k l wid w0 w \<Longrightarrow> safe_claim k l wid w0 \<Longrightarrow> safe_claim k l wid w"
  by (induction rule: worker_run.induct) (simp_all add: workerStep_safe)

text \<open>Ids of frames and timers are fresh, and recovery work is well formed: true of a new worker and kept by it.\<close>

definition worker_wf :: "worker \<Rightarrow> bool" where
  "worker_wf w \<longleftrightarrow> works_ok w \<and> \<not> wk_shutdownFinished w \<and> jwf (wk_frames w) \<and> jwf (wk_retryTimers w)
     \<and> (\<forall>i \<in> set (jkeys (wk_frames w)). i < wk_nextFrame w) \<and> (\<forall>i \<in> set (jkeys (wk_retryTimers w)). i < wk_nextTimer w)
     \<and> queue_wf (wk_queue w)"

lemma claimed_safe:
  assumes "worker_wf w" "claimPartition now uuid down tenant w = (True, w')"
  obtains t where "map_of (wk_frames w') (wk_nextFrame w) = Some \<lparr>fr_task = withEvent now PhRunning MSG_CLAIMED t, fr_start = now, fr_permit = None,
      fr_domain = ''unknown'', fr_started = False\<rparr>"
    and "t_leaseId t = Some uuid" "t_workerId t = Some (wk_workerId w)"
    and "safe_claim (taskKey (t_tenantId t) (t_id t)) uuid (wk_workerId w) w'"
proof -
  obtain t q where d: "dequeueTask now uuid (wk_workerId w) (Some tenant) (wk_queue w) = (Inr (Some t), q)"
    using assms(2) by (auto simp: claimPartition_def reach_def split: if_splits sum.splits option.splits prod.splits)
  let ?f = "\<lparr>fr_task = withEvent now PhRunning MSG_CLAIMED t, fr_start = now, fr_permit = None, fr_domain = ''unknown'', fr_started = False\<rparr>"
  have wf: "queue_wf (wk_queue w)" using assms(1) by (simp add: worker_wf_def)
  note l = dequeue_leases[OF wf d]
  have none: "map_of (wk_frames w) (wk_nextFrame w) = None" using assms(1) by (auto simp: worker_wf_def map_of_eq_None_iff)
  have w': "wk_frames w' = wk_frames w @ [(wk_nextFrame w, ?f)]" "wk_queue w' = q" "wk_nextFrame w' = Suc (wk_nextFrame w)"
    "wk_retryTimers w' = wk_retryTimers w" "wk_lateRecovery w' = wk_lateRecovery w" "wk_shutdownFinished w' = wk_shutdownFinished w"
    "wk_workerId w' = wk_workerId w" "wk_nextTimer w' = wk_nextTimer w"
    using assms(2) d none by (auto simp: claimPartition_def reach_def jset_fresh split: if_splits)
  have "presents (taskKey (t_tenantId t) (t_id t)) uuid (wk_workerId w) (fr_task ?f)" using l by (simp add: presents_def withEvent_def)
  moreover have "recorded (taskKey (t_tenantId t) (t_id t)) q" using l by (auto simp: recorded_def)
  ultimately have "safe_claim (taskKey (t_tenantId t) (t_id t)) uuid (wk_workerId w) w'"
    using assms(1) none
    by (auto simp: safe_claim_alt base_ok_def w' worker_wf_def works_ok_def less_Suc_eq map_of_eq_None_iff)
  then show thesis using that[of t] none l w' by (simp add: map_add_def)
qed


text \<open>A worker with one tenant, a queue of one task, and a run in which the fetch fails twice and then succeeds.\<close>

definition new_worker :: "int \<Rightarrow> string list \<Rightarrow> queue \<Rightarrow> controller option \<Rightarrow> worker" where
  "new_worker capacity tenants q adm =
     \<lparr>wk_workerId = ''w1'', wk_hostname = ''host'', wk_capacity = capacity, wk_tenants = tenants, wk_namespace = ''local:w1'',
      wk_hasPolicy = True, wk_hasSessions = False, wk_store = None, wk_admission = adm, wk_metrics = None, wk_queue = q,
      wk_activeTasks = 0, wk_isRunning = True, wk_closed = False, wk_stopping = False, wk_shutdownFinished = False, wk_frames = [],
      wk_nextFrame = 0, wk_controllers = [], wk_retryTimers = [], wk_nextTimer = 0, wk_recoveryFailures = [], wk_lateRecovery = [],
      wk_cursor = 0\<rparr>"

definition fetch_answers :: "thrown + fetched \<Rightarrow> answers" where
  "fetch_answers f = \<lparr>an_fetch = f, an_start = Inl (plain_error []), an_open = Inr (), an_extract = Inr JNull, an_snapshot = Inr JNull\<rparr>"

definition all_up :: outage where
  "all_up = \<lparr>ot_update = False, ot_mark = False, ot_enqueue = False, ot_heartbeat = False\<rparr>"

definition one_task_queue :: queue where
  "one_task_queue = snd (enqueueTask (sample_task ''t1'' ''job'' NORMAL) empty_queue)"


text \<open>
  A cancelled task comes back. A task whose attempt failed waits for its recovery timer as \<open>RETRYING\<close>, still
  with its lease; \<open>cancelTask\<close> accepts it, and the timer then puts it back: \<open>enqueueTask\<close> compares leases only.
\<close>

definition failed_once :: worker where
  "failed_once = endTask 7 (fetch_answers (Inl (plain_error ''x''))) all_up 0
     (startTask 6 None ''p'' (Fin 6) all_up 0 (snd (claimPartition 5 ''l1'' False ''t1'' (new_worker 2 [''t1''] one_task_queue None))))"

definition cancelled_then_fired :: "(sched_error + task) \<times> queue" where
  "cancelled_then_fired =
     (case cancelTask 8 ''job'' (Some ''t1'') \<lparr>sc_queue = wk_queue failed_once, sc_registry = sample_registry, sc_store = \<lambda>_. None\<rparr> of
        (r, s) \<Rightarrow> (r, wk_queue (fireTimer 2007 all_up 0 (failed_once\<lparr>wk_queue := sc_queue s\<rparr>))))"

lemma cancelled_task_resurrected:
  "case cancelled_then_fired of
     (r, q) \<Rightarrow> (case r of Inl _ \<Rightarrow> False | Inr t \<Rightarrow> t_state t = TCancelled)
       \<and> (case fst (dequeueTask 3000 ''l2'' ''w2'' (Some ''t1'') q) of Inr (Some t) \<Rightarrow> t_id t = ''job'' | _ \<Rightarrow> False)"
  by code_simp

end
