(* ===== verification/WorkerBalance.thy ===== *)
theory WorkerBalance
  imports WorkerDaemon
begin

text \<open>
  The worker's bookkeeping: its counter of active tasks against the tasks in execution and its capacity, and the
  admission controller's permits against the tasks that hold one. Every path out of a task, whichever step threw,
  goes through the \<open>finally\<close> block of \<open>executeTask\<close>.
\<close>

subsection \<open>Who holds a permit\<close>

definition owned :: "(nat \<rightharpoonup> frame) \<Rightarrow> (string \<rightharpoonup> admission_request) \<Rightarrow> bool" where
  "owned F P \<longleftrightarrow> (\<forall>tok. P tok \<noteq> None \<longleftrightarrow> (\<exists>i f. F i = Some f \<and> fr_permit f = Some tok))
     \<and> (\<forall>i j f g tok. F i = Some f \<longrightarrow> F j = Some g \<longrightarrow> fr_permit f = Some tok \<longrightarrow> fr_permit g = Some tok \<longrightarrow> i = j)"

lemma owned_unique: "owned F P \<Longrightarrow> F i = Some f \<Longrightarrow> F j = Some g \<Longrightarrow> fr_permit f = Some tok \<Longrightarrow> fr_permit g = Some tok \<Longrightarrow> i = j"
  unfolding owned_def by blast

lemma owned_iff: "owned F P \<Longrightarrow> P tok \<noteq> None \<longleftrightarrow> (\<exists>i f. F i = Some f \<and> fr_permit f = Some tok)"
  unfolding owned_def by blast

lemma owned_plain:
  assumes "owned F P" "F i = None \<or> (\<exists>f. F i = Some f \<and> fr_permit f = None)" "fr_permit g = None"
  shows "owned (F(i \<mapsto> g)) P"
  using assms unfolding owned_def by (auto simp: fun_upd_def) (metis option.distinct(1) option.inject)+

lemma owned_grant:
  assumes "owned F P" "F i = Some f" "fr_permit f = None" "P tok = None" "fr_permit g = Some tok"
  shows "owned (F(i \<mapsto> g)) (P(tok \<mapsto> r))"
proof -
  have no: "F j = Some h \<Longrightarrow> fr_permit h \<noteq> Some tok" for j h using owned_iff[OF assms(1), of tok] assms(4) by auto
  have "((P(tok \<mapsto> r)) t \<noteq> None) = (\<exists>j h. (F(i \<mapsto> g)) j = Some h \<and> fr_permit h = Some t)" for t
  proof (cases "t = tok")
    case True
    then show ?thesis using assms(5) by (auto simp: fun_upd_def)
  next
    case False
    then have "(\<exists>j h. (F(i \<mapsto> g)) j = Some h \<and> fr_permit h = Some t) = (\<exists>j h. F j = Some h \<and> fr_permit h = Some t)"
      using assms(2,3,5) by (metis fun_upd_apply option.distinct(1) option.inject)
    then show ?thesis using False owned_iff[OF assms(1), of t] by simp
  qed
  moreover have "j = k" if "(F(i \<mapsto> g)) j = Some h" "(F(i \<mapsto> g)) k = Some h'" "fr_permit h = Some t" "fr_permit h' = Some t" for j k h h' t
    using that no assms(5) owned_unique[OF assms(1), of j h k h' t] by (auto simp: fun_upd_def split: if_splits)
  ultimately show ?thesis unfolding owned_def by blast
qed

lemma owned_leave:
  assumes "owned F P" "F i = Some f"
  shows "owned (F(i := None)) (case fr_permit f of None \<Rightarrow> P | Some tok \<Rightarrow> P(tok := None))"
proof (cases "fr_permit f")
  case None
  then show ?thesis using assms unfolding owned_def by (auto simp: fun_upd_def) (metis option.distinct(1) option.inject)+
next
  case (Some tok)
  have "((P(tok := None)) t \<noteq> None) = (\<exists>j h. (F(i := None)) j = Some h \<and> fr_permit h = Some t)" for t
  proof (cases "t = tok")
    case True
    have "j = i" if "F j = Some h" "fr_permit h = Some tok" for j h using owned_unique[OF assms(1) that(1) assms(2) that(2) Some] .
    then show ?thesis using True by auto
  next
    case False
    then have "(\<exists>j h. (F(i := None)) j = Some h \<and> fr_permit h = Some t) = (\<exists>j h. F j = Some h \<and> fr_permit h = Some t)"
      using assms(2) Some by (metis fun_upd_apply option.inject option.distinct(1))
    then show ?thesis using False owned_iff[OF assms(1), of t] by simp
  qed
  moreover have "j = k" if "(F(i := None)) j = Some h" "(F(i := None)) k = Some h'" "fr_permit h = Some t" "fr_permit h' = Some t" for j k h h' t
  proof -
    have "F j = Some h" "F k = Some h'" using that(1,2) by (auto split: if_splits)
    then show ?thesis using owned_unique[OF assms(1) _ _ that(3,4)] by blast
  qed
  ultimately show ?thesis unfolding owned_def Some option.case by blast
qed

text \<open>What the controller's operations do to its permits.\<close>

lemma acquire_with_bucket_permits:
  "(\<exists>r. fst (acquire_with_bucket tok now rq c) = Allowed tok \<and> adm_permits (snd (acquire_with_bucket tok now rq c)) = jset (adm_permits c) tok r)
    \<or> (\<exists>e ms. fst (acquire_with_bucket tok now rq c) = Denied e ms) \<and> adm_permits (snd (acquire_with_bucket tok now rq c)) = adm_permits c"
proof (cases "current_tokens c (ar_tenantId rq) now < 1")
  case False
  show ?thesis
  proof (cases "concurrency_reason (set_bucket (ar_tenantId rq) (current_tokens c (ar_tenantId rq) now) now c) rq")
    case None
    with False have "acquire_with_bucket tok now rq c
        = (Allowed tok, admit tok rq (set_bucket (ar_tenantId rq) (current_tokens c (ar_tenantId rq) now - 1) now
            (set_bucket (ar_tenantId rq) (current_tokens c (ar_tenantId rq) now) now c)))"
      unfolding acquire_with_bucket_def Let_def by (simp only: if_False option.case)
    moreover have "adm_permits (admit tok rq (set_bucket t x now (set_bucket t y now c))) = jset (adm_permits c) tok rq" for t x y
      by (simp add: admit_def set_bucket_def)
    ultimately show ?thesis by (intro disjI1 exI[of _ rq]) simp
  next
    case (Some e)
    with False show ?thesis unfolding acquire_with_bucket_def Let_def by (simp only: if_False option.case) (simp add: set_bucket_def)
  qed
next
  case True
  then show ?thesis unfolding acquire_with_bucket_def Let_def by (simp only: if_True) (simp add: set_bucket_def)
qed

lemma acquire_permits:
  "(\<exists>r. fst (acquire tok clk rq c) = Inr (Allowed tok) \<and> adm_permits (snd (acquire tok clk rq c)) = jset (adm_permits c) tok r)
    \<or> (\<forall>p. fst (acquire tok clk rq c) \<noteq> Inr (Allowed p)) \<and> adm_permits (snd (acquire tok clk rq c)) = adm_permits c"
proof (cases "validateRequest rq")
  case (Inr r')
  show ?thesis
  proof (cases clk)
    case (Fin now)
    show ?thesis
    proof (cases "now < 0")
      case False
      show ?thesis unfolding Fin acquire_split[OF Inr False]
        using acquire_with_bucket_permits[of tok now r' c] acquire_with_bucket_permits[of tok now r' "evict_idle c"] by auto
    qed (simp add: acquire_def Inr Fin)
  qed (simp add: acquire_def Inr)
qed (simp add: acquire_def)

lemma release_permits: "map_of (adm_permits (release tok c)) = (map_of (adm_permits c))(tok := None)"
  by (cases "map_of (adm_permits c) tok")
    (simp_all add: release_def fun_eq_iff jdel_apply del: map_of_eq_Some_iff)

subsection \<open>The invariant\<close>

definition balanced :: "worker \<Rightarrow> bool" where
  "balanced w \<longleftrightarrow> jwf (wk_frames w) \<and> (\<forall>i \<in> set (jkeys (wk_frames w)). i < wk_nextFrame w)
     \<and> wk_activeTasks w = int (length (wk_frames w)) \<and> wk_activeTasks w \<le> wk_capacity w
     \<and> (\<forall>p \<in> set (wk_frames w). fr_started (snd p) \<or> fr_permit (snd p) = None)
     \<and> (case wk_admission w of None \<Rightarrow> \<forall>p \<in> set (wk_frames w). fr_permit (snd p) = None
        | Some c \<Rightarrow> admission_inv c \<and> owned (map_of (wk_frames w)) (map_of (adm_permits c)))"

text \<open>The part of the worker the invariant reads.\<close>

definition same_books :: "worker \<Rightarrow> worker \<Rightarrow> bool" where
  "same_books w w' \<longleftrightarrow> wk_frames w' = wk_frames w \<and> wk_nextFrame w' = wk_nextFrame w \<and> wk_activeTasks w' = wk_activeTasks w
     \<and> wk_capacity w' = wk_capacity w \<and> wk_admission w' = wk_admission w"

lemma same_books_balanced: "same_books w w' \<Longrightarrow> balanced w' = balanced w"
  by (simp add: same_books_def balanced_def cong: option.case_cong)

lemma same_booksD: "same_books w w' \<Longrightarrow> wk_capacity w' = wk_capacity w"
  by (simp add: same_books_def)

lemma same_books_trans: "same_books a b \<Longrightarrow> same_books b c \<Longrightarrow> same_books a c"
  by (simp add: same_books_def)

lemma same_books_queue [simp]: "same_books w (w\<lparr>wk_queue := q\<rparr>)" "same_books w (w\<lparr>wk_retryTimers := m\<rparr>)" "same_books w w"
  by (simp_all add: same_books_def)

lemma count_books: "same_books w (count_metric now m t d w)" by (simp add: same_books_def count_metric_def)

lemma heartbeats_books: "same_books w (heartbeats now down w)" by (simp add: same_books_def heartbeats_def)

lemma schedule_books: "same_books w (scheduleRecovery t k d w)"
  by (simp add: same_books_def scheduleRecovery_def Let_def)

lemma requeue_books: "same_books w (requeueTask ot t w)"
  by (auto simp: requeueTask_def same_books_def schedule_books[unfolded same_books_def] split: prod.split sum.split)

lemma runRecovery_books: "same_books w (runRecovery now ot r w)"
  by (auto simp: runRecovery_def Let_def same_books_def schedule_books[unfolded same_books_def] split: prod.split sum.split)

lemma settleSuccess_books: "same_books w (settleSuccess now ot start t res w)"
  by (auto simp: settleSuccess_def Let_def same_books_def schedule_books[unfolded same_books_def] split: prod.split sum.split)

lemma settleFailure_books: "same_books w (settleFailure now ot start t e w)"
  by (auto simp: settleFailure_def Let_def same_books_def schedule_books[unfolded same_books_def]
      requeue_books[unfolded same_books_def] split: prod.split sum.split)

lemma fireTimer_books: "same_books w (fireTimer now ot i w)"
proof -
  have "same_books w (runRecovery now ot r (w\<lparr>wk_retryTimers := m\<rparr>))" for r m
    using same_books_trans[OF _ runRecovery_books] by simp
  then show ?thesis by (simp add: fireTimer_def split: option.split)
qed

subsection \<open>Every step keeps it\<close>

text \<open>The invariant over its parts.\<close>

definition books :: "(nat, frame) jmap \<Rightarrow> nat \<Rightarrow> int \<Rightarrow> int \<Rightarrow> controller option \<Rightarrow> bool" where
  "books fs n act capacity adm \<longleftrightarrow> jwf fs \<and> (\<forall>i \<in> set (jkeys fs). i < n) \<and> act = int (length fs) \<and> act \<le> capacity
     \<and> (\<forall>i f. map_of fs i = Some f \<longrightarrow> fr_started f \<or> fr_permit f = None)
     \<and> (case adm of None \<Rightarrow> \<forall>i f. map_of fs i = Some f \<longrightarrow> fr_permit f = None
        | Some c \<Rightarrow> admission_inv c \<and> owned (map_of fs) (map_of (adm_permits c)))"

lemma frames_all: "jwf fs \<Longrightarrow> (\<forall>p \<in> set fs. P (snd p)) \<longleftrightarrow> (\<forall>i f. map_of fs i = Some f \<longrightarrow> P f)"
  by force

lemma balanced_books: "balanced w \<longleftrightarrow> books (wk_frames w) (wk_nextFrame w) (wk_activeTasks w) (wk_capacity w) (wk_admission w)"
  unfolding balanced_def books_def
  using frames_all[of "wk_frames w" "\<lambda>f. fr_started f \<or> fr_permit f = None"] frames_all[of "wk_frames w" "\<lambda>f. fr_permit f = None"]
  by (cases "jwf (wk_frames w)"; cases "wk_admission w") simp_all

lemma books_claim:
  assumes "books fs n a cap adm" "a < cap" "fr_permit f = None"
  shows "books (jset fs n f) (Suc n) (a + 1) cap adm"
proof -
  have none: "map_of fs n = None" using assms(1) by (auto simp: books_def map_of_eq_None_iff)
  have upd: "map_of (jset fs n f) = (map_of fs)(n \<mapsto> f)" by (simp add: fun_eq_iff jset_apply)
  have "case adm of None \<Rightarrow> \<forall>i g. map_of (jset fs n f) i = Some g \<longrightarrow> fr_permit g = None
      | Some c \<Rightarrow> admission_inv c \<and> owned (map_of (jset fs n f)) (map_of (adm_permits c))"
    using assms none owned_plain[of "map_of fs" _ n f] by (cases adm) (auto simp: books_def upd simp del: map_of_eq_Some_iff split: if_splits)
  moreover have "\<forall>i g. map_of (jset fs n f) i = Some g \<longrightarrow> fr_started g \<or> fr_permit g = None"
    using assms by (auto simp: books_def upd simp del: map_of_eq_Some_iff split: if_splits)
  moreover have "jwf (jset fs n f)" "\<forall>i \<in> set (jkeys (jset fs n f)). i < Suc n" "length (jset fs n f) = Suc (length fs)"
    using assms(1) none by (auto simp: books_def jset_fresh less_Suc_eq)
  ultimately show ?thesis using assms unfolding books_def by simp
qed

lemma books_leave:
  assumes "books fs n a cap adm" "map_of fs i = Some f"
    and "adm' = (case (fr_permit f, adm) of (Some tok, Some c) \<Rightarrow> Some (release tok c) | _ \<Rightarrow> adm)"
  shows "books (jdel fs i) n (a - 1) cap adm'"
proof -
  have upd: "map_of (jdel fs i) = (map_of fs)(i := None)" by (simp add: fun_eq_iff jdel_apply)
  have "0 < length fs" using assms(2) by (cases fs) auto
  then have "length (jdel fs i) = length fs - 1" "int (length fs - 1) = int (length fs) - 1"
    using assms by (simp_all add: books_def jdel_length of_nat_diff Suc_leI del: map_of_eq_Some_iff)
  moreover have "jwf (jdel fs i)" "\<forall>j \<in> set (jkeys (jdel fs i)). j < n" using assms(1) by (auto simp: books_def)
  moreover have "\<forall>j g. map_of (jdel fs i) j = Some g \<longrightarrow> fr_started g \<or> fr_permit g = None"
    using assms(1) by (auto simp: books_def upd simp del: map_of_eq_Some_iff)
  moreover have "case adm' of None \<Rightarrow> \<forall>j g. map_of (jdel fs i) j = Some g \<longrightarrow> fr_permit g = None
      | Some c \<Rightarrow> admission_inv c \<and> owned (map_of (jdel fs i)) (map_of (adm_permits c))"
  proof (cases adm)
    case None
    then show ?thesis using assms by (auto simp: books_def upd simp del: map_of_eq_Some_iff split: option.split)
  next
    case (Some c)
    then have c: "admission_inv c" "owned (map_of fs) (map_of (adm_permits c))" using assms(1) by (simp_all add: books_def)
    show ?thesis
    proof (cases "fr_permit f")
      case None
      then show ?thesis using owned_leave[OF c(2) assms(2)] c(1) Some assms(3) by (simp add: upd)
    next
      fix tok assume tok: "fr_permit f = Some tok"
      have "owned ((map_of fs)(i := None)) ((map_of (adm_permits c))(tok := None))" using owned_leave[OF c(2) assms(2)] unfolding tok option.case .
      then show ?thesis using release_inv[OF c(1), of tok] Some assms(3) tok by (simp only: upd release_permits option.case prod.case simp_thms)
    qed
  qed
  ultimately show ?thesis using assms(1) unfolding books_def by simp
qed

lemma books_start:
  assumes "books fs n a cap adm" "map_of fs i = Some f" "fr_permit f = None" "fr_started g"
    and "adm = None \<and> adm' = None \<and> fr_permit g = None
      \<or> (\<exists>c c'. adm = Some c \<and> adm' = Some c' \<and> admission_inv c'
          \<and> (fr_permit g = None \<and> map_of (adm_permits c') = map_of (adm_permits c)
             \<or> (\<exists>tok r. fr_permit g = Some tok \<and> map_of (adm_permits c) tok = None \<and> map_of (adm_permits c') = (map_of (adm_permits c))(tok \<mapsto> r))))"
  shows "books (jset fs i g) n a cap adm'"
proof -
  have upd: "map_of (jset fs i g) = (map_of fs)(i \<mapsto> g)" by (simp add: fun_eq_iff jset_apply)
  have "i \<in> set (jkeys fs)" using assms(2) map_of_SomeD[of fs i f] by (metis fst_conv image_eqI list.set_map)
  then have "jwf (jset fs i g)" "\<forall>j \<in> set (jkeys (jset fs i g)). j < n" "length (jset fs i g) = length fs"
    using assms(1,2) by (auto simp: books_def jset_keys jset_length simp del: map_of_eq_Some_iff)
  moreover have "\<forall>j h. map_of (jset fs i g) j = Some h \<longrightarrow> fr_started h \<or> fr_permit h = None"
    using assms(1,4) by (auto simp: books_def upd simp del: map_of_eq_Some_iff split: if_splits)
  moreover have "case adm' of None \<Rightarrow> \<forall>j h. map_of (jset fs i g) j = Some h \<longrightarrow> fr_permit h = None
      | Some c \<Rightarrow> admission_inv c \<and> owned (map_of (jset fs i g)) (map_of (adm_permits c))"
  proof (cases adm)
    case None
    then show ?thesis using assms(1,5) by (auto simp: books_def upd simp del: map_of_eq_Some_iff split: if_splits)
  next
    case (Some c)
    then obtain c' where c': "adm' = Some c'" "admission_inv c'"
      "fr_permit g = None \<and> map_of (adm_permits c') = map_of (adm_permits c)
             \<or> (\<exists>tok r. fr_permit g = Some tok \<and> map_of (adm_permits c) tok = None \<and> map_of (adm_permits c') = (map_of (adm_permits c))(tok \<mapsto> r))"
      using assms(5) by auto
    have own: "owned (map_of fs) (map_of (adm_permits c))" using assms(1) Some by (simp add: books_def)
    from c'(3) have "owned ((map_of fs)(i \<mapsto> g)) (map_of (adm_permits c'))"
      using owned_plain[OF own, of i g] owned_grant[OF own assms(2,3)] assms(2,3) by metis
    then show ?thesis using c' upd by simp
  qed
  ultimately show ?thesis using assms(1) unfolding books_def by simp
qed

lemma leaveTask_fields:
  "wk_frames (leaveTask now ot i f w) = jdel (wk_frames w) i" "wk_nextFrame (leaveTask now ot i f w) = wk_nextFrame w"
  "wk_activeTasks (leaveTask now ot i f w) = wk_activeTasks w - 1" "wk_capacity (leaveTask now ot i f w) = wk_capacity w"
  "wk_admission (leaveTask now ot i f w) = (case (fr_permit f, wk_admission w) of (Some tok, Some c) \<Rightarrow> Some (release tok c) | _ \<Rightarrow> wk_admission w)"
  by (cases "fr_permit f"; cases "wk_admission w"; simp add: leaveTask_def Let_def heartbeats_def count_metric_def)+

lemma leave_balanced:
  assumes "balanced w" "map_of (wk_frames w) i = Some f0" "fr_permit f = fr_permit f0"
  shows "balanced (leaveTask now ot i f w)"
  using books_leave[OF _ assms(2) refl] assms(1) unfolding balanced_books leaveTask_fields assms(3) by blast

lemma leave_after:
  assumes "same_books w w'" "balanced w" "map_of (wk_frames w) i = Some f0" "fr_permit f = fr_permit f0"
  shows "balanced (leaveTask now ot i f w')"
  using leave_balanced[of w' i f0 f] assms same_books_balanced[OF assms(1)] unfolding same_books_def by simp

lemma endTask_balanced:
  assumes "balanced w"
  shows "balanced (endTask now a ot i w)"
proof (cases "map_of (wk_frames w) i")
  case (Some f)
  then show ?thesis
    using assms leave_after[OF settleSuccess_books assms Some refl] leave_after[OF settleFailure_books assms Some refl]
    by (simp add: endTask_def split: sum.split prod.split)
qed (simp add: endTask_def assms)

text \<open>The controller's turn.\<close>

lemma admitTask_books:
  assumes "admitTask now tok clk t d w = (res, w1)"
  shows "wk_frames w1 = wk_frames w" "wk_nextFrame w1 = wk_nextFrame w" "wk_activeTasks w1 = wk_activeTasks w"
    "wk_capacity w1 = wk_capacity w"
  using assms by (auto simp: admitTask_def count_metric_def split: option.splits prod.splits sum.splits admission_result.splits)

lemma admitTask_admission:
  assumes "admitTask now tok clk t d w = (res, w1)"
    and "\<forall>c. wk_admission w = Some c \<longrightarrow> admission_inv c \<and> map_of (adm_permits c) tok = None"
  shows "wk_admission w = None \<and> wk_admission w1 = None \<and> res = Inr None
    \<or> (\<exists>c c'. wk_admission w = Some c \<and> wk_admission w1 = Some c' \<and> admission_inv c'
        \<and> ((\<exists>e. res = Inl e) \<and> map_of (adm_permits c') = map_of (adm_permits c)
           \<or> (\<exists>r. res = Inr (Some tok) \<and> map_of (adm_permits c') = (map_of (adm_permits c))(tok \<mapsto> r))))"
proof (cases "wk_admission w")
  case None
  then show ?thesis using assms(1) by (simp add: admitTask_def)
next
  case (Some c)
  define rq where "rq = \<lparr>ar_tenantId = t_tenantId t, ar_accountId = or_else (t_profileId t) (t_accountGroup t) ''default'',
              ar_domainKey = d, ar_proxyId = or_else (t_proxyId t) None ''default''\<rparr>"
  obtain r c' where a: "acquire tok clk rq c = (r, c')" by fastforce
  have c: "admission_inv c" "map_of (adm_permits c) tok = None" using assms(2) Some by simp_all
  have inv: "admission_inv c'" using acquire_inv[OF c, of clk rq] a by simp
  have d: "admitTask now tok clk t d w = (case r of
       Inl _ \<Rightarrow> (Inl (plain_error ''admission''), w\<lparr>wk_admission := Some c'\<rparr>)
     | Inr (Denied reason ms) \<Rightarrow> (Inl (plain_error ''Admission rejected''), count_metric now AdmissionRejection t d (w\<lparr>wk_admission := Some c'\<rparr>))
     | Inr (Allowed permit) \<Rightarrow> (Inr (Some permit), w\<lparr>wk_admission := Some c'\<rparr>))"
    unfolding admitTask_def Some option.case rq_def[symmetric] a prod.case by (simp split: sum.split admission_result.split)
  have adm: "wk_admission w1 = Some c'" and err: "(\<forall>p. r \<noteq> Inr (Allowed p)) \<longrightarrow> (\<exists>e. res = Inl e)" and good: "r = Inr (Allowed tok) \<longrightarrow> res = Inr (Some tok)"
    using assms(1) unfolding d by (auto simp: count_metric_def split: sum.splits admission_result.splits)
  have "(\<exists>x. r = Inr (Allowed tok) \<and> adm_permits c' = jset (adm_permits c) tok x) \<or> (\<forall>p. r \<noteq> Inr (Allowed p)) \<and> adm_permits c' = adm_permits c"
    using acquire_permits[of tok clk rq c] a by simp
  then have "(\<exists>e. res = Inl e) \<and> map_of (adm_permits c') = map_of (adm_permits c)
           \<or> (\<exists>r. res = Inr (Some tok) \<and> map_of (adm_permits c') = (map_of (adm_permits c))(tok \<mapsto> r))"
    using err good by (auto simp: fun_eq_iff jset_apply)
  then show ?thesis using Some adm inv by blast
qed

definition fresh_token :: "string \<Rightarrow> worker \<Rightarrow> bool" where
  "fresh_token tok w \<longleftrightarrow> (case wk_admission w of None \<Rightarrow> True | Some c \<Rightarrow> map_of (adm_permits c) tok = None)"

lemma books_controller:
  assumes "books fs n a cap (Some c)" "admission_inv c'" "map_of (adm_permits c') = map_of (adm_permits c)"
  shows "books fs n a cap (Some c')"
  using assms unfolding books_def by simp

lemma startTask_balanced:
  assumes w: "balanced w" and tok: "fresh_token tok w"
  shows "balanced (startTask now host tok clk ot i w)"
proof (cases "map_of (wk_frames w) i")
  case None
  then show ?thesis by (simp add: startTask_def w)
next
  case (Some f)
  note bk = w[unfolded balanced_books]
  consider (started) "fr_started f" | (stale) e where "\<not> fr_started f" "assertCurrentAccountPlacement (fr_task f) w = Inl e"
    | (current) "\<not> fr_started f" "assertCurrentAccountPlacement (fr_task f) w = Inr ()"
    by (cases "assertCurrentAccountPlacement (fr_task f) w") auto
  then show ?thesis
  proof cases
    case started
    then show ?thesis using Some w by (simp add: startTask_def)
  next
    case stale
    then show ?thesis using leave_after[OF settleFailure_books w Some refl] Some by (simp add: startTask_def)
  next
    case current
    then have free: "fr_permit f = None" using bk Some unfolding books_def by blast
    let ?d = "case host of Some h \<Rightarrow> h | None \<Rightarrow> ''unknown''"
    obtain res w1 where a: "admitTask (of_int now) tok clk (fr_task f) ?d w = (res, w1)" by fastforce
    note same = admitTask_books[OF a]
    have "\<forall>c. wk_admission w = Some c \<longrightarrow> admission_inv c \<and> map_of (adm_permits c) tok = None"
      using bk tok by (auto simp: books_def fresh_token_def)
    note adm = admitTask_admission[OF a this]
    show ?thesis
    proof (cases res)
      case (Inl e)
      then obtain c c' where c: "wk_admission w = Some c" "wk_admission w1 = Some c'" "admission_inv c'"
        "map_of (adm_permits c') = map_of (adm_permits c)" using adm by auto
      have w1: "balanced w1" using books_controller[OF bk[unfolded c(1)] c(3,4)] unfolding balanced_books same c(2) .
      have "startTask now host tok clk ot i w = leaveTask now ot i (f\<lparr>fr_domain := ?d\<rparr>) (settleFailure now ot (fr_start f) (fr_task f) e w1)"
        using Some current a Inl by (simp add: startTask_def Let_def)
      moreover have "map_of (wk_frames w1) i = Some f" using Some same by simp
      ultimately show ?thesis using leave_after[OF settleFailure_books w1, of i f "f\<lparr>fr_domain := ?d\<rparr>"] by simp
    next
      case (Inr permit)
      let ?g = "f\<lparr>fr_permit := permit, fr_domain := ?d, fr_started := True\<rparr>"
      have e: "startTask now host tok clk ot i w = count_metric (of_int now) Starts (fr_task f) ?d (w1\<lparr>wk_frames := jset (wk_frames w1) i ?g\<rparr>)"
        using Some current a Inr by (simp add: startTask_def Let_def)
      have "books (jset (wk_frames w) i ?g) (wk_nextFrame w) (wk_activeTasks w) (wk_capacity w) (wk_admission w1)"
        using adm Inr tok by (intro books_start[OF bk Some free]) (auto simp: fresh_token_def)
      then have "balanced (w1\<lparr>wk_frames := jset (wk_frames w1) i ?g\<rparr>)" unfolding balanced_books by (simp add: same)
      then show ?thesis unfolding e using same_books_balanced[OF count_books] by blast
    qed
  qed
qed

lemma claim_balanced:
  assumes "balanced w" "wk_activeTasks w < wk_capacity w"
  shows "balanced (snd (claimPartition now uuid down tenant w))"
proof -
  have "balanced (w\<lparr>wk_queue := q, wk_activeTasks := wk_activeTasks w + 1, wk_controllers := cs,
      wk_frames := jset (wk_frames w) (wk_nextFrame w) f, wk_nextFrame := Suc (wk_nextFrame w)\<rparr>)"
    if "fr_permit f = None" for q cs f
    using books_claim[OF _ assms(2) that] assms(1) unfolding balanced_books by simp
  moreover have "balanced (w\<lparr>wk_queue := q\<rparr>)" for q using same_books_balanced[OF same_books_queue(1)] assms(1) by blast
  ultimately show ?thesis by (simp add: claimPartition_def split: prod.split sum.split option.split)
qed

lemma claim_balanced':
  "claimPartition now uuid down tenant w = (c, w') \<Longrightarrow> balanced w \<Longrightarrow> wk_activeTasks w < wk_capacity w \<Longrightarrow> balanced w'"
  using claim_balanced by (metis snd_conv)

lemma pollOffset_balanced:
  "balanced (snd cw) \<Longrightarrow> balanced (snd (pollOffset now shards call start cw offset))"
  by (cases cw) (auto simp: pollOffset_def Let_def split: prod.split intro: claim_balanced')

lemma pollRound_balanced:
  assumes "balanced w"
  shows "balanced (snd (pollRound now shards call w))"
proof -
  have all: "balanced (snd cw) \<Longrightarrow> balanced (snd (foldl (pollOffset now shards call start) cw xs))" for cw start xs
    by (induction xs arbitrary: cw) (simp_all add: pollOffset_balanced)
  have cursor: "balanced (w'\<lparr>wk_cursor := n\<rparr>) = balanced w'" for w' n
    by (rule same_books_balanced) (simp add: same_books_def)
  show ?thesis
    using all[of "(False, w)"] assms
    by (cases "foldl (pollOffset now shards call (wk_cursor w mod (length (wk_tenants w) * shards))) (False, w)
        [0..<length (wk_tenants w) * shards]") (simp add: pollRound_def Let_def cursor, metis snd_conv)
qed

lemma startWorker_books: "same_books w (snd (startWorker now down w))"
  by (auto simp: startWorker_def same_books_def heartbeats_def)

lemma stopBegin_books: "same_books w (stopBegin w)"
  by (simp add: stopBegin_def same_books_def)

lemma renewTick_books: "same_books w (renewTick down i w)"
  by (auto simp: renewTick_def Let_def same_books_def split: option.split)

lemma stopDrain_books: "same_books w (snd (stopDrain now ots w))"
  by (simp add: stopDrain_def Let_def same_books_def split: prod.split)

text \<open>Permit tokens are fresh.\<close>

fun token_ok :: "worker \<Rightarrow> worker_event \<Rightarrow> bool" where
  "token_ok w (StartTaskW now host tok clk ot i) = fresh_token tok w"
| "token_ok w _ = True"

lemma workerStep_balanced: "balanced w \<Longrightarrow> token_ok w e \<Longrightarrow> balanced (workerStep w e)"
  using same_books_balanced[OF startWorker_books[of w]] same_books_balanced[OF stopBegin_books[of w]]
    same_books_balanced[OF renewTick_books[of w]] same_books_balanced[OF stopDrain_books[of w]]
    same_books_balanced[OF fireTimer_books[of w]] same_books_balanced[OF same_books_queue(1)[of w]]
  by (cases e) (simp_all add: pollRound_balanced startTask_balanced endTask_balanced)

inductive worker_reach :: "worker \<Rightarrow> worker \<Rightarrow> bool" for w0 where
  reach_here: "worker_reach w0 w0"
| reach_step: "worker_reach w0 w \<Longrightarrow> token_ok w e \<Longrightarrow> worker_reach w0 (workerStep w e)"

lemma worker_reach_balanced: "worker_reach w0 w \<Longrightarrow> balanced w0 \<Longrightarrow> balanced w"
  by (induction rule: worker_reach.induct) (simp_all add: workerStep_balanced)

text \<open>A worker that has not claimed anything yet.\<close>

definition idle_worker :: "worker \<Rightarrow> bool" where
  "idle_worker w \<longleftrightarrow> wk_frames w = [] \<and> wk_activeTasks w = 0 \<and> 0 \<le> wk_capacity w
     \<and> (case wk_admission w of None \<Rightarrow> True | Some c \<Rightarrow> admission_inv c \<and> adm_permits c = [])"

lemma idle_balanced: "idle_worker w \<Longrightarrow> balanced w"
  by (auto simp: idle_worker_def balanced_def owned_def split: option.splits)

lemma claimPartition_keeps:
  assumes "claimPartition now u d t v = (c, w')"
  shows "wk_admission w' = wk_admission v" "wk_capacity w' = wk_capacity v"
  using assms by (auto simp: claimPartition_def split: prod.splits sum.splits option.splits)

lemma pollOffset_keeps:
  "wk_admission (snd (pollOffset now shards call st cw off)) = wk_admission (snd cw)"
  "wk_capacity (snd (pollOffset now shards call st cw off)) = wk_capacity (snd cw)"
  by (cases cw, auto simp: pollOffset_def Let_def claimPartition_keeps split: prod.split)+

lemma pollRound_keeps:
  "wk_admission (snd (pollRound now shards call w)) = wk_admission w" "wk_capacity (snd (pollRound now shards call w)) = wk_capacity w"
proof -
  have all: "wk_admission (snd (foldl (pollOffset now shards call st) cw xs)) = wk_admission (snd cw)"
    "wk_capacity (snd (foldl (pollOffset now shards call st) cw xs)) = wk_capacity (snd cw)" for st cw xs
    by (induction xs arbitrary: cw) (simp_all add: pollOffset_keeps)
  let ?r = "foldl (pollOffset now shards call (wk_cursor w mod (length (wk_tenants w) * shards))) (False, w)
        [0..<length (wk_tenants w) * shards]"
  obtain c w' where r: "?r = (c, w')" by fastforce
  have "wk_admission w' = wk_admission w" "wk_capacity w' = wk_capacity w"
    using all[of "wk_cursor w mod (length (wk_tenants w) * shards)" "(False, w)" "[0..<length (wk_tenants w) * shards]"] r by simp_all
  then show "wk_admission (snd (pollRound now shards call w)) = wk_admission w" "wk_capacity (snd (pollRound now shards call w)) = wk_capacity w"
    unfolding pollRound_def Let_def r by simp_all
qed

lemma settle_capacity [simp]:
  "wk_capacity (settleSuccess now ot start t res w) = wk_capacity w" "wk_capacity (settleFailure now ot start t e w) = wk_capacity w"
  using settleSuccess_books[of w now ot start t res] settleFailure_books[of w now ot start t e] by (simp_all add: same_books_def)

lemma workerStep_capacity: "wk_capacity (workerStep w e) = wk_capacity w"
proof (cases e)
  case (StartTaskW now host tok clk ot i)
  have "wk_capacity (startTask now host tok clk ot i w) = wk_capacity w"
    by (auto simp: startTask_def Let_def leaveTask_fields count_metric_def admitTask_books split: option.split sum.split prod.split)
  then show ?thesis using StartTaskW by simp
next
  case (EndTaskW now a ot i)
  then show ?thesis by (simp add: endTask_def leaveTask_fields split: option.split sum.split prod.split)
qed (use same_booksD in \<open>simp_all add: pollRound_keeps startWorker_books stopBegin_books renewTick_books stopDrain_books fireTimer_books\<close>)

lemma worker_reach_capacity: "worker_reach w0 w \<Longrightarrow> wk_capacity w = wk_capacity w0"
  by (induction rule: worker_reach.induct) (simp_all add: workerStep_capacity)

lemma newWorker_idle:
  assumes "newWorker host suffix8 cpus q opts = Inr w"
    and "wo_admission opts = None \<or> (\<exists>t a d p b r m c. newAdmission t a d p b r m = Inr c \<and> wo_admission opts = Some c)"
  shows "idle_worker w"
proof -
  have "adm_permits c = []" if "newAdmission t a d p b r m = Inr c" for t a d p b r m c
    using that by (auto simp: newAdmission_def Let_def split: if_splits jsnum.splits jsreal.splits)
  then show ?thesis using newWorker_fields[OF assms(1)] assms(2) newAdmission_inv
    by (auto simp: idle_worker_def split: option.split)
qed

text \<open>
  C19: The worker's books balance. From a worker the constructor built, with a new admission controller or none,
  after any sequence of claims, starts, ends (with any answer
  of fetcher and browser, with the queue out of reach at any call), refusals, renewals, recovery timers, start and
  stop: the counter of active tasks is the number of tasks in execution and does not exceed the capacity, at most 32; a permit
  is live exactly if a task in execution holds it, no two tasks hold the same one, a tenant's admission counter is
  the number of its live permits and keeps to the limit; with no task in execution no permit is left.
\<close>

theorem worker_balanced:
  assumes "newWorker host suffix8 cpus q opts = Inr w0" "worker_reach w0 w"
    and "wo_admission opts = None \<or> (\<exists>t a d p b r m c. newAdmission t a d p b r m = Inr c \<and> wo_admission opts = Some c)"
  shows "wk_activeTasks w = int (length (wk_frames w)) \<and> wk_activeTasks w \<le> wk_capacity w \<and> wk_capacity w \<le> 32
    \<and> (\<forall>c. wk_admission w = Some c \<longrightarrow>
         (\<forall>tok. map_of (adm_permits c) tok \<noteq> None \<longleftrightarrow> (\<exists>i f. map_of (wk_frames w) i = Some f \<and> fr_permit f = Some tok))
         \<and> (\<forall>i j f g. map_of (wk_frames w) i = Some f \<longrightarrow> map_of (wk_frames w) j = Some g \<longrightarrow> fr_permit f \<noteq> None
              \<longrightarrow> fr_permit f = fr_permit g \<longrightarrow> i = j)
         \<and> (\<forall>tenant. active (adm_tenants c) tenant = int (holders ar_tenantId (adm_permits c) tenant)
              \<and> active (adm_tenants c) tenant \<le> lim_tenant (adm_limits c))
         \<and> (wk_frames w = [] \<longrightarrow> adm_permits c = []))"
proof -
  note b = worker_reach_balanced[OF assms(2) idle_balanced[OF newWorker_idle[OF assms(1,3)]]]
  have cap: "wk_capacity w \<le> 32" using newWorker_fields(3)[OF assms(1)] worker_reach_capacity[OF assms(2)] by simp
  have "(\<forall>tok. map_of (adm_permits c) tok \<noteq> None \<longleftrightarrow> (\<exists>i f. map_of (wk_frames w) i = Some f \<and> fr_permit f = Some tok))
         \<and> (\<forall>i j f g. map_of (wk_frames w) i = Some f \<longrightarrow> map_of (wk_frames w) j = Some g \<longrightarrow> fr_permit f \<noteq> None
              \<longrightarrow> fr_permit f = fr_permit g \<longrightarrow> i = j)
         \<and> (\<forall>tenant. active (adm_tenants c) tenant = int (holders ar_tenantId (adm_permits c) tenant)
              \<and> active (adm_tenants c) tenant \<le> lim_tenant (adm_limits c))
         \<and> (wk_frames w = [] \<longrightarrow> adm_permits c = [])" if "wk_admission w = Some c" for c
  proof -
    have c: "admission_inv c" "owned (map_of (wk_frames w)) (map_of (adm_permits c))" using b that by (simp_all add: balanced_def)
    have "\<forall>tenant. active (adm_tenants c) tenant = int (holders ar_tenantId (adm_permits c) tenant)
        \<and> active (adm_tenants c) tenant \<le> lim_tenant (adm_limits c)"
      using c(1) dimension_facts[of ar_tenantId "adm_tenants c" _ "adm_permits c"] unfolding admission_inv_def by blast
    moreover have "adm_permits c = []" if "wk_frames w = []"
    proof -
      have "map_of (adm_permits c) tok = None" for tok using owned_iff[OF c(2), of tok] that by simp
      then show ?thesis by (metis list.exhaust map_of_eq_empty_iff)
    qed
    moreover have "i = j" if pr: "map_of (wk_frames w) i = Some f" "map_of (wk_frames w) j = Some g" "fr_permit f \<noteq> None" "fr_permit f = fr_permit g"
      for i j f g
    proof -
      obtain tok where t: "fr_permit f = Some tok" "fr_permit g = Some tok" using pr(3,4) by (cases "fr_permit f") auto
      show ?thesis by (rule owned_unique[OF c(2) pr(1,2) t])
    qed
    ultimately show ?thesis using owned_iff[OF c(2)] by blast
  qed
  moreover have "wk_activeTasks w = int (length (wk_frames w))" "wk_activeTasks w \<le> wk_capacity w" using b by (simp_all add: balanced_def)
  ultimately show ?thesis using cap by blast
qed

definition sample_options :: "controller option \<Rightarrow> worker_options" where
  "sample_options adm = \<lparr>wo_workerId = Some ''w1'', wo_hostname = None, wo_concurrency = Some (Fin 2), wo_tenants = Some [''t1'', ''t1''],
     wo_namespace = None, wo_hasPolicy = True, wo_hasSessions = False, wo_store = None, wo_admission = adm, wo_metrics = None\<rparr>"

theorem worker_balanced_witness:
  "\<exists>c w0. newAdmission (IntN 1) (IntN 1) (IntN 1) (IntN 1) (Fin 5) (Fin 1) (IntN 10) = Inr c
     \<and> newWorker ''host'' ''00000000'' 4 one_task_queue (sample_options (Some c)) = Inr w0 \<and> wk_tenants w0 = [''t1'']
     \<and> (let w = foldl workerStep w0 [StartW 4 False, PollW 5 1 (\<lambda>_. (''l1'', False)), StartTaskW 6 (Some ''h'') ''p1'' (Fin 6) all_up 0]
        in wk_activeTasks w = int (length (wk_frames w)) \<and> wk_activeTasks w \<le> wk_capacity w \<and> wk_capacity w \<le> 32)"
proof -
  obtain c where c: "newAdmission (IntN 1) (IntN 1) (IntN 1) (IntN 1) (Fin 5) (Fin 1) (IntN 10) = Inr c" "adm_permits c = []"
    using that by (simp add: newAdmission_def MAX_SAFE_def)
  have n: "case newWorker ''host'' ''00000000'' 4 one_task_queue (sample_options None) of Inl _ \<Rightarrow> False | Inr w \<Rightarrow> wk_tenants w = [''t1'']"
    by code_simp
  have "newWorker ''host'' ''00000000'' 4 one_task_queue (sample_options (Some c))
      = bindR (newWorker ''host'' ''00000000'' 4 one_task_queue (sample_options None)) (\<lambda>w. Inr (w\<lparr>wk_admission := Some c\<rparr>))"
    by (simp add: newWorker_def sample_options_def Let_def bindR_def split: option.split sum.split)
  then obtain w0 where w0: "newWorker ''host'' ''00000000'' 4 one_task_queue (sample_options (Some c)) = Inr w0" "wk_tenants w0 = [''t1'']"
    using n by (auto split: sum.splits)
  let ?w1 = "workerStep w0 (StartW 4 False)"
  let ?w2 = "workerStep ?w1 (PollW 5 1 (\<lambda>_. (''l1'', False)))"
  have r: "worker_reach w0 ?w2" by (intro worker_reach.reach_step worker_reach.reach_here) simp_all
  have "wk_admission ?w1 = Some c" using newWorker_fields(4)[OF w0(1)] startWorker_books[of w0 4 False]
    by (simp add: same_books_def sample_options_def)
  then have "token_ok ?w2 (StartTaskW 6 (Some ''h'') ''p1'' (Fin 6) all_up 0)"
    using c(2) by (simp add: fresh_token_def pollRound_keeps)
  note reach = worker_reach.reach_step[OF r this]
  have "wo_admission (sample_options (Some c)) = None
      \<or> (\<exists>t a d p b r m c'. newAdmission t a d p b r m = Inr c' \<and> wo_admission (sample_options (Some c)) = Some c')"
    by (intro disjI2 exI conjI, rule c(1)) (simp add: sample_options_def)
  note books = worker_balanced[OF w0(1) reach this]
  have e: "foldl workerStep w0 [StartW 4 False, PollW 5 1 (\<lambda>_. (''l1'', False)), StartTaskW 6 (Some ''h'') ''p1'' (Fin 6) all_up 0]
      = workerStep ?w2 (StartTaskW 6 (Some ''h'') ''p1'' (Fin 6) all_up 0)" by (simp only: foldl.simps)
  show ?thesis
  proof (intro exI[of _ c] exI[of _ w0] conjI c(1) w0)
    show "let w = foldl workerStep w0 [StartW 4 False, PollW 5 1 (\<lambda>_. (''l1'', False)), StartTaskW 6 (Some ''h'') ''p1'' (Fin 6) all_up 0]
        in wk_activeTasks w = int (length (wk_frames w)) \<and> wk_activeTasks w \<le> wk_capacity w \<and> wk_capacity w \<le> 32"
      unfolding Let_def e by (intro conjI) (rule books[THEN conjunct1] books[THEN conjunct2, THEN conjunct1]
          books[THEN conjunct2, THEN conjunct2, THEN conjunct1])+
  qed
qed

end
