(* ===== verification/Spec2Isabelle.thy ===== *)
theory Spec2Isabelle
  imports AtomicFile Health ProfileLease ControlLease TaskQueue Placement Scheduler UrlPolicy Admission RuntimeGuard BrowserPool TargetRegistry ProxyPool Checkpoints WorkflowCache SnapshotHistory AccountMetrics WorkerDaemon WorkerBalance
begin

text \<open>
  Browser Profile Studio is a control plane for isolated browser profiles. Agents reach it over
  MCP and HTTP; it launches one browser per profile, hands pages between an agent and a human,
  shows pages to the agent as compact snapshots, runs bounded workflows on them, and distributes
  tasks over workers. This development models the decisions of that program: everything that is
  computed from the program's own state, translated from the TypeScript under \<open>src/src/\<close>.

  \<^bold>\<open>How the parts interact.\<close> The scheduler accepts a task after the URL policy approved its
  target, claims the URL in the queue adapter and enqueues it. A worker dequeues it under a lease
  that it renews; account placement pins the account of the task to a worker, the admission
  controller bounds how often and how many times at once the account acts, and account health
  decides whether it may act at all. The worker holds the profile lease while the browser of the
  profile runs. Inside a session the control lease says whether the agent or a human may write; the
  target registry gives opaque references to elements that the agent saw in a semantic snapshot; a
  workflow is a short list of steps over such references. The browser pool is the registry of
  running instances for the control plane. Files are written by the atomic writer.

  \<^bold>\<open>Theories and the code they model.\<close>
  \<^item> \<open>Prelude\<close>: insertion-ordered maps (\<open>jset\<close>, \<open>jdel\<close>), numbers and JSON of JavaScript, throwing
    operations (\<open>andthen\<close>), the locales \<open>machine\<close> (an invariant of one step holds after every
    run) and \<open>versioned_store\<close> (fencing of a compare-and-set); \<open>JsText\<close> and \<open>Utf8Text\<close>: the
    string operations of JavaScript that the code uses, UTF-8 and its truncation
    (\<open>semantic-snapshot.ts\<close>, \<open>truncateUtf8\<close>).
  \<^item> \<open>AtomicFile\<close>: \<open>storage/atomic-file.ts\<close> as the list of its file-system effects, so that a
    crash is a prefix of that list.
  \<^item> \<open>Health\<close>: \<open>account/account-health.ts\<close> and its store. \<open>ProfileLease\<close>:
    \<open>distributed/profile-lease.ts\<close>, a world of several managers and their timers.
    \<open>ControlLease\<close>: \<open>browser/control-lease.ts\<close>, the hand-off state machine with its tokens.
  \<^item> \<open>TaskTypes\<close>, \<open>TaskQueue\<close>, \<open>Scheduler\<close>, \<open>Placement\<close>: \<open>distributed/types.ts\<close>, \<open>tenant.ts\<close>,
    \<open>queue-adapter.ts\<close>, \<open>scheduler.ts\<close>, \<open>account-placement.ts\<close>.
  \<^item> \<open>UrlPolicy\<close>: \<open>policy/url-policy.ts\<close> (address classes, host lists, the resolution cache).
    \<open>TokenBucket\<close>, \<open>Admission\<close>, \<open>RuntimeGuard\<close>: \<open>operations/account-admission.ts\<close> and
    \<open>mcp/runtime-guard.ts\<close>, which share the refill arithmetic through the locale \<open>rate_limiter\<close>.
  \<^item> \<open>BrowserPool\<close>: \<open>control-plane/browser-pool.ts\<close>, each asynchronous operation split at its
    awaits so that interleavings are sequences of steps.
  \<^item> \<open>SemanticSnapshot\<close>, \<open>TargetRegistry\<close>: \<open>browser/semantic-snapshot.ts\<close>,
    \<open>browser/target-registry.ts\<close>. \<open>Vault\<close>, \<open>ProxyPool\<close>: \<open>security/secret-vault.ts\<close>,
    \<open>proxy/pool-store.ts\<close>, \<open>validator.ts\<close>. \<open>Checkpoints\<close>: \<open>profile/versioned-checkpoint-store.ts\<close>.

  \<^bold>\<open>State and effects.\<close> A class is a \<open>record\<close> of its private fields; a method is a function from
  arguments and state to \<open>error + result\<close> and the state it leaves, so that a mutation made before a
  throw is visible. Time, random bytes and digests are arguments. An asynchronous method is split
  at its awaits when another call can run there and it matters.

  \<^bold>\<open>What the lemmas show.\<close> For each component: the invariant of its state and that every
  operation keeps it; the result of every branch, errors included; and the promise to its
  clients: no lost write after a crash, fencing of stale tokens and stale versions, at most one
  owner until expiry, no write of an agent without release, queue order and all-or-nothing claims,
  placement that does not depend on the order of workers, addresses that pass the policy
  only if all answers do, rate and concurrency bounds over every run, references that resolve only
  for the document that was seen, and bounds on everything shown to an agent.

  \<^bold>\<open>Bounds and fuel.\<close> The loops of the code are structural recursions over the lists they walk or
  functions with a termination proof; there is no fuel except in \<open>BrowserPool.first_free\<close>, which
  is given one more step than there are instances: the candidates are distinct, so one of them is
  free. Floating-point rates are exact rationals in \<open>Admission\<close> and \<open>RuntimeGuard\<close>.
\<close>

end
